(* ===== verification/Prelude.thy ===== *)
theory Prelude
  imports "HOL-Library.Word" "HOL-Library.Monad_Syntax" "HOL-Library.Signed_Division"
begin

text \<open>
  Shared vocabulary of the development: machine integers at their C width, the byte
  addressed memory, little-endian 32-bit loads and stores, bounds-checked C arrays,
  signed C arithmetic, and the lemma collections the component theories build on.

  Conventions used everywhere:
  \<^item> \<open>uint8_t\<close>, \<open>uint16_t\<close>, \<open>uint32_t\<close> and pointers are words; an \<open>int32_t\<close> that is only
    stored or whose overflow matters is a \<open>32 word\<close> read with \<open>sint\<close>; a small C \<open>int\<close>
    (a flag, a column, an index) is an \<open>int\<close> or a \<open>nat\<close>.
  \<^item> \<open>None\<close> is a run that does not return normally: an access outside a C array, a page
    fault, a call through a wild function pointer, or a loop that never ends.
\<close>

unbundle bit_operations_syntax

section \<open>Machine integers and memory\<close>

type_synonym u8 = "8 word"
type_synonym u16 = "16 word"
type_synonym u32 = "32 word"
type_synonym i32 = "32 word"

text \<open>The memory the kernel sees through the current page tables.\<close>

type_synonym mem = "u32 \<Rightarrow> u8"

named_theorems mem_simps \<open>loads and stores at known distances\<close>
named_theorems frame_simps \<open>what an operation leaves unchanged\<close>
named_theorems wf_intros \<open>operations keep the well-formedness of the state\<close>

definition ld32 :: "mem \<Rightarrow> u32 \<Rightarrow> u32" where
  "ld32 m a = ucast (m a) OR push_bit 8 (ucast (m (a + 1)))
     OR push_bit 16 (ucast (m (a + 2))) OR push_bit 24 (ucast (m (a + 3)))"

definition st32 :: "mem \<Rightarrow> u32 \<Rightarrow> u32 \<Rightarrow> mem" where
  "st32 m a w = m(a := ucast w, a + 1 := ucast (drop_bit 8 w),
     a + 2 := ucast (drop_bit 16 w), a + 3 := ucast (drop_bit 24 w))"

definition ld16 :: "mem \<Rightarrow> u32 \<Rightarrow> u16" where
  "ld16 m a = ucast (m a) OR push_bit 8 (ucast (m (a + 1)))"

definition st16 :: "mem \<Rightarrow> u32 \<Rightarrow> u16 \<Rightarrow> mem" where
  "st16 m a w = m(a := ucast w, a + 1 := ucast (drop_bit 8 w))"

text \<open>\<open>within p n a\<close>: address \<open>a\<close> is one of the \<open>n\<close> bytes from \<open>p\<close> on.\<close>

definition within :: "u32 \<Rightarrow> nat \<Rightarrow> u32 \<Rightarrow> bool" where
  "within p n a \<longleftrightarrow> unat (a - p) < n"

definition bytes_at :: "mem \<Rightarrow> u32 \<Rightarrow> nat \<Rightarrow> u8 list" where
  "bytes_at m p n = map (\<lambda>i. m (p + of_nat i)) [0..<n]"

section \<open>C arrays with their bounds\<close>

definition aget :: "'a list \<Rightarrow> nat \<Rightarrow> 'a option" where
  "aget xs i = (if i < length xs then Some (xs ! i) else None)"

definition aset :: "'a list \<Rightarrow> nat \<Rightarrow> 'a \<Rightarrow> 'a list option" where
  "aset xs i v = (if i < length xs then Some (xs[i := v]) else None)"

lemma aget_Some [simp]: "i < length xs \<Longrightarrow> aget xs i = Some (xs ! i)"
  by (simp add: aget_def)

lemma aset_Some [simp]: "i < length xs \<Longrightarrow> aset xs i v = Some (xs[i := v])"
  by (simp add: aset_def)

lemma aget_None [simp]: "length xs \<le> i \<Longrightarrow> aget xs i = None"
  by (simp add: aget_def)

lemma aset_None [simp]: "length xs \<le> i \<Longrightarrow> aset xs i v = None"
  by (simp add: aset_def)

lemma aset_length: "aset xs i v = Some ys \<Longrightarrow> length ys = length xs"
  by (auto simp: aset_def split: if_splits)

section \<open>Word lemmas\<close>

lemma unat_of_nat32: "k < 2 ^ 32 \<Longrightarrow> unat (of_nat k :: u32) = k"
  by (simp add: unat_of_nat take_bit_eq_mod)

lemma of_nat_unat32 [simp]: "(of_nat (unat (a :: u32)) :: u32) = a"
  by simp

lemma unat_lt_2p32: "unat (a :: u32) < 2 ^ 32"
  using unsigned_less [of a, where ?'a = nat] by simp

lemma of_nat_inj32:
  "i < 2 ^ 32 \<Longrightarrow> j < 2 ^ 32 \<Longrightarrow> (of_nat i :: u32) = of_nat j \<longleftrightarrow> i = j"
  by (metis unat_of_nat32)

lemma add_of_nat_inj32:
  "i < 2 ^ 32 \<Longrightarrow> j < 2 ^ 32 \<Longrightarrow> (p + of_nat i :: u32) = p + of_nat j \<longleftrightarrow> i = j"
  by (simp add: of_nat_inj32)

lemma unat_offset [simp]: "k < 2 ^ 32 \<Longrightarrow> unat (p + of_nat k - p :: u32) = k"
  by (simp add: unat_of_nat32)

lemma within_offset: "k < 2 ^ 32 \<Longrightarrow> within p n (p + of_nat k) \<longleftrightarrow> k < n"
  by (simp add: within_def unat_of_nat32)

lemma withinE:
  assumes "within p n a"
  obtains k where "k < n" "k < 2 ^ 32" "a = p + of_nat k"
proof
  show "unat (a - p) < n" using assms by (simp add: within_def)
  show "unat (a - p) < 2 ^ 32" by (rule unat_lt_2p32)
  show "a = p + of_nat (unat (a - p))" by simp
qed

lemma within_mono: "within p n a \<Longrightarrow> n \<le> k \<Longrightarrow> within p k a"
  by (simp add: within_def)

lemma within_shift: "within (p + of_nat k) n a \<Longrightarrow> k + n \<le> j \<Longrightarrow> within p j a"
proof -
  assume w: "within (p + of_nat k) n a" and j: "k + n \<le> j"
  have "a - p = of_nat k + (a - (p + of_nat k))" by simp
  then have "unat (a - p) \<le> unat (of_nat k :: u32) + unat (a - (p + of_nat k))"
    by (metis unat_word_ariths(1) mod_less_eq_dividend)
  moreover have "unat (of_nat k :: u32) \<le> k" by (simp add: unat_of_nat take_bit_eq_mod)
  ultimately show ?thesis using w j by (simp add: within_def)
qed

lemma within_0 [simp]: "\<not> within p 0 a"
  by (simp add: within_def)

lemma within_Suc:
  "n < 2 ^ 32 \<Longrightarrow> within p (Suc n) a \<longleftrightarrow> within p n a \<or> a = p + of_nat n"
proof -
  assume n: "n < 2 ^ 32"
  have "unat (a - p) = n \<longleftrightarrow> a = p + of_nat n"
  proof
    assume "unat (a - p) = n"
    then have "a - p = of_nat n" by (metis of_nat_unat32)
    then show "a = p + of_nat n" by (simp add: algebra_simps)
  qed (use n in \<open>simp add: unat_of_nat32\<close>)
  then show ?thesis by (auto simp: within_def less_Suc_eq)
qed

lemma within_self [simp]: "0 < n \<Longrightarrow> within p n p"
  by (simp add: within_def)

lemma unat_plus_one: "a \<noteq> - 1 \<Longrightarrow> unat (a + 1 :: u32) = Suc (unat a)"
  using unatSuc [of a] by (metis add.commute add_eq_0_iff)

lemma unat_minus_one: "a \<noteq> 0 \<Longrightarrow> unat (a - 1 :: u32) = unat a - 1"
  by (rule Word.unat_minus_one)

lemma unat_Suc32: "a < (b :: u32) \<Longrightarrow> unat (a + 1) = Suc (unat a)"
  by (rule unat_plus_one) (use word_order.extremum [of b] in \<open>auto simp: not_le [symmetric]\<close>)

lemma of_nat_neq_m1: "k < 2 ^ 32 - 1 \<Longrightarrow> of_nat k \<noteq> (-1 :: u32)"
proof
  assume k: "k < 2 ^ 32 - 1" and *: "of_nat k = (-1 :: u32)"
  have "unat (of_nat k :: u32) = 2 ^ 32 - 1" unfolding * 
    by (simp add: unsigned_minus_1_eq_mask mask_eq_exp_minus_1)
  then show False using k by (simp add: unat_of_nat32)
qed

lemma sint_unat32: "unat (w :: i32) < 2 ^ 31 \<Longrightarrow> sint w = int (unat w)"
proof -
  assume w: "unat w < 2 ^ 31"
  have "int (unat w) < 2 ^ 31" by (metis w of_nat_less_iff of_nat_numeral of_nat_power)
  then have "uint w < 2 ^ 31" "- (2 ^ 31) \<le> uint w"
    using order_trans [of "- (2 ^ 31)" 0 "uint w"] by simp_all
  then have "signed_take_bit 31 (uint w) = uint w"
    by (intro signed_take_bit_int_eq_self)
  then show ?thesis by (simp add: sint_uint)
qed

lemma numeral_ne_shift:
  "(a :: u32) + 1 \<noteq> a" "a + 2 \<noteq> a" "a + 3 \<noteq> a" "a + 1 \<noteq> a + 2" "a + 1 \<noteq> a + 3"
  "a + 2 \<noteq> a + 3"
  by simp_all

lemma ld32_st32_same [mem_simps]: "ld32 (st32 m a w) a = w"
proof (rule bit_eqI)
  fix n assume "possible_bit TYPE(u32) n"
  then have n: "n < 32" by simp
  have "n < 8 \<or> (8 \<le> n \<and> n < 16) \<or> (16 \<le> n \<and> n < 24) \<or> 24 \<le> n" by arith
  then show "bit (ld32 (st32 m a w) a) n = bit w n"
    using n by (auto simp: ld32_def st32_def bit_simps)
qed

lemma st32_other [mem_simps]: "\<not> within a 4 b \<Longrightarrow> st32 m a w b = m b"
proof -
  assume *: "\<not> within a 4 b"
  have "k < 4 \<Longrightarrow> b \<noteq> a + of_nat k" for k
    using * by (auto simp: within_offset)
  from this [of 0] this [of 1] this [of 2] this [of 3] show ?thesis
    by (simp add: st32_def)
qed

lemma ld32_cong:
  assumes "\<And>k. k < 4 \<Longrightarrow> m (a + of_nat k) = m' (a + of_nat k)"
  shows "ld32 m a = ld32 m' a"
  using assms [of 0] assms [of 1] assms [of 2] assms [of 3] by (simp add: ld32_def)

lemma ld32_bytes:
  "(ucast (ld32 m s) :: u8) = m s" "(ucast (drop_bit 8 (ld32 m s)) :: u8) = m (s + 1)"
  "(ucast (drop_bit 16 (ld32 m s)) :: u8) = m (s + 2)"
  "(ucast (drop_bit 24 (ld32 m s)) :: u8) = m (s + 3)"
  by (rule bit_eqI, use bit_imp_possible_bit in \<open>fastforce simp: ld32_def bit_simps\<close>)+

lemma ld32_st32_other [mem_simps]:
  assumes "\<And>k. k < 4 \<Longrightarrow> \<not> within a 4 (b + of_nat k)"
  shows "ld32 (st32 m a w) b = ld32 m b"
  using assms by (intro ld32_cong st32_other)

lemma ld32_st32_next [mem_simps]: "ld32 (st32 m (a + 4) w) a = ld32 m a"
  by (simp add: ld32_def st32_def add.assoc)

lemma bytes_at_length [simp]: "length (bytes_at m p n) = n"
  by (simp add: bytes_at_def)

lemma bytes_at_nth [simp]: "i < n \<Longrightarrow> bytes_at m p n ! i = m (p + of_nat i)"
  by (simp add: bytes_at_def)

lemma bytes_at_0 [simp]: "bytes_at m p 0 = []"
  by (simp add: bytes_at_def)

lemma bytes_at_Suc: "bytes_at m p (Suc n) = bytes_at m p n @ [m (p + of_nat n)]"
  by (simp add: bytes_at_def)

lemma bytes_at_cong:
  "(\<And>i. i < n \<Longrightarrow> m (p + of_nat i) = m' (p + of_nat i)) \<Longrightarrow> bytes_at m p n = bytes_at m' p n"
  by (auto simp: bytes_at_def)

lemma bytes_at_add: "bytes_at m p (i + j) = bytes_at m p i @ bytes_at m (p + of_nat i) j"
  by (induction j) (simp_all add: bytes_at_Suc add.assoc)

section \<open>Loops that may fault\<close>

fun foldM :: "('a \<Rightarrow> 's \<Rightarrow> 's option) \<Rightarrow> 'a list \<Rightarrow> 's \<Rightarrow> 's option" where
  "foldM f [] s = Some s"
| "foldM f (x # xs) s = do { s \<leftarrow> f x s; foldM f xs s }"

lemma foldM_append: "foldM f (xs @ ys) s = do { s \<leftarrow> foldM f xs s; foldM f ys s }"
  by (induction xs arbitrary: s) (auto split: Option.bind_split)

lemma foldM_invariant:
  assumes "P s" "\<And>x s. x \<in> set xs \<Longrightarrow> P s \<Longrightarrow> \<exists>s'. f x s = Some s' \<and> P s'"
  shows "\<exists>s'. foldM f xs s = Some s' \<and> P s'"
  using assms by (induction xs arbitrary: s) fastforce+

text \<open>A loop whose rounds cannot fault is an ordinary fold.\<close>

lemma foldM_fold:
  assumes "P s" "\<And>x s. x \<in> set xs \<Longrightarrow> P s \<Longrightarrow> f x s = Some (g x s) \<and> P (g x s)"
  shows "foldM f xs s = Some (fold g xs s) \<and> P (fold g xs s)"
  using assms by (induction xs arbitrary: s) auto

section \<open>Busy waiting\<close>

text \<open>
  A loop \<open>while (!P);\<close> is ended by what interrupts do. The interrupts that arrive, in order, are
  the list; \<open>None\<close> is a loop that is still waiting when the list is used up.
\<close>

fun wait_until :: "('s \<Rightarrow> bool) \<Rightarrow> ('s \<Rightarrow> 's option) list \<Rightarrow> 's \<Rightarrow> 's option" where
  "wait_until P [] s = (if P s then Some s else None)"
| "wait_until P (f # fs) s = (if P s then Some s else do { s \<leftarrow> f s; wait_until P fs s })"

lemma wait_until_done: "wait_until P fs s = Some s' \<Longrightarrow> P s'"
  by (induction fs arbitrary: s) (auto split: if_splits Option.bind_splits)

lemma wait_until_now [simp]: "P s \<Longrightarrow> wait_until P fs s = Some s"
  by (cases fs) simp_all

lemma wait_until_invariant:
  assumes "wait_until P fs s = Some s'" "I s" "\<And>f s s'. f \<in> set fs \<Longrightarrow> I s \<Longrightarrow> f s = Some s' \<Longrightarrow> I s'"
  shows "I s'"
  using assms
proof (induction fs arbitrary: s)
  case (Cons f fs)
  show ?case
  proof (cases "P s")
    case False
    then obtain t where "f s = Some t" "wait_until P fs t = Some s'"
      using Cons.prems(1) by (auto split: Option.bind_splits)
    then show ?thesis using Cons.IH [of t] Cons.prems(2,3) by (meson list.set_intros)
  qed (use Cons.prems in simp)
qed (simp split: if_splits)

lemma wait_until_more:
  "wait_until P fs s = Some s' \<Longrightarrow> wait_until P (fs @ gs) s = Some s'"
  by (induction fs arbitrary: s) (auto split: if_splits Option.bind_splits)

end
