(* ===== verification/LibMem.thy ===== *)
theory LibMem
  imports Prelude
begin

text \<open>
  The block operations of \<open>student-distrib/lib.c\<close>: \<open>memset\<close>, \<open>memset_word\<close>,
  \<open>memset_dword\<close>, \<open>memcpy\<close> and \<open>memmove\<close>. They are hand-written assembly, so the model
  follows the instructions: \<open>edi\<close>, \<open>esi\<close> and \<open>ecx\<close> are the registers, a \<open>rep\<close> prefix is a
  recursion on the count, and the byte loop that runs until \<open>edi\<close> is a multiple of four is
  kept apart from the dword loop and the byte tail. The lemmas show that each routine is the
  plain block operation it stands for.
\<close>

section \<open>Block operations as they are meant\<close>

definition filled :: "mem \<Rightarrow> u32 \<Rightarrow> u8 \<Rightarrow> nat \<Rightarrow> mem" where
  "filled m s v n = (\<lambda>a. if within s n a then v else m a)"

definition copied :: "mem \<Rightarrow> u32 \<Rightarrow> u32 \<Rightarrow> nat \<Rightarrow> mem" where
  "copied m d s n = (\<lambda>a. if within d n a then m (s + (a - d)) else m a)"

text \<open>An ascending copy never overwrites a byte it still has to read.\<close>

definition ascending_ok :: "u32 \<Rightarrow> u32 \<Rightarrow> nat \<Rightarrow> bool" where
  "ascending_ok d s n \<longleftrightarrow> d = s \<or> n \<le> unat (d - s)"

section \<open>The assembly routines\<close>

fun rep_stosl :: "nat \<Rightarrow> u32 \<Rightarrow> mem \<Rightarrow> u32 \<Rightarrow> mem" where
  "rep_stosl 0 eax m edi = m"
| "rep_stosl (Suc ecx) eax m edi = rep_stosl ecx eax (st32 m edi eax) (edi + 4)"

fun rep_stosw :: "nat \<Rightarrow> u16 \<Rightarrow> mem \<Rightarrow> u32 \<Rightarrow> mem" where
  "rep_stosw 0 ax m edi = m"
| "rep_stosw (Suc ecx) ax m edi = rep_stosw ecx ax (st16 m edi ax) (edi + 2)"

fun memset_bottom :: "nat \<Rightarrow> u8 \<Rightarrow> mem \<Rightarrow> u32 \<Rightarrow> mem" where
  "memset_bottom 0 al m edi = m"
| "memset_bottom (Suc edx) al m edi = memset_bottom edx al (m(edi := al)) (edi + 1)"

function memset_top :: "u32 \<Rightarrow> mem \<Rightarrow> u32 \<Rightarrow> u32 \<Rightarrow> mem" where
  "memset_top eax m edi ecx =
     (if ecx = 0 then m
      else if edi AND 3 = 0 then
        (let edx = ecx AND 3; ecx = drop_bit 2 ecx;
             m = rep_stosl (unat ecx) eax m edi
         in memset_bottom (unat edx) (ucast eax) m (edi + 4 * ecx))
      else memset_top eax (m(edi := ucast eax)) (edi + 1) (ecx - 1))"
  by pat_completeness auto
termination
  by (relation "measure (\<lambda>(eax, m, edi, ecx). unat ecx)")
    (auto simp: unat_minus_one unat_eq_zero [symmetric] simp del: unat_eq_zero)

definition memset :: "mem \<Rightarrow> u32 \<Rightarrow> i32 \<Rightarrow> u32 \<Rightarrow> mem" where
  "memset m s c n =
     (let c = c AND 0xFF;
          eax = push_bit 24 c OR push_bit 16 c OR push_bit 8 c OR c
      in memset_top eax m s n)"

definition memset_word :: "mem \<Rightarrow> u32 \<Rightarrow> i32 \<Rightarrow> u32 \<Rightarrow> mem" where
  "memset_word m s c n = rep_stosw (unat n) (ucast c) m s"

definition memset_dword :: "mem \<Rightarrow> u32 \<Rightarrow> i32 \<Rightarrow> u32 \<Rightarrow> mem" where
  "memset_dword m s c n = rep_stosl (unat n) c m s"

fun rep_movsl :: "nat \<Rightarrow> mem \<Rightarrow> u32 \<Rightarrow> u32 \<Rightarrow> mem" where
  "rep_movsl 0 m edi esi = m"
| "rep_movsl (Suc ecx) m edi esi = rep_movsl ecx (st32 m edi (ld32 m esi)) (edi + 4) (esi + 4)"

fun memcpy_bottom :: "nat \<Rightarrow> mem \<Rightarrow> u32 \<Rightarrow> u32 \<Rightarrow> mem" where
  "memcpy_bottom 0 m edi esi = m"
| "memcpy_bottom (Suc edx) m edi esi = memcpy_bottom edx (m(edi := m esi)) (edi + 1) (esi + 1)"

function memcpy_top :: "mem \<Rightarrow> u32 \<Rightarrow> u32 \<Rightarrow> u32 \<Rightarrow> mem" where
  "memcpy_top m edi esi ecx =
     (if ecx = 0 then m
      else if edi AND 3 = 0 then
        (let edx = ecx AND 3; ecx = drop_bit 2 ecx;
             m = rep_movsl (unat ecx) m edi esi
         in memcpy_bottom (unat edx) m (edi + 4 * ecx) (esi + 4 * ecx))
      else memcpy_top (m(edi := m esi)) (edi + 1) (esi + 1) (ecx - 1))"
  by pat_completeness auto
termination
  by (relation "measure (\<lambda>(m, edi, esi, ecx). unat ecx)")
    (auto simp: unat_minus_one unat_eq_zero [symmetric] simp del: unat_eq_zero)

definition memcpy :: "mem \<Rightarrow> u32 \<Rightarrow> u32 \<Rightarrow> u32 \<Rightarrow> mem" where
  "memcpy m dest src n = memcpy_top m dest src n"

text \<open>
  \<open>rep movsb\<close> with the direction flag: \<open>False\<close> counts the registers up, \<open>True\<close> down.
\<close>

fun rep_movsb :: "bool \<Rightarrow> nat \<Rightarrow> mem \<Rightarrow> u32 \<Rightarrow> u32 \<Rightarrow> mem" where
  "rep_movsb df 0 m edi esi = m"
| "rep_movsb df (Suc ecx) m edi esi =
     (let m = m(edi := m esi)
      in if df then rep_movsb df ecx m (edi - 1) (esi - 1)
         else rep_movsb df ecx m (edi + 1) (esi + 1))"

text \<open>\<open>memmove\<close> returns the memory and the direction flag it leaves behind.\<close>

definition memmove :: "mem \<Rightarrow> u32 \<Rightarrow> u32 \<Rightarrow> u32 \<Rightarrow> mem \<times> bool" where
  "memmove m dest src n =
     (if dest \<le> src then (rep_movsb False (unat n) m dest src, False)
      else (rep_movsb True (unat n) m (dest + n - 1) (src + n - 1), True))"

declare memset_top.simps [simp del] memcpy_top.simps [simp del]

section \<open>Filling\<close>

lemma within_Suc_left: "within p (Suc n) a \<longleftrightarrow> a = p \<or> within (p + 1) n a"
proof (cases "a = p")
  case False
  then have "a - p \<noteq> 0" by simp
  then have "unat (a - p - 1) = unat (a - p) - 1" and "0 < unat (a - p)"
    by (simp_all add: unat_minus_one unat_gt_0)
  moreover have "a - (p + 1) = a - p - 1" by (simp only: diff_diff_eq)
  ultimately show ?thesis using False by (simp only: within_def) arith
qed simp

lemma within_4: "within p 4 a \<longleftrightarrow> a = p \<or> a = p + 1 \<or> a = p + 2 \<or> a = p + 3"
  by (simp add: numeral_eq_Suc within_Suc_left add.assoc)

lemma within_2: "within p 2 a \<longleftrightarrow> a = p \<or> a = p + 1"
  by (simp add: numeral_eq_Suc within_Suc_left)

lemma within_split:
  "within p (i + n) a \<longleftrightarrow> within p i a \<or> within (p + of_nat i) n a"
  by (induction i arbitrary: p) (auto simp: within_Suc_left algebra_simps)

lemma filled_0 [simp]: "filled m s v 0 = m"
  by (simp add: filled_def)

lemma filled_step: "filled (m(s := v)) (s + 1) v n = filled m s v (Suc n)"
  by (auto simp: filled_def within_Suc_left)

lemma filled_filled:
  "filled (filled m s v i) (s + of_nat i) v n = filled m s v (i + n)"
  by (auto simp: filled_def within_split)

lemma memset_bottom_filled: "memset_bottom n v m s = filled m s v n"
  by (induction n v m s rule: memset_bottom.induct) (simp_all only: filled_0 filled_step memset_bottom.simps)

definition splat :: "u8 \<Rightarrow> u32" where
  "splat v = push_bit 24 (ucast v) OR push_bit 16 (ucast v) OR push_bit 8 (ucast v) OR ucast v"

lemma ucast_splat [simp]:
  "(ucast (splat v) :: u8) = v" "(ucast (drop_bit 8 (splat v)) :: u8) = v"
  "(ucast (drop_bit 16 (splat v)) :: u8) = v" "(ucast (drop_bit 24 (splat v)) :: u8) = v"
  by (rule bit_eqI, use bit_imp_possible_bit [of v] in \<open>force simp: splat_def bit_simps\<close>)+

lemma st32_splat: "st32 m s (splat v) = filled m s v 4"
  by (auto simp: st32_def filled_def within_4 fun_eq_iff)

lemma rep_stosl_filled: "rep_stosl n (splat v) m s = filled m s v (4 * n)"
proof (induction n arbitrary: m s)
  case (Suc n)
  have "rep_stosl (Suc n) (splat v) m s = filled (filled m s v 4) (s + of_nat 4) v (4 * n)"
    using Suc by (simp add: st32_splat)
  also have "\<dots> = filled m s v (4 * Suc n)"
    by (simp only: filled_filled mult_Suc_right)
  finally show ?case .
qed simp

lemma unat_and_3: "unat ((n :: u32) AND 3) = unat n mod 4"
proof -
  have "n AND 3 = take_bit 2 n"
    by (simp add: take_bit_eq_mask mask_numeral)
  then show ?thesis by (simp add: take_bit_eq_mod unat_mod)
qed

lemma unat_drop_bit_2: "unat (drop_bit 2 (n :: u32)) = unat n div 4"
  by (simp add: drop_bit_eq_div unat_div)

lemma count_split: "4 * unat (drop_bit 2 (n :: u32)) + unat (n AND 3) = unat n"
  by (simp add: unat_and_3 unat_drop_bit_2)

lemma memset_top_filled: "memset_top (splat v) m s n = filled m s v (unat n)"
proof (induction "splat v" m s n rule: memset_top.induct)
  case (1 m edi ecx)
  consider "ecx = 0" | "ecx \<noteq> 0" "edi AND 3 = 0" | "ecx \<noteq> 0" "edi AND 3 \<noteq> 0" by blast
  then show ?case
  proof cases
    case 1
    then show ?thesis by (simp add: memset_top.simps)
  next
    case 2
    have "edi + 4 * drop_bit 2 ecx = edi + of_nat (4 * unat (drop_bit 2 ecx))" by simp
    with 2 show ?thesis
      by (simp add: memset_top.simps memset_bottom_filled rep_stosl_filled Let_def
          filled_filled count_split del: of_nat_mult)
  next
    case 3
    with 1 have "memset_top (splat v) m edi ecx = filled (m(edi := v)) (edi + 1) v (unat ecx - 1)"
      by (subst memset_top.simps) (simp add: unat_minus_one)
    with 3 show ?thesis by (simp add: filled_step unat_gt_0)
  qed
qed

lemma memset_filled: "memset m s c n = filled m s (ucast c) (unat n)"
proof -
  have "ucast (ucast c :: u8) = c AND mask 8"
    by (rule bit_eqI) (auto simp: bit_simps)
  then have c: "c AND 0xFF = ucast (ucast c :: u8)" by (simp add: mask_numeral)
  show ?thesis
    by (simp only: memset_def Let_def c splat_def [symmetric] memset_top_filled)
qed

section \<open>Copying\<close>

lemma copied_0 [simp]: "copied m d s 0 = m"
  by (simp add: copied_def)

lemma ascending_okD:
  assumes "ascending_ok d s n" "k < n" "0 < k" "k < 2 ^ 32"
  shows "s + of_nat k \<noteq> d"
proof
  assume *: "s + of_nat k = d"
  then have "unat (d - s) = k" using assms(4) by (auto simp: unat_of_nat32)
  then show False using assms * by (auto simp: ascending_ok_def)
qed

lemma ascending_ok_step:
  "ascending_ok d s (Suc n) \<Longrightarrow> ascending_ok (d + 1) (s + 1) n"
  by (auto simp: ascending_ok_def)

lemma ascending_ok_mono: "ascending_ok d s n \<Longrightarrow> k \<le> n \<Longrightarrow> ascending_ok d s k"
  by (auto simp: ascending_ok_def)

lemma ascending_ok_shift: "ascending_ok (d + k) (s + k) n \<longleftrightarrow> ascending_ok d s n"
  by (simp add: ascending_ok_def)

lemma within_less_2p32: "within p n a \<Longrightarrow> \<exists>k. k < n \<and> k < 2 ^ 32 \<and> a = p + of_nat k"
  by (metis withinE)

lemma copied_step:
  assumes "ascending_ok d s (Suc n)"
  shows "copied (m(d := m s)) (d + 1) (s + 1) n = copied m d s (Suc n)"
proof
  fix a
  show "copied (m(d := m s)) (d + 1) (s + 1) n a = copied m d s (Suc n) a"
  proof (cases "within (d + 1) n a")
    case True
    then obtain k where k: "k < n" "k < 2 ^ 32" "a = d + 1 + of_nat k" by (rule withinE)
    have src: "s + 1 + (a - (d + 1)) = s + (a - d)" by simp
    have "within d (Suc n) a" using True by (simp add: within_Suc_left)
    moreover have "m (s + (a - d)) = (m(d := m s)) (s + (a - d))"
    proof (cases "Suc k < 2 ^ 32")
      case True
      have "a - d = of_nat (Suc k)" using k by (simp add: algebra_simps)
      moreover have "s + of_nat (Suc k) \<noteq> d"
        by (rule ascending_okD [OF assms]) (use k True in auto)
      ultimately show ?thesis by simp
    next
      case False
      then have "Suc k = 2 ^ 32" using k by simp
      then have "of_nat (Suc k) = (0 :: u32)" by (simp only: of_nat_power) simp
      then have "a - d = 0" using k by (simp add: algebra_simps)
      then show ?thesis by auto
    qed
    ultimately show ?thesis using True src by (simp add: copied_def)
  next
    case False
    then show ?thesis by (auto simp: copied_def within_Suc_left)
  qed
qed

lemma copied_copied:
  assumes "ascending_ok d s (i + n)"
  shows "copied (copied m d s i) (d + of_nat i) (s + of_nat i) n = copied m d s (i + n)"
  using assms
proof (induction i arbitrary: m d s)
  case (Suc i)
  have a: "ascending_ok d s (Suc (i + n))" "ascending_ok d s (Suc i)"
    using Suc.prems by (auto intro: ascending_ok_mono)
  have "copied (copied m d s (Suc i)) (d + of_nat (Suc i)) (s + of_nat (Suc i)) n
      = copied (copied (m(d := m s)) (d + 1) (s + 1) i) (d + 1 + of_nat i) (s + 1 + of_nat i) n"
    by (simp only: copied_step [OF a(2)] of_nat_Suc add.assoc)
  also have "\<dots> = copied (m(d := m s)) (d + 1) (s + 1) (i + n)"
    by (rule Suc.IH) (rule ascending_ok_step [OF a(1)])
  also have "\<dots> = copied m d s (Suc (i + n))"
    by (rule copied_step [OF a(1)])
  finally show ?case by (simp only: add_Suc)
qed simp

lemma memcpy_bottom_copied:
  "ascending_ok d s n \<Longrightarrow> memcpy_bottom n m d s = copied m d s n"
proof (induction n arbitrary: m d s)
  case (Suc n)
  have "memcpy_bottom (Suc n) m d s = copied (m(d := m s)) (d + 1) (s + 1) n"
    unfolding memcpy_bottom.simps by (rule Suc.IH) (rule ascending_ok_step [OF Suc.prems])
  then show ?case by (simp only: copied_step [OF Suc.prems])
qed simp

lemma copied_4:
  assumes "ascending_ok d s 4"
  shows "st32 m d (ld32 m s) = copied m d s 4"
proof
  fix a
  show "st32 m d (ld32 m s) a = copied m d s 4 a"
    unfolding st32_def ld32_bytes by (auto simp: copied_def within_4)
qed

lemma rep_movsl_copied:
  "ascending_ok d s (4 * n) \<Longrightarrow> rep_movsl n m d s = copied m d s (4 * n)"
proof (induction n arbitrary: m d s)
  case (Suc n)
  have a: "ascending_ok d s (4 + 4 * n)" using Suc.prems by simp
  have "rep_movsl (Suc n) m d s = copied (st32 m d (ld32 m s)) (d + 4) (s + 4) (4 * n)"
    unfolding rep_movsl.simps
    by (rule Suc.IH) (use a in \<open>auto simp: ascending_ok_shift intro: ascending_ok_mono\<close>)
  also have "st32 m d (ld32 m s) = copied m d s 4"
    by (rule copied_4) (use a in \<open>auto intro: ascending_ok_mono\<close>)
  also have "copied (copied m d s 4) (d + 4) (s + 4) (4 * n) = copied m d s (4 + 4 * n)"
    using copied_copied [OF a] by simp
  finally show ?case by simp
qed simp

lemma memcpy_top_copied:
  "ascending_ok d s (unat n) \<Longrightarrow> memcpy_top m d s n = copied m d s (unat n)"
proof (induction m d s n rule: memcpy_top.induct)
  case (1 m d s n)
  consider "n = 0" | "n \<noteq> 0" "d AND 3 = 0" | "n \<noteq> 0" "d AND 3 \<noteq> 0" by blast
  then show ?case
  proof cases
    case 1
    then show ?thesis by (simp add: memcpy_top.simps)
  next
    case 2
    let ?q = "unat (drop_bit 2 n)" and ?r = "unat (n AND 3)"
    have off: "x + 4 * drop_bit 2 n = x + of_nat (4 * ?q)" for x by simp
    have a: "ascending_ok d s (4 * ?q + ?r)" using "1.prems" by (simp only: count_split)
    have "memcpy_top m d s n
        = memcpy_bottom ?r (rep_movsl ?q m d s) (d + of_nat (4 * ?q)) (s + of_nat (4 * ?q))"
      using 2 by (subst memcpy_top.simps) (simp only: Let_def off if_False if_True simp_thms)
    also have "rep_movsl ?q m d s = copied m d s (4 * ?q)"
      by (rule rep_movsl_copied) (rule ascending_ok_mono [OF a], simp)
    also have "memcpy_bottom ?r \<dots> (d + of_nat (4 * ?q)) (s + of_nat (4 * ?q))
        = copied (copied m d s (4 * ?q)) (d + of_nat (4 * ?q)) (s + of_nat (4 * ?q)) ?r"
      by (rule memcpy_bottom_copied)
        (simp only: ascending_ok_shift, rule ascending_ok_mono [OF a], simp)
    also have "\<dots> = copied m d s (unat n)" by (simp only: copied_copied [OF a] count_split)
    finally show ?thesis .
  next
    case 3
    obtain k where k: "unat n = Suc k" "unat (n - 1) = k"
      using 3 by (metis Suc_pred unat_gt_0 unat_minus_one One_nat_def)
    have a: "ascending_ok d s (Suc k)" using "1.prems" k by simp
    have "memcpy_top m d s n = memcpy_top (m(d := m s)) (d + 1) (s + 1) (n - 1)"
      using 3 by (subst memcpy_top.simps) (simp only: if_False)
    also have "\<dots> = copied (m(d := m s)) (d + 1) (s + 1) k"
      using "1.IH" [OF 3] ascending_ok_step [OF a] by (simp only: k simp_thms)
    also have "\<dots> = copied m d s (unat n)" by (simp only: copied_step [OF a] k)
    finally show ?thesis .
  qed
qed

lemma memcpy_copied: "ascending_ok d s (unat n) \<Longrightarrow> memcpy m d s n = copied m d s (unat n)"
  by (simp only: memcpy_def memcpy_top_copied)

lemma memcpy_one [simp]: "memcpy m d s 1 = m(d := m s)"
proof -
  have "ascending_ok d s (unat (1 :: u32))"
    by (auto simp: ascending_ok_def Suc_le_eq unat_gt_0)
  then show ?thesis
    by (subst memcpy_copied) (auto simp: copied_def within_Suc_left)
qed

section \<open>Overlapping moves\<close>

lemma rep_movsb_up:
  "ascending_ok d s n \<Longrightarrow> rep_movsb False n m d s = copied m d s n"
proof (induction n arbitrary: m d s)
  case (Suc n)
  have "rep_movsb False (Suc n) m d s = copied (m(d := m s)) (d + 1) (s + 1) n"
    unfolding rep_movsb.simps Let_def if_False
    by (rule Suc.IH) (rule ascending_ok_step [OF Suc.prems])
  then show ?case by (simp only: copied_step [OF Suc.prems])
qed simp

lemma copied_last:
  assumes "ascending_ok s d (Suc n)" and "n < 2 ^ 32"
  shows "copied (m(d + of_nat n := m (s + of_nat n))) d s n = copied m d s (Suc n)"
proof
  fix a
  show "copied (m(d + of_nat n := m (s + of_nat n))) d s n a = copied m d s (Suc n) a"
  proof (cases "within d n a")
    case True
    then obtain k where k: "k < n" "k < 2 ^ 32" "a = d + of_nat k" by (rule withinE)
    have "d + of_nat (n - k) \<noteq> s"
      by (rule ascending_okD [OF assms(1)]) (use k assms(2) in auto)
    moreover have "of_nat (n - k) = (of_nat n - of_nat k :: u32)" using k by (simp add: of_nat_diff)
    ultimately have "s + of_nat k \<noteq> d + of_nat n" by (auto simp: algebra_simps)
    then show ?thesis using True k by (simp add: copied_def within_Suc [OF assms(2)])
  next
    case False
    then show ?thesis using assms(2) by (auto simp: copied_def within_Suc)
  qed
qed

lemma rep_movsb_down:
  "ascending_ok s d n \<Longrightarrow> n \<le> 2 ^ 32 \<Longrightarrow>
   rep_movsb True n m (d + of_nat n - 1) (s + of_nat n - 1) = copied m d s n"
proof (induction n arbitrary: m)
  case (Suc n)
  have "rep_movsb True (Suc n) m (d + of_nat (Suc n) - 1) (s + of_nat (Suc n) - 1)
      = rep_movsb True n (m(d + of_nat n := m (s + of_nat n)))
          (d + of_nat n - 1) (s + of_nat n - 1)"
    by (simp add: Let_def add.assoc)
  also have "\<dots> = copied (m(d + of_nat n := m (s + of_nat n))) d s n"
    using Suc.prems by (intro Suc.IH) (auto intro: ascending_ok_mono)
  also have "\<dots> = copied m d s (Suc n)"
    using Suc.prems by (intro copied_last) auto
  finally show ?case .
qed simp

text \<open>
  A block inside the address space: its addresses do not wrap around.
\<close>

definition no_wrap :: "u32 \<Rightarrow> nat \<Rightarrow> bool" where
  "no_wrap p n \<longleftrightarrow> unat p + n \<le> 2 ^ 32"

lemma no_wrap_ascending: "d \<le> s \<Longrightarrow> no_wrap s n \<Longrightarrow> ascending_ok d s n"
  by (cases "d = s")
    (auto simp: ascending_ok_def no_wrap_def unat_sub_if' word_le_nat_alt word_unat_eq_iff)

lemma memmove_copied:
  assumes "no_wrap s (unat n)" and "no_wrap d (unat n)"
  shows "memmove m d s n = (copied m d s (unat n), s < d)"
proof (cases "d \<le> s")
  case True
  then show ?thesis
    using no_wrap_ascending [OF True assms(1)] by (simp add: memmove_def rep_movsb_up not_less)
next
  case False
  then have "ascending_ok s d (unat n)"
    using assms(2) by (intro no_wrap_ascending) auto
  then have "rep_movsb True (unat n) m (d + of_nat (unat n) - 1) (s + of_nat (unat n) - 1)
      = copied m d s (unat n)"
    by (rule rep_movsb_down) (use unat_lt_2p32 [of n] in simp)
  then show ?thesis using False by (simp add: memmove_def)
qed

text \<open>What the block operations do at an address.\<close>

lemma copied_at: "k < n \<Longrightarrow> k < 2 ^ 32 \<Longrightarrow> copied m d s n (d + of_nat k) = m (s + of_nat k)"
  by (simp add: copied_def within_offset)

lemma copied_other [mem_simps]: "\<not> within d n a \<Longrightarrow> copied m d s n a = m a"
  by (simp add: copied_def)

lemma filled_at: "within s n a \<Longrightarrow> filled m s v n a = v"
  by (simp add: filled_def)

lemma filled_other [mem_simps]: "\<not> within s n a \<Longrightarrow> filled m s v n a = m a"
  by (simp add: filled_def)

section \<open>Writing a list of bytes\<close>

fun poke :: "mem \<Rightarrow> u32 \<Rightarrow> u8 list \<Rightarrow> mem" where
  "poke m d [] = m"
| "poke m d (x # xs) = poke (m(d := x)) (d + 1) xs"

lemma poke_append: "poke m d (xs @ ys) = poke (poke m d xs) (d + of_nat (length xs)) ys"
  by (induction xs arbitrary: m d) (simp_all del: fun_upd_apply add: add.assoc)

lemma poke_snoc: "poke m d (xs @ [x]) = (poke m d xs)(d + of_nat (length xs) := x)"
  by (simp only: poke_append poke.simps)

lemma poke_other [mem_simps]: "\<not> within d (length xs) a \<Longrightarrow> poke m d xs a = m a"
  by (induction xs arbitrary: m d) (auto simp: within_Suc_left)

lemma poke_at:
  "k < length xs \<Longrightarrow> length xs \<le> 2 ^ 32 \<Longrightarrow> poke m d xs (d + of_nat k) = xs ! k"
proof (induction xs arbitrary: k rule: rev_induct)
  case (snoc x xs)
  then show ?case
    by (cases "k = length xs") (auto simp: poke_snoc nth_append of_nat_inj32)
qed simp

lemma bytes_at_poke: "length xs \<le> 2 ^ 32 \<Longrightarrow> bytes_at (poke m d xs) d (length xs) = xs"
  by (rule nth_equalityI) (simp_all add: poke_at)

lemma poke_cong_other:
  "(\<And>i. i < n \<Longrightarrow> \<not> within d (length xs) (p + of_nat i)) \<Longrightarrow>
   bytes_at (poke m d xs) p n = bytes_at m p n"
  by (rule bytes_at_cong) (simp add: poke_other)

lemma poke_upd:
  "\<not> within d (length ys) a \<Longrightarrow> poke (m(a := x)) d ys = (poke m d ys)(a := x)"
proof (induction ys arbitrary: m d)
  case (Cons y ys)
  then have out: "a \<noteq> d" "\<not> within (d + 1) (length ys) a" by (auto simp: within_Suc_left)
  have "poke (m(a := x)) d (y # ys) = poke ((m(d := y))(a := x)) (d + 1) ys"
    using out(1) by (simp only: poke.simps fun_upd_twist not_False_eq_True)
  also have "\<dots> = (poke (m(d := y)) (d + 1) ys)(a := x)"
    by (rule Cons.IH [OF out(2)])
  finally show ?case by (simp only: poke.simps)
qed simp

lemma poke_poke: "length xs = length ys \<Longrightarrow> poke (poke m d xs) d ys = poke m d ys"
proof
  fix a assume len: "length xs = length ys"
  show "poke (poke m d xs) d ys a = poke m d ys a"
  proof (cases "within d (length ys) a")
    case True
    have same: "poke f d ys a = poke g d ys a" if "within d (length ys) a" for f g
      using that
    proof (induction ys arbitrary: f g d)
      case (Cons y ys)
      show ?case
      proof (cases "within (d + 1) (length ys) a")
        case True
        then show ?thesis using Cons.IH by (simp del: fun_upd_apply)
      next
        case False
        then have "a = d" using Cons.prems by (simp add: within_Suc_left)
        then show ?thesis using False by (simp add: poke_other)
      qed
    qed simp
    show ?thesis by (rule same [OF True])
  qed (simp add: poke_other len)
qed

lemma copied_poke: "n \<le> 2 ^ 32 \<Longrightarrow> copied m d s n = poke m d (bytes_at m s n)"
proof
  fix a assume n: "n \<le> 2 ^ 32"
  show "copied m d s n a = poke m d (bytes_at m s n) a"
  proof (cases "within d n a")
    case True
    then obtain k where "k < n" "k < 2 ^ 32" "a = d + of_nat k" by (rule withinE)
    then show ?thesis using n by (simp add: copied_at poke_at)
  qed (simp add: mem_simps)
qed

lemma bytes_at_Cons: "bytes_at m p (Suc n) = m p # bytes_at m (p + 1) n"
  using bytes_at_add [of m p 1 n] by (simp add: bytes_at_Suc)

end
