(* ===== verification/LibString.thy ===== *)
theory LibString
  imports LibMem
begin

text \<open>
  The string routines of \<open>student-distrib/lib.c\<close>: \<open>strlen\<close>, \<open>strncmp\<close>, \<open>strcpy\<close>,
  \<open>strncpy\<close>, \<open>strrev\<close> and \<open>itoa\<close>, on pointers into the byte memory. \<open>strlen\<close> and
  \<open>strcpy\<close> run until a zero byte turns up, so they are partial functions whose \<open>None\<close>
  is the loop that never ends; the other loops are bounded. \<open>cstring m p cs\<close> ties a pointer
  to the list of characters before its terminator, and every routine gets its list meaning.
\<close>

section \<open>The routines\<close>

partial_function (option) strlen_from :: "mem \<Rightarrow> u32 \<Rightarrow> u32 \<Rightarrow> u32 option" where
  "strlen_from m s len = (if m (s + len) \<noteq> 0 then strlen_from m s (len + 1) else Some len)"

definition strlen :: "mem \<Rightarrow> u32 \<Rightarrow> u32 option" where
  "strlen m s = strlen_from m s 0"

function strncmp_from :: "mem \<Rightarrow> u32 \<Rightarrow> u32 \<Rightarrow> u32 \<Rightarrow> u32 \<Rightarrow> int" where
  "strncmp_from m s1 s2 n i =
     (if i < n then
        if m (s1 + i) \<noteq> m (s2 + i) \<or> m (s1 + i) = 0
        then sint (m (s1 + i)) - sint (m (s2 + i))
        else strncmp_from m s1 s2 n (i + 1)
      else 0)"
  by pat_completeness auto
termination
  by (relation "measure (\<lambda>(m, s1, s2, n, i). unat n - unat i)")
    (auto simp: unat_Suc32 word_less_nat_alt)

definition strncmp :: "mem \<Rightarrow> u32 \<Rightarrow> u32 \<Rightarrow> u32 \<Rightarrow> int" where
  "strncmp m s1 s2 n = strncmp_from m s1 s2 n 0"

partial_function (option) strcpy_from :: "mem \<Rightarrow> u32 \<Rightarrow> u32 \<Rightarrow> u32 \<Rightarrow> mem option" where
  "strcpy_from m dest src i =
     (if m (src + i) \<noteq> 0 then strcpy_from (m(dest + i := m (src + i))) dest src (i + 1)
      else Some (m(dest + i := 0)))"

definition strcpy :: "mem \<Rightarrow> u32 \<Rightarrow> u32 \<Rightarrow> mem option" where
  "strcpy m dest src = strcpy_from m dest src 0"

text \<open>The copying loop of \<open>strncpy\<close> and the loop that pads with zero bytes.\<close>

function strncpy_copy :: "mem \<Rightarrow> u32 \<Rightarrow> u32 \<Rightarrow> u32 \<Rightarrow> u32 \<Rightarrow> mem \<times> u32" where
  "strncpy_copy m dest src n i =
     (if m (src + i) \<noteq> 0 \<and> i < n
      then strncpy_copy (m(dest + i := m (src + i))) dest src n (i + 1)
      else (m, i))"
  by pat_completeness auto
termination
  by (relation "measure (\<lambda>(m, dest, src, n, i). unat n - unat i)")
    (auto simp: unat_Suc32 word_less_nat_alt)

function strncpy_pad :: "mem \<Rightarrow> u32 \<Rightarrow> u32 \<Rightarrow> u32 \<Rightarrow> mem" where
  "strncpy_pad m dest n i =
     (if i < n then strncpy_pad (m(dest + i := 0)) dest n (i + 1) else m)"
  by pat_completeness auto
termination
  by (relation "measure (\<lambda>(m, dest, n, i). unat n - unat i)")
    (auto simp: unat_Suc32 word_less_nat_alt)

definition strncpy :: "mem \<Rightarrow> u32 \<Rightarrow> u32 \<Rightarrow> u32 \<Rightarrow> mem" where
  "strncpy m dest src n =
     (let (m, i) = strncpy_copy m dest src n 0 in strncpy_pad m dest n i)"

function strrev_loop :: "mem \<Rightarrow> u32 \<Rightarrow> int \<Rightarrow> int \<Rightarrow> mem" where
  "strrev_loop m s beg end' =
     (if beg < end' then
        (let tmp = m (s + of_int end');
             m = m(s + of_int end' := m (s + of_int beg));
             m = m(s + of_int beg := tmp)
         in strrev_loop m s (beg + 1) (end' - 1))
      else m)"
  by pat_completeness auto
termination
  by (relation "measure (\<lambda>(m, s, beg, end'). nat (end' - beg))") auto

text \<open>\<open>int32_t end = strlen(s) - 1\<close> turns the unsigned length into a signed index.\<close>

definition strrev :: "mem \<Rightarrow> u32 \<Rightarrow> mem option" where
  "strrev m s = map_option (\<lambda>len. strrev_loop m s 0 (sint (len - 1))) (strlen m s)"

text \<open>The digit table of \<open>itoa\<close> with its terminator: 37 bytes.\<close>

definition lookup :: "u8 list" where
  "lookup = map of_char ''0123456789ABCDEFGHIJKLMNOPQRSTUVWXYZ'' @ [0]"

text \<open>
  Radix 0 divides by zero, radix 1 never makes \<open>newval\<close> smaller, a radix above 37 can index
  past the table: all three are \<open>None\<close>.
\<close>

partial_function (option) itoa_loop :: "mem \<Rightarrow> u32 \<Rightarrow> u32 \<Rightarrow> i32 \<Rightarrow> (mem \<times> u32) option" where
  "itoa_loop m newval newbuf radix =
     (if newval > 0 then
        if radix = 0 then None
        else do {
          c \<leftarrow> aget lookup (unat (newval mod radix));
          itoa_loop (m(newbuf := c)) (newval div radix) (newbuf + 1) radix
        }
      else Some (m, newbuf))"

definition itoa :: "mem \<Rightarrow> u32 \<Rightarrow> u32 \<Rightarrow> i32 \<Rightarrow> mem option" where
  "itoa m value buf radix =
     (if value = 0 then Some (m(buf := of_char (CHR ''0''), buf + 1 := 0))
      else do {
        (m, newbuf) \<leftarrow> itoa_loop m value buf radix;
        strrev (m(newbuf := 0)) buf
      })"

declare strncmp_from.simps [simp del] strncpy_copy.simps [simp del]
  strncpy_pad.simps [simp del] strrev_loop.simps [simp del]

section \<open>Strings in memory\<close>

definition cstring :: "mem \<Rightarrow> u32 \<Rightarrow> u8 list \<Rightarrow> bool" where
  "cstring m p cs \<longleftrightarrow> bytes_at m p (length cs) = cs \<and> m (p + of_nat (length cs)) = 0
     \<and> 0 \<notin> set cs \<and> length cs < 2 ^ 32"

lemma cstring_nth: "cstring m p cs \<Longrightarrow> i < length cs \<Longrightarrow> m (p + of_nat i) = cs ! i"
  by (metis cstring_def bytes_at_nth)

lemma cstring_nonzero: "cstring m p cs \<Longrightarrow> i < length cs \<Longrightarrow> cs ! i \<noteq> 0"
  by (metis cstring_def nth_mem)

lemma cstring_end: "cstring m p cs \<Longrightarrow> m (p + of_nat (length cs)) = 0"
  by (simp add: cstring_def)

lemma cstring_length: "cstring m p cs \<Longrightarrow> length cs < 2 ^ 32"
  by (simp add: cstring_def)

lemma cstringI:
  assumes "\<And>i. i < length cs \<Longrightarrow> m (p + of_nat i) = cs ! i" "m (p + of_nat (length cs)) = 0"
    "0 \<notin> set cs" "length cs < 2 ^ 32"
  shows "cstring m p cs"
  using assms by (auto simp: cstring_def intro: nth_equalityI)

lemma cstring_cong:
  assumes "cstring m p cs" "\<And>i. i \<le> length cs \<Longrightarrow> m' (p + of_nat i) = m (p + of_nat i)"
  shows "cstring m' p cs"
  using assms by (intro cstringI) (auto simp: cstring_nth cstring_def)

lemma cstring_unique:
  assumes "cstring m p cs" "cstring m p ds"
  shows "cs = ds"
proof -
  have len: "length xs \<le> length ys" if "cstring m p xs" "cstring m p ys" for xs ys
  proof (rule ccontr)
    assume "\<not> length xs \<le> length ys"
    then have "m (p + of_nat (length ys)) \<noteq> 0"
      using that(1) by (metis cstring_nth cstring_nonzero not_le)
    then show False using that(2) by (simp add: cstring_end)
  qed
  have "length cs = length ds" using len assms by (simp add: le_antisym)
  then show ?thesis using assms by (metis cstring_def)
qed

section \<open>strlen\<close>

lemma strlen_from_finds:
  "m (s + of_nat (i + k)) = 0 \<Longrightarrow> (\<And>j. j < k \<Longrightarrow> m (s + of_nat (i + j)) \<noteq> 0) \<Longrightarrow>
   strlen_from m s (of_nat i) = Some (of_nat (i + k))"
proof (induction k arbitrary: i)
  case 0
  then show ?case by (simp add: strlen_from.simps)
next
  case (Suc k)
  have "m (s + of_nat i) \<noteq> 0" using Suc.prems(2) [of 0] by simp
  then have "strlen_from m s (of_nat i) = strlen_from m s (of_nat (Suc i))"
    by (subst strlen_from.simps) (simp add: add.commute)
  also have "\<dots> = Some (of_nat (Suc i + k))"
  proof (rule Suc.IH)
    show "m (s + of_nat (Suc i + k)) = 0" using Suc.prems(1) by simp
    show "m (s + of_nat (Suc i + j)) \<noteq> 0" if "j < k" for j
      using Suc.prems(2) [of "Suc j"] that by simp
  qed
  finally show ?case by simp
qed

lemma strlen_from_zero: "strlen_from m s len = Some n \<Longrightarrow> m (s + n) = 0"
  by (erule strlen_from.raw_induct [rotated]) (auto split: if_splits)

lemma strlen_cstring: "cstring m s cs \<Longrightarrow> strlen m s = Some (of_nat (length cs))"
  using strlen_from_finds [of m s 0 "length cs"]
  by (simp add: strlen_def cstring_end cstring_nth cstring_nonzero)

lemma cstring_exists:
  assumes "m (s + n) = 0"
  shows "\<exists>cs. cstring m s cs \<and> length cs \<le> unat n"
proof -
  define P where "P = (\<lambda>k. m (s + of_nat k) = 0)"
  define k where "k = (LEAST k. P k)"
  have z: "P (unat n)" using assms by (simp add: P_def)
  have "P k" unfolding k_def by (rule LeastI [of P, OF z])
  then have "m (s + of_nat k) = 0" by (simp add: P_def)
  moreover have "k \<le> unat n" unfolding k_def by (rule Least_le [of P, OF z])
  moreover have "\<And>j. j < k \<Longrightarrow> \<not> P j" unfolding k_def by (rule not_less_Least)
  then have "\<And>j. j < k \<Longrightarrow> m (s + of_nat j) \<noteq> 0" by (simp add: P_def)
  moreover have "unat n < 2 ^ 32" by (rule unat_lt_2p32)
  ultimately have "cstring m s (bytes_at m s k) \<and> length (bytes_at m s k) \<le> unat n"
    by (intro conjI cstringI) (auto simp: bytes_at_def)
  then show ?thesis by blast
qed

lemma strlen_Some_iff: "strlen m s = Some n \<longleftrightarrow> (\<exists>cs. cstring m s cs \<and> n = of_nat (length cs))"
proof
  assume "strlen m s = Some n"
  then have "m (s + n) = 0" unfolding strlen_def by (rule strlen_from_zero)
  then obtain cs where "cstring m s cs" using cstring_exists by blast
  then show "\<exists>cs. cstring m s cs \<and> n = of_nat (length cs)"
    using strlen_cstring \<open>strlen m s = Some n\<close> by auto
qed (auto simp: strlen_cstring)

text \<open>\<open>strlen\<close> returns exactly when a zero byte is reachable from the pointer, and what it
  returns is the distance to the first one.\<close>
theorem strlen_total_iff:
  "strlen m s \<noteq> None \<longleftrightarrow> (\<exists>a. m a = 0)"
proof
  assume "strlen m s \<noteq> None"
  then obtain n where "strlen m s = Some n" by auto
  then have "m (s + n) = 0" unfolding strlen_def by (rule strlen_from_zero)
  then show "\<exists>a. m a = 0" ..
next
  assume "\<exists>a. m a = 0"
  then obtain a where "m (s + (a - s)) = 0" by auto
  then show "strlen m s \<noteq> None" using cstring_exists strlen_cstring by fastforce
qed

section \<open>strncmp\<close>

definition cut :: "mem \<Rightarrow> u32 \<Rightarrow> nat \<Rightarrow> u8 list" where
  "cut m s n = takeWhile (\<lambda>b. b \<noteq> 0) (bytes_at m s n)"

lemma cut_0 [simp]: "cut m s 0 = []"
  by (simp add: cut_def)

lemma cut_Suc: "cut m s (Suc n) = (if m s = 0 then [] else m s # cut m (s + 1) n)"
  by (simp add: cut_def bytes_at_Cons)

lemma cut_length: "length (cut m s n) \<le> n"
  using length_takeWhile_le [of _ "bytes_at m s n"] by (simp add: cut_def)

lemma cut_cstring: "cstring m s cs \<Longrightarrow> cut m s n = take n cs"
proof (induction cs arbitrary: s n)
  case Nil
  then show ?case by (cases n) (auto simp: cut_Suc cstring_def)
next
  case (Cons c cs)
  have "m s = c" "c \<noteq> 0"
    using cstring_nth [OF Cons.prems, of 0] cstring_nonzero [OF Cons.prems, of 0] by auto
  moreover have "cstring m (s + 1) cs"
    using Cons.prems by (auto simp: cstring_def bytes_at_Cons add.assoc)
  ultimately show ?case using Cons.IH by (cases n) (auto simp: cut_Suc)
qed

lemma cut_cong: "(\<And>i. i < n \<Longrightarrow> m (s + of_nat i) = m' (s + of_nat i)) \<Longrightarrow> cut m s n = cut m' s n"
  unfolding cut_def by (simp cong: bytes_at_cong)

lemma sint_eq8: "sint (a :: u8) = sint b \<longleftrightarrow> a = b" "sint (a :: u8) = 0 \<longleftrightarrow> a = 0"
  using signed_word_eqI [of a b] signed_word_eqI [of a 0] by auto

lemma remaining_Suc: "i < (n :: u32) \<Longrightarrow> unat n - unat i = Suc (unat n - unat (i + 1))"
  by (simp add: unat_Suc32 word_less_nat_alt)

lemma strncmp_from_zero:
  "strncmp_from m s1 s2 n i = 0
   \<longleftrightarrow> cut m (s1 + i) (unat n - unat i) = cut m (s2 + i) (unat n - unat i)"
proof (induction m s1 s2 n i rule: strncmp_from.induct)
  case (1 m s1 s2 n i)
  show ?case
  proof (cases "i < n")
    case True
    show ?thesis
    proof (cases "m (s1 + i) \<noteq> m (s2 + i) \<or> m (s1 + i) = 0")
      case diff: True
      then show ?thesis
        using True by (auto simp: strncmp_from.simps remaining_Suc cut_Suc sint_eq8)
    next
      case False
      then show ?thesis
        using True 1 [OF True False]
        by (subst strncmp_from.simps) (simp add: remaining_Suc cut_Suc add.assoc)
    qed
  next
    case False
    then show ?thesis by (simp add: strncmp_from.simps word_less_nat_alt)
  qed
qed

lemma strncmp_zero: "strncmp m s1 s2 n = 0 \<longleftrightarrow> cut m s1 (unat n) = cut m s2 (unat n)"
  by (simp add: strncmp_def strncmp_from_zero)

section \<open>strncpy and strcpy\<close>

definition strncpied :: "mem \<Rightarrow> u32 \<Rightarrow> nat \<Rightarrow> u8 list" where
  "strncpied m s n = cut m s n @ replicate (n - length (cut m s n)) 0"

lemma strncpied_length [simp]: "length (strncpied m s n) = n"
  using cut_length [of m s n] by (simp add: strncpied_def)

definition apart :: "u32 \<Rightarrow> nat \<Rightarrow> u32 \<Rightarrow> nat \<Rightarrow> bool" where
  "apart p n q k \<longleftrightarrow> (\<forall>a. within p n a \<longrightarrow> \<not> within q k a)"

lemma strncpy_pad_poke:
  "strncpy_pad m d n i = poke m (d + i) (replicate (unat n - unat i) 0)"
proof (induction m d n i rule: strncpy_pad.induct)
  case (1 m d n i)
  show ?case
  proof (cases "i < n")
    case True
    then show ?thesis
      using 1 by (subst strncpy_pad.simps) (simp only: remaining_Suc replicate_Suc poke.simps
          if_True add.assoc simp_thms)
  qed (simp add: strncpy_pad.simps word_less_nat_alt)
qed

lemma strncpy_copy_poke:
  assumes "\<And>k. unat i \<le> k \<Longrightarrow> k \<le> unat n \<Longrightarrow> \<not> within d (unat n) (s + of_nat k)"
  shows "strncpy_copy m d s n i
    = (poke m (d + i) (cut m (s + i) (unat n - unat i)),
       i + of_nat (length (cut m (s + i) (unat n - unat i))))"
  using assms
proof (induction m d s n i rule: strncpy_copy.induct)
  case (1 m d s n i)
  show ?case
  proof (cases "m (s + i) \<noteq> 0 \<and> i < n")
    case True
    then have lt: "unat i < unat n" and i: "i < n" by (simp_all add: word_less_nat_alt)
    let ?m = "m(d + i := m (s + i))"
    have in': "within d (unat n) (d + i)"
      using lt within_offset [of "unat i" d "unat n"] unat_lt_2p32 [of i] by simp
    have cut': "cut ?m (s + (i + 1)) k = cut m (s + (i + 1)) k" if "k = unat n - unat (i + 1)" for k
    proof (rule cut_cong)
      fix j assume "j < k"
      then have "\<not> within d (unat n) (s + of_nat (unat i + 1 + j))"
        using that i lt by (intro "1.prems") (auto simp: unat_Suc32)
      moreover have eq: "s + (i + 1) + of_nat j = s + of_nat (unat i + 1 + j)"
        by (simp add: algebra_simps)
      ultimately have "\<not> within d (unat n) (s + (i + 1) + of_nat j)" by (simp only: eq simp_thms)
      then have "s + (i + 1) + of_nat j \<noteq> d + i" using in' by metis
      then show "?m (s + (i + 1) + of_nat j) = m (s + (i + 1) + of_nat j)" by simp
    qed
    have "strncpy_copy m d s n i = strncpy_copy ?m d s n (i + 1)"
      using True by (subst strncpy_copy.simps) (simp only: if_True simp_thms)
    also have "\<dots> = (poke ?m (d + (i + 1)) (cut ?m (s + (i + 1)) (unat n - unat (i + 1))),
       i + 1 + of_nat (length (cut ?m (s + (i + 1)) (unat n - unat (i + 1)))))"
      by (rule 1(1) [OF True]) (use "1.prems" i in \<open>auto simp: unat_Suc32\<close>)
    finally have *: "strncpy_copy m d s n i =
        (poke ?m (d + (i + 1)) (cut m (s + (i + 1)) (unat n - unat (i + 1))),
         i + 1 + of_nat (length (cut m (s + (i + 1)) (unat n - unat (i + 1)))))"
      unfolding cut' [OF refl] .
    show ?thesis
      unfolding * using True
      by (simp add: remaining_Suc [OF i] cut_Suc ac_simps del: fun_upd_apply)
  next
    case False
    then have "cut m (s + i) (unat n - unat i) = []"
      by (cases "unat n - unat i") (auto simp: cut_Suc word_less_nat_alt)
    moreover have "strncpy_copy m d s n i = (m, i)"
      using False by (subst strncpy_copy.simps) (simp only: if_False)
    ultimately show ?thesis by simp
  qed
qed

lemma strncpy_poke:
  assumes "\<And>k. k \<le> unat n \<Longrightarrow> \<not> within d (unat n) (s + of_nat k)"
  shows "strncpy m d s n = poke m d (strncpied m s (unat n))"
proof -
  let ?cs = "cut m s (unat n)"
  have "unat (of_nat (length ?cs) :: u32) = length ?cs"
    using cut_length [of m s "unat n"] unat_lt_2p32 [of n] by (simp add: unat_of_nat32)
  then show ?thesis
    using strncpy_copy_poke [of 0 n d s m] assms
    by (simp add: strncpy_def strncpied_def strncpy_pad_poke poke_append)
qed

lemma strcpy_from_poke:
  assumes "cstring m (s + i) cs" "\<And>k. k \<le> length cs \<Longrightarrow> \<not> within (d + i) (length cs) (s + i + of_nat k)"
  shows "strcpy_from m d s i = Some (poke m (d + i) (cs @ [0]))"
  using assms
proof (induction cs arbitrary: m i)
  case Nil
  then show ?case by (simp add: strcpy_from.simps cstring_def del: fun_upd_apply)
next
  case (Cons c cs)
  have c: "m (s + i) = c" "c \<noteq> 0"
    using cstring_nth [OF Cons.prems(1), of 0] cstring_nonzero [OF Cons.prems(1), of 0] by auto
  let ?m = "m(d + i := c)"
  have "cstring m (s + (i + 1)) cs"
    using Cons.prems(1) by (auto simp: cstring_def bytes_at_Cons add.assoc)
  moreover have "s + (i + 1) + of_nat k \<noteq> d + i" if "k \<le> length cs" for k
    using Cons.prems(2) [of "Suc k"] that by (auto simp: add.assoc within_Suc_left)
  ultimately have "cstring ?m (s + (i + 1)) cs" by (auto elim!: cstring_cong)
  moreover have "\<not> within (d + (i + 1)) (length cs) (s + (i + 1) + of_nat k)"
    if "k \<le> length cs" for k
    using Cons.prems(2) [of "Suc k"] that by (auto simp: add.assoc within_Suc_left)
  ultimately have "strcpy_from ?m d s (i + 1) = Some (poke ?m (d + (i + 1)) (cs @ [0]))"
    by (rule Cons.IH)
  then show ?case
    using c by (subst strcpy_from.simps)
      (simp only: append.simps poke.simps add.assoc not_False_eq_True if_True)
qed

section \<open>strrev\<close>

lemma of_int_inj32:
  "0 \<le> i \<Longrightarrow> i < 2 ^ 32 \<Longrightarrow> 0 \<le> j \<Longrightarrow> j < 2 ^ 32 \<Longrightarrow> (of_int i :: u32) = of_int j \<longleftrightarrow> i = j"
  by (auto simp: of_int_eq_iff take_bit_int_eq_self word_of_int_eq_iff)

lemma strrev_loop_at:
  assumes "0 \<le> beg" "end' < 2 ^ 32" "0 \<le> i" "i < 2 ^ 32"
  shows "strrev_loop m s beg end' (s + of_int i)
    = (if beg \<le> i \<and> i \<le> end' then m (s + of_int (beg + end' - i)) else m (s + of_int i))"
  using assms
proof (induction m s beg end' rule: strrev_loop.induct)
  case (1 m s beg end')
  show ?case
  proof (cases "beg < end'")
    case True
    let ?m1 = "m(s + of_int end' := m (s + of_int beg))"
    let ?m2 = "?m1(s + of_int beg := m (s + of_int end'))"
    have m2: "?m2 (s + of_int j) = (if j = beg then m (s + of_int end')
        else if j = end' then m (s + of_int beg) else m (s + of_int j))"
      if "0 \<le> j" "j < 2 ^ 32" for j
      using that "1.prems" True by (simp add: of_int_inj32)
    have "strrev_loop m s beg end' (s + of_int i)
        = strrev_loop ?m2 s (beg + 1) (end' - 1) (s + of_int i)"
      using True by (subst strrev_loop.simps) (simp only: Let_def if_True)
    also have "\<dots> = (if beg + 1 \<le> i \<and> i \<le> end' - 1
        then ?m2 (s + of_int (beg + 1 + (end' - 1) - i)) else ?m2 (s + of_int i))"
      by (rule 1(1) [OF True refl refl refl]) (use "1.prems" True in auto)
    also have "\<dots> = (if beg \<le> i \<and> i \<le> end' then m (s + of_int (beg + end' - i))
        else m (s + of_int i))"
    proof (cases "beg + 1 \<le> i \<and> i \<le> end' - 1")
      case mid: True
      have "beg + 1 + (end' - 1) - i = beg + end' - i" by simp
      then show ?thesis using mid "1.prems" m2 [of "beg + end' - i"] by auto
    next
      case False
      then consider "i = beg" | "i = end'" | "i < beg \<or> end' < i" by linarith
      then show ?thesis
        by cases (use False True "1.prems" m2 [of i] in \<open>simp_all del: fun_upd_apply, auto\<close>)
    qed
    finally show ?thesis .
  next
    case False
    have "m (s + of_int (beg + end' - i)) = m (s + of_int i)" if "beg \<le> i \<and> i \<le> end'"
    proof -
      have "beg + end' - i = i" using that False by linarith
      then show ?thesis by (simp only:)
    qed
    then show ?thesis
      using False by (simp add: strrev_loop.simps del: of_int_diff of_int_add)
  qed
qed

lemma strrev_poke:
  assumes "cstring m s cs" and len: "length cs \<le> 2 ^ 31"
  shows "strrev m s = Some (poke m s (rev cs))"
proof -
  let ?n = "length cs"
  have e: "sint (of_nat ?n - 1 :: u32) = int ?n - 1"
  proof -
    have "(of_nat ?n - 1 :: u32) = of_int (int ?n - 1)" by simp
    then show ?thesis
      using len by (simp only: signed_of_int) (simp add: signed_take_bit_int_eq_self)
  qed
  have "strrev_loop m s 0 (int ?n - 1) a = poke m s (rev cs) a" for a
  proof -
    define k where "k = unat (a - s)"
    have k: "k < 2 ^ 32" "a = s + of_int (int k)"
      using unat_lt_2p32 [of "a - s"] by (simp_all add: k_def)
    have "strrev_loop m s 0 (int ?n - 1) a = (if k < ?n then m (s + of_int (int ?n - 1 - int k)) else m a)"
      using strrev_loop_at [of 0 "int ?n - 1" "int k" m s] k len by (auto simp del: of_int_diff)
    also have "\<dots> = poke m s (rev cs) a"
    proof (cases "k < ?n")
      case True
      have "int ?n - 1 - int k = int (?n - 1 - k)" using True by simp
      then have "m (s + of_int (int ?n - 1 - int k)) = cs ! (?n - 1 - k)"
        using cstring_nth [OF assms(1), of "?n - 1 - k"] True by (simp only: of_int_of_nat_eq)
      also have "\<dots> = poke m s (rev cs) a"
        using poke_at [of k "rev cs" m s] True k len by (simp add: rev_nth)
      finally show ?thesis using True by simp
    next
      case False
      then show ?thesis using k by (simp add: poke_other within_offset)
    qed
    finally show ?thesis .
  qed
  then show ?thesis
    by (simp add: strrev_def strlen_cstring [OF assms(1)] e fun_eq_iff del: of_int_diff)
qed

section \<open>itoa\<close>

text \<open>The digits of a value, least significant first, and how a digit string is read back.\<close>

fun low_digits :: "nat \<Rightarrow> nat \<Rightarrow> u8 list" where
  "low_digits r n = (if n = 0 \<or> r < 2 then [] else lookup ! (n mod r) # low_digits r (n div r))"

declare low_digits.simps [simp del]

definition digit_value :: "u8 \<Rightarrow> nat" where
  "digit_value d = length (takeWhile (\<lambda>c. c \<noteq> d) lookup)"

definition read_number :: "nat \<Rightarrow> u8 list \<Rightarrow> nat" where
  "read_number r ds = foldl (\<lambda>n d. n * r + digit_value d) 0 ds"

definition itoa_text :: "nat \<Rightarrow> nat \<Rightarrow> u8 list" where
  "itoa_text r n = (if n = 0 then [of_char (CHR ''0'')] else rev (low_digits r n))"

lemma length_lookup [simp]: "length lookup = 37"
  by (simp add: lookup_def)

lemma lookup_distinct: "distinct lookup"
  by code_simp

lemma lookup_nonzero: "i < 36 \<Longrightarrow> lookup ! i \<noteq> 0"
proof -
  assume "i < 36"
  then have "lookup ! i \<noteq> lookup ! 36"
    using lookup_distinct by (simp add: nth_eq_iff_index_eq)
  moreover have "lookup ! 36 = 0" by code_simp
  ultimately show ?thesis by simp
qed

lemma lookup_0: "lookup ! 0 = of_char (CHR ''0'')"
  by code_simp

lemma digit_value_lookup: "i < 37 \<Longrightarrow> digit_value (lookup ! i) = i"
proof -
  assume i: "i < 37"
  have "takeWhile (\<lambda>c. c \<noteq> lookup ! i) lookup = take i lookup"
    by (rule takeWhile_eq_take_P_nth) (use i lookup_distinct in \<open>auto simp: nth_eq_iff_index_eq\<close>)
  then show ?thesis using i by (simp add: digit_value_def)
qed

lemma low_digits_length:
  "n < 2 ^ k \<Longrightarrow> length (low_digits r n) \<le> k"
proof (induction r n arbitrary: k rule: low_digits.induct)
  case (1 r n)
  show ?case
  proof (cases "n = 0 \<or> r < 2")
    case False
    then obtain j where k: "k = Suc j" using 1(2) by (cases k) auto
    have "n div r \<le> n div 2" using False by (intro div_le_mono2) auto
    then have "n div r < 2 ^ j" using 1(2) k by simp
    then show ?thesis using 1(1) [OF False] False k by (simp add: low_digits.simps [of r n])
  qed (simp add: low_digits.simps)
qed

lemma low_digits_set:
  "r \<le> 36 \<Longrightarrow> d \<in> set (low_digits r n) \<Longrightarrow> \<exists>i < r. d = lookup ! i"
proof (induction r n rule: low_digits.induct)
  case (1 r n)
  show ?case
  proof (cases "n = 0 \<or> r < 2")
    case True
    then show ?thesis using 1(3) by (simp add: low_digits.simps)
  next
    case False
    then have "d = lookup ! (n mod r) \<or> d \<in> set (low_digits r (n div r))"
      using 1(3) by (simp add: low_digits.simps [of r n])
    then show ?thesis using 1(1) [OF False 1(2)] False
      by (metis mod_less_divisor not_less_eq_eq not_numeral_le_zero gr0I le_zero_eq not_less)
  qed
qed

lemma low_digits_nonzero: "r \<le> 36 \<Longrightarrow> 0 \<notin> set (low_digits r n)"
  by (metis low_digits_set lookup_nonzero less_le_trans)

lemma read_number_snoc: "read_number r (ds @ [d]) = read_number r ds * r + digit_value d"
  by (simp add: read_number_def)

lemma read_low_digits:
  "2 \<le> r \<Longrightarrow> r \<le> 36 \<Longrightarrow> read_number r (rev (low_digits r n)) = n"
proof (induction r n rule: low_digits.induct)
  case (1 r n)
  show ?case
  proof (cases "n = 0")
    case True
    then show ?thesis by (simp add: low_digits.simps read_number_def)
  next
    case False
    then have c: "\<not> (n = 0 \<or> r < 2)" using 1(2) by simp
    have "n mod r < r" using 1(2) by simp
    then have "n mod r < 37" using 1(3) by linarith
    then show ?thesis
      using 1(1) [OF c 1(2,3)] c
      by (simp add: low_digits.simps [of r n] read_number_snoc digit_value_lookup)
  qed
qed

lemma itoa_loop_poke:
  assumes "2 \<le> unat radix" "unat radix \<le> 36"
  shows "itoa_loop m v p radix = Some (poke m p (low_digits (unat radix) (unat v)),
    p + of_nat (length (low_digits (unat radix) (unat v))))"
proof (induction "unat v" arbitrary: m v p rule: less_induct)
  case less
  have r0: "radix \<noteq> 0" using assms by auto
  show ?case
  proof (cases "v = 0")
    case True
    then show ?thesis by (simp add: itoa_loop.simps low_digits.simps)
  next
    case False
    then have v: "0 < unat v" "v > 0" by (auto simp: unat_gt_0 word_gt_0)
    have dm: "unat (v mod radix) = unat v mod unat radix" "unat (v div radix) = unat v div unat radix"
      by (simp_all add: unat_mod unat_div)
    have lt: "unat v mod unat radix < 37"
      using assms mod_less_divisor [of "unat radix" "unat v"] by linarith
    have "unat (v div radix) < unat v" using assms v by (simp add: dm)
    note IH = less [OF this]
    have ld: "low_digits (unat radix) (unat v)
        = lookup ! (unat v mod unat radix) # low_digits (unat radix) (unat v div unat radix)"
      using v assms by (subst low_digits.simps) auto
    have "itoa_loop m v p radix
        = itoa_loop (m(p := lookup ! (unat v mod unat radix))) (v div radix) (p + 1) radix"
      using v r0 lt by (subst itoa_loop.simps) (simp add: dm del: fun_upd_apply)
    then show ?thesis
      by (simp add: IH ld dm add.assoc del: fun_upd_apply)
  qed
qed

lemma itoa_text_props:
  assumes "2 \<le> r" "r \<le> 36" "n < 2 ^ 32"
  shows "0 \<notin> set (itoa_text r n)" "length (itoa_text r n) \<le> 32" "itoa_text r n \<noteq> []"
    "read_number r (itoa_text r n) = n"
proof -
  have z: "(of_char (CHR ''0'') :: u8) \<noteq> 0" "digit_value (of_char (CHR ''0'')) = 0"
    using lookup_nonzero [of 0] digit_value_lookup [of 0] by (simp_all add: lookup_0)
  show "0 \<notin> set (itoa_text r n)"
    using low_digits_nonzero [OF assms(2)] z by (simp add: itoa_text_def)
  show "length (itoa_text r n) \<le> 32"
    using low_digits_length [OF assms(3), of r] by (simp add: itoa_text_def)
  show "itoa_text r n \<noteq> []"
    using assms by (auto simp: itoa_text_def low_digits.simps)
  show "read_number r (itoa_text r n) = n"
    using read_low_digits [OF assms(1,2)] z by (simp add: itoa_text_def) (simp add: read_number_def)
qed

lemma cstring_poke:
  assumes "0 \<notin> set cs" "length cs < 2 ^ 32"
  shows "cstring (poke m p (cs @ [0])) p cs"
proof (rule cstringI)
  show "poke m p (cs @ [0]) (p + of_nat i) = cs ! i" if "i < length cs" for i
    using poke_at [of i "cs @ [0]" m p] that assms by (simp add: nth_append)
  show "poke m p (cs @ [0]) (p + of_nat (length cs)) = 0"
    using poke_at [of "length cs" "cs @ [0]" m p] assms by simp
qed (use assms in auto)

lemma itoa_poke:
  assumes "2 \<le> unat radix" "unat radix \<le> 36"
  shows "itoa m v buf radix = Some (poke m buf (itoa_text (unat radix) (unat v) @ [0]))"
proof (cases "v = 0")
  case True
  then show ?thesis by (simp add: itoa_def itoa_text_def del: fun_upd_apply)
next
  case False
  let ?ds = "low_digits (unat radix) (unat v)"
  have v: "unat v \<noteq> 0" using False by (simp add: unat_gt_0)
  have len: "length ?ds \<le> 32" by (rule low_digits_length) (rule unat_lt_2p32)
  have cs: "cstring (poke m buf (?ds @ [0])) buf ?ds"
    by (rule cstring_poke) (use len low_digits_nonzero [OF assms(2)] in auto)
  have "itoa m v buf radix = strrev (poke m buf (?ds @ [0])) buf"
    using False by (simp add: itoa_def itoa_loop_poke [OF assms] poke_snoc)
  also have "\<dots> = Some (poke (poke m buf (?ds @ [0])) buf (rev ?ds))"
    by (rule strrev_poke [OF cs]) (use len in simp)
  also have "poke (poke m buf (?ds @ [0])) buf (rev ?ds) = poke m buf (rev ?ds @ [0])"
  proof -
    have out: "\<not> within buf (length (rev ?ds)) (buf + of_nat (length ?ds))"
      using len by (simp add: within_offset)
    show ?thesis using out by (simp add: poke_snoc poke_poke poke_upd del: fun_upd_apply)
  qed
  finally show ?thesis using v by (simp add: itoa_text_def)
qed

end
