(* ===== verification/FileSystem.thy ===== *)
theory FileSystem
  imports LibString
begin

text \<open>
  The read-only file system of \<open>student-distrib/file_systems.c\<close> and the structures of
  \<open>file_systems.h\<close>. The image lies in memory from \<open>boot_block\<close> on, so a structure is an
  address and a field is a load at its offset: one boot block with the directory entries, then
  the inodes, then the data blocks, 4096 bytes each. Open files are the \<open>file_descriptor_t\<close>
  records of a process control block; a jump table entry names the C function it points to.
\<close>

section \<open>The image\<close>

definition num_directory_entries :: "mem \<Rightarrow> u32 \<Rightarrow> i32" where
  "num_directory_entries m bb = ld32 m bb"

definition num_inodes :: "mem \<Rightarrow> u32 \<Rightarrow> i32" where
  "num_inodes m bb = ld32 m (bb + 4)"

definition num_data_blocks :: "mem \<Rightarrow> u32 \<Rightarrow> i32" where
  "num_data_blocks m bb = ld32 m (bb + 8)"

text \<open>\<open>&boot_block->directory_entries[i]\<close>, and the fields of a \<open>dentry_t\<close>.\<close>

definition dentry_at :: "u32 \<Rightarrow> u32 \<Rightarrow> u32" where
  "dentry_at bb i = bb + 64 + 64 * i"

definition filetype :: "mem \<Rightarrow> u32 \<Rightarrow> i32" where
  "filetype m d = ld32 m (d + 32)"

definition inode_num :: "mem \<Rightarrow> u32 \<Rightarrow> i32" where
  "inode_num m d = ld32 m (d + 36)"

text \<open>\<open>(struct inode_t* )(boot_block + 1) + inode\<close>, and the fields of an \<open>inode_t\<close>.\<close>

definition inode_at :: "u32 \<Rightarrow> u32 \<Rightarrow> u32" where
  "inode_at bb inode = bb + 4096 + 4096 * inode"

definition inode_length :: "mem \<Rightarrow> u32 \<Rightarrow> i32" where
  "inode_length m ip = ld32 m ip"

definition data_block_num :: "mem \<Rightarrow> u32 \<Rightarrow> u32 \<Rightarrow> i32" where
  "data_block_num m ip j = ld32 m (ip + 4 + 4 * j)"

definition data_start :: "mem \<Rightarrow> u32 \<Rightarrow> u32" where
  "data_start m bb = bb + 4096 + 4096 * num_inodes m bb"

section \<open>Open files and process control blocks\<close>

text \<open>
  The functions a jump table can point to. \<open>Wild\<close> is a pointer nobody has set: the code never
  clears the table of a descriptor it allocates.
\<close>

datatype open_fn = Terminal_open | Rtc_open | Open_directory | Open_file | Open_wild
datatype close_fn = Terminal_close | Rtc_close | Close_directory | Close_file | Close_wild
datatype read_fn = Terminal_read | Rtc_read | Read_directory | Read_file | Read_wild
datatype write_fn = Terminal_write | Rtc_write | Write_directory | Write_file | Write_wild

record jtable =
  openFunc :: open_fn
  closeFunc :: close_fn
  readFunc :: read_fn
  writeFunc :: write_fn

record file_descriptor =
  jump_table :: jtable
  inode_check :: i32
  file_position :: i32
  flags :: i32

record PCB =
  active :: int
  parent :: nat
  id' :: nat
  scheduledEbp :: u32
  scheduledEsp :: u32
  ebp :: u32
  esp :: u32
  eip :: u32
  esp_program_start :: u32
  fdArray :: "file_descriptor list"
  openIndexes :: "i32 list"
  terminal :: int

abbreviation (input) full :: i32 where "full \<equiv> 1"
abbreviation (input) empty :: i32 where "empty \<equiv> 0"

section \<open>Directory lookup\<close>

definition read_dentry_by_index :: "mem \<Rightarrow> u32 \<Rightarrow> u32 \<Rightarrow> u32 \<Rightarrow> (mem \<times> i32) option" where
  "read_dentry_by_index m bb index dentry =
     (if index \<ge> num_directory_entries m bb then Some (m, -1)
      else do {
        n \<leftarrow> strlen m (dentry_at bb index);
        let m = strncpy m dentry (dentry_at bb index) n;
        let m = st32 m (dentry + 32) (filetype m (dentry_at bb index));
        let m = st32 m (dentry + 36) (inode_num m (dentry_at bb index));
        Some (m, 0)
      })"

definition find_dentry :: "mem \<Rightarrow> u32 \<Rightarrow> u32 \<Rightarrow> int" where
  "find_dentry m bb fname =
     fold (\<lambda>i index. if strncmp m fname (dentry_at bb (of_nat i)) 32 = 0 then int i else index)
       [0..<nat (sint (num_directory_entries m bb))] (-1)"

definition read_dentry_by_name :: "mem \<Rightarrow> u32 \<Rightarrow> u32 \<Rightarrow> u32 \<Rightarrow> (mem \<times> i32) option" where
  "read_dentry_by_name m bb fname dentry = do {
     n \<leftarrow> strlen m fname;
     if n > 32 then Some (m, -1)
     else let index = find_dentry m bb fname
       in if index = -1 then Some (m, -1)
          else read_dentry_by_index m bb (of_int index) dentry
   }"

section \<open>Reading data blocks\<close>

function read_data_loop ::
  "mem \<Rightarrow> u32 \<Rightarrow> u32 \<Rightarrow> u32 \<Rightarrow> u32 \<Rightarrow> u32 \<Rightarrow> u32 \<Rightarrow> u32 \<Rightarrow> u32 \<Rightarrow> u32 \<Rightarrow> i32 \<Rightarrow> mem \<times> i32" where
  "read_data_loop m inodeCurr dataStart offset buf len
     i indexOf_nums dataBlockNum addressInBlock bytesread =
   (if i < len then
      if addressInBlock = 4096 \<and> bytesread > inode_length m inodeCurr - offset
      then (m, bytesread)
      else
        (let (indexOf_nums, dataBlockNum, addressInBlock) =
               (if addressInBlock = 4096
                then (indexOf_nums + 1, data_block_num m inodeCurr (indexOf_nums + 1), 0)
                else (indexOf_nums, dataBlockNum, addressInBlock));
             m = memcpy m (buf + i) (dataStart + 4096 * dataBlockNum + addressInBlock) 1
         in read_data_loop m inodeCurr dataStart offset buf len
              (i + 1) indexOf_nums dataBlockNum (addressInBlock + 1) (bytesread + 1))
    else (m, bytesread))"
  by pat_completeness auto
termination
  by (relation "measure (\<lambda>(m, ip, ds, off, buf, len, i, idx, dbn, aib, br). unat len - unat i)")
    (auto simp: unat_Suc32 word_less_nat_alt)

declare read_data_loop.simps [simp del]

definition read_data :: "mem \<Rightarrow> u32 \<Rightarrow> u32 \<Rightarrow> u32 \<Rightarrow> u32 \<Rightarrow> u32 \<Rightarrow> mem \<times> i32" where
  "read_data m bb inode offset buf len =
     (let inodeCurr = inode_at bb inode; dataStart = data_start m bb in
      if inode \<ge> num_inodes m bb then (m, -1)
      else if offset > inode_length m inodeCurr then (m, 0)
      else
        (let indexOf_nums = offset div 4096;
             addressInBlock = offset mod 4096;
             dataBlockNum = data_block_num m inodeCurr indexOf_nums
         in read_data_loop m inodeCurr dataStart offset buf len
              0 indexOf_nums dataBlockNum addressInBlock 0))"

section \<open>File and directory operations\<close>

definition open_directory :: i32 where "open_directory = 0"
definition close_directory :: i32 where "close_directory = 0"
definition write_directory :: i32 where "write_directory = -1"
definition open_file :: i32 where "open_file = 0"
definition close_file :: i32 where "close_file = 0"
definition write_file :: i32 where "write_file = -1"

definition read_file ::
  "mem \<Rightarrow> u32 \<Rightarrow> file_descriptor \<Rightarrow> u32 \<Rightarrow> i32 \<Rightarrow> mem \<times> file_descriptor \<times> i32" where
  "read_file m bb f buf nbytes =
     (if buf = 0 then (m, f, -1)
      else if flags f = full then
        (let len = inode_length m (inode_at bb (inode_check f));
             nbytes = (if sint (file_position f + nbytes) \<ge> sint len
                       then len - file_position f else nbytes);
             (m, out_data) = read_data m bb (inode_check f) (file_position f) buf nbytes
         in if out_data = -1 then (m, f, -1)
            else (m, f\<lparr>file_position := file_position f + out_data\<rparr>, out_data))
      else (m, f, -1))"

text \<open>
  The copying loop of \<open>read_directory\<close>; its bound \<open>strlen(filename)\<close> is evaluated again
  before every round.
\<close>

partial_function (option) read_directory_loop ::
  "mem \<Rightarrow> u32 \<Rightarrow> u32 \<Rightarrow> u32 \<Rightarrow> i32 \<Rightarrow> (mem \<times> i32) option" where
  "read_directory_loop m name buf j charwritten = do {
     n \<leftarrow> strlen m name;
     if j < n then
       if sint j < 32
       then read_directory_loop (m(buf + j := m (name + j))) name buf (j + 1) (charwritten + 1)
       else read_directory_loop m name buf (j + 1) charwritten
     else Some (m, charwritten)
   }"

definition read_directory ::
  "mem \<Rightarrow> u32 \<Rightarrow> file_descriptor \<Rightarrow> u32 \<Rightarrow> i32 \<Rightarrow> (mem \<times> file_descriptor \<times> i32) option" where
  "read_directory m bb f buf nbytes =
     (if flags f = full then
        if sint (file_position f) < 0
          \<or> sint (file_position f) \<ge> sint (num_directory_entries m bb)
        then Some (m, f\<lparr>file_position := 0\<rparr>, 0)
        else do {
          (m, charwritten) \<leftarrow> read_directory_loop m (dentry_at bb (file_position f)) buf 0 0;
          Some (m, f\<lparr>file_position := file_position f + 1\<rparr>, charwritten)
        }
      else Some (m, f, -1))"

section \<open>Well-formed images\<close>

definition fs_size :: "mem \<Rightarrow> u32 \<Rightarrow> nat" where
  "fs_size m bb = 4096 * (1 + unat (num_inodes m bb) + unat (num_data_blocks m bb))"

text \<open>
  What the tool that writes images promises: the directory fits the boot block, the blocks fit
  the address space, a name is at most 32 bytes, a file type is 0, 1 or 2, an inode's
  length fits its 1023 block numbers, and every block number in use is in range.
\<close>

definition inode_ok :: "mem \<Rightarrow> u32 \<Rightarrow> u32 \<Rightarrow> bool" where
  "inode_ok m bb inode \<longleftrightarrow>
     unat (inode_length m (inode_at bb inode)) \<le> 1023 * 4096
     \<and> (\<forall>j < 1023. 4096 * j < unat (inode_length m (inode_at bb inode)) \<longrightarrow>
            unat (data_block_num m (inode_at bb inode) (of_nat j)) < unat (num_data_blocks m bb))"

definition fs_ok :: "mem \<Rightarrow> u32 \<Rightarrow> bool" where
  "fs_ok m bb \<longleftrightarrow>
     unat (num_directory_entries m bb) \<le> 63
     \<and> fs_size m bb \<le> 2 ^ 32
     \<and> (\<forall>i < unat (num_directory_entries m bb). filetype m (dentry_at bb (of_nat i)) \<in> {0, 1, 2})"

text \<open>The \<open>k\<close>-th byte of a file, and a stretch of it.\<close>

definition file_byte_at :: "mem \<Rightarrow> u32 \<Rightarrow> u32 \<Rightarrow> nat \<Rightarrow> u32" where
  "file_byte_at m bb inode k =
     data_start m bb + 4096 * data_block_num m (inode_at bb inode) (of_nat (k div 4096))
       + of_nat (k mod 4096)"

definition file_bytes :: "mem \<Rightarrow> u32 \<Rightarrow> u32 \<Rightarrow> nat \<Rightarrow> nat \<Rightarrow> u8 list" where
  "file_bytes m bb inode off n = map (\<lambda>k. m (file_byte_at m bb inode (off + k))) [0..<n]"

definition file_length :: "mem \<Rightarrow> u32 \<Rightarrow> u32 \<Rightarrow> nat" where
  "file_length m bb inode = unat (inode_length m (inode_at bb inode))"

definition file_contents :: "mem \<Rightarrow> u32 \<Rightarrow> u32 \<Rightarrow> u8 list" where
  "file_contents m bb inode = file_bytes m bb inode 0 (file_length m bb inode)"

section \<open>Addresses inside the image\<close>

lemma inode_within:
  assumes "fs_size m bb \<le> 2 ^ 32" "inode < num_inodes m bb" "k < 4096"
  shows "within bb (fs_size m bb) (inode_at bb inode + of_nat k)"
proof -
  let ?o = "4096 + 4096 * unat inode + k"
  have a: "inode_at bb inode + of_nat k = bb + of_nat ?o" by (simp add: inode_at_def)
  have "?o < fs_size m bb"
    using assms(2,3) by (simp add: fs_size_def word_less_nat_alt)
  then show ?thesis unfolding a using assms(1) by (subst within_offset) auto
qed

lemma inode_okD:
  assumes "inode_ok m bb inode" "k < file_length m bb inode"
  shows "unat (data_block_num m (inode_at bb inode) (of_nat (k div 4096))) < unat (num_data_blocks m bb)"
proof -
  have "k div 4096 < 1023" "4096 * (k div 4096) < file_length m bb inode"
    using assms by (auto simp: inode_ok_def file_length_def)
  then show ?thesis using assms(1) by (auto simp: inode_ok_def file_length_def)
qed

lemma file_byte_within:
  assumes "fs_size m bb \<le> 2 ^ 32" "inode_ok m bb inode" "k < file_length m bb inode"
  shows "within bb (fs_size m bb) (file_byte_at m bb inode k)"
proof -
  let ?d = "data_block_num m (inode_at bb inode) (of_nat (k div 4096))"
  let ?o = "4096 + 4096 * unat (num_inodes m bb) + 4096 * unat ?d + k mod 4096"
  have a: "file_byte_at m bb inode k = bb + of_nat ?o"
    by (simp add: file_byte_at_def data_start_def)
  have "?o < fs_size m bb"
    using inode_okD [OF assms(2,3)] mod_less_divisor [of 4096 k] by (simp add: fs_size_def)
  then show ?thesis unfolding a using assms(1) by (subst within_offset) auto
qed

lemma file_bytes_length [simp]: "length (file_bytes m bb inode off n) = n"
  by (simp add: file_bytes_def)

lemma file_bytes_Suc:
  "file_bytes m bb inode off (Suc n) = file_bytes m bb inode off n @ [m (file_byte_at m bb inode (off + n))]"
  by (simp add: file_bytes_def)

lemma file_bytes_0 [simp]: "file_bytes m bb inode off 0 = []"
  by (simp add: file_bytes_def)

lemma file_contents_length [simp]: "length (file_contents m bb inode) = file_length m bb inode"
  by (simp add: file_contents_def)

lemma file_bytes_contents:
  "off + n \<le> file_length m bb inode \<Longrightarrow>
   file_bytes m bb inode off n = take n (drop off (file_contents m bb inode))"
  by (auto intro!: nth_equalityI simp: file_contents_def file_bytes_def)

text \<open>Writing outside the image changes nothing a reader of the image sees.\<close>

definition same_image :: "mem \<Rightarrow> mem \<Rightarrow> u32 \<Rightarrow> bool" where
  "same_image m m' bb \<longleftrightarrow> (\<forall>a. within bb (fs_size m bb) a \<longrightarrow> m' a = m a)"

lemma fs_size_ge: "4096 \<le> fs_size m bb"
  by (simp add: fs_size_def)

lemma ld32_image:
  assumes "same_image m m' bb" "k + 4 \<le> fs_size m bb" "fs_size m bb \<le> 2 ^ 32"
  shows "ld32 m' (bb + of_nat k) = ld32 m (bb + of_nat k)"
proof (rule ld32_cong)
  fix j :: nat assume "j < 4"
  then have "within bb (fs_size m bb) (bb + of_nat (k + j))"
    using assms by (subst within_offset) auto
  then show "m' (bb + of_nat k + of_nat j) = m (bb + of_nat k + of_nat j)"
    using assms(1) by (simp add: same_image_def add.assoc)
qed

lemma same_image_header:
  assumes "same_image m m' bb" "fs_size m bb \<le> 2 ^ 32"
  shows "num_directory_entries m' bb = num_directory_entries m bb"
    "num_inodes m' bb = num_inodes m bb" "num_data_blocks m' bb = num_data_blocks m bb"
    "fs_size m' bb = fs_size m bb" "data_start m' bb = data_start m bb"
  using ld32_image [OF assms(1) _ assms(2), of 0] ld32_image [OF assms(1) _ assms(2), of 4]
    ld32_image [OF assms(1) _ assms(2), of 8] fs_size_ge [of m bb]
  by (simp_all add: num_directory_entries_def num_inodes_def num_data_blocks_def fs_size_def
      data_start_def)

lemma same_image_inode:
  assumes "same_image m m' bb" "fs_size m bb \<le> 2 ^ 32" "inode < num_inodes m bb"
  shows "inode_length m' (inode_at bb inode) = inode_length m (inode_at bb inode)"
    "j < 1023 \<Longrightarrow> data_block_num m' (inode_at bb inode) (of_nat j)
       = data_block_num m (inode_at bb inode) (of_nat j)"
proof -
  let ?o = "4096 + 4096 * unat inode"
  have a: "inode_at bb inode = bb + of_nat ?o" by (simp add: inode_at_def)
  have o: "?o + 4096 \<le> fs_size m bb"
    using assms(3) by (simp add: fs_size_def word_less_nat_alt)
  show "inode_length m' (inode_at bb inode) = inode_length m (inode_at bb inode)"
    unfolding inode_length_def a using o by (intro ld32_image assms) auto
  assume j: "j < 1023"
  have b: "inode_at bb inode + 4 + 4 * of_nat j = bb + of_nat (?o + 4 + 4 * j)"
    by (simp add: inode_at_def)
  show "data_block_num m' (inode_at bb inode) (of_nat j)
      = data_block_num m (inode_at bb inode) (of_nat j)"
    unfolding data_block_num_def b using o j by (intro ld32_image assms) auto
qed

lemma same_image_bytes:
  assumes "same_image m m' bb" "fs_size m bb \<le> 2 ^ 32" "inode < num_inodes m bb"
    "inode_ok m bb inode" "k < file_length m bb inode"
  shows "file_byte_at m' bb inode k = file_byte_at m bb inode k"
    "m' (file_byte_at m bb inode k) = m (file_byte_at m bb inode k)"
proof -
  have "k div 4096 < 1023"
    using assms(4,5) by (auto simp: inode_ok_def file_length_def)
  then show "file_byte_at m' bb inode k = file_byte_at m bb inode k"
    using same_image_inode [OF assms(1-3)] same_image_header [OF assms(1,2)]
    by (simp add: file_byte_at_def)
  show "m' (file_byte_at m bb inode k) = m (file_byte_at m bb inode k)"
    using assms(1) file_byte_within [OF assms(2,4,5)] by (simp add: same_image_def)
qed

lemma apart_mono: "apart p n q k \<Longrightarrow> n' \<le> n \<Longrightarrow> apart p n' q k"
  unfolding apart_def using within_mono by blast

lemma same_image_poke:
  "apart d (length xs) bb (fs_size m bb) \<Longrightarrow> same_image m (poke m d xs) bb"
  unfolding same_image_def apart_def using poke_other by blast

section \<open>read_data\<close>

text \<open>One step of the loop, as long as the byte to copy lies inside the file.\<close>

lemma read_data_loop_step:
  assumes fs: "fs_size m bb \<le> 2 ^ 32" "inode < num_inodes m bb" "inode_ok m bb inode"
    and ap: "apart buf i bb (fs_size m bb)"
    and pos: "4096 * idx + aib = off + i" "aib \<le> 4096"
    and i: "off + i < file_length m bb inode" "of_nat i < len"
  shows "\<exists>idx' aib'. read_data_loop (poke m buf (file_bytes m bb inode off i)) (inode_at bb inode)
      (data_start m bb) (of_nat off) buf len (of_nat i) (of_nat idx)
      (data_block_num m (inode_at bb inode) (of_nat idx)) (of_nat aib) (of_nat i)
    = read_data_loop (poke m buf (file_bytes m bb inode off (Suc i))) (inode_at bb inode)
      (data_start m bb) (of_nat off) buf len (of_nat (Suc i)) (of_nat idx')
      (data_block_num m (inode_at bb inode) (of_nat idx')) (of_nat aib') (of_nat (Suc i))
    \<and> 4096 * idx' + aib' = off + Suc i \<and> aib' \<le> 4096"
proof -
  let ?ip = "inode_at bb inode"
  let ?m = "\<lambda>i. poke m buf (file_bytes m bb inode off i)"
  have flen: "file_length m bb inode \<le> 1023 * 4096"
    using fs(3) by (simp add: inode_ok_def file_length_def)
  have i32: "i < 2 ^ 32" "off < 2 ^ 32" using i flen by auto
  have sim: "same_image m (?m i) bb" using ap by (intro same_image_poke) simp
  note same_ip = same_image_inode [OF sim fs(1,2)]
  have go: "\<not> (of_nat aib = (4096 :: u32) \<and> of_nat i > inode_length (?m i) ?ip - of_nat off)"
  proof -
    have "of_nat i \<le> inode_length m ?ip - of_nat off"
      using i i32 flen by (simp add: word_le_nat_alt unat_sub_if' unat_of_nat32 file_length_def)
    then show ?thesis using same_ip(1) by (simp add: not_less)
  qed
  define idx' where "idx' = (if aib = 4096 then idx + 1 else idx)"
  define aib' where "aib' = (if aib = 4096 then 0 else aib)"
  have p': "4096 * idx' + aib' = off + i" "aib' < 4096"
    using pos by (auto simp: idx'_def aib'_def)
  have divmod: "(off + i) div 4096 = idx'" "(off + i) mod 4096 = aib'"
    by (simp_all add: p'(1) [symmetric] p'(2))
  have idx_lt: "idx' < 1023" using divmod i flen by auto
  have a4096: "of_nat aib = (4096 :: u32) \<longleftrightarrow> aib = 4096"
    using of_nat_inj32 [of aib 4096] pos(2) by simp
  have block: "(if of_nat aib = (4096 :: u32)
      then (of_nat idx + 1, data_block_num (?m i) ?ip (of_nat idx + 1), 0)
      else (of_nat idx, data_block_num m ?ip (of_nat idx), of_nat aib))
    = (of_nat idx', data_block_num m ?ip (of_nat idx'), of_nat aib')"
    using same_ip(2) [of idx'] idx_lt by (auto simp: a4096 idx'_def aib'_def add.commute)
  have src: "data_start m bb + 4096 * data_block_num m ?ip (of_nat idx') + of_nat aib'
      = file_byte_at m bb inode (off + i)"
    by (simp add: file_byte_at_def divmod)
  have mem: "memcpy (?m i) (buf + of_nat i) (file_byte_at m bb inode (off + i)) 1 = ?m (Suc i)"
    using same_image_bytes(2) [OF sim fs i(1)]
    by (simp only: memcpy_one file_bytes_Suc poke_snoc file_bytes_length)
  have suc: "of_nat (Suc k) = (of_nat k + 1 :: u32)" for k by simp
  have "read_data_loop (?m i) ?ip (data_start m bb) (of_nat off) buf len (of_nat i)
      (of_nat idx) (data_block_num m ?ip (of_nat idx)) (of_nat aib) (of_nat i)
    = read_data_loop (?m (Suc i)) ?ip (data_start m bb) (of_nat off) buf len
        (of_nat (Suc i)) (of_nat idx') (data_block_num m ?ip (of_nat idx')) (of_nat (Suc aib'))
        (of_nat (Suc i))"
    using i(2) go
    by (subst read_data_loop.simps)
      (simp only: if_True if_False Let_def block prod.case src mem suc)
  moreover have "4096 * idx' + Suc aib' = off + Suc i" "Suc aib' \<le> 4096" using p' by simp_all
  ultimately show ?thesis by blast
qed

text \<open>The first \<open>n\<close> steps, for a request of at least \<open>n\<close> bytes.\<close>

lemma read_data_loop_prefix:
  assumes "fs_size m bb \<le> 2 ^ 32" "inode < num_inodes m bb" "inode_ok m bb inode"
    and "apart buf n bb (fs_size m bb)" "off + n \<le> file_length m bb inode" "n \<le> unat len"
    and "4096 * idx + aib = off" "aib \<le> 4096"
  shows "\<exists>idx' aib'. read_data_loop m (inode_at bb inode) (data_start m bb) (of_nat off) buf len 0
      (of_nat idx) (data_block_num m (inode_at bb inode) (of_nat idx)) (of_nat aib) 0
    = read_data_loop (poke m buf (file_bytes m bb inode off n)) (inode_at bb inode)
      (data_start m bb) (of_nat off) buf len (of_nat n) (of_nat idx')
      (data_block_num m (inode_at bb inode) (of_nat idx')) (of_nat aib') (of_nat n)
    \<and> 4096 * idx' + aib' = off + n \<and> aib' \<le> 4096"
  using assms(4-6)
proof (induction n)
  case 0
  then show ?case using assms(7,8) by (intro exI [of _ idx] exI [of _ aib]) simp
next
  case (Suc n)
  have "n < 2 ^ 32" using Suc.prems(3) unat_lt_2p32 [of len] by linarith
  then have lt: "of_nat n < len" using Suc.prems(3) by (simp add: word_less_nat_alt unat_of_nat32)
  have ap: "apart buf n bb (fs_size m bb)" using Suc.prems(1) apart_mono [of buf "Suc n"] by simp
  then obtain idx' aib' where IH: "read_data_loop m (inode_at bb inode) (data_start m bb) (of_nat off) buf len 0
      (of_nat idx) (data_block_num m (inode_at bb inode) (of_nat idx)) (of_nat aib) 0
    = read_data_loop (poke m buf (file_bytes m bb inode off n)) (inode_at bb inode)
      (data_start m bb) (of_nat off) buf len (of_nat n) (of_nat idx')
      (data_block_num m (inode_at bb inode) (of_nat idx')) (of_nat aib') (of_nat n)"
    "4096 * idx' + aib' = off + n" "aib' \<le> 4096"
    using Suc by auto
  show ?case
    unfolding IH(1) by (rule read_data_loop_step [OF assms(1-3) ap IH(2,3) _ lt]) (use Suc.prems(2) in simp)
qed

lemma read_data_unfold:
  assumes "inode < num_inodes m bb" "unat offset \<le> file_length m bb inode"
  shows "read_data m bb inode offset buf len
      = read_data_loop m (inode_at bb inode) (data_start m bb) (of_nat (unat offset)) buf len 0
          (of_nat (unat offset div 4096))
          (data_block_num m (inode_at bb inode) (of_nat (unat offset div 4096)))
          (of_nat (unat offset mod 4096)) 0"
proof -
  have "of_nat (unat offset div 4096) = offset div 4096" "of_nat (unat offset mod 4096) = offset mod 4096"
    by (simp_all add: word_arith_nat_div word_arith_nat_mod)
  then show ?thesis
    using assms by (simp add: read_data_def Let_def file_length_def word_less_nat_alt word_le_nat_alt)
qed

lemma read_data_correct:
  assumes "fs_size m bb \<le> 2 ^ 32" "inode < num_inodes m bb" "inode_ok m bb inode"
    and "apart buf (unat len) bb (fs_size m bb)"
    and "unat offset + unat len \<le> file_length m bb inode"
  shows "read_data m bb inode offset buf len
    = (poke m buf (file_bytes m bb inode (unat offset) (unat len)), len)"
proof -
  have "4096 * (unat offset div 4096) + unat offset mod 4096 = unat offset" "unat offset mod 4096 \<le> 4096"
    using mod_less_divisor [of 4096 "unat offset"] by simp_all
  from read_data_loop_prefix [OF assms order.refl this] show ?thesis
    using read_data_unfold [OF assms(2)] assms(5) read_data_loop.simps [of _ _ _ _ _ len len]
    by auto
qed

lemma read_data_returns:
  assumes "inode < num_inodes m bb" "\<not> offset > inode_length m (inode_at bb inode)"
  shows "snd (read_data m bb inode offset buf 0) = 0"
  using assms by (simp add: read_data_def Let_def read_data_loop.simps)

section \<open>read_file\<close>

text \<open>
  A descriptor that is open on a file, its position inside it, and a request whose end does not
  overflow an \<open>int32_t\<close>.
\<close>

definition reading :: "mem \<Rightarrow> u32 \<Rightarrow> file_descriptor \<Rightarrow> bool" where
  "reading m bb f \<longleftrightarrow> flags f = full \<and> inode_check f < num_inodes m bb
     \<and> inode_ok m bb (inode_check f)
     \<and> unat (file_position f) \<le> file_length m bb (inode_check f)"

definition remaining :: "mem \<Rightarrow> u32 \<Rightarrow> file_descriptor \<Rightarrow> u8 list" where
  "remaining m bb f = drop (unat (file_position f)) (file_contents m bb (inode_check f))"

lemma read_file_correct:
  assumes "fs_size m bb \<le> 2 ^ 32" "reading m bb f" "buf \<noteq> 0"
    and n: "unat (file_position f) + unat nbytes < 2 ^ 31"
    and k: "k = min (unat nbytes) (length (remaining m bb f))"
    and ap: "apart buf k bb (fs_size m bb)"
  shows "read_file m bb f buf nbytes
    = (poke m buf (take k (remaining m bb f)),
       f\<lparr>file_position := file_position f + of_nat k\<rparr>, of_nat k)"
proof -
  let ?pos = "file_position f" and ?len = "inode_length m (inode_at bb (inode_check f))"
  have r: "flags f = full" "inode_check f < num_inodes m bb" "inode_ok m bb (inode_check f)"
    "unat ?pos \<le> unat ?len"
    using assms(2) by (auto simp: reading_def file_length_def)
  have flen: "unat ?len \<le> 1023 * 4096" using r(3) by (simp add: inode_ok_def)
  have rem: "length (remaining m bb f) = unat ?len - unat ?pos"
    by (simp add: remaining_def file_length_def)
  have s: "sint ?len = int (unat ?len)" using flen by (intro sint_unat32) simp
  have add: "unat (?pos + nbytes) = unat ?pos + unat nbytes" using n by (simp add: unat_add_lem [symmetric])
  have s': "sint (?pos + nbytes) = int (unat ?pos + unat nbytes)"
    using n add by (simp add: sint_unat32)
  define n' where "n' = (if sint (?pos + nbytes) \<ge> sint ?len then ?len - ?pos else nbytes)"
  have n'k: "unat n' = k"
  proof (cases "unat ?len \<le> unat ?pos + unat nbytes")
    case True
    then have "sint ?len \<le> sint (?pos + nbytes)" unfolding s s' by linarith
    then show ?thesis using r(4) True by (simp add: n'_def k rem unat_sub_if')
  next
    case False
    then have "\<not> sint ?len \<le> sint (?pos + nbytes)" unfolding s s' by linarith
    then show ?thesis using False by (simp add: n'_def k rem)
  qed
  have k31: "k < 2 ^ 31" using k rem flen by simp
  have n'_eq: "n' = of_nat k" using n'k by (metis of_nat_unat32)
  have "read_data m bb (inode_check f) ?pos buf n'
      = (poke m buf (file_bytes m bb (inode_check f) (unat ?pos) (unat n')), n')"
    using assms(1) r ap k rem
    by (intro read_data_correct) (auto simp: n'k file_length_def)
  also have "file_bytes m bb (inode_check f) (unat ?pos) (unat n') = take k (remaining m bb f)"
    using k rem r(4) by (subst file_bytes_contents) (auto simp: n'k file_length_def remaining_def)
  finally have rd: "read_data m bb (inode_check f) ?pos buf n'
      = (poke m buf (take k (remaining m bb f)), n')" .
  have "n' \<noteq> -1" using k31 by (simp add: n'_eq of_nat_neq_m1)
  then show ?thesis
    using assms(3) r(1) rd by (simp add: read_file_def Let_def n'_def [symmetric]) (simp add: n'_eq)
qed

lemma reading_advance:
  assumes "reading m bb f" "k \<le> length (remaining m bb f)"
  shows "reading m bb (f\<lparr>file_position := file_position f + of_nat k\<rparr>)"
    "remaining m bb (f\<lparr>file_position := file_position f + of_nat k\<rparr>) = drop k (remaining m bb f)"
    "unat (file_position f + of_nat k) = unat (file_position f) + k"
proof -
  have flen: "file_length m bb (inode_check f) \<le> 1023 * 4096"
    using assms(1) by (simp add: reading_def inode_ok_def file_length_def)
  have le: "unat (file_position f) + k \<le> file_length m bb (inode_check f)"
    using assms by (auto simp: reading_def remaining_def)
  show u: "unat (file_position f + of_nat k) = unat (file_position f) + k"
    using le flen by (simp add: unat_word_ariths unat_of_nat32)
  show "reading m bb (f\<lparr>file_position := file_position f + of_nat k\<rparr>)"
    using assms(1) u le by (simp add: reading_def)
  show "remaining m bb (f\<lparr>file_position := file_position f + of_nat k\<rparr>) = drop k (remaining m bb f)"
    by (simp add: remaining_def u add.commute)
qed

lemma same_image_reading:
  assumes "same_image m m' bb" "fs_size m bb \<le> 2 ^ 32" "reading m bb f"
  shows "reading m' bb f" "remaining m' bb f = remaining m bb f" "fs_size m' bb = fs_size m bb"
proof -
  have f: "inode_check f < num_inodes m bb" "inode_ok m bb (inode_check f)"
    using assms(3) by (auto simp: reading_def)
  have h: "num_inodes m' bb = num_inodes m bb" "num_data_blocks m' bb = num_data_blocks m bb"
    "inode_length m' (inode_at bb (inode_check f)) = inode_length m (inode_at bb (inode_check f))"
    using same_image_header [OF assms(1,2)] same_image_inode [OF assms(1,2) f(1)] by simp_all
  then have fl: "file_length m' bb (inode_check f) = file_length m bb (inode_check f)"
    by (simp add: file_length_def)
  have "inode_ok m' bb (inode_check f)"
    using f(2) h same_image_inode(2) [OF assms(1,2) f(1)] by (simp add: inode_ok_def)
  then show "reading m' bb f" using assms(3) h fl by (simp add: reading_def)
  have "file_contents m' bb (inode_check f) = file_contents m bb (inode_check f)"
    using same_image_bytes [OF assms(1,2) f]
    by (intro nth_equalityI) (auto simp: fl file_contents_def file_bytes_def)
  then show "remaining m' bb f = remaining m bb f" by (simp add: remaining_def)
  show "fs_size m' bb = fs_size m bb" by (rule same_image_header [OF assms(1,2)])
qed

section \<open>Looking a name up\<close>

definition entry_name :: "mem \<Rightarrow> u32 \<Rightarrow> nat \<Rightarrow> u8 list" where
  "entry_name m bb i = cut m (dentry_at bb (of_nat i)) 32"

definition entry_count :: "mem \<Rightarrow> u32 \<Rightarrow> nat" where
  "entry_count m bb = unat (num_directory_entries m bb)"

text \<open>Entry \<open>i\<close> is the last one that has the name.\<close>

definition last_named :: "mem \<Rightarrow> u32 \<Rightarrow> u8 list \<Rightarrow> nat \<Rightarrow> bool" where
  "last_named m bb cs i \<longleftrightarrow> i < entry_count m bb \<and> entry_name m bb i = cs
     \<and> (\<forall>j < entry_count m bb. i < j \<longrightarrow> entry_name m bb j \<noteq> cs)"

lemma fold_last_match:
  "let r = fold (\<lambda>i idx. if P i then int i else idx) [0..<n] (-1) in
   (r = -1 \<and> (\<forall>i < n. \<not> P i)) \<or> (\<exists>i < n. r = int i \<and> P i \<and> (\<forall>j < n. i < j \<longrightarrow> \<not> P j))"
proof (induction n)
  case (Suc n)
  then show ?case by (auto simp: Let_def less_Suc_eq)
qed simp

lemma fs_ok_count: "fs_ok m bb \<Longrightarrow> nat (sint (num_directory_entries m bb)) = entry_count m bb"
  by (simp add: fs_ok_def entry_count_def sint_unat32)

lemma find_dentry_cases:
  assumes "fs_ok m bb" "cstring m fname cs" "length cs \<le> 32"
  shows "(find_dentry m bb fname = -1 \<and> (\<forall>i < entry_count m bb. entry_name m bb i \<noteq> cs))
    \<or> (\<exists>i. find_dentry m bb fname = int i \<and> last_named m bb cs i)"
proof -
  have "strncmp m fname (dentry_at bb (of_nat i)) 32 = 0 \<longleftrightarrow> entry_name m bb i = cs" for i
    using cut_cstring [OF assms(2), of 32] assms(3) by (auto simp: strncmp_zero entry_name_def)
  then show ?thesis
    using fold_last_match [of "\<lambda>i. entry_name m bb i = cs" "entry_count m bb"]
    by (auto simp: find_dentry_def fs_ok_count [OF assms(1)] last_named_def Let_def)
qed

lemma dentry_within:
  assumes "fs_ok m bb" "i < entry_count m bb" "k < 64"
  shows "within bb (fs_size m bb) (dentry_at bb (of_nat i) + of_nat k)"
proof -
  let ?o = "64 + 64 * i + k"
  have a: "dentry_at bb (of_nat i) + of_nat k = bb + of_nat ?o" by (simp add: dentry_at_def)
  have "?o < 4096" using assms by (simp add: fs_ok_def entry_count_def)
  then show ?thesis
    unfolding a using assms(1) fs_size_ge [of m bb]
    by (subst within_offset) (auto simp: fs_ok_def)
qed

text \<open>
  A name of full length has no terminator, so as a C string it runs into the file type, whose
  second byte is zero: it ends after 33 bytes at the latest.
\<close>

lemma dentry_cstring:
  assumes "fs_ok m bb" "i < entry_count m bb"
  obtains cs where "cstring m (dentry_at bb (of_nat i)) cs" "length cs \<le> 33"
    "entry_name m bb i = take 32 cs"
proof -
  let ?d = "dentry_at bb (of_nat i)"
  have "filetype m ?d \<in> {0, 1, 2}" using assms by (auto simp: fs_ok_def entry_count_def)
  then have "drop_bit 8 (filetype m ?d) = 0" by auto
  then have "m (?d + 33) = 0"
    using ld32_bytes(2) [of m "?d + 32"] by (simp add: filetype_def add.assoc)
  from cstring_exists [where m = m and s = ?d and n = 33, OF this] obtain cs where "cstring m ?d cs" "length cs \<le> 33" by auto
  with that show ?thesis by (metis cut_cstring entry_name_def)
qed

text \<open>What a successful lookup leaves in the caller's \<open>dentry_t\<close>.\<close>

definition dentry_copied :: "mem \<Rightarrow> mem \<Rightarrow> u32 \<Rightarrow> nat \<Rightarrow> u32 \<Rightarrow> bool" where
  "dentry_copied m m' bb i dp \<longleftrightarrow>
     bytes_at m' dp (length (entry_name m bb i)) = entry_name m bb i
     \<and> (\<forall>k. length (entry_name m bb i) \<le> k \<and> k < 32 \<longrightarrow> m' (dp + of_nat k) = m (dp + of_nat k))
     \<and> filetype m' dp = filetype m (dentry_at bb (of_nat i))
     \<and> inode_num m' dp = inode_num m (dentry_at bb (of_nat i))
     \<and> (\<forall>a. \<not> within dp 40 a \<longrightarrow> m' a = m a)"

lemma not_within_shift:
  "j < k \<Longrightarrow> k + n \<le> 2 ^ 32 \<Longrightarrow> \<not> within (p + of_nat k) n (p + of_nat j)"
proof
  assume *: "j < k" "k + n \<le> 2 ^ 32" "within (p + of_nat k) n (p + of_nat j)"
  from *(3) obtain l where "l < n" "l < 2 ^ 32" "p + of_nat j = p + of_nat k + of_nat l" by (rule withinE)
  then have "(of_nat j :: u32) = of_nat (k + l)" by (simp add: add.assoc)
  then show False using * \<open>l < n\<close> by (subst (asm) of_nat_inj32) auto
qed

lemma read_dentry_by_index_ok:
  assumes "fs_ok m bb" "i < entry_count m bb" "apart dp 64 bb (fs_size m bb)"
  shows "\<exists>m'. read_dentry_by_index m bb (of_nat i) dp = Some (m', 0) \<and> dentry_copied m m' bb i dp"
proof -
  let ?d = "dentry_at bb (of_nat i)"
  obtain cs where cs: "cstring m ?d cs" "length cs \<le> 33" "entry_name m bb i = take 32 cs"
    using dentry_cstring [OF assms(1,2)] .
  have i63: "i < 63" using assms(1,2) by (simp add: fs_ok_def entry_count_def)
  have inr: "\<not> of_nat i \<ge> num_directory_entries m bb"
    using assms(2) i63 by (simp add: entry_count_def word_le_nat_alt unat_of_nat32)
  have len: "unat (of_nat (length cs) :: u32) = length cs" using cs(2) by (simp add: unat_of_nat32)
  have fs: "\<not> within dp 64 (?d + of_nat k)" if "k < 64" for k
    using dentry_within [OF assms(1,2) that] assms(3) by (auto simp: apart_def)
  have outd: "\<not> within dp n (?d + of_nat k)" if "k < 64" "n \<le> 64" for k n
    using fs [OF that(1)] within_mono that(2) by blast
  define m1 where "m1 = poke m dp cs"
  define m2 where "m2 = st32 m1 (dp + 32) (filetype m ?d)"
  define m3 where "m3 = st32 m2 (dp + 36) (inode_num m ?d)"
  have "strncpied m ?d (length cs) = cs"
    by (simp add: strncpied_def cut_cstring [OF cs(1)])
  then have sn: "strncpy m dp ?d (of_nat (length cs)) = m1"
    using strncpy_poke [of "of_nat (length cs)" dp ?d m] outd cs(2) by (simp add: len m1_def)
  have dp32: "dp + 32 = dp + of_nat 32" and dp36: "dp + 36 = dp + of_nat 36" by simp_all
  have w64: "within dp 64 a" if "within (dp + of_nat k) 4 a" "k \<le> 60" for k a
    using within_shift [OF that(1)] that(2) by simp
  have ft: "filetype m1 ?d = filetype m ?d"
    unfolding filetype_def m1_def
  proof (rule ld32_cong)
    fix k :: nat assume "k < 4"
    then show "poke m dp cs (?d + 32 + of_nat k) = m (?d + 32 + of_nat k)"
      using outd [of "32 + k" "length cs"] cs(2) by (simp add: poke_other add.assoc)
  qed
  have ino: "inode_num m2 ?d = inode_num m ?d"
    unfolding inode_num_def
  proof (rule ld32_cong)
    fix k :: nat assume k: "k < 4"
    then have "\<not> within dp 64 (?d + 36 + of_nat k)" using fs [of "36 + k"] by (simp add: add.assoc)
    moreover have "\<not> within (dp + of_nat 32) 4 (?d + 36 + of_nat k)"
      using calculation w64 [where k = 32] by (auto simp del: of_nat_numeral)
    moreover have "\<not> within dp (length cs) (?d + 36 + of_nat k)"
      using outd [of "36 + k" "length cs"] k cs(2) by (simp add: add.assoc)
    ultimately show "m2 (?d + 36 + of_nat k) = m (?d + 36 + of_nat k)"
      by (simp add: m2_def m1_def st32_other poke_other dp32 del: of_nat_numeral)
  qed
  have low: "m3 (dp + of_nat k) = m1 (dp + of_nat k)" if "k < 32" for k
    using not_within_shift [of k 32 4 dp] not_within_shift [of k 36 4 dp] that
    by (simp add: m3_def m2_def st32_other)
  have "dentry_copied m m3 bb i dp"
    unfolding dentry_copied_def
  proof (intro conjI allI impI)
    show "bytes_at m3 dp (length (entry_name m bb i)) = entry_name m bb i"
      using cs(2) by (intro nth_equalityI) (auto simp: low cs(3) m1_def poke_at)
    show "m3 (dp + of_nat k) = m (dp + of_nat k)" if "length (entry_name m bb i) \<le> k \<and> k < 32" for k
      using that low [of k] cs(3) by (auto simp: m1_def poke_other within_offset)
    show "filetype m3 dp = filetype m ?d"
      using ld32_st32_next [of m2 "dp + 32"]
      by (simp add: filetype_def m3_def m2_def ld32_st32_same add.assoc)
    show "inode_num m3 dp = inode_num m ?d"
      by (simp add: inode_num_def m3_def ld32_st32_same)
    show "m3 a = m a" if "\<not> within dp 40 a" for a
    proof -
      have "\<not> within (dp + of_nat k) 4 a" if "k \<le> 36" for k
        using within_shift [of dp k 4 a 40] that \<open>\<not> within dp 40 a\<close> by auto
      from this [of 32] this [of 36] show ?thesis
        using that cs(2) within_mono [of dp "length cs" a 40] poke_other [of dp cs a m]
        by (auto simp: m3_def m2_def m1_def st32_other)
    qed
  qed
  moreover have "read_dentry_by_index m bb (of_nat i) dp = Some (m3, 0)"
    using inr ft ino by (simp add: read_dentry_by_index_def strlen_cstring [OF cs(1)] sn
        m3_def m2_def Let_def)
  ultimately show ?thesis by blast
qed

end
