(* ===== verification/FileAccess.thy ===== *)
theory FileAccess
  imports FileSystem
begin

text \<open>
  What a program sees of the file system: looking a name up, reading a file and listing a
  directory by calling \<open>read\<close> until it returns zero. The contract shared by
  \<open>read_file\<close> and \<open>read_directory\<close> is the locale \<open>sequential_reader\<close>: a descriptor stands before
  a list of chunks, a call delivers the first one, and a call at the end returns zero.
\<close>

section \<open>Lookup by name\<close>

lemma read_dentry_by_name_found:
  assumes "fs_ok m bb" "cstring m fname cs" "length cs \<le> 32" "apart dp 64 bb (fs_size m bb)"
    and "find_dentry m bb fname = int i" "last_named m bb cs i"
  shows "\<exists>m'. read_dentry_by_name m bb fname dp = Some (m', 0) \<and> dentry_copied m m' bb i dp"
proof -
  have "i < entry_count m bb" using assms(6) by (simp add: last_named_def)
  from read_dentry_by_index_ok [OF assms(1) this assms(4)] show ?thesis
    using assms(2,3,5)
    by (auto simp: read_dentry_by_name_def strlen_cstring Let_def word_less_nat_alt unat_of_nat32
        not_less)
qed

lemma read_dentry_by_name_cases:
  assumes "fs_ok m bb" "cstring m fname cs" "apart dp 64 bb (fs_size m bb)"
  shows "(\<exists>i m'. last_named m bb cs i \<and> read_dentry_by_name m bb fname dp = Some (m', 0)
            \<and> dentry_copied m m' bb i dp)
    \<or> (read_dentry_by_name m bb fname dp = Some (m, -1)
        \<and> (\<forall>i < entry_count m bb. entry_name m bb i \<noteq> cs))"
proof (cases "length cs \<le> 32")
  case True
  from find_dentry_cases [OF assms(1,2) True] show ?thesis
  proof
    assume "find_dentry m bb fname = - 1 \<and> (\<forall>i<entry_count m bb. entry_name m bb i \<noteq> cs)"
    then show ?thesis using assms(2) by (simp add: read_dentry_by_name_def strlen_cstring Let_def)
  next
    assume "\<exists>i. find_dentry m bb fname = int i \<and> last_named m bb cs i"
    then show ?thesis using read_dentry_by_name_found [OF assms(1,2) True assms(3)] by blast
  qed
next
  case False
  then have "read_dentry_by_name m bb fname dp = Some (m, -1)"
    using assms(2) cstring_length [OF assms(2)]
    by (simp add: read_dentry_by_name_def strlen_cstring word_less_nat_alt unat_of_nat32)
  moreover have "entry_name m bb i \<noteq> cs" for i
    using False cut_length [of m "dentry_at bb (of_nat i)" 32] by (auto simp: entry_name_def)
  ultimately show ?thesis by simp
qed

section \<open>Reading a directory entry\<close>

lemma read_directory_loop_correct:
  assumes "cstring m name cs" "length cs \<le> 33" "apart buf 32 name 34" "j \<le> length cs"
  shows "read_directory_loop (poke m buf (take (min j 32) cs)) name buf (of_nat j) (of_nat (min j 32))
    = Some (poke m buf (take 32 cs), of_nat (min 32 (length cs)))"
  using assms(4)
proof (induction "length cs - j" arbitrary: j)
  let ?m = "\<lambda>j. poke m buf (take (min j 32) cs)"
  have out: "?m j (name + of_nat k) = m (name + of_nat k)" if "k < 34" for j k
  proof -
    have "within name 34 (name + of_nat k)" using that by (subst within_offset) auto
    then have "\<not> within buf 32 (name + of_nat k)" using assms(3) by (auto simp: apart_def)
    then show ?thesis by (intro poke_other) (use within_mono in fastforce)
  qed
  have cs: "cstring (?m j) name cs" for j
    by (rule cstring_cong [OF assms(1)]) (use out assms(2) in simp)
  { case 0
    then have j: "j = length cs" using "0.prems" by simp
    have m: "?m j = poke m buf (take 32 cs)" by (cases "length cs \<le> 32") (simp_all add: j)
    have c: "cstring (poke m buf (take 32 cs)) name cs" using cs [of j] by (simp only: m)
    show ?case
      unfolding m by (subst read_directory_loop.simps)
        (simp add: strlen_cstring [OF c] j min.commute)
  next
    case (Suc n)
    then have j: "j < length cs" "j < 33" using assms(2) by simp_all
    have lt: "(of_nat j :: u32) < of_nat (length cs)"
      using j assms(2) by (simp add: word_less_nat_alt unat_of_nat32)
    have s: "sint (of_nat j :: u32) = int j"
      using j by (subst sint_unat32) (simp_all add: unat_of_nat32)
    have IH: "read_directory_loop (?m (Suc j)) name buf (of_nat j + 1) (of_nat (min (Suc j) 32))
        = Some (poke m buf (take 32 cs), of_nat (min 32 (length cs)))"
      using Suc.hyps(1) [of "Suc j"] Suc.hyps(2) j by (simp add: add.commute)
    show ?case
    proof (cases "j < 32")
      case True
      have upd: "(?m j)(buf + of_nat j := ?m j (name + of_nat j)) = ?m (Suc j)"
        using True j out [of j j] cstring_nth [OF assms(1) j(1)]
        by (simp add: take_Suc_conv_app_nth poke_snoc min_absorb1 del: fun_upd_apply)
      have cnt: "of_nat (min j 32) + 1 = (of_nat (min (Suc j) 32) :: u32)"
        using True by (simp add: min_absorb1 add.commute)
      have "sint (of_nat j :: u32) < 32" using True s by simp
      then have "read_directory_loop (?m j) name buf (of_nat j) (of_nat (min j 32))
          = read_directory_loop (?m (Suc j)) name buf (of_nat j + 1) (of_nat (min (Suc j) 32))"
        using lt by (subst read_directory_loop.simps)
          (simp only: strlen_cstring [OF cs] Option.bind.bind_lunit if_True upd cnt)
      then show ?thesis using IH by simp
    next
      case False
      then have j32: "j = 32" using j by simp
      have m: "?m (Suc j) = ?m j" "min (Suc j) 32 = min j 32" by (simp_all add: j32)
      have "\<not> sint (of_nat j :: u32) < 32" using False s by simp
      then have "read_directory_loop (?m j) name buf (of_nat j) (of_nat (min j 32))
          = read_directory_loop (?m j) name buf (of_nat j + 1) (of_nat (min j 32))"
        using lt by (subst read_directory_loop.simps)
          (simp only: strlen_cstring [OF cs] Option.bind.bind_lunit if_True if_False)
      then show ?thesis using IH by (simp only: m)
    qed }
qed

definition listing :: "mem \<Rightarrow> u32 \<Rightarrow> file_descriptor \<Rightarrow> bool" where
  "listing m bb f \<longleftrightarrow> fs_ok m bb \<and> flags f = full \<and> unat (file_position f) \<le> entry_count m bb"

definition names_left :: "mem \<Rightarrow> u32 \<Rightarrow> file_descriptor \<Rightarrow> u8 list list" where
  "names_left m bb f = map (entry_name m bb) [unat (file_position f)..<entry_count m bb]"

lemma listing_pos:
  assumes "listing m bb f"
  shows "\<not> sint (file_position f) < 0"
    "sint (num_directory_entries m bb) \<le> sint (file_position f)
       \<longleftrightarrow> entry_count m bb \<le> unat (file_position f)"
proof -
  have "unat (file_position f) < 2 ^ 31" "unat (num_directory_entries m bb) < 2 ^ 31"
    using assms by (auto simp: listing_def fs_ok_def entry_count_def)
  then show "\<not> sint (file_position f) < 0"
    "sint (num_directory_entries m bb) \<le> sint (file_position f)
       \<longleftrightarrow> entry_count m bb \<le> unat (file_position f)"
    by (simp_all only: sint_unat32 entry_count_def of_nat_le_iff)
qed

lemma read_directory_end:
  "listing m bb f \<Longrightarrow> names_left m bb f = [] \<Longrightarrow>
   read_directory m bb f buf n = Some (m, f\<lparr>file_position := 0\<rparr>, 0)"
  using listing_pos [of m bb f] by (auto simp: read_directory_def names_left_def listing_def)

lemma read_directory_next:
  assumes l: "listing m bb f" and p: "unat (file_position f) < entry_count m bb"
    and ap: "apart buf 32 bb (fs_size m bb)"
  shows "read_directory m bb f buf n
    = Some (poke m buf (entry_name m bb (unat (file_position f))),
        f\<lparr>file_position := file_position f + 1\<rparr>,
        of_nat (length (entry_name m bb (unat (file_position f)))))"
proof -
  let ?i = "unat (file_position f)" and ?d = "dentry_at bb (file_position f)"
  have fs: "fs_ok m bb" "flags f = full" using l by (auto simp: listing_def)
  obtain cs where cs: "cstring m ?d cs" "length cs \<le> 33" "entry_name m bb ?i = take 32 cs"
    using dentry_cstring [OF fs(1) p] by (metis of_nat_unat32)
  have ap': "apart buf 32 ?d 34"
    unfolding apart_def
  proof (intro allI impI notI)
    fix a assume a: "within buf 32 a" "within ?d 34 a"
    from a(2) obtain k where k: "k < 34" "k < 2 ^ 32" "a = ?d + of_nat k" by (rule withinE)
    then have "within bb (fs_size m bb) a" using dentry_within [OF fs(1) p, of k] by simp
    then show False using a(1) ap by (auto simp: apart_def)
  qed
  have "read_directory_loop m ?d buf 0 0 = Some (poke m buf (take 32 cs), of_nat (min 32 (length cs)))"
    using read_directory_loop_correct [OF cs(1,2) ap', of 0] by simp
  then show ?thesis
    using listing_pos [OF l] p fs(2) by (simp add: read_directory_def cs(3) min.commute)
qed

lemma same_image_dentry:
  assumes "same_image m m' bb" "fs_ok m bb" "i < entry_count m bb"
  shows "filetype m' (dentry_at bb (of_nat i)) = filetype m (dentry_at bb (of_nat i))"
    "inode_num m' (dentry_at bb (of_nat i)) = inode_num m (dentry_at bb (of_nat i))"
    "entry_name m' bb i = entry_name m bb i"
proof -
  have *: "m' (dentry_at bb (of_nat i) + of_nat k) = m (dentry_at bb (of_nat i) + of_nat k)"
    if "k < 64" for k
    using dentry_within [OF assms(2,3) that] assms(1) by (simp add: same_image_def)
  show "filetype m' (dentry_at bb (of_nat i)) = filetype m (dentry_at bb (of_nat i))"
    unfolding filetype_def using * [of "32 + _"] by (intro ld32_cong) (simp add: add.assoc)
  show "inode_num m' (dentry_at bb (of_nat i)) = inode_num m (dentry_at bb (of_nat i))"
    unfolding inode_num_def using * [of "36 + _"] by (intro ld32_cong) (simp add: add.assoc)
  show "entry_name m' bb i = entry_name m bb i"
    unfolding entry_name_def using * by (intro cut_cong) simp
qed

lemma same_image_fs_ok:
  assumes "same_image m m' bb" "fs_ok m bb"
  shows "fs_ok m' bb" "entry_count m' bb = entry_count m bb" "fs_size m' bb = fs_size m bb"
proof -
  have s: "fs_size m bb \<le> 2 ^ 32" using assms(2) by (simp add: fs_ok_def)
  note h = same_image_header [OF assms(1) s]
  show "entry_count m' bb = entry_count m bb" "fs_size m' bb = fs_size m bb"
    using h by (simp_all add: entry_count_def)
  show "fs_ok m' bb"
    using same_image_dentry [OF assms] assms(2) h by (simp add: fs_ok_def entry_count_def)
qed

section \<open>Reading to the end\<close>

text \<open>
  The loop every client of \<open>read\<close> runs, \<open>while (0 != (cnt = read (fd, buf, n)))\<close>, returning the
  bytes each call delivered. An error (-1) ends it with no result.
\<close>

type_synonym reader = "mem \<Rightarrow> file_descriptor \<Rightarrow> (mem \<times> file_descriptor \<times> i32) option"

fun drain :: "nat \<Rightarrow> reader \<Rightarrow> u32 \<Rightarrow> mem \<Rightarrow> file_descriptor \<Rightarrow> u8 list list option" where
  "drain 0 rd buf m f = None"
| "drain (Suc k) rd buf m f = do {
     (m, f, cnt) \<leftarrow> rd m f;
     if cnt = 0 then Some []
     else if cnt = -1 then None
     else do { rest \<leftarrow> drain k rd buf m f; Some (bytes_at m buf (unat cnt) # rest) }
   }"

locale sequential_reader =
  fixes rd :: reader
    and ok :: "mem \<Rightarrow> file_descriptor \<Rightarrow> bool"
    and chunks :: "mem \<Rightarrow> file_descriptor \<Rightarrow> u8 list list"
    and buf :: u32
  assumes at_end: "ok m f \<Longrightarrow> chunks m f = [] \<Longrightarrow> \<exists>m' f'. rd m f = Some (m', f', 0)"
    and next_chunk: "ok m f \<Longrightarrow> chunks m f = c # cs \<Longrightarrow>
      \<exists>f'. rd m f = Some (poke m buf c, f', of_nat (length c))
        \<and> ok (poke m buf c) f' \<and> chunks (poke m buf c) f' = cs"
    and chunk_size: "ok m f \<Longrightarrow> c \<in> set (chunks m f) \<Longrightarrow> 0 < length c \<and> length c < 2 ^ 31"
begin

lemma drain_chunks:
  "ok m f \<Longrightarrow> length (chunks m f) < k \<Longrightarrow> drain k rd buf m f = Some (chunks m f)"
proof (induction k arbitrary: m f)
  case (Suc k)
  show ?case
  proof (cases "chunks m f")
    case Nil
    then show ?thesis using at_end [OF Suc.prems(1)] by auto
  next
    case (Cons c cs)
    then have sz: "0 < length c" "length c < 2 ^ 31"
      using chunk_size [OF Suc.prems(1), of c] by auto
    obtain f' where f': "rd m f = Some (poke m buf c, f', of_nat (length c))"
      "ok (poke m buf c) f'" "chunks (poke m buf c) f' = cs"
      using next_chunk [OF Suc.prems(1) Cons] by blast
    have "drain k rd buf (poke m buf c) f' = Some cs"
      using Suc.IH [OF f'(2)] Suc.prems(2) f'(3) Cons by simp
    moreover have "of_nat (length c) \<noteq> (0 :: u32)"
      using sz of_nat_inj32 [of "length c" 0] by simp
    moreover have "of_nat (length c) \<noteq> (-1 :: u32)" using sz by (simp add: of_nat_neq_m1)
    ultimately show ?thesis using f'(1) sz Cons by (simp add: unat_of_nat32 bytes_at_poke)
  qed
qed simp

end

subsection \<open>A regular file, \<open>n\<close> bytes at a time\<close>

function split_every :: "nat \<Rightarrow> 'a list \<Rightarrow> 'a list list" where
  "split_every n xs = (if xs = [] \<or> n = 0 then [] else take n xs # split_every n (drop n xs))"
  by pat_completeness auto
termination by (relation "measure (\<lambda>(n, xs). length xs)") auto

declare split_every.simps [simp del]

lemma split_every_Nil [simp]: "split_every n [] = []"
  by (simp add: split_every.simps)

lemma concat_split_every: "0 < n \<Longrightarrow> concat (split_every n xs) = xs"
  by (induction n xs rule: split_every.induct) (subst split_every.simps, auto)

lemma split_every_size: "c \<in> set (split_every n xs) \<Longrightarrow> 0 < length c \<and> length c \<le> n"
  by (induction n xs rule: split_every.induct)
    (subst (asm) (2) split_every.simps, auto split: if_splits)

lemma length_split_every: "length (split_every n xs) \<le> length xs"
proof (induction n xs rule: split_every.induct)
  case (1 n xs)
  then show ?case by (subst split_every.simps) (cases xs, auto)
qed

definition file_reader_ok :: "u32 \<Rightarrow> u32 \<Rightarrow> i32 \<Rightarrow> mem \<Rightarrow> file_descriptor \<Rightarrow> bool" where
  "file_reader_ok bb buf n m f \<longleftrightarrow> fs_size m bb \<le> 2 ^ 32 \<and> reading m bb f \<and> buf \<noteq> 0
     \<and> 0 < n \<and> unat n < 2 ^ 30 \<and> apart buf (unat n) bb (fs_size m bb)"

definition file_chunks :: "u32 \<Rightarrow> i32 \<Rightarrow> mem \<Rightarrow> file_descriptor \<Rightarrow> u8 list list" where
  "file_chunks bb n m f = split_every (unat n) (remaining m bb f)"

lemma file_reader_step:
  assumes "file_reader_ok bb buf n m f" and k: "k = min (unat n) (length (remaining m bb f))"
  defines "m' \<equiv> poke m buf (take k (remaining m bb f))"
    and "f' \<equiv> f\<lparr>file_position := file_position f + of_nat k\<rparr>"
  shows "read_file m bb f buf n = (m', f', of_nat k)"
    "file_reader_ok bb buf n m' f'" "remaining m' bb f' = drop k (remaining m bb f)"
proof -
  have ok: "fs_size m bb \<le> 2 ^ 32" "reading m bb f" "buf \<noteq> 0" "0 < n" "unat n < 2 ^ 30"
    "apart buf (unat n) bb (fs_size m bb)"
    using assms(1) by (auto simp: file_reader_ok_def)
  have pos: "unat (file_position f) \<le> 1023 * 4096"
    using ok(2) by (auto simp: reading_def inode_ok_def file_length_def)
  have ap: "apart buf k bb (fs_size m bb)" using ok(6) by (rule apart_mono) (simp add: k)
  show "read_file m bb f buf n = (m', f', of_nat k)"
    unfolding m'_def f'_def using ok(5) pos
    by (intro read_file_correct ok(1-3) k ap) simp
  have si: "same_image m m' bb"
    unfolding m'_def using ap by (intro same_image_poke) (simp add: k min.commute)
  have adv: "reading m bb f'" "remaining m bb f' = drop k (remaining m bb f)"
    unfolding f'_def using reading_advance [OF ok(2), of k] k by simp_all
  show "file_reader_ok bb buf n m' f'" "remaining m' bb f' = drop k (remaining m bb f)"
    using same_image_reading [OF si ok(1) adv(1)] ok adv(2) by (simp_all add: file_reader_ok_def)
qed

interpretation regular_file:
  sequential_reader "\<lambda>m f. Some (read_file m bb f buf n)" "file_reader_ok bb buf n"
    "file_chunks bb n" buf
  for bb buf n
proof
  fix m f
  assume ok: "file_reader_ok bb buf n m f"
  then have n: "0 < unat n" "unat n < 2 ^ 30" by (auto simp: file_reader_ok_def unat_gt_0)
  note step = file_reader_step [OF ok refl]
  { assume "file_chunks bb n m f = []"
    then have "remaining m bb f = []" using n
      by (subst (asm) file_chunks_def, subst (asm) split_every.simps) (auto split: if_splits)
    then show "\<exists>m' f'. Some (read_file m bb f buf n) = Some (m', f', 0)" using step(1) by simp }
  { fix c cs
    assume "file_chunks bb n m f = c # cs"
    then have c: "c = take (unat n) (remaining m bb f)"
      "cs = split_every (unat n) (drop (unat n) (remaining m bb f))"
      by (subst (asm) file_chunks_def, subst (asm) split_every.simps, simp split: if_splits)+
    have len: "length c = min (unat n) (length (remaining m bb f))" by (simp add: c(1) min.commute)
    have tk: "take (length c) (remaining m bb f) = c"
      "split_every (unat n) (drop (length c) (remaining m bb f)) = cs"
      by (cases "unat n \<le> length (remaining m bb f)"; simp add: c)+
    show "\<exists>f'. Some (read_file m bb f buf n) = Some (poke m buf c, f', of_nat (length c))
        \<and> file_reader_ok bb buf n (poke m buf c) f' \<and> file_chunks bb n (poke m buf c) f' = cs"
      using step tk by (simp add: len [symmetric] file_chunks_def) }
  { fix c
    assume "c \<in> set (file_chunks bb n m f)"
    then show "0 < length c \<and> length c < 2 ^ 31"
      using split_every_size [of c "unat n"] n by (fastforce simp: file_chunks_def) }
qed

subsection \<open>A directory, one name at a time\<close>

definition dir_reader_ok :: "u32 \<Rightarrow> u32 \<Rightarrow> mem \<Rightarrow> file_descriptor \<Rightarrow> bool" where
  "dir_reader_ok bb buf m f \<longleftrightarrow> listing m bb f \<and> apart buf 32 bb (fs_size m bb)
     \<and> (\<forall>i < entry_count m bb. entry_name m bb i \<noteq> [])"

lemma entry_name_length: "length (entry_name m bb i) \<le> 32"
  by (simp add: entry_name_def cut_length)

lemma dir_reader_step:
  assumes "dir_reader_ok bb buf m f" "unat (file_position f) < entry_count m bb"
  defines "m' \<equiv> poke m buf (entry_name m bb (unat (file_position f)))"
    and "f' \<equiv> f\<lparr>file_position := file_position f + 1\<rparr>"
  shows "dir_reader_ok bb buf m' f'" "names_left m' bb f' = tl (names_left m bb f)"
proof -
  have d: "listing m bb f" "fs_ok m bb" "apart buf 32 bb (fs_size m bb)"
    "\<forall>i < entry_count m bb. entry_name m bb i \<noteq> []"
    using assms(1) by (auto simp: dir_reader_ok_def listing_def)
  have si: "same_image m m' bb"
    unfolding m'_def using d(3) entry_name_length by (intro same_image_poke apart_mono [OF d(3)])
  note same = same_image_fs_ok [OF si d(2)] same_image_dentry(3) [OF si d(2)]
  have u: "unat (file_position f + 1) = Suc (unat (file_position f))"
    using assms(2) d(2)
    by (intro unat_plus_one) (auto simp: fs_ok_def entry_count_def unsigned_minus_1_eq_mask mask_eq_exp_minus_1)
  show "dir_reader_ok bb buf m' f'"
    using d assms(2) same u by (simp add: dir_reader_ok_def listing_def f'_def)
  show "names_left m' bb f' = tl (names_left m bb f)"
    using assms(2) same u by (simp add: names_left_def f'_def map_tl [symmetric] upt_rec [of "unat (file_position f)"])
qed

interpretation directory:
  sequential_reader "\<lambda>m f. read_directory m bb f buf n" "dir_reader_ok bb buf"
    "\<lambda>m f. names_left m bb f" buf
  for bb buf n
proof
  fix m f
  assume ok: "dir_reader_ok bb buf m f"
  then have l: "listing m bb f" "apart buf 32 bb (fs_size m bb)" by (auto simp: dir_reader_ok_def)
  show "names_left m bb f = [] \<Longrightarrow> \<exists>m' f'. read_directory m bb f buf n = Some (m', f', 0)"
    using read_directory_end [OF l(1)] by blast
  { fix c cs
    assume c: "names_left m bb f = c # cs"
    then have p: "unat (file_position f) < entry_count m bb"
      by (auto simp: names_left_def intro: ccontr)
    then have "c = entry_name m bb (unat (file_position f))" "cs = tl (names_left m bb f)"
      using c by (auto simp: names_left_def upt_rec)
    then show "\<exists>f'. read_directory m bb f buf n = Some (poke m buf c, f', of_nat (length c))
        \<and> dir_reader_ok bb buf (poke m buf c) f' \<and> names_left (poke m buf c) bb f' = cs"
      using read_directory_next [OF l(1) p l(2)] dir_reader_step [OF ok p] by simp }
  { fix c
    assume "c \<in> set (names_left m bb f)"
    then obtain i where "i < entry_count m bb" "c = entry_name m bb i"
      by (auto simp: names_left_def)
    then show "0 < length c \<and> length c < 2 ^ 31"
      using ok entry_name_length [of m bb i] by (simp add: dir_reader_ok_def) }
qed

end
