(* ===== verification/FileProps.thy ===== *)
theory FileProps
  imports FileAccess
begin

text \<open>
  The properties of the file system, and a small image on which their hypotheses are checked.
\<close>

section \<open>A small image\<close>

text \<open>
  Two entries, the directory itself (\<open>.\<close>) and a file \<open>hi\<close> with inode 1, length 3 and the
  bytes \<open>hey\<close> in data block 0. A name and room for buffers lie behind the image.
\<close>

definition demo_bb :: u32 where "demo_bb = 0x400000"

definition demo :: mem where
  "demo a = (case map_of
     [(0x400000, 2), (0x400004, 2), (0x400008, 1),
      (0x400040, 46), (0x400060, 1),
      (0x400080, 104), (0x400081, 105), (0x4000A0, 2), (0x4000A4, 1),
      (0x402000, 3), (0x403000, 104), (0x403001, 101), (0x403002, 121),
      (0x500000, 104), (0x500001, 105)] a of None \<Rightarrow> 0 | Some v \<Rightarrow> v)"

definition demo_fd :: file_descriptor where
  "demo_fd = \<lparr>jump_table = \<lparr>openFunc = Open_file, closeFunc = Close_file, readFunc = Read_file,
     writeFunc = Write_file\<rparr>, inode_check = 1, file_position = 0, flags = full\<rparr>"

lemma unat_diff_swap: "p \<noteq> (q :: u32) \<Longrightarrow> unat (q - p) + unat (p - q) = 2 ^ 32"
  using unat_lt_2p32 [of p] unat_lt_2p32 [of q]
  by (auto simp: unat_sub_if' dest: order.antisym intro: word_unat_eq_iff [THEN iffD2])

lemma apartI:
  assumes "n \<le> unat (q - p)" "k \<le> unat (p - q)"
  shows "apart p n q k"
  unfolding apart_def
proof (intro allI impI notI)
  fix a assume a: "within p n a" "within q k a"
  obtain i where i: "i < n" "i < 2 ^ 32" "a = p + of_nat i" using a(1) by (rule withinE)
  have "p \<noteq> q" using i(1) assms(1) by auto
  then have "unat ((p - q) + of_nat i) = unat (p - q) + i"
    using unat_diff_swap [of p q] i assms(1) by (simp add: unat_word_ariths unat_of_nat32)
  moreover have "a - q = (p - q) + of_nat i" by (simp add: i(3))
  ultimately have "unat (a - q) = unat (p - q) + i" by (simp only:)
  then show False using a(2) assms(2) by (simp add: within_def)
qed

lemmas demo_header_defs = demo_def demo_bb_def num_directory_entries_def num_inodes_def
  num_data_blocks_def fs_size_def dentry_at_def filetype_def inode_num_def inode_at_def
  inode_length_def data_block_num_def data_start_def ld32_def

lemma demo_header:
  "num_directory_entries demo demo_bb = 2" "num_inodes demo demo_bb = 2"
  "num_data_blocks demo demo_bb = 1" "fs_size demo demo_bb = 16384"
  "inode_length demo (inode_at demo_bb 1) = 3" "data_block_num demo (inode_at demo_bb 1) 0 = 0"
  by (simp_all add: demo_header_defs)

lemma less_2_nat: "(i :: nat) < 2 \<longleftrightarrow> i = 0 \<or> i = 1"
  by auto

lemma demo_fs_ok: "fs_ok demo demo_bb"
  by (simp add: fs_ok_def demo_header less_2_nat) (auto simp: demo_header_defs)

lemma demo_count: "entry_count demo demo_bb = 2"
  by (simp add: entry_count_def demo_header)

lemma demo_names:
  "entry_name demo demo_bb 0 = [46]" "entry_name demo demo_bb 1 = [104, 105]"
proof -
  have "cstring demo (dentry_at demo_bb 0) [46]" "cstring demo (dentry_at demo_bb 1) [104, 105]"
    by (simp_all add: cstring_def bytes_at_def dentry_at_def demo_bb_def demo_def upt_rec)
  from this [THEN cut_cstring, of 32] show
    "entry_name demo demo_bb 0 = [46]" "entry_name demo demo_bb 1 = [104, 105]"
    by (simp_all add: entry_name_def)
qed

lemma demo_string: "cstring demo 0x500000 [104, 105]"
  by (simp add: cstring_def bytes_at_def upt_rec demo_def)

lemma demo_inode_ok: "inode_ok demo demo_bb 1"
proof -
  have "4096 * j < 3 \<longleftrightarrow> j = 0" for j :: nat by auto
  then show ?thesis by (simp add: inode_ok_def demo_header)
qed

lemma demo_reading: "reading demo demo_bb demo_fd"
  by (simp add: reading_def demo_fd_def demo_inode_ok demo_header)

lemma demo_contents: "file_contents demo demo_bb 1 = [104, 101, 121]"
  by (simp add: file_contents_def file_bytes_def file_length_def demo_header upt_rec
      file_byte_at_def data_start_def) (simp add: demo_def demo_bb_def)

lemma demo_apart: "n \<le> 4096 \<Longrightarrow> apart 0x500100 n demo_bb (fs_size demo demo_bb)"
  unfolding demo_header by (rule apartI) (simp_all add: demo_bb_def)

section \<open>Properties\<close>

text \<open>C26: \<open>read_dentry_by_name\<close> on a well-formed image finds the last entry with exactly the
  given name and copies its type, inode number and the bytes of its name into the caller's
  \<open>dentry_t\<close>, changing nothing else; it returns -1 and changes nothing when there is none, also
  for a name longer than 32 bytes. The caller's name is not terminated by the copy.\<close>

theorem lookup_by_name:
  assumes "fs_ok m bb" "cstring m fname cs" "apart dp 64 bb (fs_size m bb)"
  shows "(\<exists>i m'. last_named m bb cs i \<and> read_dentry_by_name m bb fname dp = Some (m', 0)
            \<and> dentry_copied m m' bb i dp)
    \<or> (read_dentry_by_name m bb fname dp = Some (m, -1)
        \<and> (\<forall>i < entry_count m bb. entry_name m bb i \<noteq> cs))"
  by (rule read_dentry_by_name_cases [OF assms])

theorem lookup_by_name_witness:
  "\<exists>m'. read_dentry_by_name demo demo_bb 0x500000 0x500100 = Some (m', 0)
     \<and> dentry_copied demo m' demo_bb 1 0x500100"
proof -
  have "\<not> (\<forall>i < entry_count demo demo_bb. entry_name demo demo_bb i \<noteq> [104, 105])"
    using demo_names(2) unfolding demo_count by (auto intro!: exI [of _ 1])
  moreover have "last_named demo demo_bb [104, 105] i \<Longrightarrow> i = 1" for i
    using demo_names by (auto simp: last_named_def demo_count less_2_nat)
  ultimately show ?thesis
    using lookup_by_name [OF demo_fs_ok demo_string demo_apart [of 64]] by auto
qed

text \<open>C22: \<open>read_file\<close> on an open descriptor delivers exactly the next \<open>min nbytes remaining\<close>
  bytes of the file into the buffer, changes no other byte of memory, advances the position by
  that many and returns the count.\<close>

theorem read_file_delivers:
  assumes "fs_size m bb \<le> 2 ^ 32" "reading m bb f" "buf \<noteq> 0"
    and "unat (file_position f) + unat nbytes < 2 ^ 31"
    and "k = min (unat nbytes) (length (remaining m bb f))"
    and "apart buf k bb (fs_size m bb)"
  shows "read_file m bb f buf nbytes
    = (poke m buf (take k (remaining m bb f)),
       f\<lparr>file_position := file_position f + of_nat k\<rparr>, of_nat k)"
  by (rule read_file_correct [OF assms])

theorem read_file_delivers_witness:
  "read_file demo demo_bb demo_fd 0x500100 2
    = (poke demo 0x500100 [104, 101], demo_fd\<lparr>file_position := 2\<rparr>, 2)"
proof -
  have r: "remaining demo demo_bb demo_fd = [104, 101, 121]"
    by (simp add: remaining_def demo_fd_def demo_contents)
  have "read_file demo demo_bb demo_fd 0x500100 2
    = (poke demo 0x500100 (take 2 (remaining demo demo_bb demo_fd)),
       demo_fd\<lparr>file_position := file_position demo_fd + of_nat 2\<rparr>, of_nat 2)"
    by (rule read_file_delivers [OF _ demo_reading])
      (simp_all add: demo_header r demo_apart [unfolded demo_header], simp_all add: demo_fd_def)
  then show ?thesis by (simp add: r) (simp add: demo_fd_def)
qed

text \<open>C21: A program that reads a freshly opened file \<open>n\<close> bytes at a time until \<open>read\<close>
  returns 0 terminates and gets the whole file, for every \<open>n\<close> up to a gigabyte.\<close>

theorem read_file_until_eof:
  assumes "fs_size m bb \<le> 2 ^ 32" "reading m bb f" "file_position f = 0" "buf \<noteq> 0"
    and "0 < n" "unat n < 2 ^ 30" "apart buf (unat n) bb (fs_size m bb)"
  shows "\<exists>css. drain (Suc (file_length m bb (inode_check f)))
      (\<lambda>m f. Some (read_file m bb f buf n)) buf m f = Some css
    \<and> concat css = file_contents m bb (inode_check f)"
proof -
  have r: "remaining m bb f = file_contents m bb (inode_check f)"
    using assms(3) by (simp add: remaining_def)
  have "file_reader_ok bb buf n m f" using assms by (simp add: file_reader_ok_def)
  from regular_file.drain_chunks [OF this, of "Suc (file_length m bb (inode_check f))"]
  have "drain (Suc (file_length m bb (inode_check f)))
      (\<lambda>m f. Some (read_file m bb f buf n)) buf m f = Some (file_chunks bb n m f)"
    using length_split_every [of "unat n" "remaining m bb f"] by (simp add: r file_chunks_def)
  moreover have "concat (file_chunks bb n m f) = file_contents m bb (inode_check f)"
    using assms(5) by (simp add: file_chunks_def r concat_split_every unat_gt_0)
  ultimately show ?thesis by blast
qed

theorem read_file_until_eof_witness:
  "\<exists>css. drain 4 (\<lambda>m f. Some (read_file m demo_bb f 0x500100 2)) 0x500100 demo demo_fd = Some css
    \<and> concat css = [104, 101, 121]"
proof -
  have d: "inode_check demo_fd = 1" "file_position demo_fd = 0" by (simp_all add: demo_fd_def)
  have l: "Suc (file_length demo demo_bb 1) = 4" by (simp add: file_length_def demo_header)
  show ?thesis
    using read_file_until_eof [OF _ demo_reading d(2), where buf = "0x500100" and n = 2]
      demo_apart [of 2] unfolding d l demo_contents demo_header by simp
qed

text \<open>C27: reading an open directory until \<open>read\<close> returns 0 terminates and lists the name of
  every entry, in order, each cut at 32 bytes, whatever \<open>nbytes\<close> is.\<close>

theorem directory_listing:
  assumes "fs_ok m bb" "flags f = full" "file_position f = 0"
    and "apart buf 32 bb (fs_size m bb)" "\<forall>i < entry_count m bb. entry_name m bb i \<noteq> []"
  shows "drain (Suc (entry_count m bb)) (\<lambda>m f. read_directory m bb f buf n) buf m f
    = Some (map (entry_name m bb) [0..<entry_count m bb])"
proof -
  have "dir_reader_ok bb buf m f" using assms by (simp add: dir_reader_ok_def listing_def)
  from directory.drain_chunks [OF this, of "Suc (entry_count m bb)"] show ?thesis
    using assms(3) by (simp add: names_left_def)
qed

theorem directory_listing_witness:
  "drain 3 (\<lambda>m f. read_directory m demo_bb f 0x500100 1) 0x500100 demo demo_fd
    = Some [[46], [104, 105]]"
proof -
  have d: "flags demo_fd = full" "file_position demo_fd = 0" by (simp_all add: demo_fd_def)
  have n: "\<forall>i < entry_count demo demo_bb. entry_name demo demo_bb i \<noteq> []"
    using demo_names unfolding demo_count less_2_nat by auto
  have u: "[0..<2] = [0, 1 :: nat]" "Suc 2 = 3" by (simp_all add: upt_rec)
  show ?thesis
    using directory_listing [OF demo_fs_ok d demo_apart n, where n = 1]
    unfolding demo_count u by (simp only: list.map demo_names)
qed

text \<open>\<open>read_data\<close> checks the end of the file only when it reaches the end of a data block: a
  request that stays inside one block is served in full, however short the file is, so the
  bytes behind the end of the file are delivered and counted.\<close>

theorem read_data_inside_block:
  assumes "inode < num_inodes m bb" "offset \<le> inode_length m (inode_at bb inode)"
    and "unat offset mod 4096 + unat len \<le> 4096"
  shows "snd (read_data m bb inode offset buf len) = len"
proof -
  have loop: "snd (read_data_loop m ip ds off buf len (of_nat i) idx dbn (aib + of_nat i) (of_nat i)) = len"
    if "i \<le> unat len" "unat aib + unat len \<le> 4096" for m ip ds off idx dbn i aib
    using that
  proof (induction "unat len - i" arbitrary: i m)
    case 0
    then have "(of_nat i :: u32) = len" by auto
    then show ?case by (subst read_data_loop.simps) simp
  next
    case (Suc k)
    then have i: "i < unat len" "i < 2 ^ 32" using unat_lt_2p32 [of len] by simp_all
    then have "unat (aib + of_nat i) = unat aib + i" 
      using Suc.prems unat_lt_2p32 [of aib] by (simp add: unat_word_ariths unat_of_nat32)
    then have a: "aib + of_nat i \<noteq> 4096" using Suc.prems i by auto
    have lt: "of_nat i < len" using i by (simp add: word_less_nat_alt unat_of_nat32)
    have suc: "of_nat i + 1 = (of_nat (Suc i) :: u32)"
      "aib + of_nat i + 1 = (aib + of_nat (Suc i) :: u32)" by simp_all
    show ?case
      using lt a Suc.hyps Suc.prems i
      by (subst read_data_loop.simps) (simp add: Let_def suc del: of_nat_Suc)
  qed
  show ?thesis
    using loop [of 0 "offset mod 4096"] assms
    by (simp add: read_data_def Let_def not_less [symmetric] unat_mod)
qed

theorem read_data_inside_block_witness:
  "snd (read_data demo demo_bb 1 0 0x500100 4096) = 4096"
  using read_data_inside_block [of 1 demo demo_bb 0 4096] by (simp add: demo_header)

text \<open>The error and boundary branches: an inode number out of range is refused with -1, an
  offset behind the end reads nothing, a null buffer or a closed descriptor gives -1 from
  \<open>read_file\<close>, a closed descriptor gives -1 from \<open>read_directory\<close>, in each case with memory
  and descriptor unchanged, and both writes always fail: nothing writes the file system.\<close>

theorem file_errors:
  "(inode \<ge> num_inodes m bb \<longrightarrow> read_data m bb inode offset buf len = (m, -1))
   \<and> (inode < num_inodes m bb \<and> offset > inode_length m (inode_at bb inode)
      \<longrightarrow> read_data m bb inode offset buf len = (m, 0))
   \<and> (buf = 0 \<or> flags f \<noteq> full \<longrightarrow> read_file m bb f buf nbytes = (m, f, -1))
   \<and> (flags f \<noteq> full \<longrightarrow> read_directory m bb f buf nbytes = Some (m, f, -1))
   \<and> write_file = -1 \<and> write_directory = -1"
  by (auto simp: Let_def not_le read_data_def read_file_def read_directory_def write_file_def
      write_directory_def)

theorem file_errors_witness:
  "read_data demo demo_bb 2 0 0x500100 1 = (demo, -1)
   \<and> read_data demo demo_bb 1 4 0x500100 1 = (demo, 0)
   \<and> read_file demo demo_bb demo_fd 0 1 = (demo, demo_fd, -1)
   \<and> read_directory demo demo_bb (demo_fd\<lparr>flags := empty\<rparr>) 0x500100 1
       = Some (demo, demo_fd\<lparr>flags := empty\<rparr>, -1)"
  using file_errors [where m = demo and bb = demo_bb and inode = 2 and f = demo_fd and buf = 0]
    file_errors [where m = demo and bb = demo_bb and inode = 2 and offset = 0 and len = 1
      and buf = "0x500100" and f = "demo_fd\<lparr>flags := empty\<rparr>"]
    file_errors [where m = demo and bb = demo_bb and inode = 1 and offset = 4 and len = 1
      and buf = "0x500100"]
  by (simp add: demo_header)

end
