(* ===== verification/KernelState.thy ===== *)
theory KernelState
  imports FileSystem
begin

text \<open>
  The state of the kernel: the global variables of the C files, grouped by the file that
  declares them, the hardware they act on (I/O ports, the interrupt flag, the task state
  segment, physical memory), and the views of memory a running process has.

  \<^item> \<open>outs\<close> is the sequence of \<open>outb\<close> writes, oldest first, as (value, port).
  \<^item> \<open>lowmem\<close> is the memory outside the user page and the video pages, which the kernel sees at
    its own address. \<open>frames f\<close> is the 4 MB physical frame with number \<open>f\<close>; the one the user
    page maps is seen at 128 MB. \<open>vram p\<close> is the 4 KB physical page \<open>p\<close> of the video area.
  \<^item> The process control blocks lie on the kernel stacks at \<open>8MB - 8KB * (pid + 1)\<close>; the model
    keeps them in the list \<open>pcbs\<close>, indexed by pid.
  \<^item> Every change of the page tables in the code is followed by \<open>tlbFlush\<close>, so a change takes
    effect at once.
\<close>

record flags_t =
  fl_ctrl_info :: "u8 list"
  fl_shift_flag :: u8
  fl_capslock_flag :: u8
  fl_capital_flag :: u8
  fl_alt_info :: int

record terminal_info_t =
  is_terminal_running :: int
  ti_screen_x :: int
  ti_screen_y :: int
  ti_video_mem :: "u8 list"
  ti_buf_idx :: nat
  ti_keyboard_buf :: "u8 list"
  ti_term_buf :: "u8 list"

record kernel =
  outs :: "(u8 \<times> u16) list"
  iflag :: bool
  lowmem :: mem
  frames :: "u32 \<Rightarrow> u32 \<Rightarrow> u8"
  vram :: "nat \<Rightarrow> nat \<Rightarrow> u8"
  tss_esp0 :: u32
  tss_ss0 :: u16
  \<comment> \<open>i8259.c\<close>
  master_mask :: u8
  slave_mask :: u8
  \<comment> \<open>paging.c\<close>
  page_directory :: "u32 list"
  page_table :: "u32 list"
  video_page_table :: "u32 list"
  currentTerminal :: nat
  \<comment> \<open>lib.c\<close>
  keyboardPutCFlag :: int
  termScreenx :: "int list"
  termScreeny :: "int list"
  \<comment> \<open>keyboard.c\<close>
  keyboard_buf :: "u8 list"
  keyboard_buf1 :: "u8 list"
  keyboard_buf2 :: "u8 list"
  keyboard_buf3 :: "u8 list"
  ctrl_info :: "u8 list"
  shift_flag :: u8
  capslock_flag :: u8
  capital_flag :: u8
  alt_info :: int
  f1_info :: int
  f2_info :: int
  f3_info :: int
  recentTermChoice :: "nat list"
  buf_idx :: nat
  keyboard_flags :: "flags_t list"
  enter_flag :: "int list"
  \<comment> \<open>terminal.c\<close>
  termReadFlag :: "int list"
  terminal_print_flag :: u8
  curr_terminal_idx :: nat
  term_buf :: "u8 list"
  terminal_switch_array :: "terminal_info_t list"
  \<comment> \<open>rtc.c\<close>
  curr_freq :: "int list"
  curr_count :: "int list"
  freq_count :: "int list"
  rtc_flag :: "int list"
  \<comment> \<open>scheduling.c\<close>
  parent_pid_for_term :: "nat list"
  curr_pid_for_term :: "nat list"
  scheduled_term :: nat
  terminalInstantiated :: "int list"
  doneInstantiating :: int
  \<comment> \<open>systemCall.c and file_systems.c\<close>
  pid :: nat
  args :: "u8 list"
  pcb_arr :: "int list"
  pcbs :: "PCB list"
  boot_block :: u32

section \<open>Constants\<close>

definition FourKB :: nat where "FourKB = 4096"
definition VIDEO :: nat where "VIDEO = 0xB8000"
definition MB4 :: u32 where "MB4 = 0x400000"
definition MB8 :: u32 where "MB8 = 0x800000"
definition KB8 :: u32 where "KB8 = 8192"
definition USR_MEM_VIRT_ADDR :: u32 where "USR_MEM_VIRT_ADDR = 0x8000000"
definition PROGRAM_IMG :: u32 where "PROGRAM_IMG = 0x08048000"
definition BUFSIZE :: nat where "BUFSIZE = 128"
definition NUM_COLS :: nat where "NUM_COLS = 80"
definition NUM_ROWS :: nat where "NUM_ROWS = 25"

abbreviation (input) USR_MEM_IDX :: nat where "USR_MEM_IDX \<equiv> 32"
abbreviation (input) VID_PAGE_IDX :: nat where "VID_PAGE_IDX \<equiv> 33"
abbreviation (input) VIDEO_PAGE :: nat where "VIDEO_PAGE \<equiv> 184"
abbreviation (input) MAX_PCB :: nat where "MAX_PCB \<equiv> 6"
abbreviation (input) NUM_TERMS :: nat where "NUM_TERMS \<equiv> 3"
abbreviation (input) KERNEL_DS :: u16 where "KERNEL_DS \<equiv> 0x18"
abbreviation (input) ATTRIB :: u8 where "ATTRIB \<equiv> 0x0A"

section \<open>The state at boot\<close>

text \<open>The initialisers of the global variables; what C does not initialise is zero.\<close>

definition empty_fd :: file_descriptor where
  "empty_fd = \<lparr>jump_table = \<lparr>openFunc = Open_wild, closeFunc = Close_wild, readFunc = Read_wild,
     writeFunc = Write_wild\<rparr>, inode_check = 0, file_position = 0, flags = empty\<rparr>"

definition empty_PCB :: PCB where
  "empty_PCB = \<lparr>active = 0, parent = 0, id' = 0, scheduledEbp = 0, scheduledEsp = 0, ebp = 0,
     esp = 0, eip = 0, esp_program_start = 0, fdArray = replicate 8 empty_fd,
     openIndexes = replicate 6 0, terminal = 0\<rparr>"

definition boot_flags :: flags_t where
  "boot_flags = \<lparr>fl_ctrl_info = [0, 0], fl_shift_flag = 0, fl_capslock_flag = 0,
     fl_capital_flag = 0, fl_alt_info = 0\<rparr>"

definition boot_terminal :: terminal_info_t where
  "boot_terminal = \<lparr>is_terminal_running = 0, ti_screen_x = 0, ti_screen_y = 0,
     ti_video_mem = replicate 500 0, ti_buf_idx = 0, ti_keyboard_buf = replicate 128 0,
     ti_term_buf = replicate 128 0\<rparr>"

definition boot_state :: kernel where
  "boot_state = \<lparr>outs = [], iflag = False, lowmem = (\<lambda>a. 0), frames = (\<lambda>f a. 0),
     vram = (\<lambda>p i. 0), tss_esp0 = 0, tss_ss0 = 0, master_mask = 0xFF, slave_mask = 0xFF,
     page_directory = replicate 1024 0, page_table = replicate 1024 0,
     video_page_table = replicate 1024 0, currentTerminal = 1,
     keyboardPutCFlag = 0, termScreenx = [0, 0, 0], termScreeny = [0, 0, 0],
     keyboard_buf = replicate 128 0, keyboard_buf1 = replicate 128 0,
     keyboard_buf2 = replicate 128 0, keyboard_buf3 = replicate 128 0, ctrl_info = [0, 0],
     shift_flag = 0, capslock_flag = 0, capital_flag = 0, alt_info = 0, f1_info = 0,
     f2_info = 0, f3_info = 0, recentTermChoice = [1, 1], buf_idx = 0,
     keyboard_flags = replicate 3 boot_flags, enter_flag = [0, 0, 0],
     termReadFlag = [0, 0, 0], terminal_print_flag = 0, curr_terminal_idx = 0,
     term_buf = replicate 128 0, terminal_switch_array = replicate 3 boot_terminal,
     curr_freq = [1024, 1024, 1024], curr_count = [1, 1, 1], freq_count = [1, 1, 1],
     rtc_flag = [0, 0, 0], parent_pid_for_term = [0, 1, 2], curr_pid_for_term = [0, 1, 2],
     scheduled_term = 0, terminalInstantiated = [0, 0, 0], doneInstantiating = 0,
     pid = 0, args = replicate 128 0, pcb_arr = replicate 6 0, pcbs = replicate 6 empty_PCB,
     boot_block = 0\<rparr>"

section \<open>Ports and the interrupt flag\<close>

text \<open>\<open>inb\<close> reads a device: its results are an argument of the operations that use it.\<close>

definition outb :: "u8 \<Rightarrow> u16 \<Rightarrow> kernel \<Rightarrow> kernel" where
  "outb v port s = s\<lparr>outs := outs s @ [(v, port)]\<rparr>"

definition cli :: "kernel \<Rightarrow> kernel" where
  "cli s = s\<lparr>iflag := False\<rparr>"

definition sti :: "kernel \<Rightarrow> kernel" where
  "sti s = s\<lparr>iflag := True\<rparr>"

section \<open>Bit fields\<close>

text \<open>A field of \<open>width\<close> bits at bit \<open>lo\<close> of a 32-bit descriptor, read and assigned as C does.\<close>

definition fld :: "nat \<Rightarrow> nat \<Rightarrow> u32 \<Rightarrow> u32" where
  "fld lo width w = drop_bit lo w AND mask width"

definition fld_upd :: "nat \<Rightarrow> nat \<Rightarrow> u32 \<Rightarrow> u32 \<Rightarrow> u32" where
  "fld_upd lo width v w =
     (w AND NOT (push_bit lo (mask width))) OR push_bit lo (v AND mask width)"

lemma bit32_bound: "bit (w :: u32) n \<Longrightarrow> n < 32"
  using bit_imp_le_length [of w n] by simp

lemma bit_fld: "bit (fld lo width w) n \<longleftrightarrow> n < width \<and> bit w (lo + n)"
  using bit32_bound [of w "lo + n"] by (auto simp: fld_def bit_simps)

lemma bit_fld_upd:
  "bit (fld_upd lo width v w) n \<longleftrightarrow>
     n < 32 \<and> (if lo \<le> n \<and> n < lo + width then bit v (n - lo) else bit w n)"
  by (auto simp: fld_upd_def bit_simps dest: bit32_bound)

lemma fld_upd_same [simp]:
  "lo + width \<le> 32 \<Longrightarrow> fld lo width (fld_upd lo width v w) = v AND mask width"
  by (rule bit_eqI) (auto simp: bit_fld bit_fld_upd bit_simps)

lemma fld_upd_other [simp]:
  "lo + width \<le> lo' \<or> lo' + width' \<le> lo \<Longrightarrow> fld lo' width' (fld_upd lo width v w) = fld lo' width' w"
  by (rule bit_eqI) (auto simp: bit_fld bit_fld_upd dest: bit32_bound)

section \<open>Views of memory\<close>

text \<open>The physical frame behind the user page, \<open>page_directory[USR_MEM_IDX].MB.pt_address\<close>.\<close>

definition user_frame :: "kernel \<Rightarrow> u32" where
  "user_frame s = fld 22 10 (page_directory s ! USR_MEM_IDX)"

definition in_user_page :: "u32 \<Rightarrow> bool" where
  "in_user_page a \<longleftrightarrow> a - USR_MEM_VIRT_ADDR < MB4"

definition vmem :: "kernel \<Rightarrow> mem" where
  "vmem s a = (if in_user_page a then frames s (user_frame s) (a - USR_MEM_VIRT_ADDR) else lowmem s a)"

definition set_vmem :: "mem \<Rightarrow> kernel \<Rightarrow> kernel" where
  "set_vmem m s = s\<lparr>lowmem := (\<lambda>a. if in_user_page a then lowmem s a else m a),
     frames := (frames s)(user_frame s := \<lambda>i. if i < MB4 then m (USR_MEM_VIRT_ADDR + i)
       else frames s (user_frame s) i)\<rparr>"

lemma vmem_set_vmem [simp]: "vmem (set_vmem m s) = m"
  by (rule ext) (simp add: vmem_def set_vmem_def user_frame_def in_user_page_def)

lemma set_vmem_vmem [simp]: "set_vmem (vmem s) s = s"
proof -
  have "(\<lambda>a. if in_user_page a then lowmem s a else vmem s a) = lowmem s"
    by (rule ext) (simp add: vmem_def)
  moreover have "(frames s)(user_frame s := \<lambda>i. if i < MB4 then vmem s (USR_MEM_VIRT_ADDR + i)
       else frames s (user_frame s) i) = frames s"
    by (rule ext)+ (simp add: vmem_def in_user_page_def)
  ultimately show ?thesis by (simp add: set_vmem_def)
qed

text \<open>Whatever is written through the user page, every other process's frame stays as it is.\<close>

lemma set_vmem_other_frame [frame_simps]:
  "f \<noteq> user_frame s \<Longrightarrow> frames (set_vmem m s) f = frames s f"
  by (simp add: set_vmem_def)

section \<open>Process control blocks\<close>

text \<open>\<open>getPCB\<close>: the address of a process control block. Its structure is 279 bytes long.\<close>

definition getPCB :: "nat \<Rightarrow> u32" where
  "getPCB inpid = MB8 - KB8 * (of_nat inpid + 1)"

definition sizeof_PCB :: nat where "sizeof_PCB = 3 + 6 * 4 + 8 * (7 * 4) + 6 * 4 + 4"

definition current_pid :: "kernel \<Rightarrow> nat" where
  "current_pid s = curr_pid_for_term s ! scheduled_term s"

end
