(* ===== verification/I8259.thy ===== *)
theory I8259
  imports KernelState
begin

text \<open>
  The interrupt controllers, \<open>student-distrib/i8259.c\<close>. The operations write ports only; what
  \<open>inb\<close> reads from the mask register is the argument \<open>inb\<close>. The contract of such operations
  is the locale \<open>port_op\<close>: nothing but the port trace changes, and it only grows.
\<close>

section \<open>Operations\<close>

definition MASTER_8259_PORT :: u16 where "MASTER_8259_PORT = 0x20"
definition SLAVE_8259_PORT :: u16 where "SLAVE_8259_PORT = 0xA0"
definition EOI :: u8 where "EOI = 0x60"

text \<open>\<open>1 << irq_num\<close> on an \<open>int\<close>: the processor takes the count modulo 32.\<close>

definition shl1 :: "u8 \<Rightarrow> u32" where
  "shl1 n = push_bit (unat n mod 32) 1"

definition enable_irq :: "(u16 \<Rightarrow> u8) \<Rightarrow> u8 \<Rightarrow> kernel \<Rightarrow> kernel" where
  "enable_irq inb irq_num s =
     (let (port, irq_num) = (if irq_num < 8 then (MASTER_8259_PORT + 1, irq_num)
                             else (SLAVE_8259_PORT + 1, irq_num - 8));
          value = ucast (ucast (inb port) AND NOT (shl1 irq_num))
      in outb value port s)"

definition disable_irq :: "(u16 \<Rightarrow> u8) \<Rightarrow> u8 \<Rightarrow> kernel \<Rightarrow> kernel" where
  "disable_irq inb irq_num s =
     (let (port, irq_num) = (if irq_num < 8 then (MASTER_8259_PORT + 1, irq_num)
                             else (SLAVE_8259_PORT + 1, irq_num - 8));
          value = ucast (ucast (inb port) OR shl1 irq_num)
      in outb value port s)"

definition send_eoi :: "u8 \<Rightarrow> kernel \<Rightarrow> kernel" where
  "send_eoi irq_num s =
     (if irq_num > 15 then s
      else if irq_num \<ge> 8 then
        outb (EOI OR 2) MASTER_8259_PORT (outb (EOI OR (irq_num - 8)) SLAVE_8259_PORT s)
      else outb (EOI OR irq_num) MASTER_8259_PORT s)"

definition i8259_init :: "(kernel \<Rightarrow> u16 \<Rightarrow> u8) \<Rightarrow> kernel \<Rightarrow> kernel" where
  "i8259_init inb s =
     (let s = outb 0x11 MASTER_8259_PORT s;
          s = outb 0x11 SLAVE_8259_PORT s;
          s = outb 0x20 (MASTER_8259_PORT + 1) s;
          s = outb 0x28 (SLAVE_8259_PORT + 1) s;
          s = outb 0x04 (MASTER_8259_PORT + 1) s;
          s = outb 0x02 (SLAVE_8259_PORT + 1) s;
          s = outb 0x01 (MASTER_8259_PORT + 1) s;
          s = outb 0x01 (SLAVE_8259_PORT + 1) s;
          s = outb (master_mask s) (MASTER_8259_PORT + 1) s;
          s = outb (slave_mask s) (SLAVE_8259_PORT + 1) s
      in enable_irq (inb s) 2 s)"

section \<open>Operations that only write ports\<close>

locale port_op =
  fixes f :: "kernel \<Rightarrow> kernel" and w :: "kernel \<Rightarrow> (u8 \<times> u16) list"
  assumes writes: "f s = s\<lparr>outs := outs s @ w s\<rparr>"
begin

lemma outs_f: "outs (f s) = outs s @ w s"
  by (simp add: writes)

lemma unchanged:
  "iflag (f s) = iflag s" "lowmem (f s) = lowmem s" "frames (f s) = frames s"
  "vram (f s) = vram s" "page_directory (f s) = page_directory s"
  "page_table (f s) = page_table s" "video_page_table (f s) = video_page_table s"
  "currentTerminal (f s) = currentTerminal s" "scheduled_term (f s) = scheduled_term s"
  "termScreenx (f s) = termScreenx s" "termScreeny (f s) = termScreeny s"
  "keyboardPutCFlag (f s) = keyboardPutCFlag s" "buf_idx (f s) = buf_idx s"
  "keyboard_buf (f s) = keyboard_buf s" "ctrl_info (f s) = ctrl_info s"
  "recentTermChoice (f s) = recentTermChoice s" "term_buf (f s) = term_buf s"
  "termReadFlag (f s) = termReadFlag s" "enter_flag (f s) = enter_flag s"
  by (simp_all add: writes)

lemma monotone: "\<exists>tr. outs (f s) = outs s @ tr"
  by (simp add: outs_f)

end

definition imr_port :: "u8 \<Rightarrow> u16" where
  "imr_port irq = (if irq < 8 then MASTER_8259_PORT + 1 else SLAVE_8259_PORT + 1)"

definition irq_line :: "u8 \<Rightarrow> nat" where
  "irq_line irq = unat irq mod 8"

definition eoi_trace :: "u8 \<Rightarrow> (u8 \<times> u16) list" where
  "eoi_trace irq = (if irq > 15 then []
     else if irq \<ge> 8 then [(EOI OR (irq - 8), SLAVE_8259_PORT), (EOI OR 2, MASTER_8259_PORT)]
     else [(EOI OR irq, MASTER_8259_PORT)])"

interpretation eoi: port_op "send_eoi irq" "\<lambda>s. eoi_trace irq" for irq
  by unfold_locales (simp add: send_eoi_def eoi_trace_def outb_def)

interpretation outb_op: port_op "outb v p" "\<lambda>s. [(v, p)]" for v p
  by unfold_locales (simp add: outb_def)

interpretation enable: port_op "enable_irq inb irq"
  "\<lambda>s. [(ucast (ucast (inb (imr_port irq)) AND NOT (shl1 (if irq < 8 then irq else irq - 8))),
     imr_port irq)]" for inb irq
  by unfold_locales (simp add: enable_irq_def imr_port_def outb_def)

interpretation disable: port_op "disable_irq inb irq"
  "\<lambda>s. [(ucast (ucast (inb (imr_port irq)) OR shl1 (if irq < 8 then irq else irq - 8)),
     imr_port irq)]" for inb irq
  by unfold_locales (simp add: disable_irq_def imr_port_def outb_def)

lemmas port_frame [simp] = eoi.unchanged outb_op.unchanged enable.unchanged disable.unchanged

section \<open>Masking\<close>

text \<open>The mask register of a controller after a trace of writes: the last one to its data port.\<close>

definition imr_after :: "u16 \<Rightarrow> u8 \<Rightarrow> (u8 \<times> u16) list \<Rightarrow> u8" where
  "imr_after port init tr = fold (\<lambda>(v, p) r. if p = port then v else r) tr init"

lemma imr_after_snoc [simp]:
  "imr_after port init (tr @ [(v, p)]) = (if p = port then v else imr_after port init tr)"
  by (simp add: imr_after_def)

lemma irq_line_below: "irq < 16 \<Longrightarrow> unat (if irq < 8 then irq else irq - 8) = irq_line irq"
proof -
  assume i: "irq < 16"
  then have u: "unat irq < 16" by (simp add: word_less_nat_alt)
  show ?thesis
  proof (cases "irq < 8")
    case True
    then show ?thesis by (simp add: irq_line_def word_less_nat_alt)
  next
    case False
    then have "8 \<le> irq" by simp
    then have "unat (irq - 8) = unat irq - 8" by (simp add: unat_sub word_le_nat_alt)
    then show ?thesis using False u
      by (simp add: irq_line_def word_less_nat_alt mod_if)
  qed
qed

lemma bit_shl1: "irq < 16 \<Longrightarrow>
  bit (shl1 (if irq < 8 then irq else irq - 8)) n \<longleftrightarrow> n = irq_line irq"
  using irq_line_below [of irq] by (auto simp: shl1_def bit_simps irq_line_def)

lemma bit_enabled:
  "irq < 16 \<Longrightarrow> n < 8 \<Longrightarrow>
   bit (ucast (ucast m AND NOT (shl1 (if irq < 8 then irq else irq - 8))) :: u8) n
     \<longleftrightarrow> bit (m :: u8) n \<and> n \<noteq> irq_line irq"
  by (auto simp: bit_simps bit_shl1 simp del: if_split)

lemma bit_disabled:
  "irq < 16 \<Longrightarrow> n < 8 \<Longrightarrow>
   bit (ucast (ucast m OR shl1 (if irq < 8 then irq else irq - 8)) :: u8) n
     \<longleftrightarrow> bit (m :: u8) n \<or> n = irq_line irq"
  by (auto simp: bit_simps bit_shl1 simp del: if_split)

text \<open>\<open>enable_irq\<close> clears exactly the bit of its line in the mask of the right controller
  and \<open>disable_irq\<close> sets exactly that bit; the other controller is not written and nothing
  else of the kernel state changes. Both read the current mask first, so other lines keep
  theirs.\<close>

theorem irq_mask_correct:
  assumes "irq < 16" and "\<And>p. inb p = imr_after p (init p) (outs s)"
  shows "(\<forall>n < 8. bit (imr_after (imr_port irq) (init (imr_port irq)) (outs (enable_irq inb irq s))) n
            \<longleftrightarrow> bit (inb (imr_port irq)) n \<and> n \<noteq> irq_line irq)
    \<and> (\<forall>n < 8. bit (imr_after (imr_port irq) (init (imr_port irq)) (outs (disable_irq inb irq s))) n
            \<longleftrightarrow> bit (inb (imr_port irq)) n \<or> n = irq_line irq)
    \<and> (\<forall>p. p \<noteq> imr_port irq \<longrightarrow>
         imr_after p (init p) (outs (enable_irq inb irq s)) = inb p
         \<and> imr_after p (init p) (outs (disable_irq inb irq s)) = inb p)
    \<and> enable_irq inb irq s = s\<lparr>outs := outs (enable_irq inb irq s)\<rparr>
    \<and> disable_irq inb irq s = s\<lparr>outs := outs (disable_irq inb irq s)\<rparr>"
  using assms
  by (simp add: enable.writes disable.writes bit_enabled bit_disabled del: if_split)

theorem irq_mask_correct_witness:
  "\<not> bit (imr_after 0x21 0xFF (outs (enable_irq (\<lambda>p. 0xFF) 1 (undefined\<lparr>outs := []\<rparr>)))) 1"
proof -
  let ?s = "undefined\<lparr>outs := []\<rparr> :: kernel"
  have p: "imr_port 1 = 0x21" "irq_line 1 = 1"
    by (simp_all add: imr_port_def MASTER_8259_PORT_def irq_line_def)
  have "(1 :: u8) < 16" "\<And>p. (0xFF :: u8) = imr_after p 0xFF (outs ?s)"
    by (simp_all add: imr_after_def)
  from irq_mask_correct [where inb = "\<lambda>p. 0xFF" and init = "\<lambda>p. 0xFF" and s = ?s, OF this]
  show ?thesis unfolding p by simp
qed

text \<open>\<open>send_eoi\<close> acknowledges an interrupt of the first controller there, one of the second
  controller first there and then on line 2 of the first, and writes nothing for a number
  above 15; each byte it sends is a specific end-of-interrupt for the right line.\<close>

theorem send_eoi_correct:
  "outs (send_eoi irq s) = outs s @
     (if irq < 8 then [(0x60 + irq, 0x20)]
      else if irq < 16 then [(0x60 + (irq - 8), 0xA0), (0x62, 0x20)]
      else [])
   \<and> send_eoi irq s = s\<lparr>outs := outs (send_eoi irq s)\<rparr>"
proof -
  have or: "EOI OR k = 0x60 + k" if "k < 8" for k :: u8
  proof -
    have "unat k \<in> {0, 1, 2, 3, 4, 5, 6, 7}" using that by (auto simp: word_less_nat_alt)
    then have "\<exists>n \<in> {0, 1, 2, 3, 4, 5, 6, 7 :: nat}. k = of_nat n"
      by (intro bexI [of _ "unat k"]) simp_all
    then show ?thesis by (auto simp: EOI_def)
  qed
  have hi: "irq - 8 < 8" if "\<not> irq < 8" "irq < 16"
    using that by (simp add: word_less_nat_alt unat_sub word_le_nat_alt)
  have gt: "irq > 15 \<longleftrightarrow> \<not> irq < 16"
    by (auto simp: word_less_nat_alt)
  show ?thesis
    using or [of irq] or [of "irq - 8"] hi or [of 2]
    by (cases "irq < 8"; cases "irq < 16")
      (auto simp: send_eoi_def outb_def gt word_less_nat_alt word_le_nat_alt MASTER_8259_PORT_def SLAVE_8259_PORT_def)
qed

end
