(* ===== verification/Paging.thy ===== *)
theory Paging
  imports I8259
begin

text \<open>
  Paging, \<open>student-distrib/paging.c\<close> with the entry layouts of \<open>paging.h\<close>: the tables that
  \<open>paging_init\<close> builds, the screen exchange of \<open>terminal_changing\<close>, and the two functions of
  other files that only write table entries, \<open>set_paging_scheduling\<close> (\<open>scheduling.c\<close>) and the
  assignment of the user page in \<open>systemCall.c\<close>. An entry is its 32-bit word; a bit field is a
  position and a width. The processor's page walk (two levels, 4 MB pages, present and user
  bits) gives the tables their meaning. The link-time addresses of \<open>page_table\<close> and
  \<open>video_page_table\<close> are the arguments \<open>pt\<close> and \<open>vpt\<close>.
\<close>

section \<open>Entries\<close>

type_synonym bitfield = "nat \<times> nat"

definition getf :: "bitfield \<Rightarrow> u32 \<Rightarrow> u32" where
  "getf f w = fld (fst f) (snd f) w"

definition setf :: "bitfield \<Rightarrow> u32 \<Rightarrow> u32 \<Rightarrow> u32" where
  "setf f v w = fld_upd (fst f) (snd f) v w"

definition sets :: "(bitfield \<times> u32) list \<Rightarrow> u32 \<Rightarrow> u32" where
  "sets fvs w = fold (\<lambda>(f, v). setf f v) fvs w"

text \<open>\<open>pd_entryKB_t\<close>, \<open>pd_entryMB_t\<close> and \<open>pt_entry_t\<close>: the first six fields are shared.\<close>

definition e_present :: bitfield where "e_present = (0, 1)"
definition e_readWrite :: bitfield where "e_readWrite = (1, 1)"
definition e_userSupervisor :: bitfield where "e_userSupervisor = (2, 1)"
definition e_writeThrough :: bitfield where "e_writeThrough = (3, 1)"
definition e_cacheDisabled :: bitfield where "e_cacheDisabled = (4, 1)"
definition e_Accessed :: bitfield where "e_Accessed = (5, 1)"
definition e_Dirty :: bitfield where "e_Dirty = (6, 1)"
definition e_PS :: bitfield where "e_PS = (7, 1)"
definition e_GlobalPage :: bitfield where "e_GlobalPage = (8, 1)"
definition e_AVL :: bitfield where "e_AVL = (9, 3)"
definition KB_pt_address :: bitfield where "KB_pt_address = (12, 20)"
definition MB_PageTableAttributeIndex :: bitfield where "MB_PageTableAttributeIndex = (12, 1)"
definition MB_Reserved :: bitfield where "MB_Reserved = (13, 9)"
definition MB_pt_address :: bitfield where "MB_pt_address = (22, 10)"
definition pte_PageTableAttributeIndex :: bitfield where "pte_PageTableAttributeIndex = (7, 1)"
definition p_address :: bitfield where "p_address = (12, 20)"

lemmas field_defs = e_present_def e_readWrite_def e_userSupervisor_def e_writeThrough_def
  e_cacheDisabled_def e_Accessed_def e_Dirty_def e_PS_def e_GlobalPage_def e_AVL_def
  KB_pt_address_def MB_PageTableAttributeIndex_def MB_Reserved_def MB_pt_address_def
  pte_PageTableAttributeIndex_def p_address_def

section \<open>\<open>paging_init\<close>\<close>

definition pd_entry_init :: "u32 \<Rightarrow> u32 \<Rightarrow> nat \<Rightarrow> u32 \<Rightarrow> u32" where
  "pd_entry_init pt vpt i w =
     (let w = (if i = 0 then
          sets [(e_present, 1), (e_readWrite, 1), (e_userSupervisor, 0), (e_writeThrough, 0),
            (e_cacheDisabled, 0), (e_Accessed, 0), (e_Dirty, 0), (e_PS, 0), (e_GlobalPage, 0),
            (e_AVL, 0), (KB_pt_address, drop_bit 12 pt)] w else w);
        w = (if i = 1 then
          sets [(e_PS, 1), (e_GlobalPage, 1), (e_present, 1), (e_readWrite, 1),
            (e_userSupervisor, 0), (e_writeThrough, 0), (e_cacheDisabled, 0), (e_Accessed, 0),
            (e_Dirty, 0), (e_AVL, 0), (MB_PageTableAttributeIndex, 0), (MB_Reserved, 0),
            (MB_pt_address, drop_bit 22 0x400000)] w else w);
        w = (if i = 32 then
          sets [(e_PS, 1), (e_GlobalPage, 1), (e_present, 1), (e_readWrite, 1),
            (e_userSupervisor, 1), (e_writeThrough, 0), (e_cacheDisabled, 0), (e_Accessed, 0),
            (e_Dirty, 0), (e_AVL, 0), (MB_PageTableAttributeIndex, 0), (MB_Reserved, 0)] w
          else w);
        w = (if i = 33 then
          sets [(e_present, 1), (e_readWrite, 1), (e_userSupervisor, 1), (e_writeThrough, 0),
            (e_cacheDisabled, 0), (e_Accessed, 0), (e_Dirty, 0), (e_PS, 0), (e_GlobalPage, 0),
            (e_AVL, 0), (KB_pt_address, drop_bit 12 vpt)] w else w)
      in w)"

definition video_entry :: "nat \<Rightarrow> u32 \<Rightarrow> u32" where
  "video_entry page w =
     sets [(e_present, 1), (e_readWrite, 1), (e_cacheDisabled, 1), (e_userSupervisor, 0),
       (e_writeThrough, 0), (e_Accessed, 0), (e_Dirty, 0), (pte_PageTableAttributeIndex, 0),
       (e_GlobalPage, 0), (e_AVL, 0), (p_address, of_nat page)] w"

definition pt_entry_init :: "nat \<Rightarrow> u32 \<Rightarrow> u32" where
  "pt_entry_init i w =
     (if i = VIDEO div FourKB then video_entry (VIDEO div FourKB) w
      else if i = (VIDEO + FourKB) div FourKB then video_entry ((VIDEO + FourKB) div FourKB) w
      else if i = (VIDEO + 2 * FourKB) div FourKB then video_entry ((VIDEO + 2 * FourKB) div FourKB) w
      else if i = (VIDEO + 3 * FourKB) div FourKB then video_entry ((VIDEO + 3 * FourKB) div FourKB) w
      else w)"

definition vpt_entry_init :: "nat \<Rightarrow> u32 \<Rightarrow> u32" where
  "vpt_entry_init i w =
     (if i = 0 then
        sets [(e_present, 1), (e_readWrite, 1), (e_cacheDisabled, 1), (e_userSupervisor, 1),
          (e_writeThrough, 0), (e_Accessed, 0), (e_Dirty, 0), (pte_PageTableAttributeIndex, 0),
          (e_GlobalPage, 0), (e_AVL, 0), (p_address, of_nat (VIDEO div FourKB))] w
      else
        sets [(e_present, 0), (e_readWrite, 1), (e_userSupervisor, 0), (e_writeThrough, 0),
          (e_cacheDisabled, 0), (e_Accessed, 0), (e_Dirty, 0), (pte_PageTableAttributeIndex, 0),
          (e_GlobalPage, 0), (e_AVL, 0), (p_address, of_nat i)] w)"

definition for_entries :: "(nat \<Rightarrow> u32 \<Rightarrow> u32) \<Rightarrow> u32 list \<Rightarrow> u32 list" where
  "for_entries g t = fold (\<lambda>i t. t[i := g i (t ! i)]) [0..<1024] t"

definition paging_init :: "u32 \<Rightarrow> u32 \<Rightarrow> kernel \<Rightarrow> kernel" where
  "paging_init pt vpt s =
     s\<lparr>page_directory := for_entries (pd_entry_init pt vpt) (page_directory s),
       page_table := for_entries pt_entry_init (page_table s),
       video_page_table := for_entries vpt_entry_init (video_page_table s)\<rparr>"

section \<open>Changing the mapping\<close>

definition set_video_page :: "nat \<Rightarrow> kernel \<Rightarrow> kernel" where
  "set_video_page page s = s\<lparr>page_table := (page_table s)[VIDEO_PAGE :=
     setf p_address (of_nat page) (page_table s ! VIDEO_PAGE)]\<rparr>"

definition set_vidmap_page :: "nat \<Rightarrow> kernel \<Rightarrow> kernel" where
  "set_vidmap_page page s = s\<lparr>video_page_table := (video_page_table s)[0 :=
     setf p_address (of_nat page) (video_page_table s ! 0)]\<rparr>"

text \<open>The physical page behind a page of the first 4 MB.\<close>

definition video_page :: "nat \<Rightarrow> kernel \<Rightarrow> nat" where
  "video_page n s = unat (getf p_address (page_table s ! n))"

text \<open>\<open>page_directory[USR_MEM_IDX].MB.pt_address = (MB8 + MB4 * pid) >> 22\<close>\<close>

definition set_user_page :: "nat \<Rightarrow> kernel \<Rightarrow> kernel" where
  "set_user_page p s = s\<lparr>page_directory := (page_directory s)[USR_MEM_IDX :=
     setf MB_pt_address (drop_bit 22 (MB8 + MB4 * of_nat p)) (page_directory s ! USR_MEM_IDX)]\<rparr>"

definition set_paging_scheduling :: "nat \<Rightarrow> kernel \<Rightarrow> kernel" where
  "set_paging_scheduling currTerm s =
     (if int (scheduled_term s) = int currTerm - 1
      then set_video_page (VIDEO div FourKB) (set_vidmap_page (VIDEO div FourKB) s)
      else set_video_page ((VIDEO + (scheduled_term s + 1) * FourKB) div FourKB)
             (set_vidmap_page ((VIDEO + (scheduled_term s + 1) * FourKB) div FourKB) s))"

text \<open>A \<open>memcpy\<close> of one page between two pages of the first 4 MB.\<close>

definition copy_page :: "nat \<Rightarrow> nat \<Rightarrow> kernel \<Rightarrow> kernel" where
  "copy_page dst src s = s\<lparr>vram := (vram s)(video_page dst s := vram s (video_page src s))\<rparr>"

definition terminal_changing :: "kernel \<Rightarrow> kernel" where
  "terminal_changing s =
     (let temp = video_page VIDEO_PAGE s;
          s = set_video_page (VIDEO div FourKB) s;
          s = (if recentTermChoice s ! 1 \<noteq> currentTerminal s then
                 (let next = (VIDEO + recentTermChoice s ! 1 * FourKB) div FourKB;
                      prev = (VIDEO + currentTerminal s * FourKB) div FourKB;
                      s = copy_page prev (VIDEO div FourKB) s;
                      s = copy_page (VIDEO div FourKB) next s
                  in s\<lparr>currentTerminal := recentTermChoice s ! 1\<rparr>)
               else s)
      in set_video_page temp s)"

section \<open>The page walk\<close>

definition walk_table :: "u32 list \<Rightarrow> bool \<Rightarrow> u32 \<Rightarrow> u32 option" where
  "walk_table t user va =
     (let pte = t ! unat (fld 12 10 va) in
      if getf e_present pte = 0 \<or> (user \<and> getf e_userSupervisor pte = 0) then None
      else Some (push_bit 12 (getf p_address pte) OR take_bit 12 va))"

definition translate :: "u32 \<Rightarrow> u32 \<Rightarrow> kernel \<Rightarrow> bool \<Rightarrow> u32 \<Rightarrow> u32 option" where
  "translate pt vpt s user va =
     (let pde = page_directory s ! unat (drop_bit 22 va) in
      if getf e_present pde = 0 \<or> (user \<and> getf e_userSupervisor pde = 0) then None
      else if getf e_PS pde = 1
      then Some (push_bit 22 (getf MB_pt_address pde) OR take_bit 22 va)
      else if push_bit 12 (getf KB_pt_address pde) = pt then walk_table (page_table s) user va
      else if push_bit 12 (getf KB_pt_address pde) = vpt
      then walk_table (video_page_table s) user va
      else None)"

section \<open>Bit fields and entries\<close>

lemma getf_setf_same [simp]:
  "fst f + snd f \<le> 32 \<Longrightarrow> getf f (setf f v w) = take_bit (snd f) v"
  by (simp add: getf_def setf_def take_bit_eq_mask)

lemma getf_setf_other [simp]:
  "fst f + snd f \<le> fst g \<or> fst g + snd g \<le> fst f \<Longrightarrow> getf g (setf f v w) = getf g w"
  by (simp add: getf_def setf_def)

lemma sets_Nil [simp]: "sets [] w = w"
  by (simp add: sets_def)

lemma sets_Cons [simp]: "sets ((f, v) # fvs) w = sets fvs (setf f v w)"
  by (simp add: sets_def)

lemma getf_0 [simp]: "getf f 0 = 0"
  by (simp add: getf_def fld_def)

lemma length_for_entries [simp]: "length (for_entries g t) = length t"
proof -
  have "length (fold (\<lambda>i t. t[i := g i (t ! i)]) xs t) = length t" for xs
    by (induction xs arbitrary: t) auto
  then show ?thesis by (simp add: for_entries_def)
qed

lemma for_entries_nth [simp]:
  assumes "length t = 1024" "i < 1024"
  shows "for_entries g t ! i = g i (t ! i)"
proof -
  have "n \<le> 1024 \<Longrightarrow> fold (\<lambda>i t. t[i := g i (t ! i)]) [0..<n] t ! i = (if i < n then g i (t ! i) else t ! i)
      \<and> length (fold (\<lambda>i t. t[i := g i (t ! i)]) [0..<n] t) = 1024" for n
    using assms by (induction n) (auto simp: nth_list_update less_Suc_eq)
  from this [of 1024] show ?thesis using assms by (simp add: for_entries_def)
qed

lemma video_consts [simp]:
  "VIDEO div FourKB = 184" "(VIDEO + FourKB) div FourKB = 185"
  "(VIDEO + 2 * FourKB) div FourKB = 186" "(VIDEO + 3 * FourKB) div FourKB = 187"
  "(VIDEO + k * FourKB) div FourKB = 184 + k"
  "(VIDEO + (FourKB + k * FourKB)) div FourKB = 185 + k"
  "(VIDEO + (FourKB + FourKB)) div FourKB = 186"
  by (simp_all add: VIDEO_def FourKB_def)

section \<open>The invariant of the tables\<close>

definition pd_ok :: "u32 \<Rightarrow> u32 \<Rightarrow> u32 list \<Rightarrow> bool" where
  "pd_ok pt vpt pd \<longleftrightarrow> length pd = 1024
     \<and> (\<forall>i < 1024. getf e_present (pd ! i) = (if i \<in> {0, 1, 32, 33} then 1 else 0))
     \<and> (\<forall>i \<in> {0, 1, 32, 33}. getf e_userSupervisor (pd ! i) = (if 32 \<le> i then 1 else 0)
           \<and> getf e_PS (pd ! i) = (if i \<in> {1, 32} then 1 else 0))
     \<and> getf KB_pt_address (pd ! 0) = drop_bit 12 pt
     \<and> getf MB_pt_address (pd ! 1) = 1
     \<and> getf KB_pt_address (pd ! 33) = drop_bit 12 vpt"

definition pt_ok :: "u32 list \<Rightarrow> bool" where
  "pt_ok t \<longleftrightarrow> length t = 1024
     \<and> (\<forall>i < 1024. getf e_present (t ! i) = (if 184 \<le> i \<and> i \<le> 187 then 1 else 0))
     \<and> (\<forall>i \<in> {184, 185, 186, 187}. getf e_userSupervisor (t ! i) = 0)
     \<and> (\<forall>i \<in> {185, 186, 187}. getf p_address (t ! i) = of_nat i)
     \<and> unat (getf p_address (t ! 184)) \<in> {184, 185, 186, 187}"

definition vpt_ok :: "u32 list \<Rightarrow> bool" where
  "vpt_ok t \<longleftrightarrow> length t = 1024
     \<and> (\<forall>i < 1024. getf e_present (t ! i) = (if i = 0 then 1 else 0))
     \<and> getf e_userSupervisor (t ! 0) = 1
     \<and> unat (getf p_address (t ! 0)) \<in> {184, 185, 186, 187}"

definition paging_ok :: "u32 \<Rightarrow> u32 \<Rightarrow> kernel \<Rightarrow> bool" where
  "paging_ok pt vpt s \<longleftrightarrow> pd_ok pt vpt (page_directory s) \<and> pt_ok (page_table s)
     \<and> vpt_ok (video_page_table s)"

lemmas paging_ok_defs = paging_ok_def pd_ok_def pt_ok_def vpt_ok_def

lemma pd_init_ok: "pd_ok pt vpt (for_entries (pd_entry_init pt vpt) (replicate 1024 0))"
proof -
  have tb: "take_bit 20 (drop_bit 12 w) = drop_bit 12 w" for w :: u32
    by (rule bit_eqI) (auto simp: bit_simps dest: bit32_bound)
  show ?thesis
    by (simp add: pd_ok_def pd_entry_init_def field_defs tb)
qed

lemma pt_init_ok: "pt_ok (for_entries pt_entry_init (replicate 1024 0))"
  by (auto simp: pt_ok_def pt_entry_init_def video_entry_def field_defs)

lemma vpt_init_ok: "vpt_ok (for_entries vpt_entry_init (replicate 1024 0))"
  by (simp add: vpt_ok_def vpt_entry_init_def field_defs)

lemma paging_init_ok:
  assumes "page_directory s = replicate 1024 0" "page_table s = replicate 1024 0"
    "video_page_table s = replicate 1024 0"
  shows "paging_ok pt vpt (paging_init pt vpt s)"
  using assms pd_init_ok pt_init_ok vpt_init_ok by (simp add: paging_ok_def paging_init_def)

section \<open>What the tables map\<close>

text \<open>\<open>pt\<close> and \<open>vpt\<close> are different and 4 KB aligned, as the C declarations demand.\<close>

definition tables_at :: "u32 \<Rightarrow> u32 \<Rightarrow> bool" where
  "tables_at pt vpt \<longleftrightarrow> pt \<noteq> vpt \<and> take_bit 12 pt = 0 \<and> take_bit 12 vpt = 0"

lemma push_drop_aligned: "take_bit n w = 0 \<Longrightarrow> push_bit n (drop_bit n w) = (w :: u32)"
  using bits_ident [of n w] by simp

lemma push_drop_or: "push_bit n (drop_bit n w) OR take_bit n w = (w :: u32)"
  by (rule bit_eqI) (auto simp: bit_simps)

lemma unat_drop_bit32: "unat (drop_bit n (w :: u32)) = unat w div 2 ^ n"
  unfolding unat_drop_bit_eq by (rule drop_bit_eq_div)

lemma page_index_bounds:
  "unat (drop_bit 22 (va :: u32)) < 1024" "unat (fld 12 10 (va :: u32)) < 1024"
proof -
  show "unat (drop_bit 22 va) < 1024"
    using unat_lt_2p32 [of va] by (simp add: unat_drop_bit32)
  have "unat (take_bit 10 (drop_bit 12 va)) < 2 ^ 10"
    by (simp only: unsigned_take_bit_eq take_bit_nat_less_exp)
  then show "unat (fld 12 10 va) < 1024"
    by (simp add: fld_def take_bit_eq_mask)
qed

text \<open>The map of a well-formed set of tables, region by region.\<close>

lemma translate_map:
  assumes "paging_ok pt vpt s" "tables_at pt vpt"
  defines "d \<equiv> \<lambda>va. unat (drop_bit 22 va)" and "t \<equiv> \<lambda>va. unat (fld 12 10 va)"
  shows "translate pt vpt s user va =
    (if d va = 0 \<and> t va \<in> {184, 185, 186, 187} \<and> \<not> user
     then Some (push_bit 12 (of_nat (video_page (t va) s)) OR take_bit 12 va)
     else if d va = 1 \<and> \<not> user then Some va
     else if d va = 32 then Some (push_bit 22 (user_frame s) OR take_bit 22 va)
     else if d va = 33 \<and> t va = 0
     then Some (push_bit 12 (getf p_address (video_page_table s ! 0)) OR take_bit 12 va)
     else None)"
proof -
  have pd: "pd_ok pt vpt (page_directory s)" and ptk: "pt_ok (page_table s)"
    and vptk: "vpt_ok (video_page_table s)" using assms(1) by (auto simp: paging_ok_def)
  have al: "push_bit 12 (drop_bit 12 pt) = pt" "push_bit 12 (drop_bit 12 vpt) = vpt" "pt \<noteq> vpt"
    using assms(2) by (auto simp: tables_at_def push_drop_aligned)
  have b: "d va < 1024" "t va < 1024" using page_index_bounds by (simp_all add: d_def t_def)
  have pres: "getf e_present (page_directory s ! d va) = (if d va \<in> {0, 1, 32, 33} then 1 else 0)"
    using pd b(1) by (simp add: pd_ok_def)
  have tr: "translate pt vpt s user va =
     (let pde = page_directory s ! d va in
      if getf e_present pde = 0 \<or> (user \<and> getf e_userSupervisor pde = 0) then None
      else if getf e_PS pde = 1
      then Some (push_bit 22 (getf MB_pt_address pde) OR take_bit 22 va)
      else if push_bit 12 (getf KB_pt_address pde) = pt then walk_table (page_table s) user va
      else if push_bit 12 (getf KB_pt_address pde) = vpt
      then walk_table (video_page_table s) user va
      else None)"
    by (simp add: translate_def d_def)
  have wt: "walk_table tab u va =
     (if getf e_present (tab ! t va) = 0 \<or> (u \<and> getf e_userSupervisor (tab ! t va) = 0) then None
      else Some (push_bit 12 (getf p_address (tab ! t va)) OR take_bit 12 va))" for tab u
    by (simp add: walk_table_def t_def Let_def)
  consider "d va = 0" | "d va = 1" | "d va = 32" | "d va = 33" | "d va \<notin> {0, 1, 32, 33}" by auto
  then show ?thesis
  proof cases
    case 1
    then have "translate pt vpt s user va = (if user then None else walk_table (page_table s) user va)"
      using pd pres al by (simp add: tr pd_ok_def Let_def)
    moreover have "getf e_present (page_table s ! t va) = (if t va \<in> {184, 185, 186, 187} then 1 else 0)"
      using ptk b(2) by (auto simp: pt_ok_def)
    ultimately show ?thesis using 1 by (simp add: wt video_page_def)
  next
    case 2
    then have "drop_bit 22 va = 1" by (simp add: d_def word_unat_eq_iff)
    then have "push_bit 22 1 OR take_bit 22 va = va" using push_drop_or [of 22 va] by simp
    then show ?thesis using 2 pd pres by (simp add: tr pd_ok_def Let_def)
  next
    case 3
    then show ?thesis
      using pd pres by (simp add: tr pd_ok_def Let_def user_frame_def getf_def MB_pt_address_def)
  next
    case 4
    then have "translate pt vpt s user va = walk_table (video_page_table s) user va"
      using pd pres al by (simp add: tr pd_ok_def Let_def)
    moreover have "getf e_present (video_page_table s ! t va) = (if t va = 0 then 1 else 0)"
      using vptk b(2) by (auto simp: vpt_ok_def)
    ultimately show ?thesis using 4 vptk by (auto simp: wt vpt_ok_def)
  next
    case 5
    then show ?thesis using pres by (simp add: tr Let_def)
  qed
qed

section \<open>The operations keep the tables well-formed\<close>

lemma video_page_in:
  "pt_ok (page_table s) \<Longrightarrow> n \<in> {184, 185, 186, 187} \<Longrightarrow> video_page n s \<in> {184, 185, 186, 187}"
  "pt_ok (page_table s) \<Longrightarrow> n \<in> {185, 186, 187} \<Longrightarrow> video_page n s = n"
  by (auto simp: pt_ok_def video_page_def)

lemma set_video_page_ok [wf_intros]:
  assumes "pt_ok (page_table s)" "page \<in> {184, 185, 186, 187}"
  shows "pt_ok (page_table (set_video_page page s))"
  using assms by (auto simp: pt_ok_def set_video_page_def nth_list_update field_defs)

lemma set_vidmap_page_ok [wf_intros]:
  assumes "vpt_ok (video_page_table s)" "page \<in> {184, 185, 186, 187}"
  shows "vpt_ok (video_page_table (set_vidmap_page page s))"
  using assms by (auto simp: vpt_ok_def set_vidmap_page_def nth_list_update field_defs)

lemma set_user_page_ok [wf_intros]:
  assumes "pd_ok pt vpt (page_directory s)"
  shows "pd_ok pt vpt (page_directory (set_user_page p s))"
  using assms by (auto simp: pd_ok_def set_user_page_def nth_list_update field_defs)

lemma video_page_set [simp]:
  assumes "length (page_table s) = 1024" "page < 2 ^ 20"
  shows "video_page n (set_video_page page s) = (if n = 184 then page else video_page n s)"
proof -
  have "unat (take_bit 20 (of_nat page :: u32)) = page"
    using assms(2) by (simp add: unsigned_take_bit_eq unat_of_nat32 take_bit_nat_eq_self)
  then show ?thesis
    using assms by (auto simp: video_page_def set_video_page_def nth_list_update field_defs)
qed

lemma user_frame_set_user_page:
  assumes "length (page_directory s) = 1024" "p < 6"
  shows "user_frame (set_user_page p s) = of_nat p + 2"
proof -
  have "p = 0 \<or> p = 1 \<or> p = 2 \<or> p = 3 \<or> p = 4 \<or> p = 5" using assms(2) by auto
  then have "take_bit 10 (drop_bit 22 (MB8 + MB4 * of_nat p)) = (of_nat p + 2 :: u32)"
    by (elim disjE) (simp_all add: MB8_def MB4_def)
  then show ?thesis
    using assms(1) by (simp add: user_frame_def set_user_page_def setf_def MB_pt_address_def
        take_bit_eq_mask)
qed

lemma set_pages_frame [frame_simps, simp]:
  "page_directory (set_video_page n s) = page_directory s"
  "video_page_table (set_video_page n s) = video_page_table s"
  "vram (set_video_page n s) = vram s" "currentTerminal (set_video_page n s) = currentTerminal s"
  "recentTermChoice (set_video_page n s) = recentTermChoice s"
  "scheduled_term (set_video_page n s) = scheduled_term s"
  "page_directory (set_vidmap_page n s) = page_directory s"
  "page_table (set_vidmap_page n s) = page_table s"
  "vram (set_vidmap_page n s) = vram s" "currentTerminal (set_vidmap_page n s) = currentTerminal s"
  "recentTermChoice (set_vidmap_page n s) = recentTermChoice s"
  "scheduled_term (set_vidmap_page n s) = scheduled_term s"
  "length (page_table (set_video_page n s)) = length (page_table s)"
  by (simp_all add: set_video_page_def set_vidmap_page_def)

lemma video_page_vidmap [simp]: "video_page n (set_vidmap_page k s) = video_page n s"
  by (simp add: video_page_def)

lemma less_3: "(n :: nat) < 3 \<longleftrightarrow> n = 0 \<or> n = 1 \<or> n = 2"
  by auto

lemma set_paging_scheduling_ok [wf_intros]:
  assumes "paging_ok pt vpt s" "scheduled_term s < 3"
  shows "paging_ok pt vpt (set_paging_scheduling c s)"
  using assms by (auto simp: paging_ok_def set_paging_scheduling_def less_3
      intro!: set_video_page_ok set_vidmap_page_ok)

section \<open>Terminals and their screens\<close>

text \<open>
  What terminal \<open>t\<close> shows: the video memory when it is the one on display, its save page
  otherwise.
\<close>

definition screen_of :: "kernel \<Rightarrow> nat \<Rightarrow> nat \<Rightarrow> u8" where
  "screen_of s t = (if t = currentTerminal s then vram s 184 else vram s (184 + t))"

text \<open>Where an access of the scheduled process to the video memory goes.\<close>

definition scheduled_page :: "kernel \<Rightarrow> nat" where
  "scheduled_page s = (if scheduled_term s + 1 = currentTerminal s then 184
     else 184 + (scheduled_term s + 1))"

definition video_follows :: "kernel \<Rightarrow> bool" where
  "video_follows s \<longleftrightarrow> video_page 184 s = scheduled_page s"

definition vidmap_follows :: "kernel \<Rightarrow> bool" where
  "vidmap_follows s \<longleftrightarrow> unat (getf p_address (video_page_table s ! 0)) = scheduled_page s"

lemma vidmap_set:
  assumes "length (video_page_table s) = 1024" "page < 2 ^ 20"
  shows "unat (getf p_address (video_page_table (set_vidmap_page page s) ! 0)) = page"
  using assms
  by (simp add: set_vidmap_page_def field_defs unsigned_take_bit_eq unat_of_nat32 take_bit_nat_eq_self)

lemma set_paging_follows:
  assumes "paging_ok pt vpt s" "scheduled_term s < 3" "c = currentTerminal s"
  shows "video_follows (set_paging_scheduling c s)" "vidmap_follows (set_paging_scheduling c s)"
proof -
  have "length (page_table s) = 1024" "length (video_page_table s) = 1024"
    using assms(1) by (auto simp: paging_ok_defs)
  then show "video_follows (set_paging_scheduling c s)" "vidmap_follows (set_paging_scheduling c s)"
    using assms(2,3)
    by (auto simp: video_follows_def vidmap_follows_def scheduled_page_def set_paging_scheduling_def
        vidmap_set)
qed

lemma terminal_changing_effect:
  assumes "paging_ok pt vpt s" "currentTerminal s \<in> {1, 2, 3}" "recentTermChoice s ! 1 \<in> {1, 2, 3}"
  shows "currentTerminal (terminal_changing s) = recentTermChoice s ! 1"
    "t \<in> {1, 2, 3} \<Longrightarrow> screen_of (terminal_changing s) t = screen_of s t"
    "page_table (terminal_changing s) = page_table s"
proof -
  have l: "length (page_table s) = 1024" "pt_ok (page_table s)"
    using assms(1) by (auto simp: paging_ok_defs)
  have restore: "setf p_address (of_nat (video_page 184 s)) (setf p_address v (page_table s ! 184))
      = page_table s ! 184" for v
  proof -
    have "of_nat (video_page 184 s) = getf p_address (page_table s ! 184)"
      by (simp add: video_page_def)
    then show ?thesis
      by (simp add: setf_def getf_def) (rule bit_eqI, auto simp: bit_fld_upd bit_fld field_defs)
  qed
  show "currentTerminal (terminal_changing s) = recentTermChoice s ! 1"
    by (simp add: terminal_changing_def Let_def copy_page_def)
  show "page_table (terminal_changing s) = page_table s"
    using l(1) restore
    by (simp add: terminal_changing_def Let_def copy_page_def set_video_page_def)
  let ?c = "currentTerminal s" and ?r = "recentTermChoice s ! 1"
  have vp: "video_page (184 + k) (set_video_page 184 s) = (if k = 0 then 184 else 184 + k)"
    if "k \<in> {0, 1, 2, 3}" for k
    using that l video_page_in(2) [OF l(2), of "184 + k"] by auto
  have v: "vram (terminal_changing s) = (if ?r = ?c then vram s
      else (vram s)(184 + ?c := vram s 184, 184 := vram s (184 + ?r)))"
  proof (cases "?r = ?c")
    case True
    then show ?thesis by (simp add: terminal_changing_def Let_def)
  next
    case False
    have vc: "video_page (184 + ?c) (set_video_page 184 s) = 184 + ?c"
      "video_page (184 + ?r) (set_video_page 184 s) = 184 + ?r"
      "video_page 184 (set_video_page 184 s) = 184"
      using vp [of ?c] vp [of ?r] vp [of 0] assms(2,3) by auto
    have pt: "video_page n (copy_page d e s') = video_page n s'" for n d e s'
      by (simp add: video_page_def copy_page_def)
    show ?thesis
      using False by (simp only: terminal_changing_def Let_def video_consts set_pages_frame if_True
          not_False_eq_True if_False)
        (simp add: copy_page_def pt vc del: One_nat_def, simp add: video_page_def vc [unfolded video_page_def] del: One_nat_def)
  qed
  show "screen_of (terminal_changing s) t = screen_of s t" if t: "t \<in> {1, 2, 3}"
  proof (cases "?r = ?c")
    case True
    then show ?thesis
      using \<open>currentTerminal (terminal_changing s) = ?r\<close> by (simp add: screen_of_def v)
  next
    case False
    then show ?thesis
      using t assms(2,3) \<open>currentTerminal (terminal_changing s) = ?r\<close>
      by (cases "t = 0") (simp_all add: screen_of_def v)
  qed
qed

lemma terminal_changing_ok [wf_intros]:
  "paging_ok pt vpt s \<Longrightarrow> currentTerminal s \<in> {1, 2, 3} \<Longrightarrow> recentTermChoice s ! 1 \<in> {1, 2, 3}
   \<Longrightarrow> paging_ok pt vpt (terminal_changing s)"
  using terminal_changing_effect(3) [of pt vpt s]
  by (simp add: paging_ok_def) (simp add: terminal_changing_def Let_def copy_page_def)

section \<open>Physical addresses\<close>

lemma unat_or_disjoint:
  assumes "a < 2 ^ (32 - n)" "n \<le> 32"
  shows "unat (push_bit n (of_nat a) OR take_bit n w :: u32) = 2 ^ n * a + unat w mod 2 ^ n"
proof -
  have b: "2 ^ n * a + unat w mod 2 ^ n < 2 ^ 32"
  proof -
    have "2 ^ n * a + 2 ^ n \<le> 2 ^ n * 2 ^ (32 - n)"
      using assms(1) by (metis Suc_leI mult_Suc_right add.commute mult_le_mono2)
    moreover have "(2 :: nat) ^ n * 2 ^ (32 - n) = 2 ^ 32" using assms(2) by (simp flip: power_add)
    moreover have "unat w mod 2 ^ n < 2 ^ n" by simp
    ultimately show ?thesis by linarith
  qed
  have "(push_bit n (of_nat a) OR take_bit n w :: u32) = push_bit n (of_nat a) + take_bit n w"
    by (intro disjunctive_add [symmetric]) (auto simp: bit_simps)
  also have "\<dots> = of_nat (2 ^ n * a + unat w mod 2 ^ n)"
  proof -
    have "(take_bit n w :: u32) = of_nat (unat w mod 2 ^ n)"
      by (metis of_nat_unat32 unsigned_take_bit_eq take_bit_eq_mod)
    then show ?thesis by (simp add: push_bit_eq_mult mult.commute)
  qed
  finally show ?thesis using b by (simp only: unat_of_nat32)
qed

lemma unat_page_index:
  "unat (drop_bit 22 (va :: u32)) = unat va div 2 ^ 22"
  "unat (fld 12 10 (va :: u32)) = unat va div 2 ^ 12 mod 1024"
proof -
  show "unat (drop_bit 22 va) = unat va div 2 ^ 22" by (rule unat_drop_bit32)
  have "unat (fld 12 10 va) = unat (take_bit 10 (drop_bit 12 va))"
    by (simp add: fld_def take_bit_eq_mask)
  also have "\<dots> = unat va div 2 ^ 12 mod 1024"
    by (simp only: unsigned_take_bit_eq unat_drop_bit32) (simp add: take_bit_eq_mod)
  finally show "unat (fld 12 10 va) = unat va div 2 ^ 12 mod 1024" .
qed

text \<open>The four regions as intervals of addresses.\<close>

lemma regions:
  fixes va :: u32
  defines "d \<equiv> unat (drop_bit 22 va)" and "t \<equiv> unat (fld 12 10 va)"
  shows "d = 0 \<and> t \<in> {184, 185, 186, 187} \<longleftrightarrow> 0xB8000 \<le> unat va \<and> unat va < 0xBC000"
    "d = 1 \<longleftrightarrow> 0x400000 \<le> unat va \<and> unat va < 0x800000"
    "d = 32 \<longleftrightarrow> 0x8000000 \<le> unat va \<and> unat va < 0x8400000"
    "d = 33 \<and> t = 0 \<longleftrightarrow> 0x8400000 \<le> unat va \<and> unat va < 0x8401000"
proof -
  define v where "v = unat va"
  have dt: "d = v div 4194304" "t = v div 4096 mod 1024"
    by (simp_all add: d_def t_def unat_page_index v_def)
  have dv: "d = v div 4096 div 1024" by (simp add: dt div_mult2_eq [symmetric])
  have p: "v div 4096 = 1024 * d + t" by (simp add: dv dt(2))
  have tl: "t < 1024" by (simp add: dt(2))
  have "t \<in> {184, 185, 186, 187} \<longleftrightarrow> 184 \<le> t \<and> t < 188" by auto
  then have "d = 0 \<and> t \<in> {184, 185, 186, 187} \<longleftrightarrow> 184 \<le> v div 4096 \<and> v div 4096 < 188"
    unfolding p by (cases d) auto
  also have "\<dots> \<longleftrightarrow> 0xB8000 \<le> v \<and> v < 0xBC000" by auto
  finally show "d = 0 \<and> t \<in> {184, 185, 186, 187} \<longleftrightarrow> 0xB8000 \<le> unat va \<and> unat va < 0xBC000"
    by (simp add: v_def)
  show "d = 1 \<longleftrightarrow> 0x400000 \<le> unat va \<and> unat va < 0x800000"
    "d = 32 \<longleftrightarrow> 0x8000000 \<le> unat va \<and> unat va < 0x8400000"
    unfolding dt(1) v_def [symmetric] by auto
  have "d = (v div 4096) div 1024" "t = (v div 4096) mod 1024" using tl by (simp_all add: p)
  then have "v div 4096 = 33792 \<Longrightarrow> d = 33 \<and> t = 0" by simp
  moreover have "d = 33 \<and> t = 0 \<Longrightarrow> v div 4096 = 33792" by (simp add: p)
  ultimately have "d = 33 \<and> t = 0 \<longleftrightarrow> v div 4096 = 33792" by blast
  also have "\<dots> \<longleftrightarrow> 0x8400000 \<le> v \<and> v < 0x8401000" by auto
  finally show "d = 33 \<and> t = 0 \<longleftrightarrow> 0x8400000 \<le> unat va \<and> unat va < 0x8401000"
    by (simp add: v_def)
qed

lemma walk_result:
  fixes va :: u32
  shows "k < 2 ^ 20 \<Longrightarrow> unat (push_bit 12 (of_nat k) OR take_bit 12 va) = 4096 * k + unat va mod 4096"
    "k < 2 ^ 10 \<Longrightarrow> unat (push_bit 22 (of_nat k) OR take_bit 22 va) = 4194304 * k + unat va mod 4194304"
  using unat_or_disjoint [of k 12 va] unat_or_disjoint [of k 22 va] by simp_all

lemma in_user_page_iff: "in_user_page va \<longleftrightarrow> 0x8000000 \<le> unat va \<and> unat va < 0x8400000"
  using unat_lt_2p32 [of va]
  by (auto simp: in_user_page_def USR_MEM_VIRT_ADDR_def MB4_def word_less_nat_alt unat_sub_if')

lemma paging_init_frames:
  assumes "page_directory s = replicate 1024 0" "page_table s = replicate 1024 0"
    "video_page_table s = replicate 1024 0"
  shows "n \<in> {184, 185, 186, 187} \<Longrightarrow> video_page n (paging_init pt vpt s) = n"
    "user_frame (paging_init pt vpt s) = 0"
    "getf p_address (video_page_table (paging_init pt vpt s) ! 0) = 184"
  using assms
  by (auto simp: video_page_def user_frame_def paging_init_def pt_entry_init_def video_entry_def
      vpt_entry_init_def pd_entry_init_def field_defs getf_def [of "(22, 10)", simplified, symmetric])

text \<open>After \<open>paging_init\<close> on zeroed tables the processor maps exactly four regions: the
  video memory and its three save pages and the kernel's 4 MB onto themselves, for the kernel
  only; the user page at 128 MB; and the first page at 132 MB onto the video memory. Every
  other access faults, in user mode also the first two.\<close>

theorem paging_init_map:
  assumes "page_directory s = replicate 1024 0" "page_table s = replicate 1024 0"
    "video_page_table s = replicate 1024 0" "tables_at pt vpt"
  shows "translate pt vpt (paging_init pt vpt s) user va =
    (if 0xB8000 \<le> unat va \<and> unat va < 0xBC000 \<and> \<not> user then Some va
     else if 0x400000 \<le> unat va \<and> unat va < 0x800000 \<and> \<not> user then Some va
     else if in_user_page va then Some (va - 0x8000000)
     else if 0x8400000 \<le> unat va \<and> unat va < 0x8401000 then Some (va - 0x8400000 + 0xB8000)
     else None)"
proof -
  let ?s = "paging_init pt vpt s"
  note r = regions [of va]
  note w = walk_result [of _ va]
  have vid: "unat (fld 12 10 va) \<in> {184, 185, 186, 187} \<Longrightarrow> unat (drop_bit 22 va) = 0 \<Longrightarrow>
      push_bit 12 (of_nat (video_page (unat (fld 12 10 va)) ?s)) OR take_bit 12 va = va"
  proof -
    assume h: "unat (fld 12 10 va) \<in> {184, 185, 186, 187}" "unat (drop_bit 22 va) = 0"
    have "unat va div 4096 = unat (fld 12 10 va)"
      using h(2) by (simp add: unat_page_index div_eq_0_iff)
    moreover have "video_page (unat (fld 12 10 va)) ?s = unat (fld 12 10 va)"
      using h(1) paging_init_frames(1) [OF assms(1-3)] by blast
    ultimately show ?thesis
      using w(1) [of "unat va div 4096"] h(1) div_mult_mod_eq [of "unat va" 4096]
        unat_lt_2p32 [of va] by (auto simp: word_unat_eq_iff mult.commute)
  qed
  have usr: "push_bit 22 (user_frame ?s) OR take_bit 22 va = va - 0x8000000" if u: "in_user_page va"
  proof -
    have v: "134217728 \<le> unat va" "unat va < 138412032" using u by (auto simp: in_user_page_iff)
    then have "unat va div 4194304 = 32" by (intro div_nat_eqI) simp_all
    then have "unat va mod 4194304 = unat va - 134217728"
      using minus_div_mult_eq_mod [of "unat va" 4194304] by simp
    then have "unat (push_bit 22 (of_nat 0) OR take_bit 22 va) = unat (va - 0x8000000)"
      unfolding w(2) [of 0, simplified] using w(2) [of 0] v by (simp add: unat_sub_if')
    then show ?thesis by (simp add: paging_init_frames(2) [OF assms(1-3)] word_unat_eq_iff)
  qed
  have map: "push_bit 12 (getf p_address (video_page_table ?s ! 0)) OR take_bit 12 va
      = va - 0x8400000 + 0xB8000" if v: "0x8400000 \<le> unat va" "unat va < 0x8401000"
  proof -
    have "unat va div 4096 = 33792" using v by (intro div_nat_eqI) simp_all
    then have "unat va mod 4096 = unat va - 138412032"
      using minus_div_mult_eq_mod [of "unat va" 4096] by simp
    then have "unat (push_bit 12 (of_nat 184) OR take_bit 12 va) = unat (va - 0x8400000 + 0xB8000)"
      unfolding w(1) [of 184, simplified] using w(1) [of 184] v
      by (simp add: unat_sub_if' unat_word_ariths)
    then show ?thesis by (simp add: paging_init_frames(3) [OF assms(1-3)] word_unat_eq_iff)
  qed
  let ?d = "unat (drop_bit 22 va)" and ?t = "unat (fld 12 10 va)"
  let ?S = "{184, 185, 186, 187 :: nat}"
  note T = translate_map [OF paging_init_ok [OF assms(1-3)] assms(4), of user va]
  show ?thesis
  proof (cases "?d = 0 \<and> ?t \<in> ?S")
    case True
    then have "0xB8000 \<le> unat va" "unat va < 0xBC000" using r(1) by blast+
    moreover have "\<not> in_user_page va" using calculation by (simp add: in_user_page_iff)
    moreover have "\<not> ?d = 1" "\<not> ?d = 32" "\<not> ?d = 33" using True by simp_all
    ultimately show ?thesis
      unfolding T using True vid by (simp del: insert_iff)
  next
    case False
    then have a: "\<not> (0xB8000 \<le> unat va \<and> unat va < 0xBC000)" using r(1) by blast
    have f: "(?d = 0 \<and> ?t \<in> ?S \<and> \<not> user) = False" using False by blast
    show ?thesis
    proof (cases "?d = 1")
      case True
      then have "0x400000 \<le> unat va" "unat va < 0x800000" using r(2) by blast+
      then show ?thesis unfolding T f using True by (simp add: in_user_page_iff)
    next
      case not1: False
      then have b: "\<not> (0x400000 \<le> unat va \<and> unat va < 0x800000)" using r(2) by blast
      show ?thesis
      proof (cases "?d = 32")
        case True
        then have "in_user_page va" using r(3) unfolding in_user_page_iff by blast
        then show ?thesis unfolding T f using True a b usr by auto
      next
        case not32: False
        then have c: "\<not> in_user_page va" using r(3) unfolding in_user_page_iff by blast
        have "(?d = 33 \<and> ?t = 0) = (0x8400000 \<le> unat va \<and> unat va < 0x8401000)" by (rule r(4))
        then show ?thesis
          unfolding T f using not1 not32 a b c map by (simp only: simp_thms if_False cong: if_cong) auto
      qed
    qed
  qed
qed

theorem paging_init_map_witness:
  "translate 0x401000 0x402000 (paging_init 0x401000 0x402000 boot_state) True 0x400000 = None
   \<and> translate 0x401000 0x402000 (paging_init 0x401000 0x402000 boot_state) False 0x400000 = Some 0x400000"
proof -
  have "tables_at 0x401000 0x402000" by (simp add: tables_at_def)
  from paging_init_map [where s = boot_state, OF _ _ _ this] show ?thesis
    by (simp add: boot_state_def in_user_page_iff)
qed



text \<open>C31: \<open>terminal_changing\<close> puts the chosen terminal on display and loses nothing: the
  contents of every terminal's screen, displayed or saved, is the same before and after, and
  the mapping of the video memory is restored.\<close>

theorem terminal_changing_keeps_screens:
  assumes "paging_ok pt vpt s" "currentTerminal s \<in> {1, 2, 3}" "recentTermChoice s ! 1 \<in> {1, 2, 3}"
  shows "currentTerminal (terminal_changing s) = recentTermChoice s ! 1
    \<and> screen_of (terminal_changing s) 1 = screen_of s 1
    \<and> screen_of (terminal_changing s) 2 = screen_of s 2
    \<and> screen_of (terminal_changing s) 3 = screen_of s 3
    \<and> page_table (terminal_changing s) = page_table s"
  using terminal_changing_effect [OF assms] by simp

theorem terminal_changing_keeps_screens_witness:
  "let s = (paging_init 0x401000 0x402000 boot_state)
     \<lparr>vram := (\<lambda>p i. of_nat p), recentTermChoice := [1, 3]\<rparr>
   in currentTerminal (terminal_changing s) = 3 \<and> screen_of (terminal_changing s) 1 0 = 184"
proof -
  let ?s = "(paging_init 0x401000 0x402000 boot_state)
     \<lparr>vram := (\<lambda>p i. of_nat p), recentTermChoice := [1, 3]\<rparr>"
  have "paging_ok 0x401000 0x402000 (paging_init 0x401000 0x402000 boot_state)"
    by (rule paging_init_ok) (simp_all add: boot_state_def)
  then have ok: "paging_ok 0x401000 0x402000 ?s" by (simp add: paging_ok_def)
  have c: "currentTerminal (paging_init 0x401000 0x402000 boot_state) = 1"
    by (simp add: paging_init_def boot_state_def)
  have s: "screen_of ?s 1 0 = 184" by (simp add: screen_of_def c)
  have "currentTerminal ?s \<in> {1, 2, 3}" "recentTermChoice ?s ! 1 \<in> {1, 2, 3}" by (simp_all add: c)
  from terminal_changing_keeps_screens [OF ok this] show ?thesis
    using s by (simp add: Let_def)
qed

text \<open>\<open>set_paging_scheduling\<close>, called with the terminal on display, maps the video
  memory and the user's video page to what the scheduled terminal shows: the display when the
  scheduled terminal is on it, that terminal's save page when it is not. So a process that
  runs in the background never draws on the foreground terminal.\<close>

theorem video_mapping_follows_schedule:
  assumes "paging_ok pt vpt s" "scheduled_term s < 3"
  shows "(let s' = set_paging_scheduling (currentTerminal s) s in
     paging_ok pt vpt s' \<and> video_follows s' \<and> vidmap_follows s'
     \<and> vram s' (video_page 184 s') = screen_of s (scheduled_term s + 1))"
proof -
  let ?s = "set_paging_scheduling (currentTerminal s) s"
  have f: "video_follows ?s" "vidmap_follows ?s"
    using set_paging_follows [OF assms refl] by auto
  have "vram ?s = vram s" "scheduled_term ?s = scheduled_term s" "currentTerminal ?s = currentTerminal s"
    by (simp_all add: set_paging_scheduling_def)
  then have "vram ?s (video_page 184 ?s) = screen_of s (scheduled_term s + 1)"
    using f(1) by (simp add: video_follows_def scheduled_page_def screen_of_def)
  then show ?thesis
    using f set_paging_scheduling_ok [OF assms] by (simp add: Let_def)
qed

theorem video_mapping_follows_schedule_witness:
  "let s = (paging_init 0x401000 0x402000 boot_state)\<lparr>scheduled_term := 2\<rparr>
   in video_follows (set_paging_scheduling 1 s)"
proof -
  let ?s = "(paging_init 0x401000 0x402000 boot_state)\<lparr>scheduled_term := 2\<rparr>"
  have "paging_ok 0x401000 0x402000 (paging_init 0x401000 0x402000 boot_state)"
    by (rule paging_init_ok) (simp_all add: boot_state_def)
  then have "paging_ok 0x401000 0x402000 ?s" by (simp add: paging_ok_def)
  then have "video_follows (set_paging_scheduling (currentTerminal ?s) ?s)"
    using video_mapping_follows_schedule [of "0x401000" "0x402000" ?s] by (simp add: Let_def)
  moreover have "currentTerminal ?s = 1" by (simp add: paging_init_def boot_state_def)
  ultimately show ?thesis by (simp only: Let_def)
qed

end
