(* ===== verification/Console.thy ===== *)
theory Console
  imports Paging "HOL-Library.Signed_Division"
begin

text \<open>
  The console half of \<open>student-distrib/lib.c\<close>: \<open>clear\<close>, \<open>putc\<close>, \<open>puts\<close>, \<open>printf\<close>,
  \<open>keyboardputc\<close> and the cursor. Every access to \<open>video_mem\<close> goes through the page table, so it
  lands on the page the video memory is mapped to, and outside the mapped pages it faults
  (\<open>None\<close>). \<open>printf\<close> takes its format as the bytes of the literal and the words of its
  argument list; \<open>cb\<close> is the address of its local conversion buffer.
\<close>

section \<open>Video memory\<close>

text \<open>The byte at \<open>video_mem + off\<close>, in the first 4 MB of the address space.\<close>

definition vaddr_ok :: "int \<Rightarrow> kernel \<Rightarrow> bool" where
  "vaddr_ok off s \<longleftrightarrow> (let va = int VIDEO + off in
     0 \<le> va \<and> va < 0x400000 \<and> getf e_present (page_table s ! nat (va div 4096)) = 1)"

definition vput :: "int \<Rightarrow> u8 \<Rightarrow> kernel \<Rightarrow> kernel option" where
  "vput off c s = (let va = int VIDEO + off; f = video_page (nat (va div 4096)) s in
     if vaddr_ok off s
     then Some (s\<lparr>vram := (vram s)(f := (vram s f)(nat (va mod 4096) := c))\<rparr>) else None)"

definition vget :: "int \<Rightarrow> kernel \<Rightarrow> u8 option" where
  "vget off s = (let va = int VIDEO + off in
     if vaddr_ok off s
     then Some (vram s (video_page (nat (va div 4096)) s) (nat (va mod 4096))) else None)"

section \<open>Cursor\<close>

text \<open>\<open>currentTerminal - 1\<close>, an unsigned subtraction.\<close>

definition visible :: "kernel \<Rightarrow> nat" where
  "visible s = (if currentTerminal s = 0 then 2 ^ 32 - 1 else currentTerminal s - 1)"

definition getScreenX :: "kernel \<Rightarrow> int option" where
  "getScreenX s = aget (termScreenx s) (visible s)"

definition getScreenY :: "kernel \<Rightarrow> int option" where
  "getScreenY s = aget (termScreeny s) (visible s)"

definition setScreenX :: "int \<Rightarrow> kernel \<Rightarrow> kernel option" where
  "setScreenX v s = do { xs \<leftarrow> aset (termScreenx s) (visible s) v; Some (s\<lparr>termScreenx := xs\<rparr>) }"

definition setScreenY :: "int \<Rightarrow> kernel \<Rightarrow> kernel option" where
  "setScreenY v s = do { ys \<leftarrow> aset (termScreeny s) (visible s) v; Some (s\<lparr>termScreeny := ys\<rparr>) }"

definition cursor_writes :: "int \<Rightarrow> int \<Rightarrow> (u8 \<times> u16) list" where
  "cursor_writes x y = (let pos = of_int (y * int NUM_COLS + x) :: u16 in
     [(0x0F, 0x3D4), (ucast (pos AND 0xFF), 0x3D5),
      (0x0E, 0x3D4), (ucast (drop_bit 8 pos AND 0xFF), 0x3D5)])"

definition update_cursor :: "kernel \<Rightarrow> kernel option" where
  "update_cursor s = do {
     y \<leftarrow> aget (termScreeny s) (visible s);
     x \<leftarrow> aget (termScreenx s) (visible s);
     Some (fold (\<lambda>(v, p). outb v p) (cursor_writes x y) s)
   }"

section \<open>Clearing\<close>

definition put_cell :: "int \<Rightarrow> u8 \<Rightarrow> kernel \<Rightarrow> kernel option" where
  "put_cell pos c s = do { s \<leftarrow> vput (2 * pos) c s; vput (2 * pos + 1) ATTRIB s }"

definition clear :: "kernel \<Rightarrow> kernel option" where
  "clear s = do {
     let oldAddr = video_page VIDEO_PAGE s;
     let s = set_video_page (VIDEO div FourKB) s;
     s \<leftarrow> foldM (\<lambda>i s. put_cell (int i) 32 s) [0..<NUM_ROWS * NUM_COLS] s;
     s \<leftarrow> setScreenX 0 s;
     s \<leftarrow> setScreenY 0 s;
     s \<leftarrow> update_cursor s;
     Some (set_video_page oldAddr s)
   }"

definition clear_help :: "kernel \<Rightarrow> kernel option" where
  "clear_help s = do {
     s \<leftarrow> setScreenX (int (buf_idx s)) s;
     s \<leftarrow> setScreenY 0 s;
     update_cursor s
   }"

definition test_interrupts :: "kernel \<Rightarrow> kernel option" where
  "test_interrupts s =
     foldM (\<lambda>i s. do { c \<leftarrow> vget (2 * int i) s; vput (2 * int i) (c + 1) s })
       [0..<NUM_ROWS * NUM_COLS] s"

section \<open>\<open>putc\<close>\<close>

definition scroll_row :: "nat \<Rightarrow> kernel \<Rightarrow> kernel option" where
  "scroll_row i s = foldM (\<lambda>j s. do {
       c \<leftarrow> vget (2 * int (NUM_COLS * (i + 1) + j)) s;
       put_cell (int (NUM_COLS * i + j)) c s
     }) [0..<NUM_COLS] s"

definition scroll :: "kernel \<Rightarrow> kernel option" where
  "scroll s = do {
     s \<leftarrow> foldM scroll_row [0..<NUM_ROWS - 1] s;
     foldM (\<lambda>j s. put_cell (int (NUM_COLS * (NUM_ROWS - 1) + j)) 0 s) [0..<NUM_COLS] s
   }"

definition putc_backspace :: "kernel \<Rightarrow> kernel option" where
  "putc_backspace s = do {
     x \<leftarrow> getScreenX s;
     y \<leftarrow> getScreenY s;
     if x = 0 \<and> y = 0 then Some (sti s)
     else do {
       let x = x - 1;
       s \<leftarrow> put_cell (int NUM_COLS * y + x) 32 s;
       let x = x smod int NUM_COLS;
       let y = (if \<not> (x = 0 \<and> buf_idx s = 0)
                then (y + x sdiv int NUM_COLS) smod int NUM_ROWS else y - 1);
       s \<leftarrow> setScreenX x s;
       s \<leftarrow> setScreenY y s;
       s \<leftarrow> update_cursor s;
       Some (sti s)
     }
   }"

definition put_terminal :: "kernel \<Rightarrow> nat" where
  "put_terminal s = (if keyboardPutCFlag s = 1 then visible s else scheduled_term s)"

definition set_cursor :: "nat \<Rightarrow> int \<Rightarrow> int \<Rightarrow> kernel \<Rightarrow> kernel option" where
  "set_cursor t x y s = do {
     xs \<leftarrow> aset (termScreenx s) t x;
     ys \<leftarrow> aset (termScreeny s) t y;
     Some (s\<lparr>termScreenx := xs, termScreeny := ys\<rparr>)
   }"

definition putc :: "u8 \<Rightarrow> kernel \<Rightarrow> kernel option" where
  "putc c s = (let s = cli s; t = put_terminal s in
     if c = 0x08 then putc_backspace s
     else do {
       x \<leftarrow> aget (termScreenx s) t;
       y \<leftarrow> aget (termScreeny s) t;
       (x, y, s) \<leftarrow>
         (if c = 0x0A \<or> c = 0x0D then Some (0, y + 1, s)
          else do {
            s \<leftarrow> put_cell (int NUM_COLS * y + x) c s;
            Some (if x + 1 \<ge> int NUM_COLS then (0, y + 1, s) else (x + 1, y, s))
          });
       (x, y, s) \<leftarrow>
         (if y > int NUM_ROWS - 1
          then do { s \<leftarrow> scroll s; Some (0, int NUM_ROWS - 1, s) }
          else Some (x, y, s));
       s \<leftarrow> set_cursor t x y s;
       s \<leftarrow> update_cursor s;
       Some (sti s)
     })"

definition keyboardputc :: "u8 \<Rightarrow> kernel \<Rightarrow> kernel option" where
  "keyboardputc c s = do {
     r \<leftarrow> aget (termReadFlag s) (visible s);
     if r = 1 then do {
       let oldAddr = video_page VIDEO_PAGE s;
       let s = set_video_page (VIDEO div FourKB) s;
       let s = s\<lparr>keyboardPutCFlag := 1\<rparr>;
       s \<leftarrow> putc c s;
       let s = s\<lparr>keyboardPutCFlag := 0\<rparr>;
       Some (set_video_page oldAddr s)
     }
     else Some s
   }"

section \<open>\<open>puts\<close> and \<open>printf\<close>\<close>

partial_function (option) puts_from :: "u32 \<Rightarrow> u32 \<Rightarrow> kernel \<Rightarrow> (kernel \<times> u32) option" where
  "puts_from p index s =
     (if vmem s (p + index) \<noteq> 0
      then do { s \<leftarrow> putc (vmem s (p + index)) s; puts_from p (index + 1) s }
      else Some (s, index))"

definition puts :: "u32 \<Rightarrow> kernel \<Rightarrow> (kernel \<times> u32) option" where
  "puts p s = puts_from p 0 s"

text \<open>\<open>while (i < 8) conv_buf[i++] = '0'\<close>\<close>

definition zero_pad :: "u32 \<Rightarrow> u32 \<Rightarrow> mem \<Rightarrow> mem" where
  "zero_pad cb start m = fold (\<lambda>i m. m(cb + of_nat i := 48)) [nat (sint start)..<8] m"

definition printf_hex :: "bool \<Rightarrow> u32 \<Rightarrow> u32 \<Rightarrow> kernel \<Rightarrow> kernel option" where
  "printf_hex alternate v cb s =
     (if \<not> alternate then do {
        m \<leftarrow> itoa (vmem s) v cb 16;
        (s, _) \<leftarrow> puts cb (set_vmem m s);
        Some s
      } else do {
        m \<leftarrow> itoa (vmem s) v (cb + 8) 16;
        starting_index \<leftarrow> strlen m (cb + 8);
        (s, _) \<leftarrow> puts (cb + starting_index) (set_vmem (zero_pad cb starting_index m) s);
        Some s
      })"

definition printf_dec :: "bool \<Rightarrow> u32 \<Rightarrow> u32 \<Rightarrow> kernel \<Rightarrow> kernel option" where
  "printf_dec issigned v cb s = do {
     m \<leftarrow> (if issigned \<and> sint v < 0
           then itoa ((vmem s)(cb := 45)) (- v) (cb + 1) 10
           else itoa (vmem s) v cb 10);
     (s, _) \<leftarrow> puts cb (set_vmem m s);
     Some s
   }"

text \<open>
  One conversion after a percent sign: the rest of the format, the remaining arguments and the
  state. A format that ends inside a conversion makes the code read past its terminator.
\<close>

fun printf_conv :: "bool \<Rightarrow> u8 list \<Rightarrow> u32 list \<Rightarrow> u32 \<Rightarrow> kernel
    \<Rightarrow> (u8 list \<times> u32 list \<times> kernel) option" where
  "printf_conv alternate [] as cb s = None"
| "printf_conv alternate (c # cs) as cb s =
     (if c = 37 then do { s \<leftarrow> putc 37 s; Some (cs, as, s) }
      else if c = 35 then printf_conv True cs as cb s
      else if c = 120 then (case as of [] \<Rightarrow> None
        | v # as \<Rightarrow> do { s \<leftarrow> printf_hex alternate v cb s; Some (cs, as, s) })
      else if c = 117 then (case as of [] \<Rightarrow> None
        | v # as \<Rightarrow> do { s \<leftarrow> printf_dec False v cb s; Some (cs, as, s) })
      else if c = 100 then (case as of [] \<Rightarrow> None
        | v # as \<Rightarrow> do { s \<leftarrow> printf_dec True v cb s; Some (cs, as, s) })
      else if c = 99 then (case as of [] \<Rightarrow> None
        | v # as \<Rightarrow> do { s \<leftarrow> putc (ucast v) s; Some (cs, as, s) })
      else if c = 115 then (case as of [] \<Rightarrow> None
        | v # as \<Rightarrow> do { (s, _) \<leftarrow> puts v s; Some (cs, as, s) })
      else Some (cs, as, s))"

lemma printf_conv_shorter:
  "printf_conv alt cs as cb s = Some (cs', as', s') \<Longrightarrow> length cs' < length cs"
  by (induction alt cs as cb s rule: printf_conv.induct)
    (auto split: if_splits Option.bind_splits list.splits)

function printf_loop :: "u8 list \<Rightarrow> u32 list \<Rightarrow> u32 \<Rightarrow> kernel \<Rightarrow> kernel option" where
  "printf_loop [] as cb s = Some s"
| "printf_loop (c # cs) as cb s =
     (if c = 37 then (case printf_conv False cs as cb s of None \<Rightarrow> None
        | Some (cs', as', s') \<Rightarrow> printf_loop cs' as' cb s')
      else (case putc c s of None \<Rightarrow> None | Some s' \<Rightarrow> printf_loop cs as cb s'))"
  by pat_completeness auto
termination
  by (relation "measure (\<lambda>(cs, as, cb, s). length cs)") (auto dest: printf_conv_shorter)

definition printf :: "string \<Rightarrow> u32 list \<Rightarrow> u32 \<Rightarrow> kernel \<Rightarrow> (kernel \<times> nat) option" where
  "printf format as cb s = do {
     s \<leftarrow> printf_loop (map of_char format) as cb s;
     Some (s, length format)
   }"

section \<open>Writing one page\<close>

text \<open>The page the video memory is mapped to, and an operation on it.\<close>

definition on_page :: "((nat \<Rightarrow> u8) \<Rightarrow> nat \<Rightarrow> u8) \<Rightarrow> kernel \<Rightarrow> kernel" where
  "on_page f s = s\<lparr>vram := (vram s)(video_page 184 s := f (vram s (video_page 184 s)))\<rparr>"

lemma on_page_simps [simp]:
  "page_table (on_page f s) = page_table s" "video_page n (on_page f s) = video_page n s"
  "vram (on_page f s) (video_page 184 s) = f (vram s (video_page 184 s))"
  "on_page g (on_page f s) = on_page (\<lambda>p. g (f p)) s" "on_page (\<lambda>p. p) s = s"
  by (simp_all add: on_page_def video_page_def)

lemma on_page_frame [frame_simps]:
  "p \<noteq> video_page 184 s \<Longrightarrow> vram (on_page f s) p = vram s p"
  by (simp add: on_page_def)

lemma on_page_other [simp]:
  "termScreenx (on_page f s) = termScreenx s" "termScreeny (on_page f s) = termScreeny s"
  "currentTerminal (on_page f s) = currentTerminal s" "outs (on_page f s) = outs s"
  "scheduled_term (on_page f s) = scheduled_term s" "buf_idx (on_page f s) = buf_idx s"
  "keyboardPutCFlag (on_page f s) = keyboardPutCFlag s" "iflag (on_page f s) = iflag s"
  by (simp_all add: on_page_def)

lemma vaddr_ok_page:
  assumes "pt_ok (page_table s)" "0 \<le> off" "off < 4096"
  shows "vaddr_ok off s" "nat ((int VIDEO + off) div 4096) = 184"
    "nat ((int VIDEO + off) mod 4096) = nat off"
proof -
  have v: "int VIDEO = 184 * 4096" by (simp add: VIDEO_def)
  have d: "(int VIDEO + off) div 4096 = 184" "(int VIDEO + off) mod 4096 = off"
    using assms(2,3) int_div_pos_eq [of "int VIDEO + off" 4096 184 off]
      int_mod_pos_eq [of "int VIDEO + off" 4096 184 off] by (simp_all add: v)
  then show "nat ((int VIDEO + off) div 4096) = 184"
    "nat ((int VIDEO + off) mod 4096) = nat off" by simp_all
  have "getf e_present (page_table s ! 184) = 1" using assms(1) by (simp add: pt_ok_def)
  then show "vaddr_ok off s" using d assms(2,3) by (simp add: vaddr_ok_def Let_def v)
qed

lemma vput_page:
  assumes "pt_ok (page_table s)" "0 \<le> off" "off < 4096"
  shows "vput off c s = Some (on_page (\<lambda>p. p(nat off := c)) s)"
  using vaddr_ok_page [OF assms] by (simp add: vput_def Let_def on_page_def)

lemma vget_page:
  assumes "pt_ok (page_table s)" "0 \<le> off" "off < 4096"
  shows "vget off s = Some (vram s (video_page 184 s) (nat off))"
  using vaddr_ok_page [OF assms] by (simp add: vget_def Let_def)

text \<open>A cell is a character byte and an attribute byte.\<close>

definition cell :: "nat \<Rightarrow> u8 \<Rightarrow> (nat \<Rightarrow> u8) \<Rightarrow> nat \<Rightarrow> u8" where
  "cell k c p = p(2 * k := c, 2 * k + 1 := ATTRIB)"

lemma put_cell_page:
  assumes "pt_ok (page_table s)" "k < 2000"
  shows "put_cell (int k) c s = Some (on_page (cell k c) s)"
proof -
  have "nat (2 * int k) = 2 * k" "nat (2 * int k + 1) = 2 * k + 1" by simp_all
  then show ?thesis using assms
    by (simp add: put_cell_def vput_page) (simp add: on_page_def video_page_def cell_def)
qed

text \<open>A loop over operations on the page is one operation on the page.\<close>

lemma foldM_on_page:
  assumes "pt_ok (page_table s)"
    and "\<And>x s. x \<in> set xs \<Longrightarrow> pt_ok (page_table s) \<Longrightarrow> f x s = Some (on_page (g x) s)"
  shows "foldM f xs s = Some (on_page (fold g xs) s)"
  using assms
proof (induction xs arbitrary: s)
  case (Cons x xs)
  then have "foldM f xs (on_page (g x) s) = Some (on_page (fold g xs) (on_page (g x) s))"
    by (intro Cons.IH) simp_all
  then show ?case using Cons.prems by simp
qed (simp add: id_def)

section \<open>The screen as text\<close>

text \<open>Character position \<open>k\<close> of a page, row by row.\<close>

definition blank :: "(nat \<Rightarrow> u8) \<Rightarrow> nat \<Rightarrow> u8" where
  "blank p = (\<lambda>q. if q < 4000 then (if even q then 32 else ATTRIB) else p q)"

definition scrolled :: "(nat \<Rightarrow> u8) \<Rightarrow> nat \<Rightarrow> u8" where
  "scrolled p = (\<lambda>q. if q < 4000 then (if odd q then ATTRIB else if q < 3840 then p (q + 160) else 0)
     else p q)"

lemma fold_cells:
  "fold (\<lambda>j. cell (k + j) c) [0..<n] p
     = (\<lambda>q. if 2 * k \<le> q \<and> q < 2 * (k + n) then (if even q then c else ATTRIB) else p q)"
proof (induction n)
  case (Suc n)
  show ?case
  proof (rule ext)
    fix q
    have "2 * k \<le> q \<and> q < 2 * (k + Suc n) \<longleftrightarrow>
        2 * k \<le> q \<and> q < 2 * (k + n) \<or> q = 2 * (k + n) \<or> q = 2 * (k + n) + 1" by auto
    then show "fold (\<lambda>j. cell (k + j) c) [0..<Suc n] p q
        = (if 2 * k \<le> q \<and> q < 2 * (k + Suc n) then (if even q then c else ATTRIB) else p q)"
      by (auto simp: Suc cell_def)
  qed
qed (auto simp: fun_eq_iff)

definition row_up :: "nat \<Rightarrow> nat \<Rightarrow> (nat \<Rightarrow> u8) \<Rightarrow> nat \<Rightarrow> u8" where
  "row_up i j p = cell (80 * i + j) (p (2 * (80 * (i + 1) + j))) p"

lemma fold_row_up:
  "n \<le> 80 \<Longrightarrow> fold (row_up i) [0..<n] p
     = (\<lambda>q. if 160 * i \<le> q \<and> q < 160 * i + 2 * n then (if even q then p (q + 160) else ATTRIB) else p q)"
proof (induction n)
  case (Suc n)
  show ?case
  proof (rule ext)
    fix q
    have "160 * i \<le> q \<and> q < 160 * i + 2 * Suc n \<longleftrightarrow>
        160 * i \<le> q \<and> q < 160 * i + 2 * n \<or> q = 160 * i + 2 * n \<or> q = 160 * i + 2 * n + 1"
      by auto
    moreover have "\<not> 2 * (80 * (i + 1) + n) < 160 * i + 2 * n" by simp
    moreover have "fold (row_up i) [0..<n] p r = (if 160 * i \<le> r \<and> r < 160 * i + 2 * n
        then (if even r then p (r + 160) else ATTRIB) else p r)" for r
      using Suc by simp
    ultimately show "fold (row_up i) [0..<Suc n] p q
        = (if 160 * i \<le> q \<and> q < 160 * i + 2 * Suc n then (if even q then p (q + 160) else ATTRIB) else p q)"
      by (auto simp: row_up_def cell_def algebra_simps)
  qed
qed (auto simp: fun_eq_iff)

lemma fold_rows_up:
  "n \<le> 24 \<Longrightarrow> fold (\<lambda>i. fold (row_up i) [0..<80]) [0..<n] p
     = (\<lambda>q. if q < 160 * n then (if even q then p (q + 160) else ATTRIB) else p q)"
proof (induction n)
  case (Suc n)
  then show ?case by (auto simp: fold_row_up fun_eq_iff)
qed (auto simp: fun_eq_iff)

lemma pages_rows: "NUM_ROWS * NUM_COLS = 2000" "NUM_ROWS - 1 = 24" "NUM_COLS = 80" "NUM_ROWS = 25"
  by (simp_all add: NUM_ROWS_def NUM_COLS_def)

lemma blank_loop:
  assumes "pt_ok (page_table s)"
  shows "foldM (\<lambda>i s. put_cell (int i) 32 s) [0..<2000] s = Some (on_page blank s)"
proof -
  have "foldM (\<lambda>i s. put_cell (int i) 32 s) [0..<2000] s
      = Some (on_page (fold (\<lambda>i. cell (0 + i) 32) [0..<2000]) s)"
    by (rule foldM_on_page [OF assms]) (simp add: put_cell_page)
  moreover have "fold (\<lambda>i. cell (0 + i) 32) [0..<2000] = blank"
    by (rule ext) (simp only: fold_cells, simp add: blank_def)
  ultimately show ?thesis by (simp only:)
qed

lemma scroll_row_page:
  assumes "pt_ok (page_table s)" "i < 24"
  shows "scroll_row i s = Some (on_page (fold (row_up i) [0..<80]) s)"
  unfolding scroll_row_def pages_rows
proof (rule foldM_on_page [OF assms(1)])
  fix j and s :: kernel assume "j \<in> set [0..<80]" "pt_ok (page_table s)"
  moreover have "2 * int (80 * (i + 1) + j) = int (2 * (80 * (i + 1) + j))" by simp
  ultimately show "do { c \<leftarrow> vget (2 * int (80 * (i + 1) + j)) s; put_cell (int (80 * i + j)) c s }
      = Some (on_page (row_up i j) s)"
    using assms(2) by (simp add: vget_page put_cell_page del: of_nat_mult of_nat_add)
      (simp add: on_page_def row_up_def)
qed

lemma scroll_page:
  assumes "pt_ok (page_table s)"
  shows "scroll s = Some (on_page scrolled s)"
proof -
  have "foldM scroll_row [0..<24] s
      = Some (on_page (fold (\<lambda>i. fold (row_up i) [0..<80]) [0..<24]) s)"
    by (rule foldM_on_page [OF assms]) (simp add: scroll_row_page)
  moreover have "foldM (\<lambda>j s. put_cell (int (80 * 24 + j)) 0 s) [0..<80] s'
      = Some (on_page (fold (\<lambda>j. cell (80 * 24 + j) 0) [0..<80]) s')" if "pt_ok (page_table s')" for s'
    using that by (rule foldM_on_page) (simp add: put_cell_page del: of_nat_add of_nat_mult)
  moreover have "(\<lambda>p. fold (\<lambda>j. cell (80 * 24 + j) 0) [0..<80]
      (fold (\<lambda>i. fold (row_up i) [0..<80]) [0..<24] p)) = scrolled"
    by (simp only: fold_rows_up fold_cells order_refl) (auto simp: scrolled_def fun_eq_iff)
  ultimately show ?thesis
    using assms by (simp add: scroll_def pages_rows)
qed

section \<open>The invariant of the console\<close>

text \<open>
  A cursor position inside the screen. A backspace at the start of a row leaves a negative
  column instead of moving to the row above, so columns from -79 on occur.
\<close>

definition cursor_ok :: "int \<Rightarrow> int \<Rightarrow> bool" where
  "cursor_ok x y \<longleftrightarrow> -80 < x \<and> x < 80 \<and> 0 \<le> y \<and> y < 25 \<and> 0 \<le> 80 * y + x"

definition console_ok :: "kernel \<Rightarrow> bool" where
  "console_ok s \<longleftrightarrow> pt_ok (page_table s) \<and> currentTerminal s \<in> {1, 2, 3} \<and> scheduled_term s < 3
     \<and> length (termScreenx s) = 3 \<and> length (termScreeny s) = 3 \<and> length (termReadFlag s) = 3
     \<and> (\<forall>t < 3. cursor_ok (termScreenx s ! t) (termScreeny s ! t))"

lemma console_okD:
  assumes "console_ok s"
  shows "pt_ok (page_table s)" "visible s < 3" "scheduled_term s < 3" "length (termScreenx s) = 3"
    "length (termScreeny s) = 3" "length (termReadFlag s) = 3" "put_terminal s < 3"
    "t < 3 \<Longrightarrow> cursor_ok (termScreenx s ! t) (termScreeny s ! t)" "visible s = currentTerminal s - 1"
  using assms by (auto simp: console_ok_def visible_def put_terminal_def)

lemma update_cursor_eq:
  assumes "visible s < length (termScreenx s)" "visible s < length (termScreeny s)"
  shows "update_cursor s = Some (s\<lparr>outs := outs s @
    cursor_writes (termScreenx s ! visible s) (termScreeny s ! visible s)\<rparr>)"
  using assms by (simp add: update_cursor_def cursor_writes_def outb_def Let_def)

lemma visible_upd [simp]:
  "visible (s\<lparr>termScreenx := a\<rparr>) = visible s" "visible (s\<lparr>termScreeny := a\<rparr>) = visible s"
  "visible (s\<lparr>vram := v\<rparr>) = visible s" "visible (s\<lparr>iflag := b\<rparr>) = visible s"
  "visible (s\<lparr>outs := w\<rparr>) = visible s" "visible (s\<lparr>page_table := pt\<rparr>) = visible s"
  "visible (s\<lparr>keyboardPutCFlag := k\<rparr>) = visible s"
  "visible (on_page f s) = visible s"
  by (simp_all add: visible_def)

lemma video_page_upd [simp]:
  "video_page n (s\<lparr>termScreenx := a\<rparr>) = video_page n s"
  "video_page n (s\<lparr>termScreeny := a\<rparr>) = video_page n s"
  "video_page n (s\<lparr>vram := v\<rparr>) = video_page n s" "video_page n (s\<lparr>iflag := b\<rparr>) = video_page n s"
  "video_page n (s\<lparr>outs := w\<rparr>) = video_page n s"
  "video_page n (s\<lparr>keyboardPutCFlag := k\<rparr>) = video_page n s"
  by (simp_all add: video_page_def)

section \<open>The terminal a program sees\<close>

text \<open>
  The specification: a cursor and a page of text. A carriage return is a new line; a full row
  continues on the next; below the last row the text moves up and the new row is empty.
\<close>

type_synonym screen = "int \<times> int \<times> (nat \<Rightarrow> u8)"

definition line_feed :: "screen \<Rightarrow> screen" where
  "line_feed = (\<lambda>(x, y, p). if y + 1 > 24 then (0, 24, scrolled p) else (0, y + 1, p))"

definition emit :: "u8 \<Rightarrow> screen \<Rightarrow> screen" where
  "emit c = (\<lambda>(x, y, p).
     if c = 0x0A \<or> c = 0x0D then line_feed (x, y, p)
     else let p = cell (nat (80 * y + x)) c p in
       if x + 1 \<ge> 80 then line_feed (x, y, p) else (x + 1, y, p))"

definition screen_at :: "nat \<Rightarrow> kernel \<Rightarrow> screen" where
  "screen_at t s = (termScreenx s ! t, termScreeny s ! t, vram s (video_page 184 s))"

definition with_screen :: "nat \<Rightarrow> screen \<Rightarrow> kernel \<Rightarrow> kernel" where
  "with_screen t = (\<lambda>(x, y, p) s. s\<lparr>termScreenx := (termScreenx s)[t := x],
     termScreeny := (termScreeny s)[t := y],
     vram := (vram s)(video_page 184 s := p)\<rparr>)"

lemma emit_cursor_ok:
  "cursor_ok x y \<Longrightarrow> emit c (x, y, p) = (x', y', p') \<Longrightarrow> cursor_ok x' y'"
  by (auto simp: emit_def line_feed_def cursor_ok_def Let_def split: if_splits)

text \<open>What \<open>putc\<close> does apart from the backspace, in full.\<close>

definition putc_result :: "u8 \<Rightarrow> kernel \<Rightarrow> kernel" where
  "putc_result c s = (let t = put_terminal s; s' = with_screen t (emit c (screen_at t s)) s in
     s'\<lparr>outs := outs s @ cursor_writes (termScreenx s' ! visible s) (termScreeny s' ! visible s),
        iflag := True\<rparr>)"

lemma putc_correct:
  assumes ok: "console_ok s" and c: "c \<noteq> 8"
  shows "putc c s = Some (putc_result c s)"
proof -
  note D = console_okD [OF ok]
  define t where "t = put_terminal s"
  define x where "x = termScreenx s ! t"
  define y where "y = termScreeny s ! t"
  define p where "p = vram s (video_page 184 s)"
  define s0 where "s0 = cli s"
  have t3: "t < 3" using D(7) by (simp add: t_def)
  have cur: "cursor_ok x y" using D(8) [OF t3] by (simp add: x_def y_def)
  have s0: "put_terminal s0 = t" "termScreenx s0 = termScreenx s" "termScreeny s0 = termScreeny s"
    "page_table s0 = page_table s" "video_page 184 s0 = video_page 184 s" "visible s0 = visible s"
    "vram s0 = vram s" "outs s0 = outs s"
    by (simp_all add: s0_def cli_def put_terminal_def visible_def t_def video_page_def)
  have pos: "80 * y + x = int (nat (80 * y + x))" "nat (80 * y + x) < 2000"
    using cur by (auto simp: cursor_ok_def)
  have put: "put_cell (80 * y + x) c s0 = Some (on_page (cell (nat (80 * y + x)) c) s0)"
    using put_cell_page [of s0 "nat (80 * y + x)" c] pos D(1) s0(4) by simp
  have fin: "do { s \<leftarrow> set_cursor t x' y' (on_page f s0); s \<leftarrow> update_cursor s; Some (sti s) }
      = Some (let s' = with_screen t (x', y', f p) s in
          s'\<lparr>outs := outs s @ cursor_writes (termScreenx s' ! visible s) (termScreeny s' ! visible s),
             iflag := True\<rparr>)" for x' y' f
    using t3 D(2,4,5)
    by (simp add: set_cursor_def update_cursor_eq with_screen_def Let_def sti_def p_def s0_def cli_def)
      (simp add: on_page_def)
  have scr: "scroll (on_page f s0) = Some (on_page (\<lambda>q. scrolled (f q)) s0)" for f
    using D(1) s0(4) by (simp add: scroll_page)
  have pc: "putc c s = do {
       (x, y, s) \<leftarrow>
         (if c = 0x0A \<or> c = 0x0D then Some (0, y + 1, s0)
          else do {
            s \<leftarrow> put_cell (80 * y + x) c s0;
            Some (if x + 1 \<ge> 80 then (0, y + 1, s) else (x + 1, y, s))
          });
       (x, y, s) \<leftarrow>
         (if y > 24 then do { s \<leftarrow> scroll s; Some (0, 24, s) } else Some (x, y, s));
       s \<leftarrow> set_cursor t x y s;
       s \<leftarrow> update_cursor s;
       Some (sti s)
     }"
    using c t3 D(4,5) unfolding putc_def Let_def s0_def [symmetric] s0
    by (simp add: NUM_COLS_def NUM_ROWS_def x_def y_def cong: if_cong)
  have id: "s0 = on_page (\<lambda>q. q) s0" by simp
  have rhs: "putc_result c s = (let s' = with_screen t (emit c (x, y, p)) s in
      s'\<lparr>outs := outs s @ cursor_writes (termScreenx s' ! visible s) (termScreeny s' ! visible s),
         iflag := True\<rparr>)"
    by (simp add: putc_result_def screen_at_def t_def x_def y_def p_def Let_def)
  show ?thesis
  proof (cases "c = 0x0A \<or> c = 0x0D")
    case True
    then show ?thesis
      unfolding pc rhs emit_def line_feed_def using fin [of _ _ "\<lambda>q. q"] scr [of "\<lambda>q. q"] fin [of _ _ scrolled]
      by auto
  next
    case False
    then show ?thesis
      unfolding pc rhs emit_def line_feed_def put using fin scr cur
      by (auto simp: Let_def cursor_ok_def)
  qed
qed

lemma putc_result_simps [simp]:
  "page_table (putc_result c s) = page_table s" "currentTerminal (putc_result c s) = currentTerminal s"
  "scheduled_term (putc_result c s) = scheduled_term s" "termReadFlag (putc_result c s) = termReadFlag s"
  "keyboardPutCFlag (putc_result c s) = keyboardPutCFlag s" "buf_idx (putc_result c s) = buf_idx s"
  "keyboard_buf (putc_result c s) = keyboard_buf s" "iflag (putc_result c s) = True"
  "lowmem (putc_result c s) = lowmem s" "frames (putc_result c s) = frames s"
  "page_directory (putc_result c s) = page_directory s"
  "video_page n (putc_result c s) = video_page n s"
  "put_terminal (putc_result c s) = put_terminal s"
  "length (termScreenx (putc_result c s)) = length (termScreenx s)"
  "length (termScreeny (putc_result c s)) = length (termScreeny s)"
  by (simp_all add: putc_result_def Let_def with_screen_def video_page_def put_terminal_def
      visible_def split: prod.splits)

lemma putc_result_screen:
  assumes "console_ok s"
  shows "screen_at (put_terminal s) (putc_result c s) = emit c (screen_at (put_terminal s) s)"
    "t \<noteq> put_terminal s \<Longrightarrow> termScreenx (putc_result c s) ! t = termScreenx s ! t
       \<and> termScreeny (putc_result c s) ! t = termScreeny s ! t"
    "p \<noteq> video_page 184 s \<Longrightarrow> vram (putc_result c s) p = vram s p"
  using console_okD(4,5,7) [OF assms]
  by (auto simp: putc_result_def with_screen_def screen_at_def Let_def video_page_def split: prod.splits)

lemma putc_result_ok [wf_intros]:
  assumes "console_ok s" shows "console_ok (putc_result c s)"
proof -
  let ?t = "put_terminal s"
  obtain x y p where e: "emit c (screen_at ?t s) = (x, y, p)" by (metis prod_cases3)
  have "cursor_ok (termScreenx s ! ?t) (termScreeny s ! ?t)"
    using console_okD(7,8) [OF assms] by blast
  then have "cursor_ok x y" using emit_cursor_ok e by (simp add: screen_at_def)
  moreover have "termScreenx (putc_result c s) ! ?t = x" "termScreeny (putc_result c s) ! ?t = y"
    using putc_result_screen(1) [OF assms, of c] unfolding e by (simp_all add: screen_at_def)
  ultimately have "cursor_ok (termScreenx (putc_result c s) ! t) (termScreeny (putc_result c s) ! t)"
    if "t < 3" for t
    using putc_result_screen(2) [OF assms, of t c] console_okD(8) [OF assms that]
    by (cases "t = ?t") simp_all
  then show ?thesis using assms by (simp add: console_ok_def)
qed

section \<open>Backspace\<close>

lemma smod_small: "-80 < x \<Longrightarrow> x < 80 \<Longrightarrow> x smod 80 = (x :: int)" "0 \<le> y \<Longrightarrow> y < 25 \<Longrightarrow> y smod 25 = (y :: int)"
  and sdiv_small: "-80 < x \<Longrightarrow> x < 80 \<Longrightarrow> x sdiv 80 = (0 :: int)"
proof -
  show "-80 < x \<Longrightarrow> x < 80 \<Longrightarrow> x sdiv 80 = (0 :: int)"
    by (auto simp: signed_divide_int_def sgn_if div_pos_pos_trivial)
  then show "-80 < x \<Longrightarrow> x < 80 \<Longrightarrow> x smod 80 = (x :: int)"
    by (simp add: signed_modulo_int_def mult_sgn_abs)
  show "0 \<le> y \<Longrightarrow> y < 25 \<Longrightarrow> y smod 25 = (y :: int)"
    by (simp add: signed_modulo_int_def signed_divide_int_def sgn_if div_pos_pos_trivial)
qed

lemma backspace_correct:
  assumes ok: "console_ok s" and xy: "x = termScreenx s ! visible s" "y = termScreeny s ! visible s"
    and nz: "\<not> (x = 0 \<and> y = 0)" and far: "-79 < x"
    and k: "k = nat (80 * y + x - 1)" and y': "y' = (if x = 1 \<and> buf_idx s = 0 then y - 1 else y)"
  shows "putc 8 s = Some (s\<lparr>termScreenx := (termScreenx s)[visible s := x - 1],
      termScreeny := (termScreeny s)[visible s := y'],
      vram := (vram s)(video_page 184 s := cell k 32 (vram s (video_page 184 s))),
      outs := outs s @ cursor_writes (x - 1) y', iflag := True\<rparr>)"
proof -
  note D = console_okD [OF ok]
  have cur: "cursor_ok x y" using D(2,8) xy by blast
  have "0 < 80 * y + x"
    using cur nz far by (cases "y = 0") (auto simp: cursor_ok_def)
  then have p: "80 * y + x - 1 = int k" "k < 2000" using cur k by (auto simp: cursor_ok_def)
  then have put: "put_cell (80 * y + (x - 1)) 32 (cli s) = Some (on_page (cell k 32) (cli s))"
    using put_cell_page [of "cli s" k 32] D(1) by (simp add: cli_def algebra_simps)
  have md: "(x - 1) smod 80 = x - 1" "(x - 1) sdiv 80 = 0" "y smod 25 = y"
    using cur far by (auto simp: cursor_ok_def smod_small sdiv_small)
  have get: "getScreenX (cli s) = Some x" "getScreenY (cli s) = Some y"
    using D(2,4,5) by (simp_all add: getScreenX_def getScreenY_def cli_def xy)
  have nz': "(x = 0 \<and> y = 0) = False" using nz by blast
  have b: "(if \<not> (x - 1 = 0 \<and> buf_idx (on_page (cell k 32) (cli s)) = 0)
      then (y + 0) smod 25 else y - 1) = y'"
    by (simp add: y' md cli_def)
  have "putc_backspace (cli s) = do {
       s \<leftarrow> setScreenX (x - 1) (on_page (cell k 32) (cli s));
       s \<leftarrow> setScreenY y' s;
       s \<leftarrow> update_cursor s;
       Some (sti s) }"
    unfolding putc_backspace_def get NUM_COLS_def NUM_ROWS_def Let_def
    by (simp only: Option.bind.bind_lunit nz' if_False of_nat_numeral put md(1,2) b)
  also have "\<dots> = Some (s\<lparr>termScreenx := (termScreenx s)[visible s := x - 1],
      termScreeny := (termScreeny s)[visible s := y'],
      vram := (vram s)(video_page 184 s := cell k 32 (vram s (video_page 184 s))),
      outs := outs s @ cursor_writes (x - 1) y', iflag := True\<rparr>)"
    using D(2,4,5)
    by (simp add: setScreenX_def setScreenY_def update_cursor_eq sti_def cli_def)
      (simp add: on_page_def)
  finally show ?thesis by (simp add: putc_def)
qed

section \<open>\<open>clear\<close> and \<open>keyboardputc\<close>\<close>

lemma set_video_page_restore:
  assumes "pt_ok (page_table s)" "page_table s' = page_table (set_video_page n s)"
  shows "page_table (set_video_page (video_page 184 s) s') = page_table s"
proof -
  have l: "length (page_table s) = 1024" using assms(1) by (simp add: pt_ok_def)
  have "setf p_address (of_nat (video_page 184 s)) (setf p_address v (page_table s ! 184))
      = page_table s ! 184" for v
  proof -
    have "of_nat (video_page 184 s) = getf p_address (page_table s ! 184)"
      by (simp add: video_page_def)
    then show ?thesis
      by (simp add: setf_def getf_def) (rule bit_eqI, auto simp: bit_fld_upd bit_fld field_defs)
  qed
  then show ?thesis using l by (simp add: set_video_page_def assms(2))
qed

lemma clear_correct:
  assumes "console_ok s"
  shows "clear s = Some (s\<lparr>vram := (vram s)(184 := blank (vram s 184)),
      termScreenx := (termScreenx s)[visible s := 0], termScreeny := (termScreeny s)[visible s := 0],
      outs := outs s @ cursor_writes 0 0\<rparr>)"
proof -
  note D = console_okD [OF assms]
  define s1 where "s1 = set_video_page 184 s"
  have s1: "pt_ok (page_table s1)" "video_page 184 s1 = 184"
    using D(1) set_video_page_ok [OF D(1), of 184] by (auto simp: s1_def pt_ok_def)
  have v: "visible s1 = visible s" by (simp add: s1_def visible_def)
  have l: "length (termScreenx s1) = 3" "length (termScreeny s1) = 3"
    using D(4,5) by (simp_all add: s1_def set_video_page_def)
  have "clear s = Some (set_video_page (video_page 184 s)
      ((on_page blank s1)\<lparr>termScreenx := (termScreenx s1)[visible s := 0],
        termScreeny := (termScreeny s1)[visible s := 0], outs := outs s1 @ cursor_writes 0 0\<rparr>))"
    using D(2) l
    by (simp add: clear_def s1_def [symmetric] Let_def pages_rows blank_loop [OF s1(1)]
        setScreenX_def setScreenY_def update_cursor_eq v)
  moreover have "page_table (set_video_page (video_page 184 s)
      ((on_page blank s1)\<lparr>termScreenx := (termScreenx s1)[visible s := 0],
        termScreeny := (termScreeny s1)[visible s := 0], outs := outs s1 @ cursor_writes 0 0\<rparr>))
      = page_table s"
    by (rule set_video_page_restore [OF D(1), of _ 184]) (simp add: s1_def)
  ultimately show ?thesis
    by (simp add: on_page_def s1(2)) (simp add: s1_def set_video_page_def)
qed

definition echo_state :: "kernel \<Rightarrow> kernel" where
  "echo_state s = (set_video_page 184 s)\<lparr>keyboardPutCFlag := 1\<rparr>"

lemma echo_state_ok:
  assumes "console_ok s"
  shows "console_ok (echo_state s)" "put_terminal (echo_state s) = visible s"
    "visible (echo_state s) = visible s" "video_page 184 (echo_state s) = 184"
    "screen_at t (echo_state s) = (termScreenx s ! t, termScreeny s ! t, vram s 184)"
proof -
  have l: "length (page_table s) = 1024" using assms by (simp add: console_ok_def pt_ok_def)
  show v: "visible (echo_state s) = visible s" by (simp add: echo_state_def visible_def)
  show "put_terminal (echo_state s) = visible s"
    using v by (simp add: put_terminal_def) (simp add: echo_state_def)
  show p: "video_page 184 (echo_state s) = 184" using l by (simp add: echo_state_def)
  show "console_ok (echo_state s)"
    using assms set_video_page_ok [of s 184]
    by (simp add: console_ok_def echo_state_def) (simp add: set_video_page_def)
  show "screen_at t (echo_state s) = (termScreenx s ! t, termScreeny s ! t, vram s 184)"
    by (simp add: screen_at_def p) (simp add: echo_state_def set_video_page_def)
qed

definition echo_result :: "u8 \<Rightarrow> kernel \<Rightarrow> kernel" where
  "echo_result c s = (let t = visible s;
       (x, y, p) = emit c (termScreenx s ! t, termScreeny s ! t, vram s 184)
     in s\<lparr>termScreenx := (termScreenx s)[t := x], termScreeny := (termScreeny s)[t := y],
          vram := (vram s)(184 := p), outs := outs s @ cursor_writes x y, iflag := True,
          keyboardPutCFlag := 0\<rparr>)"

lemma keyboardputc_correct:
  assumes ok: "console_ok s" and c: "c \<noteq> 8" and r: "termReadFlag s ! visible s = 1"
  shows "keyboardputc c s = Some (echo_result c s)"
proof -
  note D = console_okD [OF ok] and E = echo_state_ok [OF ok]
  let ?e = "echo_state s"
  obtain x y p where e: "emit c (termScreenx s ! visible s, termScreeny s ! visible s, vram s 184) = (x, y, p)"
    by (metis prod_cases3)
  have pr: "putc_result c ?e = ?e\<lparr>termScreenx := (termScreenx s)[visible s := x],
      termScreeny := (termScreeny s)[visible s := y], vram := (vram s)(184 := p),
      outs := outs s @ cursor_writes x y, iflag := True\<rparr>"
    using D(2,4,5) e
    by (simp add: putc_result_def E with_screen_def Let_def) (simp add: echo_state_def set_video_page_def)
  have "keyboardputc c s
      = Some (set_video_page (video_page 184 s) ((putc_result c ?e)\<lparr>keyboardPutCFlag := 0\<rparr>))"
    using D(2,6) r putc_correct [OF E(1) c]
    by (simp add: keyboardputc_def Let_def echo_state_def)
  moreover have "page_table (set_video_page (video_page 184 s)
      ((putc_result c ?e)\<lparr>keyboardPutCFlag := 0\<rparr>)) = page_table s"
    by (rule set_video_page_restore [OF D(1), of _ 184]) (simp add: echo_state_def)
  ultimately show ?thesis
    by (simp add: echo_result_def e pr Let_def) (simp add: echo_state_def set_video_page_def)
qed

section \<open>\<open>puts\<close>\<close>

definition prints :: "u8 list \<Rightarrow> kernel \<Rightarrow> kernel" where
  "prints cs s = fold putc_result cs s"

lemma vmem_putc_result [simp]: "vmem (putc_result c s) = vmem s"
  by (rule ext) (simp add: vmem_def user_frame_def)

lemma prints_ok [wf_intros]: "console_ok s \<Longrightarrow> console_ok (prints cs s)"
  by (induction cs arbitrary: s) (auto simp: prints_def putc_result_ok)

lemma prints_screen:
  "console_ok s \<Longrightarrow> screen_at (put_terminal s) (prints cs s) = fold emit cs (screen_at (put_terminal s) s)"
proof (induction cs arbitrary: s)
  case (Cons c cs)
  then show ?case
    using Cons.IH [OF putc_result_ok [OF Cons.prems, of c]] putc_result_screen(1) [OF Cons.prems]
    by (simp add: prints_def)
qed (simp add: prints_def)

lemma puts_from_correct:
  assumes "cstring (vmem s) p cs" "8 \<notin> set cs" "i \<le> length cs"
  shows "console_ok s' \<Longrightarrow> vmem s' = vmem s \<Longrightarrow>
    puts_from p (of_nat i) s' = Some (prints (drop i cs) s', of_nat (length cs))"
  using assms(3)
proof (induction "length cs - i" arbitrary: i s')
  case 0
  then have "i = length cs" by simp
  then show ?case
    using cstring_end [OF assms(1)] 0 by (subst puts_from.simps) (simp add: prints_def)
next
  case (Suc n)
  then have i: "i < length cs" by simp
  have nth: "vmem s' (p + of_nat i) = cs ! i" "cs ! i \<noteq> 0" "cs ! i \<noteq> 8"
    using cstring_nth [OF assms(1) i] cstring_nonzero [OF assms(1) i] Suc.prems(2) assms(2) i
    by (auto dest: nth_mem)
  have step: "puts_from p (of_nat i) s' = puts_from p (of_nat (Suc i)) (putc_result (cs ! i) s')"
    using nth putc_correct [OF Suc.prems(1) nth(3)]
    by (subst puts_from.simps) (simp add: add.commute)
  also have "\<dots> = Some (prints (drop (Suc i) cs) (putc_result (cs ! i) s'), of_nat (length cs))"
    using Suc.hyps(2) i Suc.prems
    by (intro Suc.hyps(1)) (auto intro: putc_result_ok)
  also have "prints (drop (Suc i) cs) (putc_result (cs ! i) s') = prints (drop i cs) s'"
    using i by (simp add: prints_def flip: Cons_nth_drop_Suc)
  finally show ?case .
qed

lemma puts_correct:
  "cstring (vmem s) p cs \<Longrightarrow> 8 \<notin> set cs \<Longrightarrow> console_ok s
   \<Longrightarrow> puts p s = Some (prints cs s, of_nat (length cs))"
  using puts_from_correct [of s p cs 0 s] by (simp add: puts_def)

section \<open>A console at boot\<close>

definition demo_pt :: u32 where "demo_pt = 0x401000"
definition demo_vpt :: u32 where "demo_vpt = 0x402000"

definition ready_state :: kernel where
  "ready_state = (paging_init demo_pt demo_vpt boot_state)\<lparr>termReadFlag := [1, 1, 1]\<rparr>"

lemma ready_paging: "paging_ok demo_pt demo_vpt ready_state"
proof -
  have "paging_ok demo_pt demo_vpt (paging_init demo_pt demo_vpt boot_state)"
    by (rule paging_init_ok) (simp_all add: boot_state_def)
  then show ?thesis by (simp add: ready_state_def paging_ok_def)
qed

lemma ready_simps [simp]:
  "currentTerminal ready_state = 1" "scheduled_term ready_state = 0" "visible ready_state = 0"
  "termScreenx ready_state = [0, 0, 0]" "termScreeny ready_state = [0, 0, 0]"
  "termReadFlag ready_state = [1, 1, 1]" "keyboardPutCFlag ready_state = 0"
  "buf_idx ready_state = 0" "put_terminal ready_state = 0" "video_page 184 ready_state = 184"
  "vram ready_state = (\<lambda>p i. 0)" "lowmem ready_state = (\<lambda>a. 0)" "frames ready_state = (\<lambda>f a. 0)"
  "keyboard_buf ready_state = replicate 128 0" "recentTermChoice ready_state = [1, 1]"
proof -
  show "video_page 184 ready_state = 184"
    using paging_init_frames(1) [of boot_state 184 demo_pt demo_vpt]
    by (simp add: ready_state_def video_page_def boot_state_def)
qed (simp_all add: ready_state_def paging_init_def boot_state_def visible_def put_terminal_def)

lemma ready_console_ok: "console_ok ready_state"
  using ready_paging by (auto simp: console_ok_def paging_ok_def cursor_ok_def less_3)

lemma console_ok_upd:
  assumes "console_ok s" "cursor_ok x y" "t < 3"
  shows "console_ok (s\<lparr>termScreenx := (termScreenx s)[t := x], termScreeny := (termScreeny s)[t := y]\<rparr>)"
  using assms by (auto simp: console_ok_def nth_list_update)

end
