(* ===== verification/ConsoleProps.thy ===== *)
theory ConsoleProps
  imports Console
begin

text \<open>
  The properties of the console: \<open>putc\<close> refines the terminal specification \<open>emit\<close>, output
  stays on the page and the terminal it belongs to, and where the cursor can be driven off the
  screen.
\<close>

text \<open>C32: \<open>putc\<close> of anything but a backspace never faults while the cursors are on the screen,
  does to its terminal exactly what the specification \<open>emit\<close> says (write, wrap, new line,
  scroll), keeps every cursor on the screen, and leaves the other terminals' cursors, the
  other pages of the video area and the mapping alone. It always ends with interrupts
  enabled.\<close>

theorem putc_emits:
  assumes "console_ok s" "c \<noteq> 8"
  shows "\<exists>s'. putc c s = Some s' \<and> console_ok s'
    \<and> screen_at (put_terminal s) s' = emit c (screen_at (put_terminal s) s)
    \<and> (\<forall>t. t \<noteq> put_terminal s \<longrightarrow> termScreenx s' ! t = termScreenx s ! t
          \<and> termScreeny s' ! t = termScreeny s ! t)
    \<and> (\<forall>p. p \<noteq> video_page 184 s \<longrightarrow> vram s' p = vram s p)
    \<and> page_table s' = page_table s \<and> iflag s'"
  using putc_correct [OF assms] putc_result_ok [OF assms(1)] putc_result_screen [OF assms(1)]
  by simp

theorem putc_emits_witness:
  "\<exists>s'. putc 65 ready_state = Some s' \<and> termScreenx s' ! 0 = 1 \<and> vram s' 184 0 = 65"
proof -
  obtain s' where s': "putc 65 ready_state = Some s'"
    "screen_at 0 s' = emit 65 (screen_at 0 ready_state)" "page_table s' = page_table ready_state"
    using putc_emits [OF ready_console_ok, of 65] by auto
  have "emit 65 (screen_at 0 ready_state) = (1, 0, cell 0 65 (\<lambda>i. 0))"
    by (simp add: screen_at_def emit_def)
  then have "termScreenx s' ! 0 = 1" "vram s' (video_page 184 s') 0 = 65"
    using s'(2) by (simp_all add: screen_at_def cell_def)
  moreover have "video_page 184 s' = 184"
    using s'(3) ready_simps(10) by (simp add: video_page_def)
  ultimately show ?thesis using s'(1) by simp
qed

text \<open>\<open>puts\<close> prints exactly the string at its argument, one \<open>emit\<close> per character, and
  returns its length; a string that has a terminator is printed in finite time.\<close>

theorem puts_prints:
  assumes "cstring (vmem s) p cs" "8 \<notin> set cs" "console_ok s"
  shows "\<exists>s'. puts p s = Some (s', of_nat (length cs)) \<and> console_ok s'
    \<and> screen_at (put_terminal s) s' = fold emit cs (screen_at (put_terminal s) s)"
  using puts_correct [OF assms] prints_ok [OF assms(3)] prints_screen [OF assms(3)] by blast

theorem puts_prints_witness:
  "\<exists>s'. puts 0x500000 (ready_state\<lparr>lowmem := (\<lambda>a. if a = 0x500000 then 72 else 0)\<rparr>) = Some (s', 1)"
proof -
  let ?s = "ready_state\<lparr>lowmem := (\<lambda>a. if a = 0x500000 then 72 else 0)\<rparr>"
  have "cstring (vmem ?s) 0x500000 [72]"
    by (simp add: cstring_def bytes_at_def vmem_def in_user_page_def USR_MEM_VIRT_ADDR_def MB4_def)
  moreover have "console_ok ?s" using ready_console_ok by (simp add: console_ok_def)
  ultimately show ?thesis using puts_prints [of ?s "0x500000" "[72]"] by auto
qed

text \<open>\<open>clear\<close> blanks the displayed screen, whatever page the video memory is mapped to at
  the time, moves the displayed terminal's cursor to the corner and touches nothing else.\<close>

theorem clear_blanks:
  assumes "console_ok s"
  shows "clear s = Some (s\<lparr>vram := (vram s)(184 := blank (vram s 184)),
      termScreenx := (termScreenx s)[currentTerminal s - 1 := 0],
      termScreeny := (termScreeny s)[currentTerminal s - 1 := 0],
      outs := outs s @ cursor_writes 0 0\<rparr>)"
  using clear_correct [OF assms] console_okD(9) [OF assms] by simp

theorem clear_blanks_witness:
  "\<exists>s'. clear ready_state = Some s' \<and> vram s' 184 0 = 32 \<and> vram s' 185 0 = 0"
  using clear_blanks [OF ready_console_ok] by (simp add: blank_def)

text \<open>The echo of a key goes to the terminal on display and to the displayed page, whatever
  process is scheduled and wherever the video memory is mapped; a save page or another
  terminal's cursor never changes. While no program of that terminal reads, a key echoes
  nothing.\<close>

theorem echo_on_display:
  assumes "console_ok s" "c \<noteq> 8"
  shows "\<exists>s'. keyboardputc c s = Some s' \<and> console_ok s' \<and> page_table s' = page_table s
    \<and> (termReadFlag s ! visible s \<noteq> 1 \<longrightarrow> s' = s)
    \<and> (termReadFlag s ! visible s = 1 \<longrightarrow>
        (termScreenx s' ! visible s, termScreeny s' ! visible s, vram s' 184)
          = emit c (termScreenx s ! visible s, termScreeny s ! visible s, vram s 184))
    \<and> (\<forall>t. t \<noteq> visible s \<longrightarrow> termScreenx s' ! t = termScreenx s ! t
          \<and> termScreeny s' ! t = termScreeny s ! t)
    \<and> (\<forall>p. p \<noteq> 184 \<longrightarrow> vram s' p = vram s p)"
proof (cases "termReadFlag s ! visible s = 1")
  case True
  note D = console_okD [OF assms(1)]
  obtain x y p where e: "emit c (termScreenx s ! visible s, termScreeny s ! visible s, vram s 184) = (x, y, p)"
    by (metis prod_cases3)
  have "cursor_ok x y" using emit_cursor_ok [OF D(8) [OF D(2)] e] .
  then have "console_ok (echo_result c s)"
    using console_ok_upd [OF assms(1) _ D(2), of x y] by (simp add: console_ok_def echo_result_def e Let_def)
  then show ?thesis
    using keyboardputc_correct [OF assms True] D(2,4,5) True by (simp add: echo_result_def e Let_def)
next
  case False
  then have "keyboardputc c s = Some s"
    using console_okD(2,6) [OF assms(1)] by (simp add: keyboardputc_def)
  then show ?thesis using assms(1) False by simp
qed

theorem echo_on_display_witness:
  "\<exists>s'. keyboardputc 65 (ready_state\<lparr>scheduled_term := 2\<rparr>) = Some s' \<and> termScreenx s' ! 0 = 1
     \<and> termScreenx s' ! 2 = 0"
proof -
  let ?s = "ready_state\<lparr>scheduled_term := 2\<rparr>"
  have ok: "console_ok ?s" using ready_console_ok by (simp add: console_ok_def)
  have v: "visible ?s = 0" by (simp add: visible_def)
  have "emit 65 (0, 0, \<lambda>i. 0) = (1, 0, cell 0 65 (\<lambda>i. 0))" by (simp add: emit_def)
  then show ?thesis using echo_on_display [OF ok, of 65] by (auto simp: v)
qed

text \<open>A backspace blanks the cell before the cursor of the displayed terminal and moves the
  cursor one column back, in the same row, unless that empties the input line with the
  cursor in column 1: then the cursor goes up a row as well.\<close>

theorem backspace_erases:
  assumes "console_ok s"
    and "x = termScreenx s ! visible s" "y = termScreeny s ! visible s"
    and "\<not> (x = 0 \<and> y = 0)" "-79 < x"
    and "k = nat (80 * y + x - 1)" "y' = (if x = 1 \<and> buf_idx s = 0 then y - 1 else y)"
  shows "putc 8 s = Some (s\<lparr>termScreenx := (termScreenx s)[visible s := x - 1],
      termScreeny := (termScreeny s)[visible s := y'],
      vram := (vram s)(video_page 184 s := cell k 32 (vram s (video_page 184 s))),
      outs := outs s @ cursor_writes (x - 1) y', iflag := True\<rparr>)"
  by (rule backspace_correct [OF assms])

theorem backspace_erases_witness:
  "\<exists>s'. putc 8 (ready_state\<lparr>termScreenx := [5, 0, 0], buf_idx := 4\<rparr>) = Some s'
     \<and> termScreenx s' ! 0 = 4 \<and> vram s' 184 8 = 32"
proof -
  let ?s = "ready_state\<lparr>termScreenx := [5, 0, 0], buf_idx := 4\<rparr>"
  have v: "visible ?s = 0" "video_page 184 ?s = 184"
    using ready_simps(10) by (simp_all add: visible_def video_page_def)
  have ok: "console_ok ?s"
    using ready_console_ok by (simp add: console_ok_def less_3) (simp add: cursor_ok_def)
  have "putc 8 ?s = Some (?s\<lparr>termScreenx := [4, 0, 0], termScreeny := [0, 0, 0],
      vram := (vram ?s)(184 := cell 4 32 (vram ?s 184)),
      outs := outs ?s @ cursor_writes 4 0, iflag := True\<rparr>)"
  proof -
    have "putc 8 ?s = Some (?s\<lparr>termScreenx := (termScreenx ?s)[visible ?s := 5 - 1],
      termScreeny := (termScreeny ?s)[visible ?s := 0],
      vram := (vram ?s)(video_page 184 ?s := cell 4 32 (vram ?s (video_page 184 ?s))),
      outs := outs ?s @ cursor_writes (5 - 1) 0, iflag := True\<rparr>)"
      by (rule backspace_erases [OF ok]) (simp_all add: v)
    then show ?thesis unfolding v by simp
  qed
  then show ?thesis by (simp add: cell_def)
qed

text \<open>With the cursor in column 1 of the top row and an empty input line, a backspace moves
  the cursor to row -1, and the next character typed writes below the video memory and
  faults.\<close>

theorem backspace_runs_off_screen:
  assumes "console_ok s" "termScreenx s ! visible s = 1" "termScreeny s ! visible s = 0"
    and "buf_idx s = 0" "keyboardPutCFlag s = 1" "c \<noteq> 8" "c \<noteq> 0x0A" "c \<noteq> 0x0D"
  shows "\<exists>s'. putc 8 s = Some s' \<and> termScreeny s' ! visible s = -1 \<and> putc c s' = None"
proof -
  note D = console_okD [OF assms(1)]
  define s' where "s' = s\<lparr>termScreenx := (termScreenx s)[visible s := 0],
      termScreeny := (termScreeny s)[visible s := -1],
      vram := (vram s)(video_page 184 s := cell 0 32 (vram s (video_page 184 s))),
      outs := outs s @ cursor_writes 0 (-1), iflag := True\<rparr>"
  have p: "putc 8 s = Some s'"
  proof -
    have "putc 8 s = Some (s\<lparr>termScreenx := (termScreenx s)[visible s := 1 - 1],
      termScreeny := (termScreeny s)[visible s := -1],
      vram := (vram s)(video_page 184 s := cell 0 32 (vram s (video_page 184 s))),
      outs := outs s @ cursor_writes (1 - 1) (-1), iflag := True\<rparr>)"
      by (rule backspace_correct [OF assms(1), where y = 0]) (use assms(2-4) in simp_all)
    then show ?thesis unfolding s'_def by (simp only: diff_self)
  qed
  have t: "put_terminal (cli s') = visible s" "termScreenx s' = (termScreenx s)[visible s := 0]"
    "termScreeny s' = (termScreeny s)[visible s := -1]" "page_table s' = page_table s"
    using assms(5) by (simp_all add: s'_def put_terminal_def cli_def visible_def)
  have "vput (-160) c (cli s') = None"
  proof -
    have v: "(int VIDEO - 160) div 4096 = 183" by (simp add: VIDEO_def)
    have "getf e_present (page_table (cli s') ! 183) = 0"
      using D(1) t(4) by (simp add: pt_ok_def cli_def)
    then show ?thesis by (simp add: vput_def vaddr_ok_def Let_def v)
  qed
  then have pc: "put_cell (int NUM_COLS * -1 + 0) c (cli s') = None"
    by (simp add: put_cell_def NUM_COLS_def)
  have g: "aget (termScreenx (cli s')) (visible s) = Some 0"
    "aget (termScreeny (cli s')) (visible s) = Some (-1)"
    using t D(2,4,5) by (simp_all add: cli_def)
  have "putc c s' = None"
    using assms(6-8) unfolding putc_def Let_def t(1) g Option.bind.bind_lunit pc by simp
  then show ?thesis using p t D(2,5) by simp
qed

theorem backspace_runs_off_screen_witness:
  "\<exists>s'. putc 8 (ready_state\<lparr>termScreenx := [1, 0, 0], keyboardPutCFlag := 1\<rparr>) = Some s'
     \<and> putc 98 s' = None"
proof -
  let ?s = "ready_state\<lparr>termScreenx := [1, 0, 0], keyboardPutCFlag := 1\<rparr>"
  have v: "visible ?s = 0" by (simp add: visible_def)
  have "console_ok ?s"
    using ready_console_ok by (simp add: console_ok_def less_3) (simp add: cursor_ok_def)
  from backspace_runs_off_screen [OF this, of 98] show ?thesis by (auto simp: v)
qed

end
