(* ===== verification/Keyboard.thy ===== *)
theory Keyboard
  imports Console
begin

text \<open>
  The keyboard driver, \<open>student-distrib/keyboard.c\<close>: the handler with its dispatch on the
  scancode, the helpers for the special keys, the line buffer and its copies per terminal, and
  the switch between terminals. What \<open>inb\<close> reads from the data port is the argument
  \<open>keyboard_scan_data\<close>. A write outside a C array is \<open>None\<close>.
\<close>

section \<open>Scancode tables\<close>

definition bytes :: "string \<Rightarrow> u8 list" where
  "bytes cs = map of_char cs"

definition scan_code_one :: "u8 list" where
  "scan_code_one = [0, 0] @ bytes ''1234567890-='' @ [8, 32] @ bytes ''qwertyuiop[]''
     @ [10, 0] @ bytes ''asdfghjkl;'' @ [39, 0, 0, 92] @ bytes ''zxcvbnm,./''"

definition scan_code_one_shift :: "u8 list" where
  "scan_code_one_shift = [0, 0] @ bytes ''!@#$%^&*()_+'' @ [8, 32] @ bytes ''QWERTYUIOP{}''
     @ [10, 0] @ bytes ''ASDFGHJKL:'' @ [34, 0, 0] @ bytes ''|ZXCVBNM<>?''"

definition scan_code_one_caps :: "u8 list" where
  "scan_code_one_caps = [0, 0] @ bytes ''1234567890-='' @ [8, 32] @ bytes ''QWERTYUIOP[]''
     @ [10, 0] @ bytes ''ASDFGHJKL;'' @ [39, 0, 0, 92] @ bytes ''ZXCVBNM,./''"

definition scan_code_one_shift_caps :: "u8 list" where
  "scan_code_one_shift_caps = [0, 0] @ bytes ''!@#$%^&*()_+'' @ [8, 32] @ bytes ''qwertyuiop{}''
     @ [10, 0] @ bytes ''asdfghjkl:'' @ [34, 0, 0] @ bytes ''|zxcvbnm<>?''"

text \<open>\<open>None\<close>: the read lies outside the table. \<open>Some None\<close> is the result -1.\<close>

definition scancode_helper :: "u8 \<Rightarrow> kernel \<Rightarrow> u8 option option" where
  "scancode_helper scan_data s =
     (let i = unat scan_data in
      if i > length scan_code_one then Some None
      else if capslock_flag s = 1 \<and> capital_flag s = 0
      then map_option Some (aget scan_code_one_caps i)
      else if capital_flag s = 1 \<and> capslock_flag s = 0
      then map_option Some (aget scan_code_one_shift i)
      else if capital_flag s = 1 \<and> capslock_flag s = 1
      then map_option Some (aget scan_code_one_shift_caps i)
      else map_option Some (aget scan_code_one i))"

section \<open>Line buffers\<close>

abbreviation (input) curr_term :: "kernel \<Rightarrow> nat" where
  "curr_term s \<equiv> recentTermChoice s ! 1"

abbreviation (input) prev_term :: "kernel \<Rightarrow> nat" where
  "prev_term s \<equiv> recentTermChoice s ! 0"

definition keyboard_switch :: "nat \<Rightarrow> nat \<Rightarrow> kernel \<Rightarrow> kernel" where
  "keyboard_switch prev_terminal curr_terminal s =
     (let s = (if prev_terminal = 1 then s\<lparr>keyboard_buf1 := keyboard_buf s\<rparr>
               else if prev_terminal = 2 then s\<lparr>keyboard_buf2 := keyboard_buf s\<rparr>
               else if prev_terminal = 3 then s\<lparr>keyboard_buf3 := keyboard_buf s\<rparr> else s)
      in (if curr_terminal = 1 then s\<lparr>keyboard_buf := keyboard_buf1 s\<rparr>
          else if curr_terminal = 2 then s\<lparr>keyboard_buf := keyboard_buf2 s\<rparr>
          else if curr_terminal = 3 then s\<lparr>keyboard_buf := keyboard_buf3 s\<rparr> else s))"

definition put_buf :: "u8 \<Rightarrow> kernel \<Rightarrow> kernel option" where
  "put_buf c s = do { b \<leftarrow> aset (keyboard_buf s) (buf_idx s) c; Some (s\<lparr>keyboard_buf := b\<rparr>) }"

text \<open>The first three tests of \<open>buffer_clear\<close>, for terminal \<open>t\<close>, counted from 1.\<close>

definition buffer_clear_term :: "nat \<Rightarrow> kernel \<Rightarrow> kernel option" where
  "buffer_clear_term t s = do {
     fl \<leftarrow> aget (keyboard_flags s) (t - 1);
     k \<leftarrow> aget (fl_ctrl_info fl) 1;
     if k \<noteq> 0x26 \<and> curr_term s = t
     then do { s \<leftarrow> put_buf 0x0A s; keyboardputc 0x0A s }
     else Some s
   }"

definition zeroes :: "u8 list \<Rightarrow> u8 list" where
  "zeroes xs = map (\<lambda>x. 0) xs"

definition buffer_clear :: "kernel \<Rightarrow> kernel option" where
  "buffer_clear s = do {
     s \<leftarrow> buffer_clear_term 1 s;
     s \<leftarrow> buffer_clear_term 2 s;
     s \<leftarrow> buffer_clear_term 3 s;
     let s = s\<lparr>buf_idx := 0\<rparr>;
     let s = s\<lparr>keyboard_buf := zeroes (keyboard_buf s)\<rparr>;
     Some (if curr_term s = 1 then s\<lparr>keyboard_buf1 := zeroes (keyboard_buf1 s)\<rparr>
           else if curr_term s = 2 then s\<lparr>keyboard_buf2 := zeroes (keyboard_buf2 s)\<rparr>
           else if curr_term s = 3 then s\<lparr>keyboard_buf3 := zeroes (keyboard_buf3 s)\<rparr>
           else s)
   }"

definition buffer_clear_only :: "kernel \<Rightarrow> kernel" where
  "buffer_clear_only s =
     (let s = s\<lparr>buf_idx := 0\<rparr>;
          s = s\<lparr>keyboard_buf := zeroes (keyboard_buf s)\<rparr>
      in if scheduled_term s = 1 then s\<lparr>keyboard_buf1 := zeroes (keyboard_buf1 s)\<rparr>
         else if scheduled_term s = 2 then s\<lparr>keyboard_buf2 := zeroes (keyboard_buf2 s)\<rparr>
         else if scheduled_term s = 3 then s\<lparr>keyboard_buf3 := zeroes (keyboard_buf3 s)\<rparr>
         else s)"

definition clear_flags :: "flags_t \<Rightarrow> flags_t" where
  "clear_flags f = f\<lparr>fl_ctrl_info := [0, 0], fl_shift_flag := 0, fl_capslock_flag := 0,
     fl_capital_flag := 0\<rparr>"

definition keyboard_init :: "(kernel \<Rightarrow> u16 \<Rightarrow> u8) \<Rightarrow> kernel \<Rightarrow> kernel" where
  "keyboard_init inb s =
     (let s = s\<lparr>enter_flag := (enter_flag s)[0 := 0, 1 := 0, 2 := 0], ctrl_info := [0, 0], shift_flag := 0,
        keyboard_flags := map clear_flags (keyboard_flags s),
        capslock_flag := 0, capital_flag := 0, buf_idx := 0\<rparr>
      in enable_irq (inb s) 1 s)"

section \<open>Switching terminals\<close>

definition terminal_changing_handler :: "kernel \<Rightarrow> kernel option" where
  "terminal_changing_handler s = do {
     let s = set_paging_scheduling (curr_term s) s;
     let s = terminal_changing s;
     let s = keyboard_switch (prev_term s) (curr_term s) s;
     ti \<leftarrow> aget (terminal_switch_array s) (prev_term s - 1);
     tis \<leftarrow> aset (terminal_switch_array s) (prev_term s - 1)
       (ti\<lparr>ti_term_buf := term_buf s, ti_buf_idx := buf_idx s\<rparr>);
     let s = s\<lparr>terminal_switch_array := tis\<rparr>;
     s \<leftarrow> update_cursor s;
     ti \<leftarrow> aget (terminal_switch_array s) (curr_term s - 1);
     Some (s\<lparr>term_buf := ti_term_buf ti, buf_idx := ti_buf_idx ti\<rparr>)
   }"

section \<open>Special keys\<close>

definition irq_done :: "kernel \<Rightarrow> kernel" where
  "irq_done s = sti (send_eoi 1 s)"

definition set_ctrl :: "nat \<Rightarrow> u8 \<Rightarrow> kernel \<Rightarrow> kernel" where
  "set_ctrl i v s = s\<lparr>ctrl_info := (ctrl_info s)[i := v]\<rparr>"

definition enter_helper :: "kernel \<Rightarrow> kernel option" where
  "enter_helper s = do {
     s \<leftarrow> (if ctrl_info s ! 1 = 1 then keyboardputc 0x0A s else Some s);
     let s = set_ctrl 1 0 s;
     s \<leftarrow> put_buf 0x0A s;
     let s = s\<lparr>buf_idx := buf_idx s + 1\<rparr>;
     fl \<leftarrow> aset (enter_flag s) (visible s) 1;
     let s = s\<lparr>enter_flag := fl\<rparr>;
     let s = s\<lparr>term_buf := keyboard_buf s\<rparr>;
     s \<leftarrow> buffer_clear s;
     Some (irq_done s)
   }"

definition backspace_helper :: "kernel \<Rightarrow> kernel option" where
  "backspace_helper s =
     (if buf_idx s > 0 then do {
        let s = s\<lparr>buf_idx := buf_idx s - 1\<rparr>;
        s \<leftarrow> keyboardputc 0x08 s;
        s \<leftarrow> put_buf 0 s;
        Some (irq_done s)
      } else Some (irq_done s))"

definition control_helper :: "int \<Rightarrow> kernel \<Rightarrow> kernel" where
  "control_helper key_state s = irq_done
     (if key_state = 1 then set_ctrl 0 1 s else if key_state = 0 then set_ctrl 0 0 s else s)"

definition space_helper :: "kernel \<Rightarrow> kernel option" where
  "space_helper s = do {
     s \<leftarrow> put_buf 0x20 s;
     s \<leftarrow> keyboardputc 0x20 s;
     Some (irq_done (s\<lparr>buf_idx := buf_idx s + 1\<rparr>))
   }"

fun tab_loop :: "nat \<Rightarrow> kernel \<Rightarrow> kernel option" where
  "tab_loop 0 s = Some (irq_done s)"
| "tab_loop (Suc n) s =
     (if buf_idx s \<ge> BUFSIZE - 1 then Some (irq_done s)
      else do { s \<leftarrow> space_helper s; tab_loop n s })"

definition tab_helper :: "kernel \<Rightarrow> kernel option" where
  "tab_helper s = tab_loop 4 s"

definition capslock_helper :: "kernel \<Rightarrow> kernel" where
  "capslock_helper s = irq_done
     (if capslock_flag s = 0 then s\<lparr>capslock_flag := 1\<rparr> else s\<lparr>capslock_flag := 0\<rparr>)"

definition shift_helper :: "int \<Rightarrow> kernel \<Rightarrow> kernel" where
  "shift_helper key_state s = irq_done
     (if key_state = 1 then s\<lparr>capital_flag := 1\<rparr>
      else if key_state = 0 then s\<lparr>capital_flag := 0\<rparr> else s)"

definition alt_helper :: "int \<Rightarrow> kernel \<Rightarrow> kernel" where
  "alt_helper key_state s = irq_done
     (if key_state = 1 then s\<lparr>alt_info := 1\<rparr>
      else if key_state = 0 then s\<lparr>alt_info := 0\<rparr> else s)"

definition f_helper :: "int \<Rightarrow> nat \<Rightarrow> kernel \<Rightarrow> kernel option" where
  "f_helper key_state f_number s =
     (if key_state = 1 then do {
        let s = (if f_number \<in> {1, 2, 3}
                 then s\<lparr>recentTermChoice := [curr_term s, f_number]\<rparr> else s);
        s \<leftarrow> (if alt_info s \<noteq> 0 then terminal_changing_handler s else Some s);
        Some (irq_done s)
      }
      else if key_state = 0 then
        Some (irq_done
          (if f_number = 1 then s\<lparr>f1_info := 0\<rparr>
           else if f_number = 2 then s\<lparr>f2_info := 0\<rparr>
           else if f_number = 3 then s\<lparr>f3_info := 0\<rparr> else s))
      else Some (irq_done s))"

section \<open>The handler\<close>

definition redraw_line :: "kernel \<Rightarrow> kernel option" where
  "redraw_line s = foldM (\<lambda>i s. do {
       c \<leftarrow> aget (keyboard_buf s) i;
       if c \<noteq> 0 then keyboardputc c s else Some s
     }) [0..<BUFSIZE] s"

definition key_default :: "u8 \<Rightarrow> kernel \<Rightarrow> kernel option" where
  "key_default keyboard_scan_data s =
     (if ctrl_info s ! 0 = 1 \<and> keyboard_scan_data = 0x26 then do {
        s \<leftarrow> clear s;
        s \<leftarrow> redraw_line s;
        s \<leftarrow> clear_help s;
        Some (irq_done (set_ctrl 1 0x26 s))
      }
      else if buf_idx s \<ge> BUFSIZE - 1 then Some (irq_done s)
      else do {
        curr_scancode \<leftarrow> scancode_helper keyboard_scan_data s;
        case curr_scancode of
          None \<Rightarrow> Some (irq_done s)
        | Some c \<Rightarrow> do {
            s \<leftarrow> put_buf c s;
            s \<leftarrow> keyboardputc c s;
            Some (irq_done (s\<lparr>buf_idx := buf_idx s + 1\<rparr>))
          }
      })"

definition keyboard_handler :: "u8 \<Rightarrow> kernel \<Rightarrow> kernel option" where
  "keyboard_handler keyboard_scan_data s = (let s = cli s; k = keyboard_scan_data in
     if k = 0x1C then enter_helper s
     else if k = 0x0E then backspace_helper s
     else if k = 0x1D then Some (control_helper 1 s)
     else if k = 0x9D then Some (control_helper 0 s)
     else if k = 0x39 then space_helper s
     else if k = 0x0F then tab_helper s
     else if k = 0x3A then Some (capslock_helper s)
     else if k = 0x2A then Some (shift_helper 1 s)
     else if k = 0xAA then Some (shift_helper 0 s)
     else if k = 0x36 then Some (shift_helper 1 s)
     else if k = 0xB6 then Some (shift_helper 0 s)
     else if k = 0x38 then Some (alt_helper 1 s)
     else if k = 0xB8 then Some (alt_helper 0 s)
     else if k = 0x3B then f_helper 1 1 s
     else if k = 0xBB then f_helper 0 1 s
     else if k = 0x3C then f_helper 1 2 s
     else if k = 0xBC then f_helper 0 2 s
     else if k = 0x3D then f_helper 1 3 s
     else if k = 0xBD then f_helper 0 3 s
     else key_default k s)"

text \<open>A sequence of key presses.\<close>

definition type_keys :: "u8 list \<Rightarrow> kernel \<Rightarrow> kernel option" where
  "type_keys ks s = foldM keyboard_handler ks s"

end
