(* ===== verification/KeyboardLine.thy ===== *)
theory KeyboardLine
  imports Keyboard
begin

text \<open>
  The line editor of the keyboard driver. The contract of the console that the driver relies on
  is the locale \<open>console_op\<close>: an output operation touches only the console's own variables.
  On it rests the simulation of the driver by an abstract editor whose state is the typed line.
\<close>

section \<open>Console operations leave the rest of the kernel alone\<close>

definition con_blank :: "kernel \<Rightarrow> kernel" where
  "con_blank s = s\<lparr>outs := [], iflag := False, vram := (\<lambda>p i. 0), page_table := [],
     keyboardPutCFlag := 0, termScreenx := [], termScreeny := []\<rparr>"

definition con_eq :: "kernel \<Rightarrow> kernel \<Rightarrow> bool" where
  "con_eq s s' \<longleftrightarrow> con_blank s' = con_blank s"

lemma con_eq_refl [simp]: "con_eq s s"
  by (simp add: con_eq_def)

lemma con_eq_trans: "con_eq s s' \<Longrightarrow> con_eq s' s'' \<Longrightarrow> con_eq s s''"
  by (simp add: con_eq_def)

lemma con_blank_upd [simp]:
  "con_blank (cli s) = con_blank s" "con_blank (sti s) = con_blank s"
  "con_blank (set_video_page n s) = con_blank s"
  "con_blank (s\<lparr>keyboardPutCFlag := k\<rparr>) = con_blank s"
  by (simp_all add: con_blank_def cli_def sti_def set_video_page_def)

lemma con_eq_upd [simp]:
  "con_eq s (s'\<lparr>outs := a\<rparr>) = con_eq s s'" "con_eq s (s'\<lparr>iflag := b\<rparr>) = con_eq s s'"
  "con_eq s (s'\<lparr>vram := v\<rparr>) = con_eq s s'" "con_eq s (s'\<lparr>page_table := t\<rparr>) = con_eq s s'"
  "con_eq s (s'\<lparr>keyboardPutCFlag := k\<rparr>) = con_eq s s'"
  "con_eq s (s'\<lparr>termScreenx := x\<rparr>) = con_eq s s'"
  "con_eq s (s'\<lparr>termScreeny := y\<rparr>) = con_eq s s'"
  "con_eq s (outb c p s') = con_eq s s'" "con_eq s (cli s') = con_eq s s'"
  "con_eq s (sti s') = con_eq s s'" "con_eq s (set_video_page n s') = con_eq s s'"
  by (simp_all add: con_eq_def con_blank_def outb_def cli_def sti_def set_video_page_def)

lemma con_eq_fields:
  assumes "con_eq s s'"
  shows "lowmem s' = lowmem s" "frames s' = frames s" "page_directory s' = page_directory s"
    "currentTerminal s' = currentTerminal s" "keyboard_buf s' = keyboard_buf s"
    "keyboard_buf1 s' = keyboard_buf1 s" "keyboard_buf2 s' = keyboard_buf2 s"
    "keyboard_buf3 s' = keyboard_buf3 s" "ctrl_info s' = ctrl_info s" "buf_idx s' = buf_idx s"
    "capslock_flag s' = capslock_flag s" "capital_flag s' = capital_flag s"
    "recentTermChoice s' = recentTermChoice s" "keyboard_flags s' = keyboard_flags s"
    "enter_flag s' = enter_flag s" "termReadFlag s' = termReadFlag s" "term_buf s' = term_buf s"
    "terminal_switch_array s' = terminal_switch_array s" "scheduled_term s' = scheduled_term s"
    "curr_pid_for_term s' = curr_pid_for_term s" "pcbs s' = pcbs s" "alt_info s' = alt_info s"
    "visible s' = visible s" "rtc_flag s' = rtc_flag s" "curr_count s' = curr_count s"
    "freq_count s' = freq_count s" "boot_block s' = boot_block s" "pcb_arr s' = pcb_arr s"
    "parent_pid_for_term s' = parent_pid_for_term s" "curr_terminal_idx s' = curr_terminal_idx s"
    "args s' = args s" "terminalInstantiated s' = terminalInstantiated s"
    "doneInstantiating s' = doneInstantiating s"
  using assms [unfolded con_eq_def, THEN arg_cong, of pcb_arr]
    assms [unfolded con_eq_def, THEN arg_cong, of terminalInstantiated]
    assms [unfolded con_eq_def, THEN arg_cong, of doneInstantiating]
    assms [unfolded con_eq_def, THEN arg_cong, of parent_pid_for_term]
    assms [unfolded con_eq_def, THEN arg_cong, of curr_terminal_idx]
    assms [unfolded con_eq_def, THEN arg_cong, of args]
    assms [unfolded con_eq_def, THEN arg_cong, of lowmem]
    assms [unfolded con_eq_def, THEN arg_cong, of frames]
    assms [unfolded con_eq_def, THEN arg_cong, of page_directory]
    assms [unfolded con_eq_def, THEN arg_cong, of currentTerminal]
    assms [unfolded con_eq_def, THEN arg_cong, of keyboard_buf]
    assms [unfolded con_eq_def, THEN arg_cong, of keyboard_buf1]
    assms [unfolded con_eq_def, THEN arg_cong, of keyboard_buf2]
    assms [unfolded con_eq_def, THEN arg_cong, of keyboard_buf3]
    assms [unfolded con_eq_def, THEN arg_cong, of ctrl_info]
    assms [unfolded con_eq_def, THEN arg_cong, of buf_idx]
    assms [unfolded con_eq_def, THEN arg_cong, of capslock_flag]
    assms [unfolded con_eq_def, THEN arg_cong, of capital_flag]
    assms [unfolded con_eq_def, THEN arg_cong, of recentTermChoice]
    assms [unfolded con_eq_def, THEN arg_cong, of keyboard_flags]
    assms [unfolded con_eq_def, THEN arg_cong, of enter_flag]
    assms [unfolded con_eq_def, THEN arg_cong, of termReadFlag]
    assms [unfolded con_eq_def, THEN arg_cong, of term_buf]
    assms [unfolded con_eq_def, THEN arg_cong, of terminal_switch_array]
    assms [unfolded con_eq_def, THEN arg_cong, of scheduled_term]
    assms [unfolded con_eq_def, THEN arg_cong, of curr_pid_for_term]
    assms [unfolded con_eq_def, THEN arg_cong, of pcbs]
    assms [unfolded con_eq_def, THEN arg_cong, of alt_info]
    assms [unfolded con_eq_def, THEN arg_cong, of rtc_flag]
    assms [unfolded con_eq_def, THEN arg_cong, of curr_count]
    assms [unfolded con_eq_def, THEN arg_cong, of freq_count]
    assms [unfolded con_eq_def, THEN arg_cong, of boot_block]
  by (simp_all add: con_blank_def visible_def)

text \<open>
  Composition: every result of a computation started in \<open>s0\<close> carries a state, found by \<open>f\<close>,
  that output alone leads to.
\<close>

definition cop :: "('a \<Rightarrow> kernel) \<Rightarrow> kernel \<Rightarrow> 'a option \<Rightarrow> bool" where
  "cop f s0 r \<longleftrightarrow> (\<forall>v. r = Some v \<longrightarrow> con_eq s0 (f v))"

lemma cop_Some: "con_eq s0 (f v) \<Longrightarrow> cop f s0 (Some v)"
  by (simp add: cop_def)

lemma cop_bind: "cop g s0 m \<Longrightarrow> (\<And>v. con_eq s0 (g v) \<Longrightarrow> cop f s0 (k v)) \<Longrightarrow> cop f s0 (m \<bind> k)"
  by (auto simp: cop_def split: Option.bind_splits)

lemma cop_value: "(\<And>x. cop f s0 (k x)) \<Longrightarrow> cop f s0 (m \<bind> k)"
  by (auto simp: cop_def split: Option.bind_splits)

lemma cop_if: "cop f s0 a \<Longrightarrow> cop f s0 b \<Longrightarrow> cop f s0 (if c then a else b)"
  by simp

lemma cop_case3:
  "(\<And>x y z. v = (x, y, z) \<Longrightarrow> cop f s0 (k x y z)) \<Longrightarrow> cop f s0 (case v of (x, y, z) \<Rightarrow> k x y z)"
  by (cases v) auto

definition third :: "'a \<times> 'b \<times> kernel \<Rightarrow> kernel" where "third v = snd (snd v)"

locale console_op =
  fixes f :: "kernel \<Rightarrow> kernel option"
  assumes frame: "f s = Some s' \<Longrightarrow> con_eq s s'"
begin

lemmas keeps = con_eq_fields [OF frame]

lemma cop: "con_eq s0 s \<Longrightarrow> cop id s0 (f s)"
  using con_eq_trans frame by (auto simp: cop_def)

lemma frame_trans: "con_eq s0 s \<Longrightarrow> f s = Some s' \<Longrightarrow> con_eq s0 s'"
  using con_eq_trans frame by blast

end

lemma foldM_con_eq:
  assumes "\<And>x s s'. x \<in> set xs \<Longrightarrow> f x s = Some s' \<Longrightarrow> con_eq s s'" "foldM f xs s = Some s'"
  shows "con_eq s s'"
  using assms
proof (induction xs arbitrary: s)
  case (Cons x xs)
  then obtain t where "f x s = Some t" "foldM f xs t = Some s'"
    by (auto split: Option.bind_splits)
  then show ?case using Cons.IH [of t] Cons.prems(1) con_eq_trans by (metis list.set_intros)
qed simp

interpretation vput: console_op "vput off c" for off c
  by unfold_locales (auto simp: vput_def Let_def split: if_splits)

interpretation put_cell: console_op "put_cell k c" for k c
  by unfold_locales (auto simp: put_cell_def split: Option.bind_splits dest: vput.frame vput.frame_trans)

interpretation setX: console_op "setScreenX v" for v
  by unfold_locales (auto simp: setScreenX_def split: Option.bind_splits)

interpretation setY: console_op "setScreenY v" for v
  by unfold_locales (auto simp: setScreenY_def split: Option.bind_splits)

interpretation set_cursor: console_op "set_cursor t x y" for t x y
  by unfold_locales (auto simp: set_cursor_def split: Option.bind_splits)

interpretation update_cursor: console_op update_cursor
  by unfold_locales (auto simp: update_cursor_def cursor_writes_def Let_def split: Option.bind_splits)

interpretation scroll: console_op scroll
proof
  fix s s' assume "scroll s = Some s'"
  then obtain t where t: "foldM scroll_row [0..<NUM_ROWS - 1] s = Some t"
    "foldM (\<lambda>j s. put_cell (int (NUM_COLS * (NUM_ROWS - 1) + j)) 0 s) [0..<NUM_COLS] t = Some s'"
    by (auto simp: scroll_def split: Option.bind_splits)
  have row: "scroll_row i s = Some s' \<Longrightarrow> con_eq s s'" for i s s'
    unfolding scroll_row_def
    by (erule foldM_con_eq [rotated]) (auto split: Option.bind_splits dest: put_cell.frame)
  have "con_eq s t" using t(1) by (rule foldM_con_eq [rotated]) (rule row)
  moreover have "con_eq t s'" using t(2) by (rule foldM_con_eq [rotated]) (rule put_cell.frame)
  ultimately show "con_eq s s'" by (rule con_eq_trans)
qed

lemmas con_frames = put_cell.frame setX.frame setY.frame set_cursor.frame update_cursor.frame
  scroll.frame

lemma console_opI: "(\<And>s. cop id s (f s)) \<Longrightarrow> console_op f"
  by unfold_locales (simp add: cop_def)

lemmas cop_ops = put_cell.cop setX.cop setY.cop set_cursor.cop update_cursor.cop scroll.cop

interpretation putc_backspace: console_op putc_backspace
  unfolding putc_backspace_def Let_def
  by (rule console_opI cop_if cop_Some | (rule cop_bind [where g = id], rule cop_ops, (simp; fail))
    | rule cop_value | (simp; fail))+

interpretation putc: console_op "putc c" for c
  unfolding putc_def Let_def
  by (rule console_opI cop_if cop_Some cop_case3 putc_backspace.cop
    | (rule cop_bind [where g = id], rule cop_ops, (simp; fail))
    | (rule cop_bind [where g = third], (unfold third_def)?)
    | rule cop_value | (simp; fail))+

interpretation keyboardputc: console_op "keyboardputc c" for c
  unfolding keyboardputc_def Let_def
  by (rule console_opI cop_if cop_Some | (rule cop_bind [where g = id], rule putc.cop, (simp; fail))
    | rule cop_value | (simp; fail))+

interpretation clear_help: console_op clear_help
  unfolding clear_help_def
  by (rule console_opI cop_Some update_cursor.cop
    | (rule cop_bind [where g = id], rule cop_ops, (simp; fail)) | (simp; fail))+

lemma foldM_cop:
  assumes "\<And>x s s'. x \<in> set xs \<Longrightarrow> f x s = Some s' \<Longrightarrow> con_eq s s'" "con_eq s0 s"
  shows "cop id s0 (foldM f xs s)"
  using foldM_con_eq [of xs f s] assms con_eq_trans by (auto simp: cop_def)

interpretation clear: console_op clear
  unfolding clear_def Let_def
  by (rule console_opI cop_Some
    | (rule cop_bind [where g = id], rule foldM_cop, erule put_cell.frame)
    | (rule cop_bind [where g = id], rule cop_ops, (simp; fail))
    | (simp; fail))+

interpretation redraw_line: console_op redraw_line
  unfolding redraw_line_def
  by (rule console_opI, rule foldM_cop)
    (auto split: Option.bind_splits if_splits dest: keyboardputc.frame)


section \<open>The line being typed\<close>

definition zeros :: "nat \<Rightarrow> u8 list" where
  "zeros n = replicate n 0"

definition with_line :: "u8 list \<Rightarrow> kernel \<Rightarrow> kernel" where
  "with_line l s = s\<lparr>keyboard_buf := l @ zeros (128 - length l), buf_idx := length l\<rparr>"

text \<open>The sizes of the driver's arrays; the flags kept per terminal are those of the start.\<close>

definition keyboard_shape :: "kernel \<Rightarrow> bool" where
  "keyboard_shape s \<longleftrightarrow> length (keyboard_buf1 s) = 128 \<and> length (keyboard_buf2 s) = 128
     \<and> length (keyboard_buf3 s) = 128 \<and> length (ctrl_info s) = 2 \<and> length (enter_flag s) = 3
     \<and> keyboard_flags s = replicate 3 boot_flags \<and> currentTerminal s \<in> {1, 2, 3}
     \<and> curr_term s \<in> {1, 2, 3}"

definition editing :: "kernel \<Rightarrow> u8 list \<Rightarrow> bool" where
  "editing s l \<longleftrightarrow> length l \<le> 128 \<and> 8 \<notin> set l \<and> buf_idx s = length l
     \<and> keyboard_buf s = l @ zeros (128 - length l) \<and> keyboard_shape s"

lemma zeros_simps [simp]: "length (zeros n) = n" "zeros 0 = []" "zeros (Suc n) = 0 # zeros n"
  "map (\<lambda>x. 0) xs = zeros (length xs)" "i < n \<Longrightarrow> zeros n ! i = 0"
  by (simp_all add: zeros_def map_replicate_const)

lemma with_line_simps [simp]:
  "keyboard_buf (with_line l s) = l @ zeros (128 - length l)" "buf_idx (with_line l s) = length l"
  "keyboard_buf1 (with_line l s) = keyboard_buf1 s" "keyboard_buf2 (with_line l s) = keyboard_buf2 s"
  "keyboard_buf3 (with_line l s) = keyboard_buf3 s" "ctrl_info (with_line l s) = ctrl_info s"
  "enter_flag (with_line l s) = enter_flag s" "keyboard_flags (with_line l s) = keyboard_flags s"
  "currentTerminal (with_line l s) = currentTerminal s" "term_buf (with_line l s) = term_buf s"
  "recentTermChoice (with_line l s) = recentTermChoice s" "visible (with_line l s) = visible s"
  "termReadFlag (with_line l s) = termReadFlag s"
  "terminal_switch_array (with_line l s) = terminal_switch_array s"
  "capslock_flag (with_line l s) = capslock_flag s" "capital_flag (with_line l s) = capital_flag s"
  "with_line l (with_line l' s) = with_line l s"
  by (simp_all add: with_line_def visible_def)

lemma editing_with_line: "editing s l \<Longrightarrow> with_line l s = s"
  by (simp add: editing_def with_line_def)

lemma editing_line [simp]:
  "editing s l \<Longrightarrow> length l' \<le> 128 \<Longrightarrow> 8 \<notin> set l' \<Longrightarrow> editing (with_line l' s) l'"
  by (simp add: editing_def keyboard_shape_def)

lemma con_eq_shape: "con_eq s s' \<Longrightarrow> keyboard_shape s' = keyboard_shape s"
  by (simp add: keyboard_shape_def con_eq_fields)

lemma con_eq_editing: "con_eq s s' \<Longrightarrow> editing s' l = editing s l"
  by (simp add: editing_def con_eq_fields con_eq_shape)

lemma irq_done_blank [simp]:
  "con_eq s (irq_done s') = con_eq s s'" "con_eq (irq_done s) s' = con_eq s s'"
  by (simp_all add: irq_done_def send_eoi_def con_eq_def con_blank_def outb_def sti_def)

lemma cli_left [simp]: "con_eq (cli s) s' = con_eq s s'"
  by (simp add: con_eq_def)

text \<open>Updates of the driver's own variables commute with the console frame.\<close>

lemma con_blank_own:
  "con_blank (s\<lparr>buf_idx := n\<rparr>) = (con_blank s)\<lparr>buf_idx := n\<rparr>"
  "con_blank (s\<lparr>keyboard_buf := b\<rparr>) = (con_blank s)\<lparr>keyboard_buf := b\<rparr>"
  "con_blank (s\<lparr>ctrl_info := c\<rparr>) = (con_blank s)\<lparr>ctrl_info := c\<rparr>"
  "con_blank (s\<lparr>term_buf := b\<rparr>) = (con_blank s)\<lparr>term_buf := b\<rparr>"
  "con_blank (s\<lparr>enter_flag := e\<rparr>) = (con_blank s)\<lparr>enter_flag := e\<rparr>"
  "con_blank (s\<lparr>keyboard_buf1 := b\<rparr>) = (con_blank s)\<lparr>keyboard_buf1 := b\<rparr>"
  "con_blank (s\<lparr>keyboard_buf2 := b\<rparr>) = (con_blank s)\<lparr>keyboard_buf2 := b\<rparr>"
  "con_blank (s\<lparr>keyboard_buf3 := b\<rparr>) = (con_blank s)\<lparr>keyboard_buf3 := b\<rparr>"
  by (simp_all add: con_blank_def)

lemma con_eq_own:
  assumes "con_eq s s'"
  shows "con_eq (s\<lparr>buf_idx := n\<rparr>) (s'\<lparr>buf_idx := n\<rparr>)"
    "con_eq (s\<lparr>keyboard_buf := b\<rparr>) (s'\<lparr>keyboard_buf := b\<rparr>)"
    "con_eq (s\<lparr>ctrl_info := c\<rparr>) (s'\<lparr>ctrl_info := c\<rparr>)"
    "con_eq (s\<lparr>term_buf := b\<rparr>) (s'\<lparr>term_buf := b\<rparr>)"
    "con_eq (s\<lparr>enter_flag := e\<rparr>) (s'\<lparr>enter_flag := e\<rparr>)"
    "con_eq (s\<lparr>keyboard_buf1 := b\<rparr>) (s'\<lparr>keyboard_buf1 := b\<rparr>)"
    "con_eq (s\<lparr>keyboard_buf2 := b\<rparr>) (s'\<lparr>keyboard_buf2 := b\<rparr>)"
    "con_eq (s\<lparr>keyboard_buf3 := b\<rparr>) (s'\<lparr>keyboard_buf3 := b\<rparr>)"
  using assms by (simp_all add: con_eq_def con_blank_own)

section \<open>Typing and erasing\<close>

text \<open>The step a printable key, the space bar and each space of a tab share.\<close>

definition type_char :: "u8 \<Rightarrow> kernel \<Rightarrow> kernel option" where
  "type_char c s = do {
     s \<leftarrow> put_buf c s;
     s \<leftarrow> keyboardputc c s;
     Some (irq_done (s\<lparr>buf_idx := buf_idx s + 1\<rparr>))
   }"

lemma append_zeros_upd:
  "length l < 128 \<Longrightarrow> (l @ zeros (128 - length l))[length l := c] = (l @ [c]) @ zeros (127 - length l)"
proof -
  assume "length l < 128"
  then have "128 - length l = Suc (127 - length l)" by arith
  then show ?thesis by (simp add: list_update_append)
qed

lemma put_buf_line:
  assumes "editing s l" "length l < 128"
  shows "put_buf c s = Some (s\<lparr>keyboard_buf := (l @ [c]) @ zeros (127 - length l)\<rparr>)"
  using assms by (simp add: put_buf_def editing_def append_zeros_upd del: append_assoc)

lemma put_buf_full: "editing s l \<Longrightarrow> length l = 128 \<Longrightarrow> put_buf c s = None"
  by (simp add: put_buf_def editing_def)

lemma type_char_line:
  assumes "editing s l" "length l < 128" "type_char c s = Some s'"
  shows "con_eq (with_line (l @ [c]) s) s'"
proof -
  let ?b = "(l @ [c]) @ zeros (127 - length l)"
  obtain t where t: "keyboardputc c (s\<lparr>keyboard_buf := ?b\<rparr>) = Some t"
    "s' = irq_done (t\<lparr>buf_idx := buf_idx t + 1\<rparr>)"
    using assms by (auto simp: type_char_def put_buf_line [OF assms(1,2)] split: Option.bind_splits)
  have "con_eq (s\<lparr>keyboard_buf := ?b\<rparr>) t" "buf_idx t = length l"
    using keyboardputc.frame [OF t(1)] keyboardputc.keeps(10) [OF t(1)] assms(1)
    by (simp_all add: editing_def)
  then show ?thesis
    using con_eq_own(1) [of "s\<lparr>keyboard_buf := ?b\<rparr>" t "length l + 1"]
    by (simp add: t(2) with_line_def)
qed

lemma own_swap: "s\<lparr>buf_idx := n, keyboard_buf := b\<rparr> = s\<lparr>keyboard_buf := b, buf_idx := n\<rparr>"
  by simp

lemma backspace_line:
  assumes "editing s l" "l \<noteq> []" "backspace_helper s = Some s'"
  shows "con_eq (with_line (butlast l) s) s'"
proof -
  let ?n = "length l - 1"
  obtain t where t: "keyboardputc 8 (s\<lparr>buf_idx := ?n\<rparr>) = Some t"
    "(put_buf 0 t \<bind> (\<lambda>s. Some (irq_done s))) = Some s'"
    using assms by (auto simp: backspace_helper_def editing_def Let_def split: Option.bind_splits)
  have f: "con_eq (s\<lparr>buf_idx := ?n\<rparr>) t" using keyboardputc.frame [OF t(1)] .
  have b: "keyboard_buf t = butlast l @ [last l] @ zeros (128 - length l)" "buf_idx t = ?n"
    using con_eq_fields(5,10) [OF f] assms(1,2) by (simp_all add: editing_def)
  have "0 < length l" "length l \<le> 128" using assms(1,2) by (simp_all add: editing_def)
  then have "128 - length (butlast l) = Suc (128 - length l)" unfolding length_butlast by arith
  then have "(butlast l @ [last l] @ zeros (128 - length l))[?n := 0]
      = butlast l @ zeros (128 - length (butlast l))"
    by (simp add: list_update_append)
  then have "s' = irq_done (t\<lparr>keyboard_buf := butlast l @ zeros (128 - length (butlast l))\<rparr>)"
    using t(2) assms(1,2) b by (simp add: put_buf_def editing_def aset_def split: if_splits)
  then show ?thesis
    using con_eq_own(2) [OF f, of "butlast l @ zeros (128 - length (butlast l))"]
    by (simp add: with_line_def own_swap)
qed


section \<open>Sending the line\<close>

definition clear_copy :: "nat \<Rightarrow> kernel \<Rightarrow> kernel" where
  "clear_copy t s = (if t = 1 then s\<lparr>keyboard_buf1 := zeros 128\<rparr>
     else if t = 2 then s\<lparr>keyboard_buf2 := zeros 128\<rparr>
     else if t = 3 then s\<lparr>keyboard_buf3 := zeros 128\<rparr> else s)"

definition sent :: "u8 list \<Rightarrow> kernel \<Rightarrow> kernel" where
  "sent l s = clear_copy (curr_term s) (with_line []
     (s\<lparr>ctrl_info := (ctrl_info s)[1 := 0], enter_flag := (enter_flag s)[visible s := 1],
        term_buf := l @ 0x0A # zeros (127 - length l)\<rparr>))"

lemma buffer_clear_term_eq:
  assumes "keyboard_shape s" "t \<in> {1, 2, 3}"
  shows "buffer_clear_term t s = (if curr_term s = t
    then do { s \<leftarrow> put_buf 0x0A s; keyboardputc 0x0A s } else Some s)"
proof -
  have "keyboard_flags s ! (t - 1) = boot_flags" "t - 1 < 3"
    using assms by (auto simp: keyboard_shape_def)
  then show ?thesis
    using assms(1) by (simp add: buffer_clear_term_def keyboard_shape_def boot_flags_def)
qed

lemma with_line_con_eq: "con_eq s s' \<Longrightarrow> con_eq (with_line l s) (with_line l s')"
  using con_eq_own(1) [OF con_eq_own(2)] by (simp add: with_line_def)

lemma clear_copy_con_eq: "con_eq s s' \<Longrightarrow> con_eq (clear_copy t s) (clear_copy t s')"
  by (simp add: clear_copy_def con_eq_own)

text \<open>Exactly the copy of the terminal on display prints the new line, at the index after it.\<close>

lemma buffer_clear_eq:
  assumes "keyboard_shape s" "length (keyboard_buf s) = 128"
  shows "buffer_clear s = do {
    s \<leftarrow> put_buf 0x0A s;
    s \<leftarrow> keyboardputc 0x0A s;
    Some (clear_copy (curr_term s) (with_line [] s)) }"
proof -
  let ?out = "do { s \<leftarrow> put_buf 0x0A s; keyboardputc 0x0A s }"
  have out: "keyboard_shape s' \<and> length (keyboard_buf s') = 128 \<and> curr_term s' = curr_term s"
    if "?out = Some s'" for s'
  proof -
    obtain b where "aset (keyboard_buf s) (buf_idx s) 0x0A = Some b"
      "keyboardputc 0x0A (s\<lparr>keyboard_buf := b\<rparr>) = Some s'"
      using \<open>?out = Some s'\<close> by (auto simp: put_buf_def split: Option.bind_splits)
    then have "con_eq (s\<lparr>keyboard_buf := b\<rparr>) s'" "length b = 128"
      using keyboardputc.frame aset_length assms(2) by fastforce+
    then show ?thesis
      using con_eq_shape [of "s\<lparr>keyboard_buf := b\<rparr>" s'] con_eq_fields(5,13) [of "s\<lparr>keyboard_buf := b\<rparr>" s']
        assms(1) by (simp add: keyboard_shape_def)
  qed
  have clr: "zeroes (keyboard_buf s') = zeros 128" "zeroes (keyboard_buf1 s') = zeros 128"
    "zeroes (keyboard_buf2 s') = zeros 128" "zeroes (keyboard_buf3 s') = zeros 128"
    if "?out = Some s'" for s'
    using out [OF that] by (simp_all add: zeroes_def keyboard_shape_def)
  have "curr_term s = 1 \<or> curr_term s = 2 \<or> curr_term s = 3"
    using assms(1) by (auto simp: keyboard_shape_def)
  then have "buffer_clear s = do { s \<leftarrow> ?out;
      let s = s\<lparr>buf_idx := 0\<rparr>;
      let s = s\<lparr>keyboard_buf := zeroes (keyboard_buf s)\<rparr>;
      Some (if curr_term s = 1 then s\<lparr>keyboard_buf1 := zeroes (keyboard_buf1 s)\<rparr>
           else if curr_term s = 2 then s\<lparr>keyboard_buf2 := zeroes (keyboard_buf2 s)\<rparr>
           else if curr_term s = 3 then s\<lparr>keyboard_buf3 := zeroes (keyboard_buf3 s)\<rparr>
           else s) }"
    using out
    by (elim disjE; cases ?out)
      (simp_all add: buffer_clear_def buffer_clear_term_eq [OF assms(1)] buffer_clear_term_eq)
  also have "\<dots> = do { s \<leftarrow> ?out; Some (clear_copy (curr_term s) (with_line [] s)) }"
    using clr by (cases ?out) (simp_all add: clear_copy_def with_line_def)
  finally show ?thesis by simp
qed

text \<open>The state \<open>enter_helper\<close> hands to \<open>buffer_clear\<close>.\<close>

definition entered :: "u8 list \<Rightarrow> kernel \<Rightarrow> kernel" where
  "entered l s = s\<lparr>ctrl_info := (ctrl_info s)[1 := 0],
     keyboard_buf := l @ 0x0A # zeros (127 - length l), buf_idx := length l + 1,
     enter_flag := (enter_flag s)[visible s := 1], term_buf := l @ 0x0A # zeros (127 - length l)\<rparr>"

lemma editing_visible: "editing s l \<Longrightarrow> visible s < 3"
  by (auto simp: editing_def keyboard_shape_def visible_def)

lemma visible_own [simp]:
  "visible (s\<lparr>buf_idx := n\<rparr>) = visible s" "visible (s\<lparr>keyboard_buf := b\<rparr>) = visible s"
  "visible (s\<lparr>ctrl_info := c\<rparr>) = visible s" "visible (s\<lparr>term_buf := b\<rparr>) = visible s"
  "visible (s\<lparr>enter_flag := e\<rparr>) = visible s"
  by (simp_all add: visible_def)

lemma enter_tail:
  assumes "editing s l" "length l < 128"
  shows "(let s = set_ctrl 1 0 s in do {
     s \<leftarrow> put_buf 0x0A s;
     let s = s\<lparr>buf_idx := buf_idx s + 1\<rparr>;
     fl \<leftarrow> aset (enter_flag s) (visible s) 1;
     let s = s\<lparr>enter_flag := fl\<rparr>;
     let s = s\<lparr>term_buf := keyboard_buf s\<rparr>;
     s \<leftarrow> buffer_clear s;
     Some (irq_done s) }) = do { s \<leftarrow> buffer_clear (entered l s); Some (irq_done s) }"
proof -
  have "editing (set_ctrl 1 0 s) l"
    using assms(1) by (simp add: editing_def keyboard_shape_def set_ctrl_def)
  from put_buf_line [OF this assms(2)]
  have p: "put_buf 0x0A (set_ctrl 1 0 s) = Some (s\<lparr>ctrl_info := (ctrl_info s)[1 := 0],
      keyboard_buf := l @ 0x0A # zeros (127 - length l)\<rparr>)"
    by (simp add: set_ctrl_def)
  have "length (enter_flag s) = 3" using assms(1) by (simp add: editing_def keyboard_shape_def)
  then show ?thesis
    using assms(1) editing_visible [OF assms(1)]
    unfolding Let_def p Option.bind.bind_lunit by (simp add: entered_def editing_def)
qed

lemma entered_con_eq: "con_eq s s' \<Longrightarrow> con_eq (entered l s) (entered l s')"
  by (simp add: entered_def con_eq_own con_eq_fields)

lemma entered_simps:
  "keyboard_buf (entered l s) = l @ 0x0A # zeros (127 - length l)"
  "buf_idx (entered l s) = length l + 1" "recentTermChoice (entered l s) = recentTermChoice s"
  "editing s l \<Longrightarrow> keyboard_shape (entered l s)"
  by (simp_all add: entered_def editing_def keyboard_shape_def)

lemma buffer_clear_entered:
  assumes "editing s l" "length l < 127"
  shows "buffer_clear (entered l s) = do {
    s \<leftarrow> keyboardputc 0x0A ((entered l s)\<lparr>keyboard_buf := l @ 0x0A # 0x0A # zeros (126 - length l)\<rparr>);
    Some (clear_copy (curr_term s) (with_line [] s)) }"
proof -
  have n: "127 - length l = Suc (126 - length l)" using assms(2) by arith
  have "put_buf 0x0A (entered l s)
      = Some ((entered l s)\<lparr>keyboard_buf := l @ 0x0A # 0x0A # zeros (126 - length l)\<rparr>)"
    using assms(2) by (simp add: put_buf_def entered_simps n list_update_append)
  then show ?thesis
    using assms by (simp add: buffer_clear_eq [OF entered_simps(4) [OF assms(1)]] entered_simps)
qed

lemma buffer_clear_overrun:
  assumes "editing s l" "length l = 127"
  shows "buffer_clear (entered l s) = None"
proof -
  have "put_buf 0x0A (entered l s) = None" by (simp add: put_buf_def entered_simps assms(2))
  then show ?thesis
    using assms by (simp add: buffer_clear_eq [OF entered_simps(4) [OF assms(1)]] entered_simps)
qed

definition enter_echo :: "kernel \<Rightarrow> kernel option" where
  "enter_echo s = (if ctrl_info s ! 1 = 1 then keyboardputc 0x0A s else Some s)"

interpretation enter_echo: console_op enter_echo
  by unfold_locales (auto simp: enter_echo_def split: if_splits dest: keyboardputc.frame)

lemma enter_helper_eq:
  assumes "editing s l" "length l < 128"
  shows "enter_helper s = do { s \<leftarrow> enter_echo s; s \<leftarrow> buffer_clear (entered l s); Some (irq_done s) }"
proof (cases "enter_echo s")
  case None
  then show ?thesis
    unfolding enter_helper_def enter_echo_def [symmetric] Option.bind.bind_lzero by simp
next
  case (Some t)
  then have "editing t l" using con_eq_editing [OF enter_echo.frame] assms(1) by blast
  from enter_tail [OF this assms(2)] show ?thesis
    unfolding enter_helper_def enter_echo_def [symmetric] Some Option.bind.bind_lunit Let_def
    by simp
qed

lemma enter_line:
  assumes "editing s l" "length l < 127" "enter_helper s = Some s'"
  shows "con_eq (sent l s) s'"
proof -
  obtain t u where t: "enter_echo s = Some t" "buffer_clear (entered l t) = Some u" "s' = irq_done u"
    using assms by (auto simp: enter_helper_eq split: Option.bind_splits)
  have f: "con_eq s t" using enter_echo.frame [OF t(1)] .
  then have e: "editing t l" using con_eq_editing assms(1) by blast
  let ?m = "(entered l t)\<lparr>keyboard_buf := l @ 0x0A # 0x0A # zeros (126 - length l)\<rparr>"
  obtain v where v: "keyboardputc 0x0A ?m = Some v" "u = clear_copy (curr_term v) (with_line [] v)"
    using t(2) by (auto simp: buffer_clear_entered [OF e assms(2)] split: Option.bind_splits)
  have "con_eq (with_line [] ?m) (with_line [] v)"
    using with_line_con_eq [OF keyboardputc.frame [OF v(1)]] .
  moreover have "with_line [] ?m = with_line [] (entered l t)" by (simp add: with_line_def)
  moreover have "con_eq (with_line [] (entered l s)) (with_line [] (entered l t))"
    using with_line_con_eq [OF entered_con_eq [OF f]] .
  ultimately have "con_eq (with_line [] (entered l s)) (with_line [] v)"
    using con_eq_trans by metis
  moreover have "curr_term v = curr_term s"
    using keyboardputc.keeps(13) [OF v(1)] con_eq_fields(13) [OF f] by (simp add: entered_simps)
  moreover have "sent l s = clear_copy (curr_term s) (with_line [] (entered l s))"
    by (simp add: sent_def entered_def with_line_def)
  ultimately show ?thesis using clear_copy_con_eq by (simp add: t(3) v(2))
qed

end
