(* ===== verification/LineEditor.thy ===== *)
theory LineEditor
  imports KeyboardLine ConsoleProps
begin

text \<open>
  The keyboard driver refines a line editor: a state is the line typed so far, a key inserts,
  erases, fills or sends. \<open>key_of\<close> reads the scancode with the modifiers of the moment, \<open>edit\<close> is
  the editor; the properties relate \<open>keyboard_handler\<close> to it, and say when the driver faults.
\<close>

section \<open>Keys\<close>

datatype line_key = Char u8 | Space | Tab | Erase | Send | Quiet

definition scan_table :: "kernel \<Rightarrow> u8 list" where
  "scan_table s =
     (if capslock_flag s = 1 \<and> capital_flag s = 0 then scan_code_one_caps
      else if capital_flag s = 1 \<and> capslock_flag s = 0 then scan_code_one_shift
      else if capital_flag s = 1 \<and> capslock_flag s = 1 then scan_code_one_shift_caps
      else scan_code_one)"

definition modifier_keys :: "u8 list" where
  "modifier_keys = [0x1D, 0x9D, 0x3A, 0x2A, 0xAA, 0x36, 0xB6, 0x38, 0xB8, 0xBB, 0xBC, 0xBD]"

definition key_of :: "u8 \<Rightarrow> kernel \<Rightarrow> line_key" where
  "key_of k s =
     (if k = 0x1C then Send else if k = 0x0E then Erase else if k = 0x39 then Space
      else if k = 0x0F then Tab
      else if k \<in> set modifier_keys \<or> (ctrl_info s ! 0 = 1 \<and> k = 0x26) \<or> unat k > 54 then Quiet
      else Char (scan_table s ! unat k))"

fun edit :: "line_key \<Rightarrow> u8 list \<Rightarrow> u8 list" where
  "edit (Char c) l = (if length l \<ge> 127 then l else l @ [c])"
| "edit Space l = l @ [32]"
| "edit Tab l = l @ replicate (min 4 (127 - length l)) 32"
| "edit Erase l = butlast l"
| "edit Send l = []"
| "edit Quiet l = l"

lemma scan_table_length [simp]: "length (scan_table s) = 54"
  by (simp add: scan_table_def scan_code_one_def scan_code_one_shift_def scan_code_one_caps_def
      scan_code_one_shift_caps_def bytes_def)

lemma scan_tables_backspace:
  "list_all (\<lambda>t. list_all (\<lambda>i. i = 14 \<or> t ! i \<noteq> 8) [0..<54])
     [scan_code_one, scan_code_one_shift, scan_code_one_caps, scan_code_one_shift_caps]"
  by code_simp

lemma unat_word_eq: "unat (k :: u8) = n \<Longrightarrow> k = of_nat n"
  by auto

lemma scan_table_not_backspace: "i < 54 \<Longrightarrow> i \<noteq> 14 \<Longrightarrow> scan_table s ! i \<noteq> 8"
  using scan_tables_backspace by (auto simp: scan_table_def list_all_iff)

lemma scancode_helper_eq:
  "scancode_helper k s = (if unat k > 54 then Some None else map_option Some (aget (scan_table s) (unat k)))"
proof -
  have "length scan_code_one = 54" by (simp add: scan_code_one_def bytes_def)
  then show ?thesis by (simp add: scancode_helper_def scan_table_def Let_def)
qed

section \<open>What a key changes\<close>

definition undelivered :: "kernel \<Rightarrow> kernel \<Rightarrow> bool" where
  "undelivered s s' \<longleftrightarrow> term_buf s' = term_buf s \<and> enter_flag s' = enter_flag s"

lemma line_result:
  assumes "editing s l" "con_eq (with_line l' s) s'" "length l' \<le> 128" "8 \<notin> set l'"
  shows "editing s' l'" "undelivered s s'" "scan_table s' = scan_table s" "ctrl_info s' = ctrl_info s"
  using con_eq_fields [OF assms(2)] con_eq_editing [OF assms(2), of l'] assms(1,3,4)
  by (simp_all add: undelivered_def scan_table_def)

lemma editing_own [simp]:
  "editing (irq_done s) l = editing s l" "editing (cli s) l = editing s l"
  "editing (s\<lparr>alt_info := i\<rparr>) l = editing s l" "editing (s\<lparr>capital_flag := c\<rparr>) l = editing s l"
  "editing (s\<lparr>capslock_flag := c\<rparr>) l = editing s l" "editing (s\<lparr>f1_info := i\<rparr>) l = editing s l"
  "editing (s\<lparr>f2_info := i\<rparr>) l = editing s l" "editing (s\<lparr>f3_info := i\<rparr>) l = editing s l"
  "editing (set_ctrl j v s) l = editing s l"
  using con_eq_editing [of s "irq_done s" l] con_eq_editing [of s "cli s" l]
  by (simp_all add: editing_def keyboard_shape_def set_ctrl_def)

lemma undelivered_own [simp]:
  "undelivered s (irq_done s') = undelivered s s'" "undelivered (cli s) s' = undelivered s s'"
  "undelivered s (cli s') = undelivered s s'" "undelivered s s"
  "undelivered s (s'\<lparr>alt_info := i\<rparr>) = undelivered s s'"
  "undelivered s (s'\<lparr>capital_flag := c\<rparr>) = undelivered s s'"
  "undelivered s (s'\<lparr>capslock_flag := c\<rparr>) = undelivered s s'"
  "undelivered s (s'\<lparr>f1_info := i\<rparr>) = undelivered s s'"
  "undelivered s (s'\<lparr>f2_info := i\<rparr>) = undelivered s s'"
  "undelivered s (s'\<lparr>f3_info := i\<rparr>) = undelivered s s'"
  "undelivered s (set_ctrl j v s') = undelivered s s'"
  by (simp_all add: undelivered_def irq_done_def send_eoi_def outb_def sti_def cli_def set_ctrl_def)

lemmas quiet_helpers = control_helper_def capslock_helper_def shift_helper_def alt_helper_def

lemma space_is_type_char: "space_helper s = type_char 0x20 s"
  by (simp add: space_helper_def type_char_def)

lemma tab_line:
  assumes "editing s l" "tab_loop n s = Some s'"
  shows "con_eq (with_line (l @ replicate (min n (127 - length l)) 32) s) s'"
  using assms
proof (induction n arbitrary: s l)
  case 0
  then show ?case by (simp add: editing_with_line) (auto simp: editing_with_line)
next
  case (Suc n)
  have b: "buf_idx s = length l" using Suc.prems(1) by (simp add: editing_def)
  show ?case
  proof (cases "127 \<le> length l")
    case True
    then have "s' = irq_done s" using Suc.prems(2) b by (simp add: BUFSIZE_def)
    then show ?thesis using True editing_with_line [OF Suc.prems(1)] by simp
  next
    case False
    then obtain t where t: "type_char 0x20 s = Some t" "tab_loop n t = Some s'"
      using Suc.prems(2) b by (auto simp: BUFSIZE_def space_is_type_char split: Option.bind_splits)
    have c: "con_eq (with_line (l @ [32]) s) t"
      using type_char_line [OF Suc.prems(1) _ t(1)] False by simp
    then have e: "editing t (l @ [32])"
      using line_result(1) [OF Suc.prems(1) c] False Suc.prems(1) by (simp add: editing_def)
    have "127 - length l = Suc (126 - length l)" using False by arith
    then have r: "(l @ [32]) @ replicate (min n (127 - length (l @ [32]))) 32
        = l @ replicate (min (Suc n) (127 - length l)) (32 :: u8)"
      by simp
    show ?thesis
      using con_eq_trans [OF with_line_con_eq [OF c] Suc.IH [OF e t(2)]] unfolding r by simp
  qed
qed

lemma redraw_screen:
  assumes "editing s l" "do { s \<leftarrow> clear s; s \<leftarrow> redraw_line s; clear_help s } = Some t"
  shows "con_eq s t"
proof -
  obtain u v where "clear s = Some u" "redraw_line u = Some v" "clear_help v = Some t"
    using assms(2) by (auto split: Option.bind_splits)
  then show ?thesis using clear.frame redraw_line.frame clear_help.frame con_eq_trans by blast
qed

lemma key_default_line:
  assumes e: "editing s l" and h: "key_default k s = Some s'" and k: "k \<noteq> 0x0E"
  shows "editing s' (if (ctrl_info s ! 0 = 1 \<and> k = 0x26) \<or> unat k > 54 then l
      else edit (Char (scan_table s ! unat k)) l) \<and> undelivered s s'"
proof (cases "ctrl_info s ! 0 = 1 \<and> k = 0x26")
  case True
  then obtain t where "con_eq s t" "s' = irq_done (set_ctrl 1 0x26 t)"
    using h redraw_screen [OF e] by (auto simp: key_default_def split: Option.bind_splits)
  then show ?thesis
    using True e con_eq_editing [of s t l] con_eq_fields(15,17) [of s t] by (simp add: undelivered_def)
      (simp add: irq_done_def send_eoi_def outb_def sti_def set_ctrl_def)
next
  case False
  have b: "buf_idx s = length l" using e by (simp add: editing_def)
  show ?thesis
  proof (cases "127 \<le> length l \<or> unat k > 54")
    case True
    then have "s' = irq_done s"
      using False h b by (auto simp: key_default_def BUFSIZE_def scancode_helper_eq split: if_splits)
    then show ?thesis using True e by auto
  next
    case f: False
    let ?c = "scan_table s ! unat k"
    have "unat k < 54" "type_char ?c s = Some s'"
      using False h b f
      by (cases "unat k = 54"; simp add: key_default_def BUFSIZE_def scancode_helper_eq type_char_def; fail)+
    moreover have "unat k \<noteq> 14"
      using k unat_word_eq [of k 14] by auto
    ultimately show ?thesis
      using line_result(1,2) [OF e type_char_line [OF e]] f e False scan_table_not_backspace [of "unat k" s]
      by (auto simp: editing_def)
  qed
qed

lemma f_release_line:
  "editing s l \<Longrightarrow> f_helper 0 n s = Some s' \<Longrightarrow> editing s' l \<and> undelivered s s'"
  by (auto simp: f_helper_def split: if_splits)

lemma modifier_line:
  assumes "editing s l" "k \<in> set modifier_keys" "keyboard_handler k s = Some s'"
  shows "editing s' l \<and> undelivered s s'"
proof -
  let ?s = "cli s"
  have e: "editing ?s l" using assms(1) by simp
  have "k = 0x1D \<or> k = 0x9D \<or> k = 0x3A \<or> k = 0x2A \<or> k = 0xAA \<or> k = 0x36 \<or> k = 0xB6
      \<or> k = 0x38 \<or> k = 0xB8 \<or> k = 0xBB \<or> k = 0xBC \<or> k = 0xBD"
    using assms(2) by (simp add: modifier_keys_def)
  then show ?thesis
    using assms(3) e
    by (elim disjE) (auto simp: keyboard_handler_def quiet_helpers f_helper_def Let_def split: if_splits)
qed

lemma sent_fields:
  assumes "editing s l" "length l < 127" "con_eq (sent l s) s'"
  shows "editing s' []" "term_buf s' = l @ 0x0A # zeros (127 - length l)"
    "enter_flag s' = (enter_flag s)[visible s := 1]"
    "scheduled_term s' = scheduled_term s" "termReadFlag s' = termReadFlag s"
proof -
  have "editing (sent l s) []"
    using assms(1)
    by (auto simp: sent_def clear_copy_def editing_def keyboard_shape_def with_line_def)
  then show "editing s' []" using con_eq_editing [OF assms(3)] by simp
  have "term_buf (sent l s) = l @ 0x0A # zeros (127 - length l)"
    "enter_flag (sent l s) = (enter_flag s)[visible s := 1]"
    "scheduled_term (sent l s) = scheduled_term s" "termReadFlag (sent l s) = termReadFlag s"
    by (simp_all add: sent_def clear_copy_def with_line_def)
  then show "term_buf s' = l @ 0x0A # zeros (127 - length l)"
    "enter_flag s' = (enter_flag s)[visible s := 1]"
    "scheduled_term s' = scheduled_term s" "termReadFlag s' = termReadFlag s"
    using con_eq_fields(15,16,17,19) [OF assms(3)] by simp_all
qed

lemma enter_long_line: "editing s l \<Longrightarrow> 127 \<le> length l \<Longrightarrow> enter_helper s = None"
proof (cases "length l = 127")
  case True
  assume e: "editing s l"
  have "enter_echo s = Some t \<Longrightarrow> buffer_clear (entered l t) = None" for t
    using buffer_clear_overrun [of t l] con_eq_editing [OF enter_echo.frame] e True by blast
  then show ?thesis
    using enter_helper_eq [OF e] True by (cases "enter_echo s") simp_all
next
  case False
  assume e: "editing s l" and "127 \<le> length l"
  then have l: "length l = 128" using False by (simp add: editing_def)
  have p: "put_buf 0x0A (set_ctrl 1 0 t) = None" if "enter_echo s = Some t" for t
    using put_buf_full [of "set_ctrl 1 0 t" l] con_eq_editing [OF enter_echo.frame [OF that]] e l
    by simp
  show ?thesis
    unfolding enter_helper_def enter_echo_def [symmetric] Let_def
    by (cases "enter_echo s") (simp_all add: p [unfolded One_nat_def])
qed

section \<open>No key faults\<close>

lemma console_ok_own [simp]:
  "console_ok (irq_done s) = console_ok s" "console_ok (cli s) = console_ok s"
  "console_ok (s\<lparr>buf_idx := n\<rparr>) = console_ok s" "console_ok (s\<lparr>keyboard_buf := b\<rparr>) = console_ok s"
  "console_ok (s\<lparr>alt_info := i\<rparr>) = console_ok s" "console_ok (s\<lparr>capital_flag := c\<rparr>) = console_ok s"
  "console_ok (s\<lparr>capslock_flag := c\<rparr>) = console_ok s" "console_ok (s\<lparr>f1_info := i\<rparr>) = console_ok s"
  "console_ok (s\<lparr>f2_info := i\<rparr>) = console_ok s" "console_ok (s\<lparr>f3_info := i\<rparr>) = console_ok s"
  "console_ok (set_ctrl j v s) = console_ok s" "console_ok (entered l s) = console_ok s"
  "console_ok (with_line l s) = console_ok s" "console_ok (clear_copy t s) = console_ok s"
  by (simp_all add: console_ok_def irq_done_def send_eoi_def outb_def sti_def cli_def set_ctrl_def
      entered_def with_line_def clear_copy_def)

lemma keyboardputc_total:
  assumes "console_ok s" "c \<noteq> 8"
  obtains s' where "keyboardputc c s = Some s'" "console_ok s'"
proof (cases "termReadFlag s ! visible s = 1")
  case True
  note D = console_okD [OF assms(1)]
  obtain x y p where e: "emit c (termScreenx s ! visible s, termScreeny s ! visible s, vram s 184) = (x, y, p)"
    by (metis prod_cases3)
  have "cursor_ok x y" using emit_cursor_ok e D(8) [OF D(2)] by blast
  then have "console_ok (echo_result c s)"
    using console_ok_upd [OF assms(1) _ D(2), of x y]
    by (simp add: echo_result_def e Let_def console_ok_def)
  then show ?thesis using that keyboardputc_correct [OF assms True] by blast
next
  case False
  then show ?thesis using that [of s] console_okD(2,6) assms(1) by (simp add: keyboardputc_def)
qed

lemma type_char_total:
  assumes "editing s l" "console_ok s" "length l < 128" "c \<noteq> 8"
  obtains s' where "type_char c s = Some s'" "console_ok s'"
proof -
  let ?s = "s\<lparr>keyboard_buf := (l @ [c]) @ zeros (127 - length l)\<rparr>"
  have "console_ok ?s" using assms(2) by simp
  then obtain t where "keyboardputc c ?s = Some t" "console_ok t"
    using keyboardputc_total assms(4) by blast
  then show ?thesis
    using that by (simp add: type_char_def put_buf_line [OF assms(1,3)])
qed

lemma tab_total: "editing s l \<Longrightarrow> console_ok s \<Longrightarrow> \<exists>s'. tab_loop n s = Some s' \<and> console_ok s'"
proof (induction n arbitrary: s l)
  case (Suc n)
  show ?case
  proof (cases "127 \<le> length l")
    case True
    then show ?thesis using Suc.prems by (simp add: editing_def BUFSIZE_def)
  next
    case False
    obtain t where t: "type_char 0x20 s = Some t" "console_ok t"
      using type_char_total [OF Suc.prems, of "0x20"] False by auto
    have "con_eq (with_line (l @ [0x20]) s) t"
      using type_char_line [OF Suc.prems(1) _ t(1)] False by simp
    then have "editing t (l @ [0x20])"
      using line_result(1) [OF Suc.prems(1)] False Suc.prems(1) by (simp add: editing_def)
    then show ?thesis
      using Suc.IH [OF _ t(2)] t(1) False Suc.prems(1)
      by (simp add: space_is_type_char BUFSIZE_def editing_def [of s])
  qed
qed simp

lemma enter_total:
  assumes "editing s l" "console_ok s" "length l < 127"
  obtains s' where "enter_helper s = Some s'" "console_ok s'"
proof -
  obtain v where "keyboardputc 0x0A s = Some v" "console_ok v"
    by (rule keyboardputc_total [OF assms(2), of "0x0A"]) simp
  then have "\<exists>t. enter_echo s = Some t \<and> console_ok t"
    using assms(2) by (simp add: enter_echo_def)
  then obtain t where t: "enter_echo s = Some t" "console_ok t" by blast
  then have e: "editing t l" using con_eq_editing enter_echo.frame assms(1) by blast
  have "console_ok ((entered l t)\<lparr>keyboard_buf := l @ 0x0A # 0x0A # zeros (126 - length l)\<rparr>)"
    using t(2) by simp
  then obtain u where "keyboardputc 0x0A ((entered l t)\<lparr>keyboard_buf := l @ 0x0A # 0x0A # zeros (126 - length l)\<rparr>)
      = Some u" "console_ok u"
    by (rule keyboardputc_total [of _ "0x0A"]) auto
  then show ?thesis
    using that t e assms(3)
    by (simp add: enter_helper_eq [OF assms(1)] buffer_clear_entered)
qed

lemma redraw_total:
  assumes "editing s l" "console_ok s"
  shows "\<exists>s'. redraw_line s = Some s' \<and> console_ok s'"
proof -
  have nb: "(l @ zeros (128 - length l)) ! i \<noteq> 8" if "i < 128" for i
    using assms(1) that by (auto simp: editing_def nth_append dest: nth_mem)
  have "\<exists>s'. redraw_line s = Some s' \<and> (console_ok s' \<and> editing s' l)"
    unfolding redraw_line_def
  proof (rule foldM_invariant)
    fix i t assume i: "i \<in> set [0..<BUFSIZE]" and t: "console_ok t \<and> editing t l"
    let ?c = "keyboard_buf t ! i"
    have "?c \<noteq> 8" "i < length (keyboard_buf t)"
      using nb i t by (simp_all add: editing_def BUFSIZE_def)
    moreover obtain u where u: "keyboardputc ?c t = Some u" "console_ok u"
      using keyboardputc_total t calculation(1) by blast
    moreover have "editing u l" using con_eq_editing [OF keyboardputc.frame [OF u(1)]] t by blast
    ultimately show "\<exists>s'. (aget (keyboard_buf t) i \<bind> (\<lambda>c. if c \<noteq> 0 then keyboardputc c t else Some t)) = Some s'
        \<and> (console_ok s' \<and> editing s' l)"
      using t by auto
  qed (use assms in simp)
  then show ?thesis by blast
qed

lemma clear_help_total:
  assumes "editing s l" "console_ok s" "length l < 80"
  shows "\<exists>s'. clear_help s = Some s' \<and> console_ok s'"
proof -
  note D = console_okD [OF assms(2)]
  have b: "buf_idx s = length l" using assms(1) by (simp add: editing_def)
  have "clear_help s = Some (s\<lparr>termScreenx := (termScreenx s)[visible s := int (length l)],
      termScreeny := (termScreeny s)[visible s := 0],
      outs := outs s @ cursor_writes (int (length l)) 0\<rparr>)"
    using D(2,4,5) b by (simp add: clear_help_def setScreenX_def setScreenY_def update_cursor_eq)
  moreover have "cursor_ok (int (length l)) 0" using assms(3) by (simp add: cursor_ok_def)
  ultimately show ?thesis
    using console_ok_upd [OF assms(2) _ D(2), of "int (length l)" 0] by (simp add: console_ok_def)
qed

lemma clear_total:
  assumes "console_ok s"
  shows "\<exists>s'. clear s = Some s' \<and> console_ok s'"
  using clear_correct [OF assms] console_ok_upd [OF assms _ console_okD(2) [OF assms], of 0 0]
  by (simp add: console_ok_def cursor_ok_def)

lemma key_default_types:
  assumes "\<not> (ctrl_info s ! 0 = 1 \<and> k = 0x26)" "buf_idx s < 127" "unat k < 54"
  shows "key_default k s = type_char (scan_table s ! unat k) s"
  using assms by (auto simp: key_default_def BUFSIZE_def scancode_helper_eq type_char_def)

lemma key_default_total:
  assumes "editing s l" "console_ok s" "k \<noteq> 0x0E" "k \<noteq> 0x36"
    and "ctrl_info s ! 0 = 1 \<and> k = 0x26 \<Longrightarrow> length l < 80"
  shows "\<exists>s'. key_default k s = Some s' \<and> console_ok s'"
proof (cases "ctrl_info s ! 0 = 1 \<and> k = 0x26")
  case True
  obtain a where a: "clear s = Some a" "console_ok a" using clear_total [OF assms(2)] by blast
  have ea: "editing a l" using con_eq_editing [OF clear.frame [OF a(1)]] assms(1) by blast
  obtain b where b: "redraw_line a = Some b" "console_ok b" using redraw_total [OF ea a(2)] by blast
  have "editing b l" using con_eq_editing [OF redraw_line.frame [OF b(1)]] ea by blast
  then obtain c where "clear_help b = Some c" "console_ok c"
    using clear_help_total b(2) assms(5) [OF True] by blast
  then show ?thesis using True a(1) b(1) by (simp add: key_default_def)
next
  case False
  have b: "buf_idx s = length l" using assms(1) by (simp add: editing_def)
  show ?thesis
  proof (cases "127 \<le> length l \<or> unat k > 54")
    case True
    then show ?thesis
      using False b assms(2) by (auto simp: key_default_def BUFSIZE_def scancode_helper_eq)
  next
    case f: False
    have n: "unat k \<noteq> 14" "unat k \<noteq> 54"
      using assms(3,4) unat_word_eq [of k] by force+
    then have "scan_table s ! unat k \<noteq> 8"
      using scan_table_not_backspace f by auto
    moreover have "length l < 128" using f by simp
    ultimately obtain t where "type_char (scan_table s ! unat k) s = Some t" "console_ok t"
      using type_char_total [OF assms(1,2)] by blast
    then show ?thesis
      using key_default_types False f b n by simp
  qed
qed

section \<open>Properties\<close>

text \<open>C12: the keyboard driver refines the line editor. Whatever key comes, other than a terminal
  switch, and whatever line is typed so far, the buffer then holds the edited line, zero
  padded, with its length as index; Enter, and no other key, hands the line with its new line
  to the reader and raises the flag of the terminal on display, and no line it hands over is
  longer than the buffer.\<close>

theorem handler_refines_editor:
  assumes "editing s l" "k \<notin> {0x3B, 0x3C, 0x3D}" "keyboard_handler k s = Some s'"
  shows "editing s' (edit (key_of k s) l)
    \<and> (if k = 0x1C then length l < 127 \<and> term_buf s' = l @ 0x0A # zeros (127 - length l)
          \<and> enter_flag s' = (enter_flag s)[visible s := 1]
        else term_buf s' = term_buf s \<and> enter_flag s' = enter_flag s)"
proof -
  let ?s = "cli s"
  have e: "editing ?s l" using assms(1) by simp
  have l: "length l \<le> 128" "8 \<notin> set l" using assms(1) by (simp_all add: editing_def)
  have f: "scan_table ?s = scan_table s" "ctrl_info ?s = ctrl_info s" "visible ?s = visible s"
    "enter_flag ?s = enter_flag s" "term_buf ?s = term_buf s"
    by (simp_all add: scan_table_def cli_def visible_def)
  note h = assms(3) [unfolded keyboard_handler_def Let_def]
  consider (enter) "k = 0x1C" | (erase) "k = 0x0E" | (space) "k = 0x39" | (tab) "k = 0x0F"
    | (modifier) "k \<in> set modifier_keys"
    | (plain) "k \<notin> set modifier_keys" "k \<noteq> 0x1C" "k \<noteq> 0x0E" "k \<noteq> 0x39" "k \<noteq> 0x0F"
    by blast
  then show ?thesis
  proof cases
    case enter
    then have h: "enter_helper ?s = Some s'" using h by simp
    then have n: "length l < 127" using enter_long_line [OF e] by (cases "length l < 127") simp_all
    then show ?thesis using enter sent_fields [OF e n enter_line [OF e n h]] f by (simp add: key_of_def)
  next
    case erase
    then have h: "backspace_helper ?s = Some s'" using h by simp
    show ?thesis
    proof (cases "l = []")
      case True
      then have "s' = irq_done ?s" using h e by (simp add: backspace_helper_def editing_def)
      then show ?thesis using True e erase undelivered_own(1) [of ?s ?s]
        by (simp add: key_of_def undelivered_def) (simp add: cli_def)
    next
      case False
      then have "con_eq (with_line (butlast l) ?s) s'" using backspace_line e h by blast
      moreover have "8 \<notin> set (butlast l)" using l by (meson in_set_butlastD)
      ultimately show ?thesis
        using line_result(1,2) [OF e, of "butlast l" s'] l erase
        by (simp add: key_of_def undelivered_def cli_def)
    qed
  next
    case space
    then have h: "type_char 0x20 ?s = Some s'" using h by (simp add: space_is_type_char)
    have n: "length l < 128"
      using h put_buf_full [OF e] l by (cases "length l = 128") (simp_all add: type_char_def)
    then show ?thesis
      using line_result(1,2) [OF e type_char_line [OF e n h]] l space
      by (simp add: key_of_def undelivered_def cli_def)
  next
    case tab
    then have h: "tab_loop 4 ?s = Some s'" using h by (simp add: tab_helper_def)
    then show ?thesis
      using line_result(1,2) [OF e tab_line [OF e h]] l tab
      by (simp add: key_of_def undelivered_def cli_def)
  next
    case modifier
    have "editing s' l \<and> undelivered s s'" by (rule modifier_line [OF assms(1) modifier assms(3)])
    then show ?thesis using modifier by (auto simp: key_of_def undelivered_def modifier_keys_def)
  next
    case plain
    then have "key_default k ?s = Some s'"
      using h assms(2) by (simp add: modifier_keys_def split: if_splits)
    then show ?thesis
      using key_default_line [OF e _ plain(3)] plain unfolding f undelivered_def
      by (auto simp: key_of_def)
  qed
qed

lemma ready_editing: "editing ready_state []"
  by (simp add: editing_def keyboard_shape_def zeros_def)
    (simp add: ready_state_def paging_init_def boot_state_def)

theorem handler_refines_editor_witness:
  "\<exists>s'. keyboard_handler 0x1E ready_state = Some s' \<and> editing s' [97]"
proof -
  have t: "scan_table ready_state = scan_code_one" "ctrl_info ready_state = [0, 0]"
    by (simp_all add: scan_table_def ready_state_def paging_init_def boot_state_def)
  have c: "scan_table (cli ready_state) = scan_code_one" "ctrl_info (cli ready_state) = [0, 0]"
      "buf_idx (cli ready_state) = 0"
    by (simp_all add: cli_def scan_table_def ready_state_def paging_init_def boot_state_def)
  have n: "scan_code_one ! 30 = 97" by code_simp
  have "keyboard_handler 0x1E ready_state = key_default 0x1E (cli ready_state)"
    by (simp add: keyboard_handler_def)
  moreover have "key_default 0x1E (cli ready_state) = type_char 97 (cli ready_state)"
    using key_default_types [of "cli ready_state" "0x1E"] by (simp add: c n)
  moreover obtain s' where "type_char 97 (cli ready_state) = Some s'"
    by (rule type_char_total [of "cli ready_state" "[]" "97"])
      (use ready_editing ready_console_ok in auto)
  ultimately have h: "keyboard_handler 0x1E ready_state = Some s'" by simp
  have "key_of 0x1E ready_state = Char 97"
    using t n by (simp add: key_of_def modifier_keys_def)
  then show ?thesis using handler_refines_editor [OF ready_editing _ h] h by auto
qed



definition plain_key :: "u8 \<Rightarrow> bool" where
  "plain_key k \<longleftrightarrow> unat k < 54 \<and> k \<notin> {0x1C, 0x0E, 0x39, 0x0F} \<and> k \<notin> set modifier_keys"

lemma plain_step:
  assumes "editing s l" "console_ok s" "ctrl_info s ! 0 \<noteq> 1" "plain_key k" "length l < 127"
  shows "\<exists>s'. keyboard_handler k s = Some s' \<and> console_ok s' \<and> editing s' (l @ [scan_table s ! unat k])
    \<and> scan_table s' = scan_table s \<and> ctrl_info s' = ctrl_info s \<and> visible s' = visible s
    \<and> enter_flag s' = enter_flag s \<and> scheduled_term s' = scheduled_term s"
proof -
  let ?c = "scan_table s ! unat k" and ?s = "cli s"
  have e: "editing ?s l" and c: "console_ok ?s" using assms(1,2) by simp_all
  have "unat k \<noteq> 14" using assms(4) unat_word_eq [of k 14] by (auto simp: plain_key_def)
  then have nb: "?c \<noteq> 8" using scan_table_not_backspace assms(4) by (simp add: plain_key_def)
  have f: "scan_table ?s = scan_table s" "ctrl_info ?s = ctrl_info s" "visible ?s = visible s"
    "buf_idx ?s = length l" "enter_flag ?s = enter_flag s"
    using assms(1) by (simp_all add: cli_def scan_table_def visible_def editing_def)
  have u: "k \<noteq> of_nat 59" "k \<noteq> of_nat 60" "k \<noteq> of_nat 61" using assms(4) by (auto simp: plain_key_def)
  have "keyboard_handler k s = key_default k ?s"
    using assms(4) u by (simp add: plain_key_def modifier_keys_def keyboard_handler_def)
  also have "\<dots> = type_char ?c ?s"
    using key_default_types [of ?s k] assms(3-5) by (simp add: f plain_key_def)
  finally have h: "keyboard_handler k s = type_char ?c ?s" .
  obtain s' where s': "type_char ?c ?s = Some s'" "console_ok s'"
    by (rule type_char_total [OF e c _ nb]) (use assms(5) in simp)
  have r: "con_eq (with_line (l @ [?c]) ?s) s'" by (rule type_char_line [OF e _ s'(1)]) (use assms(5) in simp)
  have "length (l @ [?c]) \<le> 128" "8 \<notin> set (l @ [?c])"
    using assms(1,5) nb by (simp_all add: editing_def)
  note L = line_result [OF e r this]
  have "visible s' = visible s" "scheduled_term s' = scheduled_term s"
    using con_eq_fields(19,23) [OF r] f by (simp_all add: with_line_def cli_def)
  then show ?thesis using L s' h f by (simp add: undelivered_def)
qed

lemma type_plain:
  assumes "\<forall>k \<in> set ks. plain_key k" "editing s l" "console_ok s" "ctrl_info s ! 0 \<noteq> 1"
    "length l + length ks \<le> 127"
  shows "\<exists>s'. type_keys ks s = Some s' \<and> console_ok s'
    \<and> editing s' (l @ map (\<lambda>k. scan_table s ! unat k) ks) \<and> visible s' = visible s
    \<and> enter_flag s' = enter_flag s \<and> scheduled_term s' = scheduled_term s"
  using assms
proof (induction ks arbitrary: s l)
  case (Cons k ks)
  obtain t where t: "keyboard_handler k s = Some t" "console_ok t"
    "editing t (l @ [scan_table s ! unat k])" "scan_table t = scan_table s"
    "ctrl_info t = ctrl_info s" "visible t = visible s" "enter_flag t = enter_flag s"
    "scheduled_term t = scheduled_term s"
    using plain_step [OF Cons.prems(2-4), of k] Cons.prems(1,5) by auto
  then show ?case
    using Cons.IH [OF _ t(3,2)] Cons.prems(1,4,5) by (simp add: type_keys_def)
qed (simp add: type_keys_def)

lemma typed_line:
  assumes "\<forall>k \<in> set ks. plain_key k" "editing s []" "console_ok s" "ctrl_info s ! 0 \<noteq> 1"
    and "length ks < 127"
  obtains t u where "type_keys ks s = Some t" "editing t (map (\<lambda>k. scan_table s ! unat k) ks)"
    "console_ok t" "visible t = visible s" "enter_flag t = enter_flag s"
    "scheduled_term t = scheduled_term s"
    "keyboard_handler 0x1C t = Some u" "editing u []"
    "term_buf u = map (\<lambda>k. scan_table s ! unat k) ks @ 0x0A # zeros (127 - length ks)"
    "enter_flag u = (enter_flag s)[visible s := 1]"
    "scheduled_term u = scheduled_term s" "length (termReadFlag u) = 3"
proof -
  let ?l = "map (\<lambda>k. scan_table s ! unat k) ks"
  obtain t where t: "type_keys ks s = Some t" "console_ok t" "editing t ?l" "visible t = visible s"
    "enter_flag t = enter_flag s" "scheduled_term t = scheduled_term s"
    using type_plain [OF assms(1-4)] assms(5) by auto
  have e: "editing (cli t) ?l" "console_ok (cli t)" "length ?l < 127"
    using t(2,3) assms(5) by simp_all
  obtain u where u: "enter_helper (cli t) = Some u" using enter_total [OF e] by blast
  have f: "visible (cli t) = visible s" "enter_flag (cli t) = enter_flag s"
    "scheduled_term (cli t) = scheduled_term s" "termReadFlag (cli t) = termReadFlag t"
  proof -
    have "visible (cli t) = visible t" by (simp add: visible_def cli_def)
    then show "visible (cli t) = visible s" using t(4) by simp
  qed (use t in \<open>simp_all add: cli_def\<close>)
  have "keyboard_handler 0x1C t = Some u" using u by (simp add: keyboard_handler_def)
  then show ?thesis
    using sent_fields [OF e(1,3) enter_line [OF e(1,3) u]] t f console_okD(6) [OF t(2)] that by simp
qed

text \<open>Typing a line and Enter on a working console delivers exactly the characters the scancode
  table in force gives for the keys, followed by a new line and zeros, raises the flag the
  reader of the terminal on display waits for, and empties the line.\<close>

theorem typed_line_delivered:
  assumes "\<forall>k \<in> set ks. plain_key k" "editing s []" "console_ok s" "ctrl_info s ! 0 \<noteq> 1"
    and "length ks < 127"
  shows "\<exists>s'. type_keys (ks @ [0x1C]) s = Some s' \<and> editing s' []
    \<and> term_buf s' = map (\<lambda>k. scan_table s ! unat k) ks @ 0x0A # zeros (127 - length ks)
    \<and> enter_flag s' = (enter_flag s)[visible s := 1]"
  by (rule typed_line [OF assms]) (auto simp: type_keys_def foldM_append)

theorem typed_line_delivered_witness:
  "\<exists>s'. type_keys [0x26, 0x1F, 0x1C] ready_state = Some s' \<and> take 3 (term_buf s') = [108, 115, 10]
     \<and> enter_flag s' ! 0 = 1"
proof -
  have t: "scan_table ready_state = scan_code_one" "ctrl_info ready_state = [0, 0]"
    "enter_flag ready_state = [0, 0, 0]"
    by (simp_all add: scan_table_def ready_state_def paging_init_def boot_state_def)
  have n: "scan_code_one ! 38 = 108" "scan_code_one ! 31 = 115" by code_simp+
  let ?ks = "[0x26, 0x1F] :: u8 list"
  have "\<exists>s'. type_keys (?ks @ [0x1C]) ready_state = Some s' \<and> editing s' []
    \<and> term_buf s' = map (\<lambda>k. scan_table ready_state ! unat k) ?ks @ 0x0A # zeros (127 - length ?ks)
    \<and> enter_flag s' = (enter_flag ready_state)[visible ready_state := 1]"
    by (rule typed_line_delivered [OF _ ready_editing ready_console_ok])
      (simp_all add: t plain_key_def modifier_keys_def)
  then show ?thesis by (auto simp: t n)
qed

text \<open>C40: Enter with 127 characters typed writes past the end of the line buffer: \<open>enter_helper\<close>
  stores the new line in the last element and \<open>buffer_clear\<close> another one behind it.\<close>

theorem enter_overruns_buffer:
  assumes "editing s l" "127 \<le> length l"
  shows "keyboard_handler 0x1C s = None"
  using enter_long_line [of "cli s" l] assms by (simp add: keyboard_handler_def)

theorem enter_overruns_buffer_witness:
  "keyboard_handler 0x1C (with_line (replicate 127 97) ready_state) = None"
  by (rule enter_overruns_buffer [of _ "replicate 127 97"])
    (use editing_line [OF ready_editing] in simp_all)

text \<open>Control-L redraws the line at the top of the cleared screen but puts the cursor in
  column \<open>length l\<close> of the first row, also when that is past the last column.\<close>

theorem control_l_cursor:
  assumes "editing s l" "console_ok s" "ctrl_info s ! 0 = 1"
  shows "\<exists>s'. keyboard_handler 0x26 s = Some s' \<and> termScreenx s' ! visible s = int (length l)
    \<and> termScreeny s' ! visible s = 0 \<and> editing s' l"
proof -
  let ?s = "cli s"
  have e: "editing ?s l" and c: "console_ok ?s" using assms(1,2) by simp_all
  have f: "ctrl_info ?s = ctrl_info s" "visible ?s = visible s" by (simp_all add: cli_def visible_def)
  obtain a where a: "clear ?s = Some a" "console_ok a" using clear_total [OF c] by blast
  have ea: "editing a l" using con_eq_editing [OF clear.frame [OF a(1)]] e by blast
  obtain b where b: "redraw_line a = Some b" "console_ok b" using redraw_total [OF ea a(2)] by blast
  have eb: "editing b l" using con_eq_editing [OF redraw_line.frame [OF b(1)]] ea by blast
  note D = console_okD [OF b(2)]
  have v: "visible b = visible s"
    using clear.keeps(23) [OF a(1)] redraw_line.keeps(23) [OF b(1)] f by simp
  obtain d where d: "clear_help b = Some d" "termScreenx d ! visible s = int (length l)"
    "termScreeny d ! visible s = 0"
    using D(2,4,5) eb v
    by (simp add: clear_help_def setScreenX_def setScreenY_def update_cursor_eq editing_def)
  have "editing d l" using con_eq_editing [OF clear_help.frame [OF d(1)]] eb by blast
  moreover have "keyboard_handler 0x26 s = Some (irq_done (set_ctrl 1 0x26 d))"
    using assms(3) a(1) b(1) d(1) f by (simp add: keyboard_handler_def key_default_def)
  moreover have "termScreenx (irq_done (set_ctrl 1 0x26 d)) = termScreenx d"
    "termScreeny (irq_done (set_ctrl 1 0x26 d)) = termScreeny d"
    by (simp_all add: irq_done_def send_eoi_def outb_def sti_def set_ctrl_def)
  ultimately show ?thesis using d by simp
qed

theorem control_l_cursor_witness:
  "\<exists>s'. keyboard_handler 0x26 (with_line (replicate 100 97) (set_ctrl 0 1 ready_state)) = Some s'
     \<and> termScreenx s' ! 0 = 100"
proof -
  let ?s = "with_line (replicate 100 97) (set_ctrl 0 1 ready_state)"
  have "editing ?s (replicate 100 97)"
    by (rule editing_line [of _ "[]"]) (use ready_editing in simp_all)
  moreover have "console_ok ?s" using ready_console_ok by simp
  moreover have "ctrl_info ?s ! 0 = 1" "visible ?s = 0"
    by (simp_all add: set_ctrl_def ready_state_def paging_init_def boot_state_def visible_def)
  ultimately show ?thesis using control_l_cursor [of ?s "replicate 100 97"] by auto
qed

end
