(* ===== verification/Terminal.thy ===== *)
theory Terminal
  imports LineEditor
begin

text \<open>
  The terminal driver, \<open>student-distrib/terminal.c\<close>. The interrupts that end the loop of
  \<open>terminal_read\<close> are its argument. The last section joins it with the keyboard driver.
\<close>

section \<open>Operations\<close>

definition terminal_open :: "kernel \<Rightarrow> (kernel \<times> i32) option" where
  "terminal_open s = do {
     let s = s\<lparr>term_buf := zeroes (term_buf s)\<rparr>;
     let s = s\<lparr>terminal_print_flag := 0\<rparr>;
     ti \<leftarrow> aget (terminal_switch_array s) (curr_terminal_idx s);
     tis \<leftarrow> aset (terminal_switch_array s) (curr_terminal_idx s)
       (ti\<lparr>is_terminal_running := 1, ti_screen_x := 0, ti_screen_y := 0, ti_buf_idx := 0,
           ti_video_mem := zeroes (ti_video_mem ti), ti_keyboard_buf := zeroes (ti_keyboard_buf ti)\<rparr>);
     Some (s\<lparr>terminal_switch_array := tis\<rparr>, 0)
   }"

definition terminal_close :: "kernel \<Rightarrow> (kernel \<times> i32) option" where
  "terminal_close s = do {
     let s = s\<lparr>term_buf := zeroes (term_buf s)\<rparr>;
     ti \<leftarrow> aget (terminal_switch_array s) (curr_terminal_idx s);
     tis \<leftarrow> aset (terminal_switch_array s) (curr_terminal_idx s) (ti\<lparr>is_terminal_running := 0\<rparr>);
     Some (s\<lparr>terminal_switch_array := tis\<rparr>, 0)
   }"

text \<open>The loop of \<open>terminal_read\<close>: memory, bytes counted, new line seen.\<close>

definition read_step :: "u8 list \<Rightarrow> u32 \<Rightarrow> nat \<Rightarrow> mem \<times> nat \<times> bool \<Rightarrow> (mem \<times> nat \<times> bool) option" where
  "read_step tb buf i = (\<lambda>(m, bytes_read, newLine). do {
     c \<leftarrow> aget tb i;
     Some (m(buf + of_nat i := c), if newLine then bytes_read else bytes_read + 1,
       newLine \<or> c = 0x0A)
   })"

definition terminal_read :: "u32 \<Rightarrow> i32 \<Rightarrow> (kernel \<Rightarrow> kernel option) list \<Rightarrow> kernel
    \<Rightarrow> (kernel \<times> i32) option" where
  "terminal_read buf nbytes irqs s =
     (if buf = 0 then Some (s, -1)
      else let n = (if sint nbytes \<ge> 128 then 127 else sint nbytes) in
        if n \<le> 0 then Some (s, -1)
        else do {
          tr \<leftarrow> aset (termReadFlag s) (scheduled_term s) 1;
          s \<leftarrow> wait_until (\<lambda>s. enter_flag s ! scheduled_term s = 1) irqs (s\<lparr>termReadFlag := tr\<rparr>);
          tr \<leftarrow> aset (termReadFlag s) (scheduled_term s) 0;
          ef \<leftarrow> aset (enter_flag s) (scheduled_term s) 0;
          let s = s\<lparr>termReadFlag := tr, enter_flag := ef\<rparr>;
          (m, bytes_read, newLine) \<leftarrow>
            foldM (read_step (term_buf s) buf) [0..<nat n + 1] (vmem s, 0, False);
          Some (set_vmem m s, of_nat bytes_read)
        })"

definition write_step :: "u32 \<Rightarrow> nat \<Rightarrow> kernel \<Rightarrow> kernel option" where
  "write_step buf i s = (let new_char = vmem s (buf + of_nat i) in
     if new_char \<noteq> 0 then putc new_char s else Some s)"

definition terminal_write :: "u32 \<Rightarrow> i32 \<Rightarrow> kernel \<Rightarrow> (kernel \<times> i32) option" where
  "terminal_write buf nbytes s =
     (if buf = 0 then Some (s, -1)
      else if sint nbytes \<le> 0 then Some (s, -1)
      else do {
        s \<leftarrow> foldM (write_step buf) [0..<nat (sint nbytes)] s;
        Some (s, 0)
      })"

section \<open>Reading\<close>

text \<open>How many bytes \<open>terminal_read\<close> reports: up to and with the first new line.\<close>

definition line_length :: "u8 list \<Rightarrow> nat" where
  "line_length cs = (let n = length (takeWhile (\<lambda>c. c \<noteq> 0x0A) cs) in
     if 0x0A \<in> set cs then n + 1 else n)"

lemma line_length_snoc:
  "line_length (cs @ [c]) = (if 0x0A \<in> set cs then line_length cs else line_length cs + 1)"
proof (cases "0x0A \<in> set cs")
  case False
  then have e: "takeWhile (\<lambda>c. c \<noteq> 0x0A) cs = cs" by (simp add: takeWhile_eq_all_conv) blast
  show ?thesis using False by (auto simp: line_length_def Let_def takeWhile_append e)
qed (auto simp: line_length_def Let_def takeWhile_append)

definition stored :: "mem \<Rightarrow> u32 \<Rightarrow> u8 list \<Rightarrow> mem" where
  "stored m p cs = (\<lambda>a. if within p (length cs) a then cs ! unat (a - p) else m a)"

lemma stored_snoc:
  assumes "length cs < 2 ^ 32"
  shows "stored m p (cs @ [c]) = (stored m p cs)(p + of_nat (length cs) := c)"
proof
  fix a
  have u: "unat (p + of_nat (length cs) - p) = length cs" by (rule unat_offset [OF assms])
  show "stored m p (cs @ [c]) a = ((stored m p cs)(p + of_nat (length cs) := c)) a"
    using within_Suc [OF assms, of p a] u
    by (auto simp: stored_def nth_append within_def)
qed

lemma stored_bytes: "length cs < 2 ^ 32 \<Longrightarrow> bytes_at (stored m p cs) p (length cs) = cs"
  by (rule nth_equalityI) (simp_all add: stored_def within_offset unat_of_nat32)

lemma read_loop:
  assumes "n \<le> length tb" "n < 2 ^ 32"
  shows "foldM (read_step tb buf) [0..<n] (m, 0, False)
    = Some (stored m buf (take n tb), line_length (take n tb), 0x0A \<in> set (take n tb))"
  using assms
proof (induction n)
  case 0
  then show ?case by (simp add: stored_def line_length_def)
next
  case (Suc n)
  then have t: "take (Suc n) tb = take n tb @ [tb ! n]" by (simp add: take_Suc_conv_app_nth)
  have "length (take n tb) = n" using Suc.prems by simp
  then show ?case
    using Suc stored_snoc [of "take n tb" m buf "tb ! n"] line_length_snoc [of "take n tb" "tb ! n"]
    by (auto simp: foldM_append read_step_def t fun_upd_def)
qed

text \<open>The whole of \<open>terminal_read\<close> after the wait.\<close>

definition read_result :: "u32 \<Rightarrow> nat \<Rightarrow> kernel \<Rightarrow> kernel" where
  "read_result buf n s = set_vmem (stored (vmem s) buf (take (n + 1) (term_buf s)))
     (s\<lparr>termReadFlag := (termReadFlag s)[scheduled_term s := 0],
        enter_flag := (enter_flag s)[scheduled_term s := 0]\<rparr>)"

lemma vmem_upd [simp]:
  "vmem (s\<lparr>termReadFlag := r\<rparr>) = vmem s" "vmem (s\<lparr>enter_flag := e\<rparr>) = vmem s"
  "vmem (s\<lparr>term_buf := b\<rparr>) = vmem s"
  by (rule ext, simp add: vmem_def user_frame_def)+

lemma terminal_read_eq:
  assumes "buf \<noteq> 0" "0 < sint nbytes" "n = min 127 (nat (sint nbytes))"
    and "scheduled_term s < length (termReadFlag s)"
    and "wait_until (\<lambda>s. enter_flag s ! scheduled_term s = 1) irqs
        (s\<lparr>termReadFlag := (termReadFlag s)[scheduled_term s := 1]\<rparr>) = Some t"
    and "scheduled_term t < length (termReadFlag t)" "scheduled_term t < length (enter_flag t)"
    and "length (term_buf t) = 128"
  shows "terminal_read buf nbytes irqs s
    = Some (read_result buf n t, of_nat (line_length (take (n + 1) (term_buf t))))"
proof -
  have n: "nat (if sint nbytes \<ge> 128 then 127 else sint nbytes) = n"
    "\<not> (if sint nbytes \<ge> 128 then 127 else sint nbytes) \<le> 0"
    using assms(2,3) by (auto simp: min_def)
  have "foldM (read_step (term_buf t) buf) [0..<n + 1] (vmem t, 0, False)
      = Some (stored (vmem t) buf (take (n + 1) (term_buf t)), line_length (take (n + 1) (term_buf t)),
          0x0A \<in> set (take (n + 1) (term_buf t)))"
    by (rule read_loop) (use assms(3,8) in auto)
  then show ?thesis
    using assms unfolding terminal_read_def Let_def n
    by (simp add: read_result_def Let_def del: upt_Suc)
qed

section \<open>Writing\<close>

lemma write_loop:
  assumes "console_ok s" "8 \<notin> set (bytes_at (vmem s) buf n)"
  shows "foldM (write_step buf) [0..<n] s = Some (prints (filter (\<lambda>c. c \<noteq> 0) (bytes_at (vmem s) buf n)) s)"
  using assms(2)
proof (induction n)
  case 0
  then show ?case by (simp add: prints_def)
next
  case (Suc n)
  let ?cs = "filter (\<lambda>c. c \<noteq> 0) (bytes_at (vmem s) buf n)" and ?c = "vmem s (buf + of_nat n)"
  have nb: "?c \<noteq> 8" "8 \<notin> set (bytes_at (vmem s) buf n)"
    using Suc.prems by (auto simp: bytes_at_Suc)
  have v: "vmem (prints cs s) = vmem s" for cs
    by (induction cs rule: rev_induct) (simp_all add: prints_def)
  have "putc ?c (prints ?cs s) = Some (putc_result ?c (prints ?cs s))"
    by (rule putc_correct [OF prints_ok [OF assms(1)] nb(1)])
  then show ?case
    using Suc.IH [OF nb(2)] v
    by (simp add: foldM_append write_step_def bytes_at_Suc Let_def) (simp add: prints_def)
qed

section \<open>Properties\<close>

text \<open>\<open>terminal_write\<close> prints the non-zero bytes of the buffer, in order, on the terminal of the
  running process: its screen becomes what emitting them one by one gives. It returns 0, not
  the number of bytes.\<close>

theorem terminal_write_prints:
  assumes "console_ok s" "buf \<noteq> 0" "0 < sint nbytes"
    and "cs = bytes_at (vmem s) buf (nat (sint nbytes))" "8 \<notin> set cs"
  shows "\<exists>s'. terminal_write buf nbytes s = Some (s', 0) \<and> console_ok s'
    \<and> screen_at (put_terminal s) s' = fold emit (filter (\<lambda>c. c \<noteq> 0) cs) (screen_at (put_terminal s) s)"
  using write_loop [OF assms(1), of buf "nat (sint nbytes)"] assms(2-5)
    prints_ok [OF assms(1)] prints_screen [OF assms(1)]
  by (simp add: terminal_write_def)

definition demo_text :: kernel where
  "demo_text = ready_state\<lparr>lowmem := (\<lambda>a. 0)(0x101 := 72, 0x103 := 105)\<rparr>"

lemma demo_text_ok: "console_ok demo_text" "vmem demo_text = (\<lambda>a. if in_user_page a then 0 else ((\<lambda>a. 0)(0x101 := 72, 0x103 := 105)) a)"
proof -
  show "console_ok demo_text" using ready_console_ok by (simp add: demo_text_def console_ok_def)
  show "vmem demo_text = (\<lambda>a. if in_user_page a then 0 else ((\<lambda>a. 0)(0x101 := 72, 0x103 := 105)) a)"
    by (rule ext) (simp add: vmem_def demo_text_def)
qed

theorem terminal_write_prints_witness:
  "\<exists>s'. terminal_write 0x100 4 demo_text = Some (s', 0) \<and> termScreenx s' ! 0 = 2"
proof -
  let ?cs = "bytes_at (vmem demo_text) 0x100 4"
  have b: "?cs = [0, 72, 0, 105]"
    by (simp add: bytes_at_def demo_text_ok(2) upt_rec in_user_page_def USR_MEM_VIRT_ADDR_def MB4_def)
  have t: "put_terminal demo_text = 0" "termScreenx demo_text ! 0 = 0" "termScreeny demo_text ! 0 = 0"
    using ready_simps(9) by (simp_all add: demo_text_def put_terminal_def visible_def split: if_splits)
  have "\<exists>s'. terminal_write 0x100 4 demo_text = Some (s', 0) \<and> console_ok s'
    \<and> screen_at (put_terminal demo_text) s' = fold emit (filter (\<lambda>c. c \<noteq> 0) [0, 72, 0, 105]) (screen_at (put_terminal demo_text) demo_text)"
    by (rule terminal_write_prints [OF demo_text_ok(1)]) (simp_all add: b)
  then show ?thesis using t by (auto simp: screen_at_def emit_def Let_def)
qed

text \<open>Once the reader of a terminal is woken, with the line \<open>l\<close> and its new line in the
  terminal buffer and room for it, \<open>terminal_read\<close> delivers exactly the line with its new line,
  returns that length, and takes the wake-up flag back. It always stores one byte more than it
  was asked for.\<close>

theorem terminal_read_line:
  assumes "buf \<noteq> 0" "sint nbytes = int n" "length l < n" "n \<le> 127" "0x0A \<notin> set l"
    and "scheduled_term s < length (termReadFlag s)"
    and "wait_until (\<lambda>s. enter_flag s ! scheduled_term s = 1) irqs
        (s\<lparr>termReadFlag := (termReadFlag s)[scheduled_term s := 1]\<rparr>) = Some t"
    and "scheduled_term t < length (termReadFlag t)" "scheduled_term t < length (enter_flag t)"
    and "term_buf t = l @ 0x0A # zeros (127 - length l)"
  shows "\<exists>s'. terminal_read buf nbytes irqs s = Some (s', of_nat (length l + 1))
    \<and> bytes_at (vmem s') buf (length l + 1) = l @ [0x0A]
    \<and> vmem s' (buf + of_nat n) = term_buf t ! n
    \<and> enter_flag s' ! scheduled_term t = 0"
proof -
  let ?b = "take (n + 1) (term_buf t)"
  have len: "length (term_buf t) = 128" "length ?b = n + 1" using assms(3,4,10) by simp_all
  have r: "terminal_read buf nbytes irqs s = Some (read_result buf n t, of_nat (line_length ?b))"
    by (rule terminal_read_eq [OF assms(1) _ _ assms(6-9) len(1)]) (use assms(2-4) in auto)
  obtain ys where ys: "?b = l @ 0x0A # ys" using assms(3,10) by (auto simp: take_Cons')
  then have ll: "line_length ?b = length l + 1"
    using assms(5) by (auto simp: line_length_def Let_def takeWhile_append)
  have v: "vmem (read_result buf n t) = stored (vmem t) buf ?b"
    by (simp add: read_result_def)
  have "bytes_at (stored (vmem t) buf ?b) buf (n + 1) = ?b"
    using stored_bytes [of ?b "vmem t" buf] len assms(4) by simp
  then have "take (length l + 1) (bytes_at (stored (vmem t) buf ?b) buf (n + 1)) = l @ [0x0A]"
    unfolding ys by simp
  moreover have "take k (bytes_at m buf n) = bytes_at m buf k" if "k \<le> n" for k n m
    using that bytes_at_add [of m buf k "n - k"] by simp
  ultimately have "bytes_at (vmem (read_result buf n t)) buf (length l + 1) = l @ [0x0A]"
    using assms(3) v by simp
  moreover have "vmem (read_result buf n t) (buf + of_nat n) = term_buf t ! n"
    using len assms(4) by (simp add: v stored_def within_offset unat_of_nat32)
  moreover have "enter_flag (read_result buf n t) ! scheduled_term t = 0"
    using assms(9) by (simp add: read_result_def set_vmem_def)
  ultimately show ?thesis using r ll by simp
qed

section \<open>Typing and reading\<close>

lemma wait_typed:
  assumes "\<forall>k \<in> set ks. plain_key k" "editing s l" "console_ok s" "ctrl_info s ! 0 \<noteq> 1"
    "length l + length ks \<le> 127" "enter_flag s ! scheduled_term s \<noteq> 1"
  shows "wait_until (\<lambda>s. enter_flag s ! scheduled_term s = 1) (map keyboard_handler ks @ fs) s
    = do { s \<leftarrow> type_keys ks s; wait_until (\<lambda>s. enter_flag s ! scheduled_term s = 1) fs s }"
  using assms
proof (induction ks arbitrary: s l)
  case (Cons k ks)
  obtain t where t: "keyboard_handler k s = Some t" "console_ok t"
    "editing t (l @ [scan_table s ! unat k])" "ctrl_info t = ctrl_info s"
    "enter_flag t = enter_flag s" "scheduled_term t = scheduled_term s"
    using plain_step [OF Cons.prems(2-4), of k] Cons.prems(1,5) by auto
  then show ?case
    using Cons.IH [OF _ t(3,2)] Cons.prems by (simp add: type_keys_def)
qed (simp add: type_keys_def)

lemma scan_tables_newline:
  "list_all (\<lambda>t. list_all (\<lambda>i. i = 28 \<or> t ! i \<noteq> 10) [0..<54])
     [scan_code_one, scan_code_one_shift, scan_code_one_caps, scan_code_one_shift_caps]"
  by code_simp

lemma plain_not_newline: "plain_key k \<Longrightarrow> scan_table s ! unat k \<noteq> 10"
proof -
  assume p: "plain_key k"
  then have "unat k \<noteq> 28" "unat k < 54"
    using unat_word_eq [of k 28] by (auto simp: plain_key_def)
  then show ?thesis using scan_tables_newline by (auto simp: scan_table_def list_all_iff)
qed

text \<open>The wait for a line: the process does not go on before Enter, and finds the characters of the keys in
  the terminal buffer then.\<close>

lemma typed_line_wait:
  assumes "\<forall>k \<in> set ks. plain_key k" "editing s []" "console_ok s" "ctrl_info s ! 0 \<noteq> 1" "length ks < 127"
    and "scheduled_term s = visible s" "enter_flag s ! visible s \<noteq> 1"
  defines "s0 \<equiv> s\<lparr>termReadFlag := (termReadFlag s)[scheduled_term s := 1]\<rparr>"
    and "line \<equiv> map (\<lambda>k. scan_table s ! unat k) ks"
  obtains u where
    "wait_until (\<lambda>s. enter_flag s ! scheduled_term s = 1) (map keyboard_handler (ks @ [0x1C])) s0 = Some u"
    "wait_until (\<lambda>s. enter_flag s ! scheduled_term s = 1) (map keyboard_handler ks) s0 = None"
    "term_buf u = line @ 0x0A # zeros (127 - length ks)" "scheduled_term u = scheduled_term s"
    "length (termReadFlag u) = 3" "length (enter_flag u) = 3" "0x0A \<notin> set line"
proof -
  note D = console_okD [OF assms(3)]
  have e: "editing s0 []" using assms(2) by (simp add: s0_def editing_def keyboard_shape_def)
  have ok: "console_ok s0" using assms(3) by (simp add: s0_def console_ok_def)
  have f: "scan_table s0 = scan_table s" "visible s0 = visible s" "ctrl_info s0 ! 0 \<noteq> 1"
    "enter_flag s0 ! scheduled_term s0 \<noteq> 1" "scheduled_term s0 = scheduled_term s" "enter_flag s0 = enter_flag s"
    using assms(4,6,7) by (simp_all add: s0_def scan_table_def visible_def)
  obtain t u where T: "type_keys ks s0 = Some t" "enter_flag t = enter_flag s0"
      "scheduled_term t = scheduled_term s0" "keyboard_handler 0x1C t = Some u"
      "term_buf u = line @ 0x0A # zeros (127 - length ks)"
      "enter_flag u = (enter_flag s0)[visible s0 := 1]"
      "scheduled_term u = scheduled_term s0" "length (termReadFlag u) = 3"
    using typed_line [OF assms(1) e ok f(3) assms(5)] unfolding line_def f(1) by blast
  have E: "length (enter_flag s) = 3" using assms(2) by (simp add: editing_def keyboard_shape_def)
  have w: "wait_until (\<lambda>s. enter_flag s ! scheduled_term s = 1) (map keyboard_handler ks @ fs) s0
      = wait_until (\<lambda>s. enter_flag s ! scheduled_term s = 1) fs t" for fs
    using wait_typed [OF assms(1) e ok f(3) _ f(4), of fs] assms(5) T(1) by simp
  have n: "enter_flag t ! scheduled_term t \<noteq> 1" using T(2,3) f(4) by simp
  have "wait_until (\<lambda>s. enter_flag s ! scheduled_term s = 1) (map keyboard_handler (ks @ [0x1C])) s0 = Some u"
    using w [of "[keyboard_handler 0x1C]"] T assms(6) f E D(2) n by simp
  moreover have "wait_until (\<lambda>s. enter_flag s ! scheduled_term s = 1) (map keyboard_handler ks) s0 = None"
    using w [of "[]"] n by simp
  moreover have "0x0A \<notin> set line" using plain_not_newline assms(1) by (auto simp: line_def)
  ultimately show ?thesis using that [of u] T(5-8) E f by simp
qed

text \<open>C13: the keyboard and terminal drivers together. A process of the terminal on display that
  reads a line gets exactly the characters of the keys typed, up to and with Enter: the read
  does not return before Enter, and then reports the number of keys.\<close>

theorem typed_line_is_read:
  assumes "\<forall>k \<in> set ks. plain_key k" "editing s []" "console_ok s" "ctrl_info s ! 0 \<noteq> 1"
    and "length ks < n" "n \<le> 127" "buf \<noteq> 0" "sint nbytes = int n"
    and "scheduled_term s = visible s" "enter_flag s ! visible s \<noteq> 1"
  shows "terminal_read buf nbytes (map keyboard_handler ks) s = None
    \<and> (\<exists>s'. terminal_read buf nbytes (map keyboard_handler (ks @ [0x1C])) s
          = Some (s', of_nat (length ks + 1))
        \<and> bytes_at (vmem s') buf (length ks + 1) = map (\<lambda>k. scan_table s ! unat k) ks @ [0x0A])"
proof -
  note D = console_okD [OF assms(3)]
  have lt: "length ks < 127" using assms(5,6) by simp
  obtain u where u:
    "wait_until (\<lambda>s. enter_flag s ! scheduled_term s = 1) (map keyboard_handler (ks @ [0x1C]))
       (s\<lparr>termReadFlag := (termReadFlag s)[scheduled_term s := 1]\<rparr>) = Some u"
    "wait_until (\<lambda>s. enter_flag s ! scheduled_term s = 1) (map keyboard_handler ks)
       (s\<lparr>termReadFlag := (termReadFlag s)[scheduled_term s := 1]\<rparr>) = None"
    "term_buf u = map (\<lambda>k. scan_table s ! unat k) ks @ 0x0A # zeros (127 - length ks)"
    "scheduled_term u = scheduled_term s" "length (termReadFlag u) = 3" "length (enter_flag u) = 3"
    "0x0A \<notin> set (map (\<lambda>k. scan_table s ! unat k) ks)"
    by (rule typed_line_wait [OF assms(1-4) lt assms(9,10)])
  have "terminal_read buf nbytes (map keyboard_handler ks) s = None"
    using u(2) assms(5-8) D(3,6) by (simp add: terminal_read_def)
  then show ?thesis
    using terminal_read_line [OF assms(7,8) _ assms(6) u(7), of s "map keyboard_handler (ks @ [0x1C])" u]
      assms(5) u D(3,6) by auto
qed

theorem typed_line_is_read_witness:
  "\<exists>s'. terminal_read 0x1000 127 (map keyboard_handler [0x26, 0x1F, 0x1C]) ready_state = Some (s', 3)
     \<and> bytes_at (vmem s') 0x1000 3 = [108, 115, 10]"
proof -
  let ?ks = "[0x26, 0x1F] :: u8 list"
  have t: "scan_table ready_state = scan_code_one" "ctrl_info ready_state = [0, 0]"
    "enter_flag ready_state = [0, 0, 0]"
    by (simp_all add: scan_table_def ready_state_def paging_init_def boot_state_def)
  have n: "scan_code_one ! 38 = 108" "scan_code_one ! 31 = 115" by code_simp+
  have "terminal_read 0x1000 127 (map keyboard_handler ?ks) ready_state = None
    \<and> (\<exists>s'. terminal_read 0x1000 127 (map keyboard_handler (?ks @ [0x1C])) ready_state
          = Some (s', of_nat (length ?ks + 1))
        \<and> bytes_at (vmem s') 0x1000 (length ?ks + 1) = map (\<lambda>k. scan_table ready_state ! unat k) ?ks @ [0x0A])"
    by (rule typed_line_is_read [OF _ ready_editing ready_console_ok, of _ 127])
      (simp_all add: t plain_key_def modifier_keys_def)
  then show ?thesis by (auto simp: t n numeral_3_eq_3)
qed

theorem terminal_read_line_witness:
  "\<exists>s'. terminal_read 0x1000 10 [] (ready_state\<lparr>enter_flag := [1, 0, 0],
      term_buf := [104, 105] @ 0x0A # zeros 125\<rparr>) = Some (s', 3)
     \<and> bytes_at (vmem s') 0x1000 3 = [104, 105, 10]"
proof -
  let ?s = "ready_state\<lparr>enter_flag := [1, 0, 0], term_buf := [104, 105] @ 0x0A # zeros 125\<rparr>"
  have "\<exists>s'. terminal_read 0x1000 10 [] ?s = Some (s', of_nat (length [104 :: u8, 105] + 1))
    \<and> bytes_at (vmem s') 0x1000 (length [104 :: u8, 105] + 1) = [104, 105] @ [0x0A]
    \<and> vmem s' (0x1000 + of_nat 10) = term_buf (?s\<lparr>termReadFlag := [1, 1, 1]\<rparr>) ! 10
    \<and> enter_flag s' ! scheduled_term (?s\<lparr>termReadFlag := [1, 1, 1]\<rparr>) = 0"
    by (rule terminal_read_line) (simp_all)
  then show ?thesis by (auto simp: numeral_3_eq_3)
qed

text \<open>\<open>terminal_read\<close> stores \<open>nbytes + 1\<close> bytes: the byte behind a buffer of \<open>nbytes\<close> bytes is
  always overwritten, by the zero padding when the line is short.\<close>

theorem terminal_read_overrun:
  assumes "buf \<noteq> 0" "0 < sint nbytes" "sint nbytes < 128" "length (term_buf s) = 128"
    and "scheduled_term s < length (termReadFlag s)" "scheduled_term s < length (enter_flag s)"
    and "enter_flag s ! scheduled_term s = 1"
  shows "\<exists>s' r. terminal_read buf nbytes irqs s = Some (s', r)
    \<and> vmem s' (buf + nbytes) = term_buf s ! unat nbytes
    \<and> (\<forall>a. \<not> within buf (unat nbytes + 1) a \<longrightarrow> vmem s' a = vmem s a)"
proof -
  let ?n = "nat (sint nbytes)"
  let ?t = "s\<lparr>termReadFlag := (termReadFlag s)[scheduled_term s := 1]\<rparr>"
  have "nbytes = of_int (sint nbytes)" by simp
  then have nb: "nbytes = of_nat ?n" using assms(2) by (metis of_nat_nat order_less_imp_le of_int_of_nat_eq)
  then have u: "unat nbytes = ?n" using assms(3) unat_of_nat32 [of ?n] by simp
  have r: "terminal_read buf nbytes irqs s
    = Some (read_result buf ?n ?t, of_nat (line_length (take (?n + 1) (term_buf ?t))))"
    by (rule terminal_read_eq [OF assms(1,2)]) (use assms in auto)
  have v: "vmem (read_result buf ?n ?t) = stored (vmem s) buf (take (?n + 1) (term_buf s))"
    by (simp add: read_result_def)
  have l: "length (take (?n + 1) (term_buf s)) = ?n + 1" using assms(3,4) by simp
  have "vmem (read_result buf ?n ?t) (buf + nbytes) = term_buf s ! ?n"
    using l assms(3) by (subst nb) (simp add: v stored_def within_offset unat_of_nat32)
  moreover have "\<forall>a. \<not> within buf (?n + 1) a \<longrightarrow> vmem (read_result buf ?n ?t) a = vmem s a"
    unfolding v stored_def l by simp
  ultimately show ?thesis using r u by simp
qed

theorem terminal_read_overrun_witness:
  "\<exists>s' r. terminal_read 0x1000 4 [] (ready_state\<lparr>enter_flag := [1, 0, 0],
      term_buf := replicate 128 7\<rparr>) = Some (s', r) \<and> vmem s' 0x1004 = 7"
  using terminal_read_overrun [of "0x1000" 4 "ready_state\<lparr>enter_flag := [1, 0, 0],
      term_buf := replicate 128 7\<rparr>" "[]"] by auto

end
