(* ===== verification/Rtc.thy ===== *)
theory Rtc
  imports I8259
begin

text \<open>
  The real-time clock, \<open>student-distrib/rtc.c\<close>: one hardware clock at 1024 Hz, shared by a virtual
  clock per terminal. The interrupts that end the loop of \<open>rtc_read\<close> are its argument.
  \<open>inb\<close> may depend on what was written to the ports before.
\<close>

section \<open>Operations\<close>

definition RTC_PORT :: u16 where "RTC_PORT = 0x70"
definition CMOS_WRITE :: u16 where "CMOS_WRITE = 0x71"

definition rtc_init :: "(kernel \<Rightarrow> u16 \<Rightarrow> u8) \<Rightarrow> kernel \<Rightarrow> kernel" where
  "rtc_init inb s =
     (let s = outb 0x8B RTC_PORT s;
          prev = inb s CMOS_WRITE;
          s = outb 0x8B RTC_PORT s;
          s = outb (prev OR 0x40) CMOS_WRITE s;
          s = outb 0x8A RTC_PORT s;
          prev = inb s CMOS_WRITE;
          s = outb 0x8A RTC_PORT s;
          s = outb ((prev AND 0xF0) OR 3) CMOS_WRITE s;
          s = enable_irq (inb s) 8 s
      in outb (inb s RTC_PORT AND 0x7F) RTC_PORT s)"

definition rtc_tick :: "nat \<Rightarrow> kernel \<Rightarrow> kernel option" where
  "rtc_tick loop s = do {
     c \<leftarrow> aget (curr_count s) loop;
     if c = 0 then do {
       fc \<leftarrow> aget (freq_count s) loop;
       cc \<leftarrow> aset (curr_count s) loop fc;
       fl \<leftarrow> aset (rtc_flag s) loop 1;
       Some (s\<lparr>curr_count := cc, rtc_flag := fl\<rparr>)
     } else do {
       cc \<leftarrow> aset (curr_count s) loop (c - 1);
       Some (s\<lparr>curr_count := cc\<rparr>)
     }
   }"

definition rtc_handler :: "kernel \<Rightarrow> kernel option" where
  "rtc_handler s = do {
     s \<leftarrow> foldM rtc_tick [0..<3] (outb 0x0C RTC_PORT s);
     Some (send_eoi 8 s)
   }"

definition rtc_read :: "(kernel \<Rightarrow> kernel option) list \<Rightarrow> kernel \<Rightarrow> (kernel \<times> i32) option" where
  "rtc_read irqs s = do {
     fl \<leftarrow> aset (rtc_flag s) (scheduled_term s) 0;
     s \<leftarrow> wait_until (\<lambda>s. rtc_flag s ! scheduled_term s = 1) irqs (s\<lparr>rtc_flag := fl\<rparr>);
     Some (s, 0)
   }"

definition rtc_open :: "kernel \<Rightarrow> (kernel \<times> i32) option" where
  "rtc_open s = do {
     fc \<leftarrow> aset (freq_count s) (scheduled_term s) 512;
     cf \<leftarrow> aset (curr_freq s) (scheduled_term s) 2;
     Some (s\<lparr>freq_count := fc, curr_freq := cf\<rparr>, 0)
   }"

text \<open>\<open>while (temp % 2 == 0) temp /= 2;\<close>\<close>

partial_function (option) halve :: "int \<Rightarrow> int option" where
  "halve temp = (if temp mod 2 = 0 then halve (temp div 2) else Some temp)"

definition count_for :: "int \<Rightarrow> int option" where
  "count_for f =
     (if f = 1024 then Some 1 else if f = 512 then Some 2 else if f = 256 then Some 4
      else if f = 128 then Some 8 else if f = 64 then Some 16 else if f = 32 then Some 32
      else if f = 16 then Some 64 else if f = 8 then Some 128 else if f = 4 then Some 256
      else if f = 2 then Some 512 else if f = 1 then Some 1024 else None)"

definition rtc_write :: "u32 \<Rightarrow> i32 \<Rightarrow> kernel \<Rightarrow> (kernel \<times> i32) option" where
  "rtc_write buf nbytes s =
     (if buf = 0 then Some (s, -1)
      else if nbytes \<noteq> 4 then Some (s, -1)
      else let frequency = sint (ld32 (vmem s) buf) in
        if frequency < 1 \<or> frequency > 1024 then Some (s, -1)
        else do {
          temp \<leftarrow> halve frequency;
          if temp = 1 then do {
            cf \<leftarrow> aset (curr_freq s) (scheduled_term s) frequency;
            let s = s\<lparr>curr_freq := cf\<rparr>;
            case count_for frequency of
              Some n \<Rightarrow> do {
                fc \<leftarrow> aset (freq_count s) (scheduled_term s) n;
                Some (s\<lparr>freq_count := fc\<rparr>, 0)
              }
            | None \<Rightarrow> Some (s, 0)
          } else Some (s, -1)
        })"

definition rtc_close :: i32 where "rtc_close = 0"

section \<open>Halving\<close>

lemma halve_odd [simp]: "temp mod 2 \<noteq> 0 \<Longrightarrow> halve temp = Some temp"
  by (subst halve.simps) simp

lemma halve_even [simp]: "halve (2 * temp) = halve temp"
  by (subst halve.simps) simp

lemma halve_power: "halve (2 ^ n) = Some 1"
  by (induction n) simp_all

lemma halve_total:
  assumes "1 \<le> temp" shows "\<exists>m n. halve temp = Some m \<and> m mod 2 \<noteq> 0 \<and> temp = m * 2 ^ n"
  using assms
proof (induction "nat temp" arbitrary: temp rule: less_induct)
  case less
  show ?case
  proof (cases "temp mod 2 = 0")
    case True
    then have t: "temp = 2 * (temp div 2)" by presburger
    then obtain m n where "halve (temp div 2) = Some m" "m mod 2 \<noteq> 0" "temp div 2 = m * 2 ^ n"
      using less.hyps [of "temp div 2"] less.prems by auto
    then show ?thesis
      using t by (metis (no_types) halve_even mult.left_commute power_Suc)
  next
    case False
    then have "halve temp = Some temp \<and> temp mod 2 \<noteq> 0 \<and> temp = temp * 2 ^ 0" by simp
    then show ?thesis by blast
  qed
qed

lemma halve_one_iff: "1 \<le> temp \<Longrightarrow> halve temp = Some 1 \<longleftrightarrow> (\<exists>n. temp = 2 ^ n)"
  using halve_total [of temp] halve_power by fastforce

lemma power2_below_1024: "(\<exists>n. f = 2 ^ n) \<Longrightarrow> f \<le> 1024 \<Longrightarrow> \<exists>n \<le> 10. f = (2 :: int) ^ n"
proof -
  assume "\<exists>n. f = 2 ^ n" "f \<le> 1024"
  then obtain n where n: "f = 2 ^ n" "(2 :: int) ^ n \<le> 2 ^ 10" by auto
  then have "n \<le> 10" using power_increasing_iff [of "2 :: int" n 10] by simp
  then show ?thesis using n by blast
qed

lemma count_for_powers: "list_all (\<lambda>n. count_for (2 ^ n) = Some (2 ^ (10 - n))) [0..<11]"
  by code_simp

lemma count_for_power: "n \<le> 10 \<Longrightarrow> count_for (2 ^ n) = Some (2 ^ (10 - n))"
  using count_for_powers by (simp add: list_all_iff)

section \<open>The virtual clocks\<close>

definition rtc_ok :: "kernel \<Rightarrow> bool" where
  "rtc_ok s \<longleftrightarrow> scheduled_term s < 3 \<and> length (curr_count s) = 3 \<and> length (freq_count s) = 3
     \<and> length (curr_freq s) = 3 \<and> length (rtc_flag s) = 3
     \<and> (\<forall>t < 3. 0 \<le> curr_count s ! t \<and> 1 \<le> freq_count s ! t
          \<and> freq_count s ! t * curr_freq s ! t = 1024)"

text \<open>One interrupt, as the clocks see it.\<close>

definition ticked :: "kernel \<Rightarrow> kernel" where
  "ticked s = s\<lparr>
     curr_count := map (\<lambda>t. if curr_count s ! t = 0 then freq_count s ! t else curr_count s ! t - 1) [0..<3],
     rtc_flag := map (\<lambda>t. if curr_count s ! t = 0 then 1 else rtc_flag s ! t) [0..<3],
     outs := outs s @ [(0x0C, 0x70), (EOI OR 0, 0xA0), (EOI OR 2, 0x20)]\<rparr>"

lemma list3: "length xs = 3 \<Longrightarrow> xs = [xs ! 0, xs ! 1, xs ! 2]"
  by (auto simp: numeral_3_eq_3 length_Suc_conv)

lemma less3: "t < 3 \<longleftrightarrow> t = 0 \<or> t = 1 \<or> t = (2 :: nat)"
  by auto

lemma rtc_handler_eq:
  assumes "length (curr_count s) = 3" "length (freq_count s) = 3" "length (rtc_flag s) = 3"
  shows "rtc_handler s = Some (ticked s)"
proof -
  obtain a b c where c: "curr_count s = [a, b, c]" using list3 assms(1) by blast
  obtain d e f where f: "freq_count s = [d, e, f]" using list3 assms(2) by blast
  obtain g h i where g: "rtc_flag s = [g, h, i]" using list3 assms(3) by blast
  have u: "[0..<3] = [0, 1, 2 :: nat]" by (simp add: upt_rec)
  have "send_eoi 8 t = t\<lparr>outs := outs t @ [(EOI OR 0, 0xA0), (EOI OR 2, 0x20)]\<rparr>" for t
    by (simp add: send_eoi_def outb_def MASTER_8259_PORT_def SLAVE_8259_PORT_def)
  then show ?thesis
    by (simp add: rtc_handler_def rtc_tick_def ticked_def u c f g outb_def RTC_PORT_def)
qed

lemma ticked_nth:
  "t < 3 \<Longrightarrow> curr_count (ticked s) ! t = (if curr_count s ! t = 0 then freq_count s ! t else curr_count s ! t - 1)"
  "t < 3 \<Longrightarrow> rtc_flag (ticked s) ! t = (if curr_count s ! t = 0 then 1 else rtc_flag s ! t)"
  "freq_count (ticked s) = freq_count s" "curr_freq (ticked s) = curr_freq s"
  "scheduled_term (ticked s) = scheduled_term s"
  by (simp_all add: ticked_def)

lemma rtc_ok_ticked [wf_intros]: "rtc_ok s \<Longrightarrow> rtc_ok (ticked s)"
proof -
  assume ok: "rtc_ok s"
  have "0 \<le> curr_count (ticked s) ! t" if "t < 3" for t
  proof -
    have "0 \<le> curr_count s ! t" "1 \<le> freq_count s ! t" using ok that by (simp_all add: rtc_ok_def)
    then show ?thesis using that by (simp add: ticked_nth)
  qed
  then show "rtc_ok (ticked s)"
    using ok by (simp add: rtc_ok_def ticked_nth) (simp add: ticked_def)
qed

lemma rtc_handler_ok: "rtc_ok s \<Longrightarrow> rtc_handler s = Some (ticked s)"
  by (simp add: rtc_ok_def rtc_handler_eq)

lemma rtc_wait:
  assumes "rtc_ok s" "t = scheduled_term s" "rtc_flag s ! t \<noteq> 1" "c = nat (curr_count s ! t)"
  shows "wait_until (\<lambda>s. rtc_flag s ! scheduled_term s = 1) (replicate n rtc_handler) s
    = (if n \<le> c then None else Some ((ticked ^^ Suc c) s))"
  using assms
proof (induction n arbitrary: s c)
  case (Suc n)
  have t: "t < 3" "0 \<le> curr_count s ! t" using Suc.prems by (simp_all add: rtc_ok_def)
  have h: "rtc_handler s = Some (ticked s)" using rtc_handler_ok Suc.prems(1) .
  show ?case
  proof (cases "curr_count s ! t = 0")
    case True
    then have "rtc_flag (ticked s) ! scheduled_term (ticked s) = 1"
      using t Suc.prems(2) by (simp add: ticked_nth)
    then show ?thesis using Suc.prems(2-4) True h by simp
  next
    case False
    have "c \<noteq> 0" using False t Suc.prems(4) by simp
    then obtain d where d: "c = Suc d" using not0_implies_Suc by blast
    then have d': "d = nat (curr_count (ticked s) ! t)"
      using Suc.prems(4) False t by (simp add: ticked_nth)
    have "rtc_flag (ticked s) ! t \<noteq> 1" "t = scheduled_term (ticked s)"
      using Suc.prems(2,3) False t by (simp_all add: ticked_nth)
    from Suc.IH [OF rtc_ok_ticked [OF Suc.prems(1)] this(2,1) d'] show ?thesis
      using Suc.prems(2,3) h d by (simp add: funpow_swap1)
  qed
qed simp

lemma ticked_pow:
  assumes "rtc_ok s" "t < 3" "k \<le> nat (curr_count s ! t)"
  shows "rtc_ok ((ticked ^^ k) s) \<and> curr_count ((ticked ^^ k) s) ! t = curr_count s ! t - int k
    \<and> freq_count ((ticked ^^ k) s) = freq_count s"
  using assms
proof (induction k)
  case (Suc k)
  have "0 \<le> curr_count s ! t" using assms(1,2) by (simp add: rtc_ok_def)
  then show ?case using Suc rtc_ok_ticked by (auto simp: ticked_nth)
qed simp

section \<open>Runs of the clock\<close>

text \<open>Interrupts and system calls, in any order, from any scheduled terminal.\<close>

inductive rtc_step :: "kernel \<Rightarrow> kernel \<Rightarrow> bool" where
  tick: "rtc_handler s = Some s' \<Longrightarrow> rtc_step s s'"
| open_clock: "rtc_open s = Some (s', r) \<Longrightarrow> rtc_step s s'"
| write_rate: "rtc_write buf n s = Some (s', r) \<Longrightarrow> rtc_step s s'"
| read_clock: "rtc_read irqs s = Some (s', r) \<Longrightarrow> set irqs \<subseteq> {rtc_handler} \<Longrightarrow> rtc_step s s'"
| schedule: "t < 3 \<Longrightarrow> rtc_step s (s\<lparr>scheduled_term := t\<rparr>)"

inductive_cases rtc_stepE: "rtc_step s s'"

lemma rtc_write_cases:
  assumes "rtc_ok s" "rtc_write buf n s = Some (s', r)"
  obtains (rejected) "s' = s" "r = -1"
  | (accepted) f where "sint (ld32 (vmem s) buf) = f" "\<exists>k \<le> 10. f = 2 ^ k" "buf \<noteq> 0" "n = 4"
      "s' = s\<lparr>curr_freq := (curr_freq s)[scheduled_term s := f],
             freq_count := (freq_count s)[scheduled_term s := 1024 div f]\<rparr>" "r = 0"
proof -
  let ?f = "sint (ld32 (vmem s) buf)"
  show ?thesis
  proof (cases "buf = 0 \<or> n \<noteq> 4 \<or> ?f < 1 \<or> ?f > 1024 \<or> halve ?f \<noteq> Some 1")
    case True
    then have "s' = s \<and> r = -1"
      using assms(2) halve_total [of ?f]
      by (auto simp: rtc_write_def Let_def split: if_splits Option.bind_splits)
    then show ?thesis using rejected by blast
  next
    case False
    then obtain k where k: "k \<le> 10" "?f = 2 ^ k"
      using halve_one_iff [of ?f] power2_below_1024 [of ?f] by auto
    have "(2 :: int) ^ (10 - k) = 1024 div 2 ^ k"
      using k(1) by (simp add: power_diff)
    then have "count_for ?f = Some (1024 div ?f)" using k count_for_power by simp
    then show ?thesis
      using False assms accepted [of ?f] k by (auto simp: rtc_write_def rtc_ok_def Let_def)
  qed
qed

lemma rtc_step_ok: "rtc_step s s' \<Longrightarrow> rtc_ok s \<Longrightarrow> rtc_ok s'"
proof (induction rule: rtc_step.induct)
  case (tick s s')
  then show ?case using rtc_handler_ok rtc_ok_ticked by auto
next
  case (open_clock s s' r)
  then show ?case
    by (auto simp: rtc_open_def rtc_ok_def nth_list_update)
next
  case (write_rate buf n s s' r)
  from write_rate(2,1) show ?case
  proof (cases rule: rtc_write_cases)
    case (accepted f)
    obtain k where k: "k \<le> 10" "f = 2 ^ k" using accepted(2) by blast
    have "(2 :: int) ^ (10 - k) = 1024 div 2 ^ k" using k(1) by (simp add: power_diff)
    moreover have "(2 :: int) ^ 10 = 2 ^ (10 - k) * 2 ^ k" using k(1) by (simp flip: power_add)
    ultimately have "1024 div f * f = 1024" "1 \<le> 1024 div f"
      using k(2) one_le_power [of "2 :: int" "10 - k"] by simp_all
    then show ?thesis using write_rate(2) accepted by (auto simp: rtc_ok_def nth_list_update)
  qed (use write_rate in simp)
next
  case (read_clock irqs s s' r)
  then obtain fl where w: "wait_until (\<lambda>s. rtc_flag s ! scheduled_term s = 1) irqs (s\<lparr>rtc_flag := fl\<rparr>) = Some s'"
    "length fl = 3"
    using aset_length by (fastforce simp: rtc_read_def rtc_ok_def split: Option.bind_splits)
  have "rtc_ok (s\<lparr>rtc_flag := fl\<rparr>)" using read_clock(3) w(2) by (simp add: rtc_ok_def)
  then show ?case
  proof (rule wait_until_invariant [OF w(1)])
    fix f s s' assume "f \<in> set irqs" "rtc_ok s" "f s = Some s'"
    moreover from this have "f = rtc_handler" using read_clock(2) by blast
    ultimately show "rtc_ok s'" using rtc_handler_ok rtc_ok_ticked by auto
  qed
next
  case (schedule t s)
  then show ?case by (simp add: rtc_ok_def)
qed

section \<open>Properties\<close>

text \<open>C34: in every run of clock interrupts, opens, rate changes, reads and schedule changes from
  the kernel's start, every virtual clock keeps a count between interrupts that matches its
  rate, \<open>freq_count * curr_freq = 1024\<close>, and the counters stay in range.\<close>

theorem clocks_consistent:
  assumes "rtc_step\<^sup>*\<^sup>* boot_state s" "t < 3"
  shows "freq_count s ! t * curr_freq s ! t = 1024 \<and> 0 \<le> curr_count s ! t \<and> scheduled_term s < 3"
proof -
  have "rtc_ok boot_state" by (auto simp: rtc_ok_def boot_state_def less3)
  with assms(1) have "rtc_ok s" by (induction rule: rtranclp_induct) (auto intro: rtc_step_ok)
  then show ?thesis using assms(2) by (simp add: rtc_ok_def)
qed

theorem clocks_consistent_witness:
  "\<exists>s. rtc_step\<^sup>*\<^sup>* boot_state s \<and> freq_count s ! 1 = 512 \<and> freq_count s ! 1 * curr_freq s ! 1 = 1024"
proof -
  let ?a = "boot_state\<lparr>scheduled_term := 1\<rparr>"
  let ?b = "?a\<lparr>freq_count := [1, 512, 1], curr_freq := [1024, 2, 1024]\<rparr>"
  have "rtc_step boot_state ?a" by (rule rtc_step.schedule) simp
  moreover have "rtc_step ?a ?b"
    by (rule rtc_step.open_clock [of _ _ 0]) (simp add: rtc_open_def boot_state_def)
  ultimately have r: "rtc_step\<^sup>*\<^sup>* boot_state ?b" by simp
  have "freq_count ?b ! 1 * curr_freq ?b ! 1 = 1024"
    by (rule conjunct1 [OF clocks_consistent [OF r]]) simp
  then show ?thesis using r by (intro exI [of _ ?b]) simp
qed

text \<open>\<open>rtc_write\<close> accepts exactly the powers of two up to 1024, given as a four-byte argument
  at a non-null address: then it stores the rate and the matching count for the scheduled
  terminal's clock alone and returns 0; in every other case it returns -1 and changes nothing.
  Its halving loop always ends.\<close>

theorem rtc_write_rates:
  assumes "rtc_ok s"
  shows "rtc_write buf n s =
    (let f = sint (ld32 (vmem s) buf) in
     if buf \<noteq> 0 \<and> n = 4 \<and> f \<le> 1024 \<and> (\<exists>k. f = 2 ^ k)
     then Some (s\<lparr>curr_freq := (curr_freq s)[scheduled_term s := f],
        freq_count := (freq_count s)[scheduled_term s := 1024 div f]\<rparr>, 0)
     else Some (s, -1))"
proof (cases "buf = 0 \<or> n \<noteq> 4 \<or> sint (ld32 (vmem s) buf) < 1 \<or> sint (ld32 (vmem s) buf) > 1024")
  case True
  have "\<not> (2 :: int) ^ k < 1" for k by (simp add: not_less)
  then show ?thesis using True by (auto simp: rtc_write_def Let_def)
next
  case False
  let ?f = "sint (ld32 (vmem s) buf)"
  obtain m where m: "halve ?f = Some m" using halve_total [of ?f] False by auto
  show ?thesis
  proof (cases "m = 1")
    case True
    then have p: "\<exists>k. ?f = 2 ^ k" using halve_one_iff [of ?f] False m by auto
    obtain k where k: "k \<le> 10" "?f = 2 ^ k" using power2_below_1024 [OF p] False by (auto simp: not_less)
    have "(2 :: int) ^ (10 - k) = 1024 div 2 ^ k" using k(1) by (simp add: power_diff)
    then have "count_for ?f = Some (1024 div ?f)" using k count_for_power by simp
    then show ?thesis using False m True p assms by (simp add: rtc_write_def rtc_ok_def Let_def)
  next
    case no: False
    then have "\<not> (\<exists>k. ?f = 2 ^ k)" using halve_one_iff [of ?f] False m by auto
    then show ?thesis using False m no by (simp add: rtc_write_def Let_def)
  qed
qed

definition demo_rate :: "u32 \<Rightarrow> kernel" where
  "demo_rate f = boot_state\<lparr>lowmem := st32 (\<lambda>a. 0) 0x100 f\<rparr>"

lemma demo_rate_ok: "rtc_ok (demo_rate f)" "ld32 (vmem (demo_rate f)) 0x100 = f"
proof -
  show "rtc_ok (demo_rate f)" by (auto simp: demo_rate_def rtc_ok_def boot_state_def less3)
  have "ld32 (vmem (demo_rate f)) 0x100 = ld32 (st32 (\<lambda>a. 0) 0x100 f) 0x100"
    by (simp add: ld32_def vmem_def in_user_page_def USR_MEM_VIRT_ADDR_def MB4_def demo_rate_def)
  then show "ld32 (vmem (demo_rate f)) 0x100 = f" by (simp only: ld32_st32_same)
qed

theorem rtc_write_rates_witness:
  "(\<exists>s'. rtc_write 0x100 4 (demo_rate 32) = Some (s', 0) \<and> freq_count s' ! 0 = 32)
    \<and> rtc_write 0x100 4 (demo_rate 48) = Some (demo_rate 48, -1)"
proof
  have "\<exists>k. (32 :: int) = 2 ^ k" by (rule exI [of _ 5]) simp
  moreover have "scheduled_term (demo_rate 32) = 0" "length (freq_count (demo_rate 32)) = 3"
    by (simp_all add: demo_rate_def boot_state_def)
  ultimately show "\<exists>s'. rtc_write 0x100 4 (demo_rate 32) = Some (s', 0) \<and> freq_count s' ! 0 = 32"
    unfolding rtc_write_rates [OF demo_rate_ok(1)] demo_rate_ok(2) by simp
  have "halve 48 = Some 3"
    using halve_even [of 24] halve_even [of 12] halve_even [of 6] halve_even [of 3] by simp
  then have "\<not> (\<exists>k. (48 :: int) = 2 ^ k)" using halve_one_iff [of 48] by simp
  then show "rtc_write 0x100 4 (demo_rate 48) = Some (demo_rate 48, -1)"
    unfolding rtc_write_rates [OF demo_rate_ok(1)] demo_rate_ok(2) by simp
qed



end
