(* ===== verification/Syscalls.thy ===== *)
theory Syscalls
  imports Terminal Rtc FileProps
begin

text \<open>
  The system calls on files and memory, \<open>student-distrib/systemCall.c\<close>: open, close, read, write,
  getargs, vidmap and the two signal stubs. \<open>dentry\<close> is the address of the stack variable of
  that name, \<open>irqs\<close> the interrupts that arrive while a read waits. A call through a jump table
  nobody has filled is \<open>None\<close>.
\<close>

section \<open>Process control blocks\<close>

definition the_pcb :: "kernel \<Rightarrow> PCB option" where
  "the_pcb s = do { p \<leftarrow> aget (curr_pid_for_term s) (scheduled_term s); aget (pcbs s) p }"

definition put_pcb :: "nat \<Rightarrow> PCB \<Rightarrow> kernel \<Rightarrow> kernel option" where
  "put_pcb p pcb s = do { ps \<leftarrow> aset (pcbs s) p pcb; Some (s\<lparr>pcbs := ps\<rparr>) }"

definition get_fd :: "nat \<Rightarrow> kernel \<Rightarrow> file_descriptor option" where
  "get_fd fd s = do { pcb \<leftarrow> the_pcb s; aget (fdArray pcb) fd }"

definition put_fd :: "nat \<Rightarrow> file_descriptor \<Rightarrow> kernel \<Rightarrow> kernel option" where
  "put_fd fd f s = do {
     pcb \<leftarrow> the_pcb s;
     fds \<leftarrow> aset (fdArray pcb) fd f;
     put_pcb (current_pid s) (pcb\<lparr>fdArray := fds\<rparr>) s
   }"

section \<open>The drivers behind a jump table\<close>

fun call_open :: "open_fn \<Rightarrow> kernel \<Rightarrow> (kernel \<times> i32) option" where
  "call_open Terminal_open s = terminal_open s"
| "call_open Rtc_open s = rtc_open s"
| "call_open Open_directory s = Some (s, open_directory)"
| "call_open Open_file s = Some (s, open_file)"
| "call_open Open_wild s = None"

fun call_close :: "close_fn \<Rightarrow> kernel \<Rightarrow> (kernel \<times> i32) option" where
  "call_close Terminal_close s = terminal_close s"
| "call_close Rtc_close s = Some (s, rtc_close)"
| "call_close Close_directory s = Some (s, close_directory)"
| "call_close Close_file s = Some (s, close_file)"
| "call_close Close_wild s = None"

fun call_read :: "read_fn \<Rightarrow> nat \<Rightarrow> u32 \<Rightarrow> i32 \<Rightarrow> (kernel \<Rightarrow> kernel option) list \<Rightarrow> kernel
    \<Rightarrow> (kernel \<times> i32) option" where
  "call_read Terminal_read fd buf nbytes irqs s = terminal_read buf nbytes irqs s"
| "call_read Rtc_read fd buf nbytes irqs s = rtc_read irqs s"
| "call_read Read_directory fd buf nbytes irqs s = do {
     f \<leftarrow> get_fd fd s;
     (m, f, r) \<leftarrow> read_directory (vmem s) (boot_block s) f buf nbytes;
     s \<leftarrow> put_fd fd f (set_vmem m s);
     Some (s, r)
   }"
| "call_read Read_file fd buf nbytes irqs s = do {
     f \<leftarrow> get_fd fd s;
     let (m, f, r) = read_file (vmem s) (boot_block s) f buf nbytes;
     s \<leftarrow> put_fd fd f (set_vmem m s);
     Some (s, r)
   }"
| "call_read Read_wild fd buf nbytes irqs s = None"

fun call_write :: "write_fn \<Rightarrow> u32 \<Rightarrow> i32 \<Rightarrow> kernel \<Rightarrow> (kernel \<times> i32) option" where
  "call_write Terminal_write buf nbytes s = terminal_write buf nbytes s"
| "call_write Rtc_write buf nbytes s = rtc_write buf nbytes s"
| "call_write Write_directory buf nbytes s = Some (s, write_directory)"
| "call_write Write_file buf nbytes s = Some (s, write_file)"
| "call_write Write_wild buf nbytes s = None"

section \<open>System calls on descriptors\<close>

definition sys_read :: "i32 \<Rightarrow> u32 \<Rightarrow> i32 \<Rightarrow> (kernel \<Rightarrow> kernel option) list \<Rightarrow> kernel
    \<Rightarrow> (kernel \<times> i32) option" where
  "sys_read fd buf nbytes irqs s =
     (if fd = 1 then Some (s, -1)
      else if buf = 0 then Some (s, -1)
      else if sint fd < 0 \<or> sint fd > 7 then Some (s, -1)
      else do {
        let s = sti s;
        f \<leftarrow> get_fd (unat fd) s;
        if flags f = full then call_read (readFunc (jump_table f)) (unat fd) buf nbytes irqs s
        else Some (s, -1)
      })"

definition sys_write :: "i32 \<Rightarrow> u32 \<Rightarrow> i32 \<Rightarrow> kernel \<Rightarrow> (kernel \<times> i32) option" where
  "sys_write fd buf nbytes s =
     (if buf = 0 then Some (s, -1)
      else let s = sti s in
        if sint fd \<le> 0 \<or> sint fd > 7 then Some (s, -1)
        else do {
          f \<leftarrow> get_fd (unat fd) s;
          if flags f = full then call_write (writeFunc (jump_table f)) buf nbytes s
          else do {
            (s, n) \<leftarrow> printf [CHR 0x0A] [] 0 s;
            Some (s, -1)
          }
        })"

text \<open>The jump table \<open>open\<close> installs for a file type; for another type it stays as it was.\<close>

definition driver_table :: "i32 \<Rightarrow> jtable \<Rightarrow> jtable" where
  "driver_table t old =
     (if t = 0 then \<lparr>openFunc = Rtc_open, closeFunc = Rtc_close, readFunc = Rtc_read, writeFunc = Rtc_write\<rparr>
      else if t = 1 then \<lparr>openFunc = Open_directory, closeFunc = Close_directory,
        readFunc = Read_directory, writeFunc = Write_directory\<rparr>
      else if t = 2 then \<lparr>openFunc = Open_file, closeFunc = Close_file, readFunc = Read_file,
        writeFunc = Write_file\<rparr>
      else old)"

text \<open>The first index with the given value, as the code's search loops find it.\<close>

fun first_index :: "'a \<Rightarrow> 'a list \<Rightarrow> nat option" where
  "first_index v [] = None"
| "first_index v (x # xs) = (if x = v then Some 0 else map_option Suc (first_index v xs))"

definition sys_open :: "u32 \<Rightarrow> u32 \<Rightarrow> kernel \<Rightarrow> (kernel \<times> i32) option" where
  "sys_open filename dentry s =
     (if filename = 0 then Some (s, -1)
      else do {
        (m, valid) \<leftarrow> read_dentry_by_name (vmem s) (boot_block s) filename dentry;
        let s = set_vmem m s;
        if valid = -1 then Some (s, -1)
        else do {
          pcb \<leftarrow> the_pcb s;
          case first_index empty (openIndexes pcb) of
            None \<Rightarrow> Some (s, -1)
          | Some i \<Rightarrow> do {
              let openindex = i + 2;
              f \<leftarrow> aget (fdArray pcb) openindex;
              let f = f\<lparr>flags := full, inode_check := inode_num (vmem s) dentry, file_position := 0,
                        jump_table := driver_table (filetype (vmem s) dentry) (jump_table f)\<rparr>;
              s \<leftarrow> put_pcb (current_pid s)
                (pcb\<lparr>openIndexes := (openIndexes pcb)[i := full], terminal := int (currentTerminal s),
                     fdArray := (fdArray pcb)[openindex := f]\<rparr>) s;
              (s, r) \<leftarrow> call_open (openFunc (jump_table f)) s;
              Some (s, of_nat openindex)
            }
        }
      })"

definition sys_close :: "i32 \<Rightarrow> kernel \<Rightarrow> (kernel \<times> i32) option" where
  "sys_close fd s = do {
     pcb \<leftarrow> the_pcb s;
     if sint fd < 2 \<or> sint fd > 7 then Some (s, -1)
     else do {
       f \<leftarrow> aget (fdArray pcb) (unat fd);
       if flags f = empty then Some (s, -1)
       else do {
         idx \<leftarrow> aset (openIndexes pcb) (unat fd - 2) empty;
         let f = f\<lparr>flags := empty, file_position := 0\<rparr>;
         s \<leftarrow> put_pcb (current_pid s)
           (pcb\<lparr>openIndexes := idx, fdArray := (fdArray pcb)[unat fd := f]\<rparr>) s;
         call_close (closeFunc (jump_table f)) s
       }
     }
   }"

section \<open>Arguments, video memory, signals\<close>

definition sys_getargs :: "u32 \<Rightarrow> i32 \<Rightarrow> kernel \<Rightarrow> (kernel \<times> i32) option" where
  "sys_getargs buf nbytes s =
     (if buf = 0 then Some (s, -1)
      else do {
        c \<leftarrow> aget (args s) 0;
        if c = 0 then Some (s, -1)
        else Some (set_vmem (fold (\<lambda>i m. m(buf + of_nat i := if i < 128 then args s ! i else 0))
                    [0..<nat (sint nbytes)] (vmem s)) s, 0)
      })"

text \<open>
  A store at a user address: the bytes of the 4 KB page at 132 MB are those of the video page
  that \<open>video_page_table[0]\<close> maps.
\<close>

definition store_user :: "u32 \<Rightarrow> u8 \<Rightarrow> kernel \<Rightarrow> kernel" where
  "store_user a v s =
     (if a - (USR_MEM_VIRT_ADDR + MB4) < 4096
      then let p = unat (getf p_address (video_page_table s ! 0)) in
        s\<lparr>vram := (vram s)(p := (vram s p)(unat (a - (USR_MEM_VIRT_ADDR + MB4)) := v))\<rparr>
      else set_vmem ((vmem s)(a := v)) s)"

definition sys_vidmap :: "u32 \<Rightarrow> u32 \<Rightarrow> kernel \<Rightarrow> kernel \<times> i32" where
  "sys_vidmap vpt screen_start s =
     (if screen_start = 0 then (s, -1)
      else if screen_start < USR_MEM_VIRT_ADDR \<or> screen_start > USR_MEM_VIRT_ADDR + MB4 then (s, -1)
      else
        let s = s\<lparr>page_directory := (page_directory s)[VID_PAGE_IDX :=
                   setf KB_pt_address (drop_bit 12 vpt) (page_directory s ! VID_PAGE_IDX)]\<rparr>;
            s = (if int (scheduled_term s) = int (currentTerminal s) - 1
                 then set_vidmap_page (VIDEO div FourKB) s
                 else set_vidmap_page ((VIDEO + (scheduled_term s + 1) * FourKB) div FourKB) s);
            v = USR_MEM_VIRT_ADDR + MB4;
            s = fold (\<lambda>i. store_user (screen_start + of_nat i) (ucast (drop_bit (8 * i) v))) [0..<4] s
        in (s, 0))"

definition sys_set_handler :: "i32 \<Rightarrow> u32 \<Rightarrow> i32" where "sys_set_handler signum handler = -1"
definition sys_sigreturn :: i32 where "sys_sigreturn = -1"

end
