(* ===== verification/Descriptors.thy ===== *)
theory Descriptors
  imports Syscalls
begin

text \<open>
  What the system calls on descriptors guarantee. Each driver meets the contract \<open>driver\<close>: it
  leaves the descriptor tables of every process as they are. On it rest the invariant of the
  tables and the specification of open, close and read.
\<close>

section \<open>The part of a process the drivers must not touch\<close>

definition fd_shape :: "file_descriptor \<Rightarrow> jtable \<times> i32 \<times> i32" where
  "fd_shape f = (jump_table f, inode_check f, flags f)"

definition pcb_shape :: "PCB \<Rightarrow> PCB \<times> (jtable \<times> i32 \<times> i32) list" where
  "pcb_shape pcb = (pcb\<lparr>fdArray := []\<rparr>, map fd_shape (fdArray pcb))"

type_synonym sizes = "nat \<times> nat \<times> nat \<times> nat \<times> nat \<times> bool \<times> int list \<times> int \<times> u32"

definition proc_sizes :: "kernel \<Rightarrow> sizes" where
  "proc_sizes s = (length (page_directory s), length (enter_flag s), length (terminal_switch_array s),
     length (args s), curr_terminal_idx s, 1 \<le> currentTerminal s \<and> currentTerminal s \<le> 3,
     terminalInstantiated s, doneInstantiating s, boot_block s)"

definition proc_shape ::
  "kernel \<Rightarrow> (PCB \<times> (jtable \<times> i32 \<times> i32) list) list \<times> nat list \<times> nat \<times> int list \<times> nat list
     \<times> sizes" where
  "proc_shape s = (map pcb_shape (pcbs s), curr_pid_for_term s, scheduled_term s, pcb_arr s,
     parent_pid_for_term s, proc_sizes s)"

lemma proc_shape_upd [simp]:
  "proc_shape (s\<lparr>outs := a\<rparr>) = proc_shape s" "proc_shape (s\<lparr>iflag := b\<rparr>) = proc_shape s"
  "proc_shape (s\<lparr>termReadFlag := c\<rparr>) = proc_shape s"
  "aset (enter_flag s) n v = Some d \<Longrightarrow> proc_shape (s\<lparr>enter_flag := d\<rparr>) = proc_shape s"
  "proc_shape (s\<lparr>term_buf := e\<rparr>) = proc_shape s" "proc_shape (s\<lparr>rtc_flag := f\<rparr>) = proc_shape s"
  "proc_shape (s\<lparr>curr_count := g\<rparr>) = proc_shape s" "proc_shape (s\<lparr>freq_count := h\<rparr>) = proc_shape s"
  "proc_shape (s\<lparr>curr_freq := i\<rparr>) = proc_shape s"
  "aset (terminal_switch_array s) q w = Some j \<Longrightarrow> proc_shape (s\<lparr>terminal_switch_array := j\<rparr>) = proc_shape s"
  "proc_shape (s\<lparr>terminal_print_flag := k\<rparr>) = proc_shape s" "proc_shape (sti s) = proc_shape s"
  "proc_shape (cli s) = proc_shape s" "proc_shape (set_vmem m s) = proc_shape s"
  by (auto simp: proc_shape_def proc_sizes_def sti_def cli_def set_vmem_def aset_def split: if_splits)

lemma con_eq_proc_shape: "con_eq s s' \<Longrightarrow> proc_shape s' = proc_shape s"
  by (simp add: proc_shape_def proc_sizes_def con_eq_fields)

text \<open>The descriptor tables: an index is taken exactly when its descriptor is in use, a
  descriptor in use has all its functions, and a table is set as a whole.\<close>

definition wild :: "jtable \<Rightarrow> bool" where
  "wild j \<longleftrightarrow> openFunc j = Open_wild \<or> closeFunc j = Close_wild \<or> readFunc j = Read_wild
     \<or> writeFunc j = Write_wild"

definition fds_ok :: "PCB \<Rightarrow> bool" where
  "fds_ok pcb \<longleftrightarrow> length (fdArray pcb) = 8 \<and> length (openIndexes pcb) = 6
     \<and> (\<forall>i < 6. openIndexes pcb ! i \<in> {empty, full} \<and> flags (fdArray pcb ! (i + 2)) = openIndexes pcb ! i)
     \<and> (\<forall>f \<in> set (fdArray pcb). (flags f = full \<longrightarrow> \<not> wild (jump_table f))
          \<and> (wild (jump_table f) \<longrightarrow> openFunc (jump_table f) = Open_wild))"

definition procs_ok :: "kernel \<Rightarrow> bool" where
  "procs_ok s \<longleftrightarrow> length (pcbs s) = 6 \<and> length (curr_pid_for_term s) = 3 \<and> scheduled_term s < 3
     \<and> (\<forall>p \<in> set (curr_pid_for_term s). p < 6) \<and> (\<forall>pcb \<in> set (pcbs s). fds_ok pcb)
     \<and> 1 \<le> currentTerminal s \<and> currentTerminal s \<le> 3"

lemma fd_shape_eq: "fd_shape f = fd_shape g \<longleftrightarrow> jump_table f = jump_table g \<and> inode_check f = inode_check g \<and> flags f = flags g"
  by (auto simp: fd_shape_def)

lemma pcb_shape_fds:
  assumes "pcb_shape p = pcb_shape q"
  shows "openIndexes p = openIndexes q" "length (fdArray p) = length (fdArray q)"
    "i < length (fdArray p) \<Longrightarrow> fd_shape (fdArray p ! i) = fd_shape (fdArray q ! i)"
proof -
  have a: "p\<lparr>fdArray := []\<rparr> = q\<lparr>fdArray := []\<rparr>" and b: "map fd_shape (fdArray p) = map fd_shape (fdArray q)"
    using assms by (simp_all add: pcb_shape_def)
  show "openIndexes p = openIndexes q" using a [THEN arg_cong, of openIndexes] by simp
  show l: "length (fdArray p) = length (fdArray q)" using b map_eq_imp_length_eq by blast
  show "i < length (fdArray p) \<Longrightarrow> fd_shape (fdArray p ! i) = fd_shape (fdArray q ! i)"
    using b l by (metis nth_map)
qed

lemma pcb_shape_ok: "pcb_shape p = pcb_shape q \<Longrightarrow> fds_ok p \<Longrightarrow> fds_ok q"
  using pcb_shape_fds [of p q] unfolding fds_ok_def all_set_conv_all_nth
  by (auto simp: fd_shape_eq)

lemma proc_shape_ok:
  assumes "proc_shape s' = proc_shape s" "procs_ok s"
  shows "procs_ok s'"
proof -
  have m: "map pcb_shape (pcbs s') = map pcb_shape (pcbs s)"
    "curr_pid_for_term s' = curr_pid_for_term s" "scheduled_term s' = scheduled_term s"
    "1 \<le> currentTerminal s' \<and> currentTerminal s' \<le> 3 \<longleftrightarrow> 1 \<le> currentTerminal s \<and> currentTerminal s \<le> 3"
    using assms(1) by (simp_all add: proc_shape_def proc_sizes_def)
  have l: "length (pcbs s') = length (pcbs s)" using m(1) map_eq_imp_length_eq by blast
  have "fds_ok (pcbs s' ! i)" if "i < length (pcbs s)" for i
  proof (rule pcb_shape_ok)
    show "pcb_shape (pcbs s ! i) = pcb_shape (pcbs s' ! i)" using m(1) l that by (metis nth_map)
    show "fds_ok (pcbs s ! i)" using assms(2) that by (simp add: procs_ok_def)
  qed
  then show ?thesis using assms(2) m l by (auto simp: procs_ok_def all_set_conv_all_nth)
qed

section \<open>The contract of a driver\<close>

locale driver =
  fixes call :: "kernel \<Rightarrow> (kernel \<times> i32) option"
  assumes shape: "call s = Some (s', r) \<Longrightarrow> proc_shape s' = proc_shape s"
begin

lemma keeps_ok: "call s = Some (s', r) \<Longrightarrow> procs_ok s \<Longrightarrow> procs_ok s'"
  using shape proc_shape_ok by blast

lemma keeps_current: "call s = Some (s', r) \<Longrightarrow> current_pid s' = current_pid s"
  using shape by (fastforce simp: proc_shape_def current_pid_def)

end

interpretation terminal_open: driver terminal_open
  by unfold_locales (auto simp: terminal_open_def Let_def split: Option.bind_splits)

interpretation terminal_close: driver terminal_close
  by unfold_locales (auto simp: terminal_close_def Let_def split: Option.bind_splits)

interpretation rtc_open: driver rtc_open
  by unfold_locales (auto simp: rtc_open_def split: Option.bind_splits)

interpretation rtc_write: driver "rtc_write buf n" for buf n
  by unfold_locales
    (auto simp: rtc_write_def Let_def split: Option.bind_splits if_splits option.splits)

interpretation terminal_write: driver "terminal_write buf n" for buf n
proof
  fix s s' r assume w: "terminal_write buf n s = Some (s', r)"
  have step: "con_eq s s'" if "write_step buf i s = Some s'" for i s s'
    using that putc.frame by (auto simp: write_step_def Let_def split: if_splits)
  have "con_eq s t" if "foldM (write_step buf) xs s = Some t" for xs t
    by (rule foldM_con_eq [OF _ that]) (rule step)
  then have "con_eq s s'"
    using w by (auto simp: terminal_write_def split: if_splits Option.bind_splits)
  then show "proc_shape s' = proc_shape s" by (rule con_eq_proc_shape)
qed

interpretation open_call: driver "call_open g" for g
proof
  fix s s' r assume "call_open g s = Some (s', r)"
  then show "proc_shape s' = proc_shape s"
    using terminal_open.shape rtc_open.shape by (cases g) auto
qed

interpretation close_call: driver "call_close g" for g
proof
  fix s s' r assume "call_close g s = Some (s', r)"
  then show "proc_shape s' = proc_shape s" using terminal_close.shape by (cases g) auto
qed

interpretation write_call: driver "call_write g buf n" for g buf n
proof
  fix s s' r assume "call_write g buf n s = Some (s', r)"
  then show "proc_shape s' = proc_shape s"
    using rtc_write.shape terminal_write.shape by (cases g) auto
qed

text \<open>A read waits for interrupts: their handlers have to keep to the contract as well.\<close>

definition quiet_irqs :: "(kernel \<Rightarrow> kernel option) list \<Rightarrow> bool" where
  "quiet_irqs irqs \<longleftrightarrow>
     (\<forall>f \<in> set irqs. \<forall>s s'. procs_ok s \<and> f s = Some s' \<longrightarrow> proc_shape s' = proc_shape s)"

lemma wait_shape:
  assumes "wait_until P irqs s = Some s'" "quiet_irqs irqs" "procs_ok s"
  shows "proc_shape s' = proc_shape s"
proof -
  have "procs_ok s' \<and> proc_shape s' = proc_shape s"
  proof (rule wait_until_invariant [OF assms(1)])
    fix f t u assume f: "f \<in> set irqs" "f t = Some u" and t: "procs_ok t \<and> proc_shape t = proc_shape s"
    then have "proc_shape u = proc_shape t" using assms(2) unfolding quiet_irqs_def by blast
    then show "procs_ok u \<and> proc_shape u = proc_shape s" using proc_shape_ok [of u t] t by simp
  qed (use assms(3) in simp)
  then show ?thesis ..
qed

lemma map_update_same: "i < length xs \<Longrightarrow> f x = f (xs ! i) \<Longrightarrow> map f (xs[i := x]) = map f xs"
  by (metis list_update_id map_update)

lemma put_fd_shape:
  assumes "put_fd fd f s = Some s'" "get_fd fd s = Some g" "fd_shape f = fd_shape g"
  shows "proc_shape s' = proc_shape s"
proof -
  obtain pcb where p: "the_pcb s = Some pcb" "fd < length (fdArray pcb)" "g = fdArray pcb ! fd"
    using assms(2) by (auto simp: get_fd_def aget_def split: Option.bind_splits if_splits)
  then have c: "current_pid s < length (pcbs s)" "pcb = pcbs s ! current_pid s"
    by (auto simp: the_pcb_def aget_def current_pid_def split: Option.bind_splits if_splits)
  have "map fd_shape ((fdArray pcb)[fd := f]) = map fd_shape (fdArray pcb)"
    using p(2,3) assms(3) by (intro map_update_same) simp_all
  then have "pcb_shape (pcb\<lparr>fdArray := (fdArray pcb)[fd := f]\<rparr>) = pcb_shape pcb"
    by (simp add: pcb_shape_def)
  moreover have "s' = s\<lparr>pcbs := (pcbs s)[current_pid s := pcb\<lparr>fdArray := (fdArray pcb)[fd := f]\<rparr>]\<rparr>"
    using assms(1) p c by (simp add: put_fd_def put_pcb_def)
  ultimately show ?thesis using c map_update_same [of "current_pid s" "pcbs s" pcb_shape]
    by (simp add: proc_shape_def proc_sizes_def)
qed

lemma read_file_shape: "read_file m bb f buf n = (m', f', r) \<Longrightarrow> fd_shape f' = fd_shape f"
  by (auto simp: read_file_def Let_def fd_shape_def split: if_splits prod.splits)

lemma read_directory_shape:
  "read_directory m bb f buf n = Some (m', f', r) \<Longrightarrow> fd_shape f' = fd_shape f"
  by (auto simp: read_directory_def Let_def fd_shape_def split: if_splits Option.bind_splits)

lemma call_read_shape:
  assumes "call_read g fd buf n irqs s = Some (s', r)" "quiet_irqs irqs" "procs_ok s"
  shows "proc_shape s' = proc_shape s"
proof (cases g)
  case Terminal_read
  have "procs_ok (s\<lparr>termReadFlag := fl\<rparr>)" for fl by (rule proc_shape_ok [OF _ assms(3)]) simp
  note w = wait_shape [OF _ assms(2) this]
  show ?thesis
    using assms(1) by (auto simp: Terminal_read terminal_read_def Let_def split: if_splits Option.bind_splits dest!: w)
next
  case Rtc_read
  have "procs_ok (s\<lparr>rtc_flag := fl\<rparr>)" for fl by (rule proc_shape_ok [OF _ assms(3)]) simp
  note w = wait_shape [OF _ assms(2) this]
  show ?thesis
    using assms(1) by (auto simp: Rtc_read rtc_read_def split: Option.bind_splits dest!: w)
next
  case Read_directory
  then obtain f m f' where "get_fd fd s = Some f" "put_fd fd f' (set_vmem m s) = Some s'"
    "fd_shape f' = fd_shape f"
    using assms read_directory_shape by (fastforce split: Option.bind_splits)
  moreover have "get_fd fd (set_vmem m s) = get_fd fd s"
    by (simp add: get_fd_def the_pcb_def set_vmem_def)
  ultimately show ?thesis using put_fd_shape by fastforce
next
  case Read_file
  then obtain f m f' where "get_fd fd s = Some f" "put_fd fd f' (set_vmem m s) = Some s'"
    "fd_shape f' = fd_shape f"
    using assms read_file_shape by (fastforce simp: Let_def split: Option.bind_splits prod.splits)
  moreover have "get_fd fd (set_vmem m s) = get_fd fd s"
    by (simp add: get_fd_def the_pcb_def set_vmem_def)
  ultimately show ?thesis using put_fd_shape by fastforce
next
  case Read_wild
  then show ?thesis using assms by simp
qed

section \<open>Text without conversions\<close>

lemma printf_plain_frame:
  "37 \<notin> set cs \<Longrightarrow> printf_loop cs as cb s = Some s' \<Longrightarrow> con_eq s s'"
proof (induction cs arbitrary: s)
  case (Cons c cs)
  then obtain t where "putc c s = Some t" "printf_loop cs as cb t = Some s'"
    by (auto split: option.splits)
  then show ?case using Cons putc.frame con_eq_trans by fastforce
qed simp

lemma printf_plain:
  "37 \<notin> set cs \<Longrightarrow> 8 \<notin> set cs \<Longrightarrow> console_ok s \<Longrightarrow> printf_loop cs as cb s = Some (prints cs s)"
  by (induction cs arbitrary: s) (auto simp: prints_def putc_correct putc_result_ok)

section \<open>The invariant of the descriptor tables\<close>

lemma the_pcb_ok:
  assumes "procs_ok s"
  shows "the_pcb s = Some (pcbs s ! current_pid s)" "current_pid s < 6" "fds_ok (pcbs s ! current_pid s)"
proof -
  have "curr_pid_for_term s ! scheduled_term s \<in> set (curr_pid_for_term s)"
    using assms by (intro nth_mem) (simp add: procs_ok_def)
  then show "current_pid s < 6" using assms by (simp add: procs_ok_def current_pid_def)
  then show "the_pcb s = Some (pcbs s ! current_pid s)" "fds_ok (pcbs s ! current_pid s)"
    using assms by (simp_all add: the_pcb_def procs_ok_def current_pid_def)
qed

lemma procs_ok_upd [simp]:
  "procs_ok (sti s) = procs_ok s" "procs_ok (cli s) = procs_ok s" "procs_ok (set_vmem m s) = procs_ok s"
  by (simp_all add: procs_ok_def sti_def cli_def set_vmem_def)

lemma put_pcb_ok:
  assumes "procs_ok s" "fds_ok pcb" "p < 6"
  shows "put_pcb p pcb s = Some (s\<lparr>pcbs := (pcbs s)[p := pcb]\<rparr>)" "procs_ok (s\<lparr>pcbs := (pcbs s)[p := pcb]\<rparr>)"
  using assms by (auto simp: put_pcb_def procs_ok_def dest!: set_update_subset_insert [THEN subsetD])

lemma first_index_Some:
  "first_index v xs = Some i \<Longrightarrow> i < length xs \<and> xs ! i = v \<and> (\<forall>j < i. xs ! j \<noteq> v)"
  by (induction xs arbitrary: i) (auto simp: nth_Cons split: if_splits nat.splits)

lemma first_index_None: "first_index v xs = None \<longleftrightarrow> v \<notin> set xs"
  by (induction xs) auto

lemma driver_table_wild:
  "t \<in> {0, 1, 2} \<Longrightarrow> \<not> wild (driver_table t j)" "t \<notin> {0, 1, 2} \<Longrightarrow> driver_table t j = j"
  by (auto simp: driver_table_def wild_def)

definition opened :: "nat \<Rightarrow> file_descriptor \<Rightarrow> kernel \<Rightarrow> PCB" where
  "opened i f s = (let pcb = pcbs s ! current_pid s in
     pcb\<lparr>openIndexes := (openIndexes pcb)[i := full], terminal := int (currentTerminal s),
         fdArray := (fdArray pcb)[i + 2 := f]\<rparr>)"

lemma opened_fds:
  assumes "fds_ok (pcbs s ! current_pid s)" "i < 6" "flags f = full" "\<not> wild (jump_table f)"
  shows "fds_ok (opened i f s)"
  using assms unfolding fds_ok_def opened_def Let_def all_set_conv_all_nth
  by (auto simp: nth_list_update)

text \<open>\<open>open\<close> after the directory lookup: the descriptor it fills in, and the state it hands to the
  driver.\<close>

definition new_fd :: "nat \<Rightarrow> u32 \<Rightarrow> kernel \<Rightarrow> file_descriptor" where
  "new_fd i dentry s = (fdArray (pcbs s ! current_pid s) ! (i + 2))\<lparr>flags := full,
     inode_check := inode_num (vmem s) dentry, file_position := 0,
     jump_table := driver_table (filetype (vmem s) dentry)
       (jump_table (fdArray (pcbs s ! current_pid s) ! (i + 2)))\<rparr>"

definition open_state :: "nat \<Rightarrow> u32 \<Rightarrow> kernel \<Rightarrow> kernel" where
  "open_state i dentry s =
     s\<lparr>pcbs := (pcbs s)[current_pid s := opened i (new_fd i dentry s) s]\<rparr>"

lemma sys_open_eq:
  assumes "procs_ok s" "filename \<noteq> 0"
    and "read_dentry_by_name (vmem s) (boot_block s) filename dentry = Some (m, v)" "t = set_vmem m s"
  shows "sys_open filename dentry s =
    (if v = -1 then Some (t, -1)
     else case first_index empty (openIndexes (pcbs t ! current_pid t)) of
       None \<Rightarrow> Some (t, -1)
     | Some i \<Rightarrow> do {
         (s, r) \<leftarrow> call_open (openFunc (jump_table (new_fd i dentry t))) (open_state i dentry t);
         Some (s, of_nat (i + 2))
       })"
proof -
  have t: "procs_ok t" using assms(1,4) by simp
  note T = the_pcb_ok [OF t]
  have l: "length (pcbs t) = 6" using t by (simp add: procs_ok_def)
  show ?thesis
  proof (cases "v = -1 \<or> first_index empty (openIndexes (pcbs t ! current_pid t)) = None")
    case True
    then show ?thesis using assms(2,3) T(1) by (auto simp: sys_open_def Let_def assms(4) [symmetric])
  next
    case False
    then obtain i where i: "first_index empty (openIndexes (pcbs t ! current_pid t)) = Some i" by auto
    then have "i + 2 < length (fdArray (pcbs t ! current_pid t))"
      using first_index_Some T(3) by (fastforce simp: fds_ok_def)
    then show ?thesis
      using False assms(2,3) T(1,2) i l
      by (simp add: sys_open_def Let_def assms(4) [symmetric] put_pcb_def open_state_def
          opened_def new_fd_def)
  qed
qed

lemma open_state_ok:
  assumes "procs_ok s" "first_index empty (openIndexes (pcbs s ! current_pid s)) = Some i"
    and "openFunc (jump_table (new_fd i dentry s)) \<noteq> Open_wild"
  shows "procs_ok (open_state i dentry s)"
proof -
  note T = the_pcb_ok [OF assms(1)]
  have i: "i < 6" using first_index_Some [OF assms(2)] T(3) by (simp add: fds_ok_def)
  let ?g = "fdArray (pcbs s ! current_pid s) ! (i + 2)"
  have "?g \<in> set (fdArray (pcbs s ! current_pid s))"
    using i T(3) by (intro nth_mem) (simp add: fds_ok_def)
  then have "wild (jump_table ?g) \<Longrightarrow> openFunc (jump_table ?g) = Open_wild"
    using T(3) by (simp add: fds_ok_def)
  then have "\<not> wild (jump_table (new_fd i dentry s))"
    using assms(3) driver_table_wild [of "filetype (vmem s) dentry"]
    by (cases "filetype (vmem s) dentry \<in> {0, 1, 2}") (auto simp: new_fd_def)
  then have "fds_ok (opened i (new_fd i dentry s) s)"
    using opened_fds [OF T(3) i] by (simp add: new_fd_def)
  then show ?thesis using put_pcb_ok(2) [OF assms(1) _ T(2)] by (simp add: open_state_def)
qed

lemma sys_open_ok:
  assumes "sys_open fn d s = Some (s', r)" "procs_ok s"
  shows "procs_ok s'"
proof (cases "fn = 0")
  case False
  obtain m v where l: "read_dentry_by_name (vmem s) (boot_block s) fn d = Some (m, v)"
    using assms(1) False by (auto simp: sys_open_def split: Option.bind_splits)
  define t where "t = set_vmem m s"
  have t: "procs_ok t" using assms(2) by (simp add: t_def)
  from assms(1) consider "s' = t" | i r' where
    "first_index empty (openIndexes (pcbs t ! current_pid t)) = Some i"
    "call_open (openFunc (jump_table (new_fd i d t))) (open_state i d t) = Some (s', r')"
    unfolding sys_open_eq [OF assms(2) False l t_def]
    by (auto split: if_splits option.splits Option.bind_splits)
  then show ?thesis
  proof cases
    case (2 i r')
    then have "openFunc (jump_table (new_fd i d t)) \<noteq> Open_wild" by auto
    then show ?thesis using open_call.keeps_ok [OF 2(2)] open_state_ok [OF t 2(1)] by blast
  qed (use t in simp)
qed (use assms in \<open>simp add: sys_open_def\<close>)

definition closed :: "nat \<Rightarrow> kernel \<Rightarrow> kernel" where
  "closed fd s = (let pcb = pcbs s ! current_pid s in
     s\<lparr>pcbs := (pcbs s)[current_pid s := pcb\<lparr>openIndexes := (openIndexes pcb)[fd - 2 := empty],
       fdArray := (fdArray pcb)[fd := (fdArray pcb ! fd)\<lparr>flags := empty, file_position := 0\<rparr>]\<rparr>]\<rparr>)"

lemma fd_range: "0 \<le> sint fd \<Longrightarrow> sint (fd :: i32) \<le> 7 \<Longrightarrow> unat fd < 8 \<and> sint fd = int (unat fd)"
proof -
  assume a: "0 \<le> sint fd" "sint fd \<le> 7"
  have "fd = of_int (sint fd)" by simp
  also have "\<dots> = of_nat (nat (sint fd))" using a(1) by simp
  finally have "unat fd = nat (sint fd)" using a unat_of_nat32 [of "nat (sint fd)"] by simp
  then show ?thesis using a by simp
qed

lemma fd_range2:
  "\<not> (sint fd < 2 \<or> 7 < sint fd) \<Longrightarrow> unat (fd :: i32) < 8"
  "\<not> (sint fd < 2 \<or> 7 < sint fd) \<Longrightarrow> 2 \<le> unat fd"
proof -
  assume a: "\<not> (sint fd < 2 \<or> 7 < sint fd)"
  then have "0 \<le> sint fd" "sint fd \<le> 7" by simp_all
  note r = fd_range [OF this]
  show "unat fd < 8" using r by blast
  have "2 \<le> sint fd" using a by simp
  then have "int 2 \<le> int (unat fd)" unfolding conjunct2 [OF r] by simp
  then show "2 \<le> unat fd" by (simp only: of_nat_le_iff)
qed

lemma sys_close_eq:
  assumes "procs_ok s"
  shows "sys_close fd s =
    (if sint fd < 2 \<or> sint fd > 7 \<or> flags (fdArray (pcbs s ! current_pid s) ! unat fd) = empty
     then Some (s, -1)
     else call_close (closeFunc (jump_table (fdArray (pcbs s ! current_pid s) ! unat fd)))
       (closed (unat fd) s))"
proof (cases "sint fd < 2 \<or> sint fd > 7")
  case False
  then have "unat fd < 8" "2 \<le> unat fd" by (simp_all add: fd_range2)
  moreover have "length (pcbs s) = 6" using assms by (simp add: procs_ok_def)
  ultimately show ?thesis
    using the_pcb_ok [OF assms] False
    by (simp add: sys_close_def closed_def Let_def put_pcb_def fds_ok_def)
qed (use the_pcb_ok(1) [OF assms] in \<open>auto simp: sys_close_def\<close>)

lemma closed_ok:
  assumes "procs_ok s" "2 \<le> fd" "fd < 8"
  shows "procs_ok (closed fd s)"
proof -
  note T = the_pcb_ok [OF assms(1)]
  have "fds_ok ((pcbs s ! current_pid s)\<lparr>openIndexes := (openIndexes (pcbs s ! current_pid s))[fd - 2 := empty],
       fdArray := (fdArray (pcbs s ! current_pid s))[fd := (fdArray (pcbs s ! current_pid s) ! fd)\<lparr>flags := empty, file_position := 0\<rparr>]\<rparr>)"
    using T(3) assms(2,3) unfolding fds_ok_def all_set_conv_all_nth
    by (auto simp: nth_list_update)
  then show ?thesis using put_pcb_ok(2) [OF assms(1) _ T(2)] by (simp add: closed_def Let_def)
qed

lemma sys_close_ok:
  assumes "sys_close fd s = Some (s', r)" "procs_ok s"
  shows "procs_ok s'"
proof (cases "sint fd < 2 \<or> 7 < sint fd \<or> flags (fdArray (pcbs s ! current_pid s) ! unat fd) = empty")
  case False
  then have "procs_ok (closed (unat fd) s)"
    using closed_ok [OF assms(2)] fd_range2 [of fd] by simp
  then show ?thesis
    using assms(1) False close_call.keeps_ok unfolding sys_close_eq [OF assms(2)] by (simp split: if_splits)
qed (use assms in \<open>auto simp: sys_close_eq\<close>)

lemma sys_read_ok:
  "sys_read fd buf n irqs s = Some (s', r) \<Longrightarrow> quiet_irqs irqs \<Longrightarrow> procs_ok s \<Longrightarrow> procs_ok s'"
  using proc_shape_ok [OF call_read_shape]
  by (fastforce simp: sys_read_def Let_def split: if_splits Option.bind_splits)

lemma sys_write_ok:
  assumes "sys_write fd buf n s = Some (s', r)" "procs_ok s"
  shows "procs_ok s'"
proof -
  have p: "printf [CHR 0x0A] [] 0 t = Some (s', r') \<Longrightarrow> procs_ok t \<Longrightarrow> procs_ok s'" for t r'
    using proc_shape_ok [OF con_eq_proc_shape [OF printf_plain_frame [of "[0x0A]" "[]" 0 t s']]]
    by (auto simp: printf_def split: Option.bind_splits)
  show ?thesis
    using assms write_call.keeps_ok p
    by (fastforce simp: sys_write_def Let_def split: if_splits Option.bind_splits)
qed

end
