(* ===== verification/DescriptorProps.thy ===== *)
theory DescriptorProps
  imports Descriptors
begin

text \<open>
  Properties of the system calls on descriptors, on the arguments buffer and on video memory.
\<close>

section \<open>Runs of system calls\<close>

inductive fd_step :: "kernel \<Rightarrow> kernel \<Rightarrow> bool" where
  open_file: "sys_open fn d s = Some (s', r) \<Longrightarrow> fd_step s s'"
| close_file: "sys_close fd s = Some (s', r) \<Longrightarrow> fd_step s s'"
| read_file: "sys_read fd buf n irqs s = Some (s', r) \<Longrightarrow> quiet_irqs irqs \<Longrightarrow> fd_step s s'"
| write_file: "sys_write fd buf n s = Some (s', r) \<Longrightarrow> fd_step s s'"
| schedule: "t < 3 \<Longrightarrow> fd_step s (s\<lparr>scheduled_term := t\<rparr>)"

inductive_cases fd_stepE: "fd_step s s'"

lemma schedule_ok: "procs_ok s \<Longrightarrow> t < 3 \<Longrightarrow> procs_ok (s\<lparr>scheduled_term := t\<rparr>)"
  by (simp add: procs_ok_def)

lemma fd_step_ok: "fd_step s s' \<Longrightarrow> procs_ok s \<Longrightarrow> procs_ok s'"
  by (induction rule: fd_step.induct)
    (auto intro: sys_open_ok sys_close_ok sys_read_ok sys_write_ok schedule_ok)

lemma boot_procs_ok: "procs_ok boot_state"
  by (auto simp: procs_ok_def boot_state_def fds_ok_def empty_PCB_def empty_fd_def wild_def nth_Cons'
      less_Suc_eq numeral_eq_Suc)


section \<open>Opening\<close>

lemma put_fd_eq:
  assumes "procs_ok s" "fd < 8"
  shows "put_fd fd f s = Some (s\<lparr>pcbs := (pcbs s)[current_pid s :=
    (pcbs s ! current_pid s)\<lparr>fdArray := (fdArray (pcbs s ! current_pid s))[fd := f]\<rparr>]\<rparr>)"
  using the_pcb_ok [OF assms(1)] assms by (simp add: put_fd_def put_pcb_def fds_ok_def procs_ok_def)

lemma dentry_copied_image:
  "dentry_copied m m' bb i dp \<Longrightarrow> apart dp 64 bb (fs_size m bb) \<Longrightarrow> same_image m m' bb"
  unfolding same_image_def dentry_copied_def apart_def
  using within_mono [of dp 40 _ 64] by fastforce

text \<open>The descriptor a fresh open of entry \<open>k\<close> gives.\<close>

definition fresh_fd :: "mem \<Rightarrow> u32 \<Rightarrow> nat \<Rightarrow> file_descriptor" where
  "fresh_fd m bb k = \<lparr>jump_table = driver_table (filetype m (dentry_at bb (of_nat k)))
       \<lparr>openFunc = Open_wild, closeFunc = Close_wild, readFunc = Read_wild, writeFunc = Write_wild\<rparr>,
     inode_check = inode_num m (dentry_at bb (of_nat k)), file_position = 0, flags = full\<rparr>"

lemma vmem_procs [simp]:
  "vmem (s\<lparr>pcbs := p\<rparr>) = vmem s" "vmem (s\<lparr>freq_count := c\<rparr>) = vmem s"
  "vmem (s\<lparr>curr_freq := c\<rparr>) = vmem s" "vmem (sti s) = vmem s" "vmem (cli s) = vmem s"
  by (rule ext, simp add: vmem_def user_frame_def sti_def cli_def)+

lemma call_open_frame:
  assumes "g \<in> {Rtc_open, Open_directory, Open_file}" "scheduled_term u < 3"
    and "length (freq_count u) = 3" "length (curr_freq u) = 3"
  obtains v r where "call_open g u = Some (v, r)" "vmem v = vmem u" "boot_block v = boot_block u"
    "pcbs v = pcbs u" "curr_pid_for_term v = curr_pid_for_term u"
    "scheduled_term v = scheduled_term u"
proof -
  have "\<exists>v r. call_open g u = Some (v, r) \<and> vmem v = vmem u \<and> boot_block v = boot_block u
    \<and> pcbs v = pcbs u \<and> curr_pid_for_term v = curr_pid_for_term u \<and> scheduled_term v = scheduled_term u"
    using assms by (cases g) (simp_all add: rtc_open_def)
  then show ?thesis using that by blast
qed

lemma open_entry:
  assumes ok: "procs_ok s" and "fn \<noteq> 0" "fs_ok (vmem s) (boot_block s)"
    and "cstring (vmem s) fn cs" "apart dp 64 (boot_block s) (fs_size (vmem s) (boot_block s))"
    and last: "last_named (vmem s) (boot_block s) cs k"
    and free: "first_index empty (openIndexes (pcbs s ! current_pid s)) = Some i"
    and clock: "length (freq_count s) = 3" "length (curr_freq s) = 3"
  obtains s' m where "sys_open fn dp s = Some (s', of_nat (i + 2))"
    "dentry_copied (vmem s) m (boot_block s) k dp" "vmem s' = m" "boot_block s' = boot_block s"
    "pcbs s' = (pcbs s)[current_pid s := opened i (fresh_fd (vmem s) (boot_block s) k) s]"
    "curr_pid_for_term s' = curr_pid_for_term s" "scheduled_term s' = scheduled_term s"
    "procs_ok s'"
proof -
  let ?bb = "boot_block s"
  have uniq: "last_named (vmem s) ?bb cs k' \<Longrightarrow> k' = k" for k'
    using last unfolding last_named_def by (metis linorder_neqE_nat)
  obtain k' m where m: "last_named (vmem s) ?bb cs k'" "read_dentry_by_name (vmem s) ?bb fn dp = Some (m, 0)"
    "dentry_copied (vmem s) m ?bb k' dp"
    using read_dentry_by_name_cases [OF assms(3-5)] last by (auto simp: last_named_def)
  then have dc: "dentry_copied (vmem s) m ?bb k dp" using uniq by blast
  define t where "t = set_vmem m s"
  have t: "procs_ok t" "pcbs t = pcbs s" "current_pid t = current_pid s" "vmem t = m"
    "scheduled_term t = scheduled_term s" "curr_pid_for_term t = curr_pid_for_term s"
    "boot_block t = ?bb" "freq_count t = freq_count s" "curr_freq t = curr_freq s"
    "currentTerminal t = currentTerminal s"
    using ok by (simp_all add: t_def) (simp_all add: set_vmem_def current_pid_def)
  have ft: "filetype m dp \<in> {0, 1, 2}" "filetype m dp = filetype (vmem s) (dentry_at ?bb (of_nat k))"
    "inode_num m dp = inode_num (vmem s) (dentry_at ?bb (of_nat k))"
    using dc assms(3) last by (auto simp: dentry_copied_def fs_ok_def last_named_def entry_count_def)
  have nf: "new_fd i dp t = fresh_fd (vmem s) ?bb k"
    using ft by (auto simp: new_fd_def fresh_fd_def t driver_table_def)
  have st: "scheduled_term s < 3" using ok by (simp add: procs_ok_def)
  have w: "openFunc (jump_table (new_fd i dp t)) \<noteq> Open_wild"
    using ft by (auto simp: nf fresh_fd_def driver_table_def)
  let ?u = "open_state i dp t"
  have u: "vmem ?u = m" "boot_block ?u = ?bb" "scheduled_term ?u = scheduled_term s"
    "curr_pid_for_term ?u = curr_pid_for_term s" "freq_count ?u = freq_count s"
    "curr_freq ?u = curr_freq s"
    "pcbs ?u = (pcbs s)[current_pid s := opened i (fresh_fd (vmem s) ?bb k) s]"
    using t nf by (simp_all add: open_state_def opened_def)
  obtain v r where c: "call_open (openFunc (jump_table (new_fd i dp t))) ?u = Some (v, r)"
    "vmem v = vmem ?u" "boot_block v = boot_block ?u" "pcbs v = pcbs ?u"
    "curr_pid_for_term v = curr_pid_for_term ?u" "scheduled_term v = scheduled_term ?u"
    by (rule call_open_frame [of "openFunc (jump_table (new_fd i dp t))" ?u])
      (use ft clock st u in \<open>auto simp: nf fresh_fd_def driver_table_def\<close>)
  have "procs_ok v" using open_call.keeps_ok [OF c(1)] open_state_ok [OF t(1) _ w] free t by simp
  moreover have "sys_open fn dp s = Some (v, of_nat (i + 2))"
    using c(1) free t by (simp add: sys_open_eq [OF ok assms(2) m(2) t_def])
  ultimately show ?thesis using that [of v m] dc c u by simp
qed

text \<open>\<open>open\<close> of a name in the directory takes the lowest free descriptor, fills it in for the
  last entry of that name (its driver by file type, its inode, position 0), and leaves every
  other descriptor of the process and every other process as they were.\<close>

theorem open_lowest_descriptor:
  assumes "procs_ok s" "fn \<noteq> 0" "fs_ok (vmem s) (boot_block s)"
    and "cstring (vmem s) fn cs" "apart dp 64 (boot_block s) (fs_size (vmem s) (boot_block s))"
    and "last_named (vmem s) (boot_block s) cs k"
    and "i < 6" "openIndexes (pcbs s ! current_pid s) ! i = empty"
    and "\<forall>j < i. openIndexes (pcbs s ! current_pid s) ! j \<noteq> empty"
    and "length (freq_count s) = 3" "length (curr_freq s) = 3"
  shows "\<exists>s'. sys_open fn dp s = Some (s', of_nat (i + 2))
    \<and> fdArray (pcbs s' ! current_pid s') ! (i + 2) = fresh_fd (vmem s) (boot_block s) k
    \<and> (\<forall>j. j \<noteq> i + 2 \<longrightarrow> fdArray (pcbs s' ! current_pid s') ! j = fdArray (pcbs s ! current_pid s) ! j)
    \<and> (\<forall>p. p \<noteq> current_pid s \<longrightarrow> pcbs s' ! p = pcbs s ! p) \<and> current_pid s' = current_pid s"
proof -
  note T = the_pcb_ok [OF assms(1)]
  have L: "length (openIndexes (pcbs s ! current_pid s)) = 6" "length (fdArray (pcbs s ! current_pid s)) = 8"
    "length (pcbs s) = 6"
    using T(3) assms(1) by (simp_all add: fds_ok_def procs_ok_def)
  have "\<exists>i'. first_index empty (openIndexes (pcbs s ! current_pid s)) = Some i'"
    using assms(7,8) L first_index_None [of empty "openIndexes (pcbs s ! current_pid s)"]
    by (metis nth_mem option.exhaust)
  then obtain i' where i': "first_index empty (openIndexes (pcbs s ! current_pid s)) = Some i'" ..
  have "i' = i" using first_index_Some [OF i'] assms(7-9) L by (metis linorder_neqE_nat)
  then have free: "first_index empty (openIndexes (pcbs s ! current_pid s)) = Some i" using i' by simp
  from open_entry [OF assms(1-6) free assms(10,11)] obtain s' where
    "sys_open fn dp s = Some (s', of_nat (i + 2))"
    "pcbs s' = (pcbs s)[current_pid s := opened i (fresh_fd (vmem s) (boot_block s) k) s]"
    "curr_pid_for_term s' = curr_pid_for_term s" "scheduled_term s' = scheduled_term s"
    by metis
  then show ?thesis using T(2) L assms(7) by (simp add: current_pid_def opened_def Let_def)
qed

section \<open>Closing and reading an opened file\<close>

lemma of_nat_fd:
  assumes "i < 6"
  shows "unat (of_nat (i + 2) :: i32) = i + 2" "sint (of_nat (i + 2) :: i32) = int i + 2"
proof -
  show u: "unat (of_nat (i + 2) :: i32) = i + 2" using assms by (intro unat_of_nat32) simp
  then have "sint (of_nat (i + 2) :: i32) = int (i + 2)"
    using assms by (subst sint_unat32) simp_all
  then show "sint (of_nat (i + 2) :: i32) = int i + 2" by simp
qed

lemma fresh_fd_calls:
  assumes "filetype m (dentry_at bb (of_nat k)) \<in> {0, 1, 2}"
  shows "call_close (closeFunc (jump_table (fresh_fd m bb k))) s = Some (s, 0)"
  using assms by (auto simp: fresh_fd_def driver_table_def rtc_close_def close_directory_def close_file_def)

text \<open>C29: \<open>close\<close> undoes \<open>open\<close>: after opening any name and closing the descriptor got, \<open>close\<close>
  returns 0 and the index table and the flags of all descriptors are as before the open.\<close>

theorem close_undoes_open:
  assumes "procs_ok s" "fn \<noteq> 0" "fs_ok (vmem s) (boot_block s)"
    and "cstring (vmem s) fn cs" "apart dp 64 (boot_block s) (fs_size (vmem s) (boot_block s))"
    and "last_named (vmem s) (boot_block s) cs k"
    and "first_index empty (openIndexes (pcbs s ! current_pid s)) = Some i"
    and "length (freq_count s) = 3" "length (curr_freq s) = 3"
  shows "\<exists>s1 fd s2. sys_open fn dp s = Some (s1, fd) \<and> sys_close fd s1 = Some (s2, 0)
    \<and> openIndexes (pcbs s2 ! current_pid s2) = openIndexes (pcbs s ! current_pid s)
    \<and> map flags (fdArray (pcbs s2 ! current_pid s2)) = map flags (fdArray (pcbs s ! current_pid s))"
proof -
  note T = the_pcb_ok [OF assms(1)]
  let ?f = "fresh_fd (vmem s) (boot_block s) k" and ?p = "pcbs s ! current_pid s"
  from open_entry [OF assms] obtain s1 where o: "sys_open fn dp s = Some (s1, of_nat (i + 2))"
    "pcbs s1 = (pcbs s)[current_pid s := opened i ?f s]" "curr_pid_for_term s1 = curr_pid_for_term s"
    "scheduled_term s1 = scheduled_term s" "procs_ok s1"
    by metis
  have i: "i < 6" "openIndexes ?p ! i = empty"
    using first_index_Some [OF assms(7)] T(3) by (simp_all add: fds_ok_def)
  have L: "length (pcbs s) = 6" "length (fdArray ?p) = 8" "length (openIndexes ?p) = 6"
    "flags (fdArray ?p ! (i + 2)) = empty"
    using assms(1) T(3) i by (simp_all add: procs_ok_def fds_ok_def)
  have c: "current_pid s1 = current_pid s" using o by (simp add: current_pid_def)
  have p: "pcbs s1 ! current_pid s1 = opened i ?f s" using o c T(2) L by simp
  have f: "fdArray (opened i ?f s) ! (i + 2) = ?f" using L i by (simp add: opened_def Let_def)
  have ft: "filetype (vmem s) (dentry_at (boot_block s) (of_nat k)) \<in> {0, 1, 2}"
    using assms(3,6) by (auto simp: fs_ok_def last_named_def entry_count_def)
  have "sys_close (of_nat (i + 2)) s1 = Some (closed (i + 2) s1, 0)"
    unfolding sys_close_eq [OF o(5)] of_nat_fd [OF i(1)] p f fresh_fd_calls [OF ft]
    using i(1) by (simp add: fresh_fd_def)
  moreover have "current_pid (closed (i + 2) s1) = current_pid s"
    using c by (simp add: closed_def Let_def current_pid_def)
  moreover have q: "pcbs (closed (i + 2) s1) ! current_pid s
      = (opened i ?f s)\<lparr>openIndexes := (openIndexes (opened i ?f s))[i := empty],
         fdArray := (fdArray (opened i ?f s))[i + 2 := ?f\<lparr>flags := empty, file_position := 0\<rparr>]\<rparr>"
    using c T(2) L o(2) p f by (simp add: closed_def Let_def)
  have "(openIndexes ?p)[i := empty] = openIndexes ?p" using i(2) by (metis list_update_id)
  then have "openIndexes (pcbs (closed (i + 2) s1) ! current_pid s) = openIndexes ?p"
    unfolding q by (simp add: opened_def Let_def)
  moreover have "map flags (fdArray (pcbs (closed (i + 2) s1) ! current_pid s)) = map flags (fdArray ?p)"
    using map_update_same [of "i + 2" "fdArray ?p" flags "?f\<lparr>flags := empty, file_position := 0\<rparr>"] L i
    unfolding q by (simp add: opened_def Let_def)
  ultimately show ?thesis using o(1) by auto
qed

text \<open>C20: \<open>open\<close> and \<open>read\<close> together deliver a file: opening a name whose last entry is a regular
  file and reading from the descriptor puts the first bytes of that file into the buffer,
  as many as asked for and the file has, and returns their number.\<close>

theorem open_read_delivers:
  assumes "procs_ok s" "fn \<noteq> 0" "fs_ok (vmem s) (boot_block s)"
    and "cstring (vmem s) fn cs" "apart dp 64 (boot_block s) (fs_size (vmem s) (boot_block s))"
    and "last_named (vmem s) (boot_block s) cs k"
    and "first_index empty (openIndexes (pcbs s ! current_pid s)) = Some i"
    and "length (freq_count s) = 3" "length (curr_freq s) = 3"
    and "filetype (vmem s) (dentry_at (boot_block s) (of_nat k)) = 2"
    and "ino = inode_num (vmem s) (dentry_at (boot_block s) (of_nat k))"
    and "ino < num_inodes (vmem s) (boot_block s)" "inode_ok (vmem s) (boot_block s) ino"
    and "buf \<noteq> 0" "unat n < 2 ^ 31" "len = min (unat n) (file_length (vmem s) (boot_block s) ino)"
    and "apart buf len (boot_block s) (fs_size (vmem s) (boot_block s))"
  shows "\<exists>s1 fd s2. sys_open fn dp s = Some (s1, fd)
    \<and> sys_read fd buf n irqs s1 = Some (s2, of_nat len)
    \<and> bytes_at (vmem s2) buf len = take len (file_contents (vmem s) (boot_block s) ino)"
proof -
  note T = the_pcb_ok [OF assms(1)]
  let ?f = "fresh_fd (vmem s) (boot_block s) k" and ?p = "pcbs s ! current_pid s"
  let ?bb = "boot_block s"
  from open_entry [OF assms(1-9)] obtain s1 m where o: "sys_open fn dp s = Some (s1, of_nat (i + 2))"
    "dentry_copied (vmem s) m ?bb k dp" "vmem s1 = m" "boot_block s1 = ?bb"
    "pcbs s1 = (pcbs s)[current_pid s := opened i ?f s]" "curr_pid_for_term s1 = curr_pid_for_term s"
    "scheduled_term s1 = scheduled_term s" "procs_ok s1"
    by metis
  have i: "i < 6" using first_index_Some [OF assms(7)] T(3) by (simp add: fds_ok_def)
  have L: "length (pcbs s) = 6" "length (fdArray ?p) = 8"
    using assms(1) T(3) i by (simp_all add: procs_ok_def fds_ok_def)
  have c: "current_pid s1 = current_pid s" using o by (simp add: current_pid_def)
  have g: "get_fd (i + 2) (sti s1) = Some ?f"
    using the_pcb_ok(1) [OF o(8)] c o(5) T(2) L i
    by (simp add: get_fd_def sti_def the_pcb_def current_pid_def opened_def Let_def)
  have F: "flags ?f = full" "readFunc (jump_table ?f) = Read_file" "file_position ?f = 0"
    "inode_check ?f = ino"
    using assms(10,11) by (simp_all add: fresh_fd_def driver_table_def)
  have size: "fs_size (vmem s) ?bb \<le> 2 ^ 32" using assms(3) by (simp add: fs_ok_def)
  have "reading (vmem s) ?bb ?f" using F assms(12,13) by (simp add: reading_def)
  note R = same_image_reading [OF dentry_copied_image [OF o(2) assms(5)] size this]
  have rem: "remaining m ?bb ?f = file_contents (vmem s) ?bb ino"
    using R(2) F by (simp add: remaining_def)
  have k: "len = min (unat n) (length (remaining m ?bb ?f))"
    by (simp only: rem file_contents_length assms(16))
  have rf: "read_file m ?bb ?f buf n = (poke m buf (take len (remaining m ?bb ?f)),
      ?f\<lparr>file_position := file_position ?f + of_nat len\<rparr>, of_nat len)"
    by (rule read_file_correct [OF _ R(1) assms(14) _ k]) (use R(3) size assms(15,17) F in simp_all)
  have vm: "vmem (sti s1) = m" "boot_block (sti s1) = ?bb"
    using o(3,4) by simp (simp add: sti_def o(4))
  obtain s2 where s2: "put_fd (i + 2) (?f\<lparr>file_position := file_position ?f + of_nat len\<rparr>)
      (set_vmem (poke m buf (take len (remaining m ?bb ?f))) (sti s1)) = Some s2"
    "vmem s2 = poke m buf (take len (remaining m ?bb ?f))"
    using put_fd_eq [of "set_vmem (poke m buf (take len (remaining m ?bb ?f))) (sti s1)" "i + 2"]
      o(8) i by simp
  have ne: "(of_nat (i + 2) :: i32) \<noteq> 1"
  proof
    assume "(of_nat (i + 2) :: i32) = 1"
    then have "unat (of_nat (i + 2) :: i32) = unat (1 :: i32)" by (simp only:)
    then show False unfolding of_nat_fd(1) [OF i] by simp
  qed
  have "sys_read (of_nat (i + 2)) buf n irqs s1 = Some (s2, of_nat len)"
    using ne i assms(14) g F s2(1) rf vm unfolding sys_read_def of_nat_fd [OF i]
    by (simp add: Let_def)
  moreover have "length (take len (remaining m ?bb ?f)) = len" using assms(16) by (simp add: rem)
  moreover from this have "bytes_at (vmem s2) buf len = take len (remaining m ?bb ?f)"
    using bytes_at_poke [of "take len (remaining m ?bb ?f)" m buf] assms(15,16) by (simp add: s2(2))
  ultimately show ?thesis using o(1) unfolding rem by blast
qed

section \<open>A kernel with a small file system\<close>

definition demo_kernel :: kernel where
  "demo_kernel = boot_state\<lparr>lowmem := demo, boot_block := demo_bb\<rparr>"

lemma demo_vmem: "vmem demo_kernel = demo"
proof
  fix a
  have "in_user_page a \<Longrightarrow> demo a = 0"
    by (auto simp: demo_def in_user_page_def USR_MEM_VIRT_ADDR_def MB4_def)
  then show "vmem demo_kernel a = demo a"
    by (simp add: vmem_def demo_kernel_def boot_state_def)
qed

lemma demo_kernel_simps [simp]:
  "boot_block demo_kernel = demo_bb" "current_pid demo_kernel = 0" "scheduled_term demo_kernel = 0"
  "pcbs demo_kernel = replicate 6 empty_PCB" "length (freq_count demo_kernel) = 3"
  "length (curr_freq demo_kernel) = 3"
  by (simp_all add: demo_kernel_def boot_state_def current_pid_def)

lemma demo_procs_ok: "procs_ok demo_kernel"
  using boot_procs_ok by (simp add: procs_ok_def demo_kernel_def)

lemma demo_last: "last_named demo demo_bb [104, 105] (Suc 0)"
  using demo_names by (auto simp: last_named_def demo_count less_2_nat)

lemma demo_apart64: "apart 0x500100 64 demo_bb (fs_size demo demo_bb)"
  by (rule demo_apart) simp

lemmas demo_facts = demo_vmem demo_fs_ok demo_string demo_last demo_apart64 demo_apart64 [unfolded demo_header]

lemma demo_free: "first_index empty (openIndexes (pcbs demo_kernel ! current_pid demo_kernel)) = Some 0"
  by (simp add: empty_PCB_def numeral_eq_Suc)

lemma demo_entry:
  "filetype demo (dentry_at demo_bb 1) = 2" "inode_num demo (dentry_at demo_bb 1) = 1"
  by (simp_all add: demo_header_defs)

theorem open_lowest_descriptor_witness:
  "\<exists>s'. sys_open 0x500000 0x500100 demo_kernel = Some (s', 2)
     \<and> fdArray (pcbs s' ! 0) ! 2 = fresh_fd demo demo_bb 1"
proof -
  have "\<exists>s'. sys_open 0x500000 0x500100 demo_kernel = Some (s', of_nat (0 + 2))
    \<and> fdArray (pcbs s' ! current_pid s') ! (0 + 2) = fresh_fd (vmem demo_kernel) (boot_block demo_kernel) 1
    \<and> (\<forall>j. j \<noteq> 0 + 2 \<longrightarrow> fdArray (pcbs s' ! current_pid s') ! j = fdArray (pcbs demo_kernel ! current_pid demo_kernel) ! j)
    \<and> (\<forall>p. p \<noteq> current_pid demo_kernel \<longrightarrow> pcbs s' ! p = pcbs demo_kernel ! p)
    \<and> current_pid s' = current_pid demo_kernel"
    by (rule open_lowest_descriptor [OF demo_procs_ok, where cs = "[104, 105]"])
      (simp_all add: demo_facts empty_PCB_def)
  then show ?thesis by (auto simp: demo_vmem numeral_2_eq_2)
qed

theorem close_undoes_open_witness:
  "\<exists>s1 fd s2. sys_open 0x500000 0x500100 demo_kernel = Some (s1, fd) \<and> sys_close fd s1 = Some (s2, 0)"
proof -
  have "\<exists>s1 fd s2. sys_open 0x500000 0x500100 demo_kernel = Some (s1, fd) \<and> sys_close fd s1 = Some (s2, 0)
    \<and> openIndexes (pcbs s2 ! current_pid s2) = openIndexes (pcbs demo_kernel ! current_pid demo_kernel)
    \<and> map flags (fdArray (pcbs s2 ! current_pid s2)) = map flags (fdArray (pcbs demo_kernel ! current_pid demo_kernel))"
    by (rule close_undoes_open [OF demo_procs_ok, where cs = "[104, 105]" and k = 1, OF _ _ _ _ _ demo_free])
      (simp_all add: demo_facts)
  then show ?thesis by blast
qed

theorem open_read_delivers_witness:
  "\<exists>s1 fd s2. sys_open 0x500000 0x500100 demo_kernel = Some (s1, fd)
     \<and> sys_read fd 0x500200 2 [] s1 = Some (s2, 2) \<and> bytes_at (vmem s2) 0x500200 2 = [104, 101]"
proof -
  have l: "file_length demo demo_bb 1 = 3" by (simp add: file_length_def demo_header)
  have a: "apart 0x500200 2 demo_bb (fs_size demo demo_bb)"
    unfolding demo_header by (rule apartI) (simp_all add: demo_bb_def)
  have "\<exists>s1 fd s2. sys_open 0x500000 0x500100 demo_kernel = Some (s1, fd)
    \<and> sys_read fd 0x500200 2 [] s1 = Some (s2, of_nat 2)
    \<and> bytes_at (vmem s2) 0x500200 2 = take 2 (file_contents (vmem demo_kernel) (boot_block demo_kernel) 1)"
    by (rule open_read_delivers [OF demo_procs_ok, where cs = "[104, 105]" and k = 1, OF _ _ _ _ _ demo_free])
      (simp_all add: demo_facts demo_entry demo_inode_ok
        demo_header l a [unfolded demo_header])
  then show ?thesis by (simp add: demo_vmem demo_contents)
qed


section \<open>Error branches\<close>

text \<open>The checks of the descriptor calls. A null buffer or name, a descriptor out of range, the
  wrong one of the two console descriptors and an unknown name are answered with -1; apart from
  the interrupt flag nothing changes. A process with six open files gets -1 for every name.\<close>

theorem descriptor_errors:
  assumes "procs_ok s"
  shows "sys_read fd 0 n irqs s = Some (s, -1) \<and> sys_read 1 buf n irqs s = Some (s, -1)
    \<and> (sint fd < 0 \<or> 7 < sint fd \<longrightarrow> sys_read fd buf n irqs s = Some (s, -1))
    \<and> sys_write fd 0 n s = Some (s, -1)
    \<and> (sint fd \<le> 0 \<or> 7 < sint fd \<longrightarrow> (\<exists>t. sys_write fd buf n s = Some (t, -1) \<and> t \<in> {s, sti s}))
    \<and> (sint fd < 2 \<or> 7 < sint fd \<longrightarrow> sys_close fd s = Some (s, -1))
    \<and> (2 \<le> sint fd \<and> sint fd \<le> 7 \<and> openIndexes (pcbs s ! current_pid s) ! (unat fd - 2) = empty
         \<longrightarrow> sys_close fd s = Some (s, -1) \<and> sys_read fd buf n irqs s \<in> {Some (s, -1), Some (sti s, -1)})
    \<and> sys_open 0 d s = Some (s, -1)
    \<and> (0 \<notin> set (openIndexes (pcbs s ! current_pid s)) \<and> sys_open fn d s = Some (s', r) \<longrightarrow> r = -1)"
proof -
  note T = the_pcb_ok [OF assms]
  have close: "sint fd < 2 \<or> 7 < sint fd \<longrightarrow> sys_close fd s = Some (s, -1)"
    by (simp add: sys_close_eq [OF assms])
  have unused: "sys_close fd s = Some (s, -1) \<and> sys_read fd buf n irqs s \<in> {Some (s, -1), Some (sti s, -1)}"
    if u: "2 \<le> sint fd" "sint fd \<le> 7" "openIndexes (pcbs s ! current_pid s) ! (unat fd - 2) = empty"
  proof -
    have r: "unat fd < 8" "2 \<le> unat fd" using fd_range2 [of fd] u by simp_all
    then obtain j where j: "unat fd = j + 2" "j < 6" using that [of "unat fd - 2"] by simp
    then have f: "flags (fdArray (pcbs s ! current_pid s) ! unat fd) = empty"
      using T(3) u(3) by (simp add: fds_ok_def)
    have g: "get_fd (unat fd) (sti s) = Some (fdArray (pcbs s ! current_pid s) ! unat fd)"
      using T r by (simp add: get_fd_def the_pcb_def sti_def fds_ok_def)
    show ?thesis
      using u f g r by (auto simp: sys_close_eq [OF assms] sys_read_def Let_def)
  qed
  have open_full: "r = -1"
    if o: "0 \<notin> set (openIndexes (pcbs s ! current_pid s))" "sys_open fn d s = Some (s', r)"
  proof (cases "fn = 0")
    case False
    obtain m v where l: "read_dentry_by_name (vmem s) (boot_block s) fn d = Some (m, v)"
      using o(2) False by (auto simp: sys_open_def split: Option.bind_splits)
    have "pcbs (set_vmem m s) ! current_pid (set_vmem m s) = pcbs s ! current_pid s"
      by (simp add: set_vmem_def current_pid_def)
    then show ?thesis
      using o first_index_None [of 0 "openIndexes (pcbs s ! current_pid s)"]
      by (simp add: sys_open_eq [OF assms False l refl] split: if_splits)
  qed (use o in \<open>simp add: sys_open_def\<close>)
  show ?thesis
    using close unused open_full by (auto simp: sys_read_def sys_write_def sys_open_def Let_def)
qed

theorem descriptor_errors_witness:
  "sys_close 9 demo_kernel = Some (demo_kernel, -1) \<and> sys_close 3 demo_kernel = Some (demo_kernel, -1)"
  using descriptor_errors [OF demo_procs_ok, of 9] descriptor_errors [OF demo_procs_ok, of 3]
  by (simp add: empty_PCB_def)

end
