(* ===== verification/Process.thy ===== *)
theory Process
  imports Descriptors
begin

text \<open>
  Starting and ending processes: \<open>execute\<close> and \<open>halt\<close> of \<open>student-distrib/systemCall.c\<close>.

  Both leave the C code through inline assembly, so their result is an \<open>outcome\<close>: an ordinary
  return, an \<open>iret\<close> to user mode, or the \<open>leave; ret\<close> with which \<open>halt\<close> returns from the
  frame that an earlier \<open>execute\<close> saved; the last constructor is the \<open>leave; ret\<close> with which the
  timer interrupt (theory \<open>Scheduling\<close>) resumes the process it switches to. The locals of \<open>execute\<close> whose address is taken lie on the
  kernel stack: their addresses, and the registers the assembly reads, are the record \<open>frame\<close>.
\<close>

datatype outcome =
    Return i32
  | Iret_user u32 u32
  | Leave_ret i32 u32 u32
  | Resume u32 u32

record frame =
  fr_function :: u32
  fr_dentry :: u32
  fr_buf :: u32
  fr_esp :: u32
  fr_ebp :: u32

text \<open>The \<open>iret\<close> with the flags the code pushes: interrupts are enabled in user mode.\<close>

definition iret_user :: "u32 \<Rightarrow> u32 \<Rightarrow> kernel \<Rightarrow> kernel \<times> outcome" where
  "iret_user eip_addr esp_addr s = (sti s, Iret_user eip_addr esp_addr)"

definition set_tss :: "nat \<Rightarrow> kernel \<Rightarrow> kernel" where
  "set_tss p s = s\<lparr>tss_esp0 := MB8 - KB8 * of_nat p, tss_ss0 := KERNEL_DS\<rparr>"

section \<open>halt\<close>

definition close_fd :: "nat \<Rightarrow> nat \<Rightarrow> kernel \<Rightarrow> kernel option" where
  "close_fd p i s = do {
     pcb \<leftarrow> aget (pcbs s) p;
     f \<leftarrow> aget (fdArray pcb) i;
     (s, r) \<leftarrow> call_close (closeFunc (jump_table f)) s;
     Some s
   }"

fun close_open :: "nat \<Rightarrow> nat list \<Rightarrow> kernel \<Rightarrow> kernel option" where
  "close_open p [] s = Some s"
| "close_open p (i # is) s = do {
     pcb \<leftarrow> aget (pcbs s) p;
     index \<leftarrow> aget (openIndexes pcb) (i - 2);
     if index \<noteq> 0 then do { s \<leftarrow> close_fd p i s; close_open p is s } else Some s
   }"

definition halt :: "u8 \<Rightarrow> kernel \<Rightarrow> (kernel \<times> outcome) option" where
  "halt status s = do {
     let s = cli s;
     flags \<leftarrow> aset (enter_flag s) (scheduled_term s) 0;
     let s = s\<lparr>enter_flag := flags\<rparr>;
     p \<leftarrow> aget (curr_pid_for_term s) (scheduled_term s);
     curr_pcb \<leftarrow> aget (pcbs s) p;
     if p = 0 \<or> p = 1 \<or> p = 2
     then Some (iret_user (eip curr_pcb) (USR_MEM_VIRT_ADDR + MB4 - 4) s)
     else do {
       arr \<leftarrow> aset (pcb_arr s) p 0;
       par \<leftarrow> aget (parent_pid_for_term s) (scheduled_term s);
       let s = s\<lparr>pcb_arr := arr,
                 curr_pid_for_term := (curr_pid_for_term s)[scheduled_term s := par]\<rparr>;
       parent_pcb \<leftarrow> aget (pcbs s) par;
       let s = s\<lparr>parent_pid_for_term := (parent_pid_for_term s)[scheduled_term s := parent parent_pcb]\<rparr>;
       let s = set_user_page par s;
       s \<leftarrow> close_fd p 0 s;
       s \<leftarrow> close_fd p 1 s;
       s \<leftarrow> close_open p [2..<8] s;
       let s = set_tss par s;
       parent_pcb \<leftarrow> aget (pcbs s) par;
       let status_int32 = (if status = 255 then 256 else ucast status);
       Some (s, Leave_ret status_int32 (esp parent_pcb) (ebp parent_pcb))
     }
   }"

section \<open>The command line\<close>

text \<open>
  The two loops that copy the first word of the command into \<open>function\<close>. They differ in the
  early exit \<open>nl\<close>, taken when the command ends in a new line; \<open>spaceFound\<close> is the loop's flag.
  Comparisons with \<open>strlen\<close> are unsigned.
\<close>

fun copy_name :: "bool \<Rightarrow> u32 \<Rightarrow> u32 \<Rightarrow> nat list \<Rightarrow> mem \<Rightarrow> bool \<Rightarrow> mem option" where
  "copy_name nl command function [] m spaceFound = Some m"
| "copy_name nl command function (i # is) m spaceFound = do {
     len \<leftarrow> strlen m command;
     if nl \<and> of_nat i \<ge> len - 1 then Some m
     else if \<not> spaceFound then
       let c = m (command + of_nat i) in
       if of_nat i < len \<and> (c = 0x20 \<or> c = 0x0A)
       then copy_name nl command function is (m(function + of_nat i := 0)) True
       else copy_name nl command function is (m(function + of_nat i := c)) False
     else copy_name nl command function is (m(function + of_nat i := 0)) True
   }"

definition parse_name :: "u32 \<Rightarrow> u32 \<Rightarrow> mem \<Rightarrow> mem option" where
  "parse_name command function m = do {
     let m = poke m function (replicate 32 0);
     len \<leftarrow> strlen m command;
     copy_name (m (command + (len - 1)) = 0x0A) command function [0..<32] m False
   }"

definition last_space :: "mem \<Rightarrow> u32 \<Rightarrow> nat \<Rightarrow> int" where
  "last_space m command len =
     fold (\<lambda>i space. if m (command + of_nat i) = 0x20 then int i else space) [0..<len] (-1)"

definition parse_args :: "u32 \<Rightarrow> mem \<Rightarrow> u8 list \<Rightarrow> u8 list option" where
  "parse_args command m buf = do {
     len \<leftarrow> strlen m command;
     let buf = zeroes buf;
     let space = last_space m command (unat len);
     if space \<noteq> -1
     then Some (fold (\<lambda>i a. if i - (nat space + 1) < BUFSIZE
                       then a[i - (nat space + 1) := m (command + of_nat i)] else a)
                  [nat space + 1..<unat len] buf)
     else Some buf
   }"

section \<open>execute\<close>

text \<open>The block of a new process: \<open>pid\<close>, \<open>parent\<close>, and the two console descriptors; the code
  leaves the jump tables of the other six as they are.\<close>

definition console_table :: jtable where
  "console_table = \<lparr>openFunc = Terminal_open, closeFunc = Terminal_close, readFunc = Terminal_read,
     writeFunc = Terminal_write\<rparr>"

definition console_fd :: "file_descriptor \<Rightarrow> file_descriptor" where
  "console_fd f = f\<lparr>flags := full, inode_check := 0, jump_table := console_table\<rparr>"

definition init_pcb :: "nat \<Rightarrow> nat \<Rightarrow> PCB \<Rightarrow> PCB" where
  "init_pcb p par pcb = pcb\<lparr>openIndexes := replicate 6 0, parent := par, active := 1, id' := p,
     fdArray := map console_fd (take 2 (fdArray pcb))
       @ map (\<lambda>f. f\<lparr>flags := empty\<rparr>) (drop 2 (fdArray pcb))\<rparr>"

definition cant_open :: string where
  "cant_open = ''Can't Open Any More Files'' @ [CHR 0x0A]"

text \<open>The part of \<open>execute\<close> after the program has been found to be executable, for the terminal
  with index \<open>t = currentTerminal - 1\<close> and the inode \<open>ino\<close>.\<close>

definition start_process :: "frame \<Rightarrow> nat \<Rightarrow> i32 \<Rightarrow> kernel \<Rightarrow> (kernel \<times> outcome) option" where
  "start_process fr t ino s =
     (case first_index 0 (take MAX_PCB (pcb_arr s)) of
        None \<Rightarrow> Some (s, Return (-1))
      | Some newest_pid \<Rightarrow> do {
          let s = s\<lparr>pcb_arr := (pcb_arr s)[newest_pid := 1]\<rparr>;
          par \<leftarrow> aget (curr_pid_for_term s) t;
          pars \<leftarrow> aset (parent_pid_for_term s) t par;
          let s = s\<lparr>parent_pid_for_term := pars,
                    curr_pid_for_term := (curr_pid_for_term s)[t := newest_pid]\<rparr>;
          let s = set_user_page newest_pid s;
          let (m, valid) = read_data (vmem s) (boot_block s) ino 0 PROGRAM_IMG 0x400000;
          let s = set_vmem m s;
          if valid = -1 then Some (s, Return (-1))
          else do {
            let base = newest_pid = 0 \<or> newest_pid = 1 \<or> newest_pid = 2;
            let parent_pid = (if base then newest_pid else par);
            curr_pcb \<leftarrow> aget (pcbs s) newest_pid;
            let s = s\<lparr>pcbs := (pcbs s)[newest_pid := init_pcb newest_pid parent_pid curr_pcb]\<rparr>;
            let s = set_tss newest_pid s;
            let eip_addr = ld32 (vmem s) (PROGRAM_IMG + 24);
            let esp_addr = USR_MEM_VIRT_ADDR + MB4 - 4;
            curr_pcb \<leftarrow> aget (pcbs s) newest_pid;
            let s = s\<lparr>pcbs := (pcbs s)[newest_pid :=
                        curr_pcb\<lparr>eip := eip_addr, esp_program_start := esp_addr\<rparr>]\<rparr>;
            s \<leftarrow> (if base then Some s else do {
              parent_pcb \<leftarrow> aget (pcbs s) parent_pid;
              Some (s\<lparr>pcbs := (pcbs s)[parent_pid :=
                        parent_pcb\<lparr>ebp := fr_ebp fr, esp := fr_esp fr\<rparr>]\<rparr>)
            });
            Some (iret_user eip_addr esp_addr (cli s))
          }
        })"

definition execute :: "frame \<Rightarrow> u32 \<Rightarrow> kernel \<Rightarrow> (kernel \<times> outcome) option" where
  "execute fr command s = do {
     let s = cli s;
     if command = 0 then Some (s, Return (-1))
     else do {
       m \<leftarrow> parse_name command (fr_function fr) (vmem s);
       let s = set_vmem m s;
       as \<leftarrow> parse_args command (vmem s) (args s);
       let s = s\<lparr>args := as\<rparr>;
       (m, valid) \<leftarrow> read_dentry_by_name (vmem s) (boot_block s) (fr_function fr) (fr_dentry fr);
       let s = set_vmem m s;
       if valid = -1 then Some (s, Return (-1))
       else if 0 \<notin> set (take MAX_PCB (pcb_arr s)) then do {
         (s, n) \<leftarrow> printf cant_open [] 0 s;
         Some (s, Return 0)
       }
       else do {
         let ino = inode_num (vmem s) (fr_dentry fr);
         let (m, valid) = read_data (vmem s) (boot_block s) ino 0 (fr_buf fr) 4;
         let s = set_vmem m s;
         if valid = -1 then Some (s, Return (-1))
         else if bytes_at (vmem s) (fr_buf fr) 4 \<noteq> [0x7F, 0x45, 0x4C, 0x46]
         then Some (s, Return (-1))
         else if currentTerminal s = 0 then None
         else start_process fr (currentTerminal s - 1) ino s
       }
     }
   }"

end
