(* ===== verification/CommandLine.thy ===== *)
theory CommandLine
  imports Process
begin

text \<open>
  What \<open>execute\<close> makes of its command: the name of the program and its arguments.
\<close>

section \<open>What the command line means\<close>

text \<open>The program name is the first word; the arguments are what follows the last space.\<close>

definition separator :: "u8 \<Rightarrow> bool" where
  "separator c \<longleftrightarrow> c = 0x20 \<or> c = 0x0A"

definition command_name :: "u8 list \<Rightarrow> u8 list" where
  "command_name cs = takeWhile (\<lambda>c. \<not> separator c) cs"

definition command_args :: "u8 list \<Rightarrow> u8 list" where
  "command_args cs = (if 0x20 \<in> set cs then rev (takeWhile (\<lambda>c. c \<noteq> 0x20) (rev cs)) else [])"

lemma command_name_nth:
  "i < length (command_name cs) \<Longrightarrow> i < length cs \<and> command_name cs ! i = cs ! i \<and> \<not> separator (cs ! i)"
  "length (command_name cs) < length cs \<Longrightarrow> separator (cs ! length (command_name cs))"
  "length (command_name cs) \<le> length cs"
  unfolding command_name_def
  by (auto simp: takeWhile_nth length_takeWhile_le dest: nth_length_takeWhile
      intro: order.strict_trans2 [OF _ length_takeWhile_le] nth_mem)
    (metis nth_mem set_takeWhileD takeWhile_nth)

text \<open>Memory outside the buffer is untouched; the first \<open>i\<close> places hold the name and its end.\<close>

definition name_copied :: "mem \<Rightarrow> u32 \<Rightarrow> u8 list \<Rightarrow> nat \<Rightarrow> mem \<Rightarrow> bool" where
  "name_copied m0 function w i m \<longleftrightarrow> (\<forall>a. \<not> within function 32 a \<longrightarrow> m a = m0 a)
     \<and> (\<forall>j < 32. (j < i \<longrightarrow> j < length w \<longrightarrow> m (function + of_nat j) = w ! j)
          \<and> (j < i \<longrightarrow> j = length w \<longrightarrow> m (function + of_nat j) = 0)
          \<and> (i \<le> j \<longrightarrow> m (function + of_nat j) = 0))"

lemma name_copied_step:
  assumes "name_copied m0 function w i m" "i < 32"
    and "i < length w \<Longrightarrow> c = w ! i" "i = length w \<Longrightarrow> c = 0"
  shows "name_copied m0 function w (Suc i) (m(function + of_nat i := c))"
proof -
  have "function + of_nat j = function + (of_nat i :: u32) \<longleftrightarrow> j = i" if "j < 32" for j
    using of_nat_inj32 [of j i] that assms(2) by simp
  moreover have "within function 32 (function + of_nat i)"
    using assms(2) by (subst within_offset) simp_all
  ultimately show ?thesis using assms by (auto simp: name_copied_def less_Suc_eq)
qed

lemma of_nat_pred32: "cs \<noteq> [] \<Longrightarrow> of_nat (length cs) - 1 = (of_nat (length cs - 1) :: u32)"
  by (simp add: of_nat_diff Suc_leI)

lemma copy_name_correct:
  assumes cmd: "cstring m0 command cs" "cs \<noteq> []" "\<And>k. k \<le> length cs \<Longrightarrow> \<not> within function 32 (command + of_nat k)"
    and nl: "nl \<Longrightarrow> last cs = 0x0A" and w: "w = command_name cs" "length w < 32"
  shows "name_copied m0 function w i m \<Longrightarrow> i \<le> 32 \<Longrightarrow> spaceFound \<longleftrightarrow> length w < i \<and> length w < length cs
    \<Longrightarrow> \<exists>m'. copy_name nl command function [i..<32] m spaceFound = Some m' \<and> (\<exists>j. name_copied m0 function w j m'
          \<and> length w \<le> j)"
proof (induction "32 - i" arbitrary: i m spaceFound)
  case 0
  then show ?case using w(2) by auto
next
  case (Suc n)
  then have i: "i < 32" "[i..<32] = i # [Suc i..<32]" by (simp_all add: upt_conv_Cons)
  have eq: "m (command + of_nat k) = m0 (command + of_nat k)" if "k \<le> length cs" for k
    using Suc.prems(1) cmd(3) [OF that] by (simp add: name_copied_def)
  then have cm: "cstring m command cs"
    using cmd(1) unfolding cstring_def by (metis bytes_at_cong less_or_eq_imp_le order_refl)
  have len: "length cs < 2 ^ 32" "unat (of_nat (length cs) :: u32) = length cs"
    using cstring_length [OF cm] by (simp_all add: unat_of_nat32)
  have lt: "of_nat i < (of_nat (length cs) :: u32) \<longleftrightarrow> i < length cs"
    using len i by (simp add: word_less_nat_alt unat_of_nat32)
  have ge: "of_nat i \<ge> (of_nat (length cs) - 1 :: u32) \<longleftrightarrow> length cs - 1 \<le> i"
    unfolding of_nat_pred32 [OF cmd(2)] using len i cmd(2) by (simp add: word_le_nat_alt unat_of_nat32)
  have ws: "length w \<le> length cs" using command_name_nth(3) w(1) by simp
  show ?case
  proof (cases "nl \<and> length cs - 1 \<le> i")
    case True
    have "separator (last cs)" using nl True by (simp add: separator_def)
    then have "length w \<le> length cs - 1"
      using command_name_nth(1) [of "length cs - 1" cs] w(1) cmd(2) last_conv_nth [OF cmd(2)] by force
    then show ?thesis using Suc.prems(1) True ge i by (auto simp: strlen_cstring [OF cm])
  next
    case False
    let ?c = "m (command + of_nat i)"
    have go: "copy_name nl command function [i..<32] m spaceFound
        = copy_name nl command function [Suc i..<32] (m(function + of_nat i := c)) sf"
      if "c = (if spaceFound \<or> i < length cs \<and> separator ?c then 0 else ?c)"
        "sf \<longleftrightarrow> spaceFound \<or> i < length cs \<and> separator ?c" for c sf
      using that False lt ge i(2) by (auto simp: strlen_cstring [OF cm] separator_def Let_def)
    have nth: "i < length cs \<Longrightarrow> ?c = cs ! i"
      using cstring_nth [OF cm] by simp
    define c where "c = (if spaceFound \<or> i < length cs \<and> separator ?c then 0 else ?c)"
    have c: "c = w ! i" if "i < length w"
      using that command_name_nth(1) [of i cs] nth w(1) Suc.prems(3) by (auto simp: c_def)
    have c0: "c = 0" if "i = length w"
      using that command_name_nth(2) [of cs] nth cstring_end [OF cm] w(1) ws
      by (cases "length w = length cs") (auto simp: c_def)
    have sf: "spaceFound \<or> i < length cs \<and> separator ?c \<longleftrightarrow> length w < Suc i \<and> length w < length cs"
      if "i \<le> length w \<or> spaceFound \<or> length w = length cs"
      using that command_name_nth(1) [of i cs] command_name_nth(2) [of cs] nth w(1) ws Suc.prems(3)
      by (cases "i < length w"; cases "i = length w") (auto simp: less_Suc_eq)
    have "i \<le> length w \<or> spaceFound \<or> length w = length cs" using Suc.prems(3) ws by auto
    note sf = sf [OF this]
    show ?thesis
      unfolding go [OF c_def refl]
      by (rule Suc.hyps(1)) (use Suc.hyps(2) sf name_copied_step [OF Suc.prems(1) i(1) c c0] in auto)
  qed
qed

lemma parse_name_correct:
  assumes "cstring m command cs" "cs \<noteq> []" "\<And>k. k \<le> length cs \<Longrightarrow> \<not> within function 32 (command + of_nat k)"
    and "length (command_name cs) < 32"
  obtains m' where "parse_name command function m = Some m'" "cstring m' function (command_name cs)"
    "\<And>a. \<not> within function 32 a \<Longrightarrow> m' a = m a"
proof -
  let ?m = "poke m function (replicate 32 0)" and ?w = "command_name cs"
  have eq: "?m (command + of_nat k) = m (command + of_nat k)" if "k \<le> length cs" for k
    using assms(3) [OF that] by (simp add: poke_other)
  then have cm: "cstring ?m command cs"
    using assms(1) unfolding cstring_def by (metis bytes_at_cong less_or_eq_imp_le order_refl)
  have z: "?m (function + of_nat j) = 0" if "j < 32" for j
    using poke_at [of j "replicate 32 (0 :: u8)" m "function"] that by simp
  have n0: "name_copied ?m function ?w 0 ?m" using z by (simp add: name_copied_def)
  define nl where "nl \<longleftrightarrow> ?m (command + (of_nat (length cs) - 1)) = 0x0A"
  have "nl \<Longrightarrow> last cs = 0x0A"
    unfolding nl_def of_nat_pred32 [OF assms(2)] using cstring_nth [OF cm, of "length cs - 1"] assms(2) by (simp add: last_conv_nth)
  from copy_name_correct [OF cm assms(2,3) this refl assms(4) n0, where nl = nl and spaceFound = False]
  obtain m' j where m': "parse_name command function m = Some m'" "name_copied ?m function ?w j m'" "length ?w \<le> j"
    by (auto simp: parse_name_def Let_def strlen_cstring [OF cm] nl_def [symmetric])
  have "m' (function + of_nat (length ?w)) = 0"
    using m'(2,3) assms(4) by (cases "length ?w < j") (auto simp: name_copied_def)
  moreover have "bytes_at m' function (length ?w) = ?w"
    using m'(2,3) assms(4) by (intro nth_equalityI) (auto simp: name_copied_def)
  moreover have "0 \<notin> set ?w"
    using assms(1) set_takeWhileD by (force simp: command_name_def cstring_def)
  ultimately have "cstring m' function ?w" using assms(4) by (simp add: cstring_def)
  moreover have "m' a = m a" if "\<not> within function 32 a" for a
    using m'(2) that by (simp add: name_copied_def poke_other)
  ultimately show ?thesis using that m'(1) by blast
qed

lemma command_args_drop:
  assumes "i < length cs" "cs ! i = 0x20" "\<And>j. i < j \<Longrightarrow> j < length cs \<Longrightarrow> cs ! j \<noteq> 0x20"
  shows "command_args cs = drop (Suc i) cs"
proof -
  have "0x20 \<notin> set (drop (Suc i) cs)" using assms(3) by (auto simp: in_set_conv_nth)
  then have "takeWhile (\<lambda>c. c \<noteq> 0x20) (rev (drop (Suc i) cs) @ 0x20 # rev (take i cs)) = rev (drop (Suc i) cs)"
    by (subst takeWhile_append2) auto
  moreover have "rev cs = rev (drop (Suc i) cs) @ 0x20 # rev (take i cs)"
    using arg_cong [OF id_take_nth_drop [OF assms(1)], of rev] assms(2) by simp
  moreover have "0x20 \<in> set cs" using assms(1,2) by (metis nth_mem)
  ultimately show ?thesis by (simp add: command_args_def)
qed

lemma fold_store:
  assumes "length a = N"
  shows "length (fold (\<lambda>i a. if i - k < N then a[i - k := f i] else a) [k..<n] a) = N
    \<and> (\<forall>j < N. fold (\<lambda>i a. if i - k < N then a[i - k := f i] else a) [k..<n] a ! j
          = (if k + j < n then f (k + j) else a ! j))"
proof (induction n)
  case (Suc n)
  then show ?case by (cases "k \<le> n") (auto simp: nth_list_update assms)
qed (simp add: assms)

lemma parse_args_correct:
  assumes "cstring m command cs" "length buf = 128"
  shows "parse_args command m buf
    = Some (take 128 (command_args cs) @ replicate (128 - length (command_args cs)) 0)"
proof -
  have len: "unat (of_nat (length cs) :: u32) = length cs"
    using cstring_length [OF assms(1)] by (simp add: unat_of_nat32)
  have nth: "i < length cs \<Longrightarrow> m (command + of_nat i) = cs ! i" for i
    using cstring_nth [OF assms(1)] by simp
  have z: "zeroes buf = replicate 128 0"
    using assms(2) by (simp add: zeroes_def zeros_def map_replicate_const)
  show ?thesis
  proof (cases "0x20 \<in> set cs")
    case False
    then have "last_space m command (length cs) = -1"
      using fold_last_match [of "\<lambda>i. m (command + of_nat i) = 0x20" "length cs"] nth
      by (auto simp: last_space_def Let_def in_set_conv_nth)
    then show ?thesis using False
      by (simp add: parse_args_def strlen_cstring [OF assms(1)] len z command_args_def)
  next
    case True
    then obtain i where i: "last_space m command (length cs) = int i" "i < length cs" "cs ! i = 0x20"
      "\<And>j. i < j \<Longrightarrow> j < length cs \<Longrightarrow> cs ! j \<noteq> 0x20"
      using fold_last_match [of "\<lambda>i. m (command + of_nat i) = 0x20" "length cs"] nth
      by (fastforce simp: last_space_def Let_def in_set_conv_nth)
    note a = command_args_drop [OF i(2-4)]
    let ?r = "fold (\<lambda>j a. if j - Suc i < 128 then a[j - Suc i := m (command + of_nat j)] else a)
      [Suc i..<length cs] (replicate 128 0)"
    have r: "length ?r = 128" "\<And>j. j < 128 \<Longrightarrow> ?r ! j = (if Suc i + j < length cs then cs ! (Suc i + j) else 0)"
      using fold_store [of "replicate 128 (0 :: u8)" 128 "Suc i" "\<lambda>j. m (command + of_nat j)" "length cs"] nth [of "Suc i + j" for j]
      by auto
    have "?r = take 128 (drop (Suc i) cs) @ replicate (128 - length (drop (Suc i) cs)) 0"
      using r by (intro nth_equalityI) (auto simp: nth_append)
    then show ?thesis
      by (simp add: parse_args_def strlen_cstring [OF assms(1)] len z i(1) a BUFSIZE_def cong del: if_weak_cong)
  qed
qed

end
