(* ===== verification/Loader.thy ===== *)
theory Loader
  imports Descriptors
begin

text \<open>
  Loading a program. \<open>execute\<close> asks \<open>read_data\<close> for 4 MB, far more than a program has: the loop
  then runs past the end of the file, up to the end of a data block. What it stores there is
  whatever the disk image holds; the bytes of the file are in place all the same.
\<close>

lemma read_data_loop_frame:
  "(\<And>k. unat i \<le> k \<Longrightarrow> k < unat len \<Longrightarrow> a \<noteq> buf + of_nat k) \<Longrightarrow> unat br \<le> unat i \<Longrightarrow> unat i \<le> unat len \<Longrightarrow>
   fst (read_data_loop m ip ds off buf len i idx dbn aib br) a = m a
   \<and> unat (snd (read_data_loop m ip ds off buf len i idx dbn aib br)) \<le> unat len"
proof (induction m ip ds off buf len i idx dbn aib br rule: read_data_loop.induct)
  case (1 m ip ds off buf len i idx dbn aib br)
  show ?case
  proof (cases "i < len \<and> \<not> (aib = 4096 \<and> br > inode_length m ip - off)")
    case False
    then show ?thesis using "1.prems" by (subst (1 2) read_data_loop.simps) auto
  next
    case True
    then have il: "unat i < unat len" by (simp add: word_less_nat_alt)
    have s: "unat (i + 1) = Suc (unat i)" using True by (intro unat_Suc32) auto
    have b: "unat (br + 1) \<le> Suc (unat br)" by (simp add: unat_word_ariths)
    obtain idx' dbn' aib' where st: "(if aib = 4096 then (idx + 1, data_block_num m ip (idx + 1), 0)
        else (idx, dbn, aib)) = (idx', dbn', aib')" by (metis surj_pair)
    let ?m = "memcpy m (buf + i) (ds + 4096 * dbn' + aib') 1"
    have go: "read_data_loop m ip ds off buf len i idx dbn aib br
        = read_data_loop ?m ip ds off buf len (i + 1) idx' dbn' (aib' + 1) (br + 1)"
      using True by (subst read_data_loop.simps) (auto simp: st)
    have "fst (read_data_loop ?m ip ds off buf len (i + 1) idx' dbn' (aib' + 1) (br + 1)) a = ?m a
      \<and> unat (snd (read_data_loop ?m ip ds off buf len (i + 1) idx' dbn' (aib' + 1) (br + 1))) \<le> unat len"
      using "1.prems" True il s b st by (intro "1.IH" [OF _ _ refl st [symmetric] refl refl]) auto
    moreover have "?m a = m a" using "1.prems"(1) [of "unat i"] il by (simp add: memcpy_one)
    ultimately show ?thesis by (simp only: go)
  qed
qed

lemma read_data_whole:
  assumes "fs_size m bb \<le> 2 ^ 32" "inode < num_inodes m bb" "inode_ok m bb inode"
    and "apart buf (file_length m bb inode) bb (fs_size m bb)"
    and "file_length m bb inode \<le> unat len" "unat len < 2 ^ 32 - 1"
  obtains m' r where "read_data m bb inode 0 buf len = (m', r)" "r \<noteq> -1"
    "bytes_at m' buf (file_length m bb inode) = file_contents m bb inode"
    "\<And>a. \<not> within buf (unat len) a \<Longrightarrow> m' a = m a"
proof -
  let ?n = "file_length m bb inode"
  let ?m = "poke m buf (file_contents m bb inode)"
  have n: "?n < 2 ^ 32" "unat (of_nat ?n :: u32) = ?n"
    using assms(5,6) by (simp_all add: unat_of_nat32)
  obtain idx aib where "read_data m bb inode 0 buf len
      = read_data_loop ?m (inode_at bb inode) (data_start m bb) 0 buf len (of_nat ?n) (of_nat idx)
          (data_block_num m (inode_at bb inode) (of_nat idx)) (of_nat aib) (of_nat ?n)"
    using read_data_loop_prefix [OF assms(1-4) _ assms(5), of 0 0 0]
      read_data_unfold [OF assms(2), of 0 buf len]
    by (auto simp: file_contents_def)
  note eq = this
  have tail: "fst (read_data m bb inode 0 buf len) a = ?m a \<and> unat (snd (read_data m bb inode 0 buf len)) \<le> unat len"
    if "\<And>k. ?n \<le> k \<Longrightarrow> k < unat len \<Longrightarrow> a \<noteq> buf + of_nat k" for a
    unfolding eq by (rule read_data_loop_frame) (use that n assms(5) in auto)
  have "fst (read_data m bb inode 0 buf len) (buf + of_nat j) = ?m (buf + of_nat j)" if j: "j < ?n" for j
  proof (rule conjunct1 [OF tail])
    fix k assume "?n \<le> k" "k < unat len"
    then show "buf + of_nat j \<noteq> buf + (of_nat k :: u32)"
      using j assms(6) of_nat_inj32 [of j k] by auto
  qed
  then have "bytes_at (fst (read_data m bb inode 0 buf len)) buf ?n = bytes_at ?m buf ?n"
    by (rule bytes_at_cong)
  also have "\<dots> = file_contents m bb inode"
    using bytes_at_poke [of "file_contents m bb inode" m buf] n by simp
  finally have b: "bytes_at (fst (read_data m bb inode 0 buf len)) buf ?n = file_contents m bb inode" .
  have out: "fst (read_data m bb inode 0 buf len) a = m a \<and> unat (snd (read_data m bb inode 0 buf len)) \<le> unat len"
    if "\<not> within buf (unat len) a" for a
  proof -
    have "\<not> within buf ?n a" using that within_mono [of buf ?n a "unat len"] assms(5) by blast
    then have "?m a = m a" by (simp add: poke_other)
    moreover have "a \<noteq> buf + of_nat k" if "k < unat len" for k
      using \<open>\<not> within buf (unat len) a\<close> that assms(6) within_offset [of k buf "unat len"] by auto
    ultimately show ?thesis using tail [of a] by simp
  qed
  have "\<not> within buf (unat len) (buf + of_nat (unat len))"
    using assms(6) within_offset [of "unat len" buf "unat len"] by simp
  then have "unat (snd (read_data m bb inode 0 buf len)) < 2 ^ 32 - 1" using out assms(6) by fastforce
  then have "snd (read_data m bb inode 0 buf len) \<noteq> -1" using of_nat_neq_m1 by fastforce
  then show ?thesis using that [OF prod.collapse [symmetric]] b out by blast
qed

lemma read_data_loaded:
  assumes "fs_size m bb \<le> 2 ^ 32" "inode < num_inodes m bb" "inode_ok m bb inode"
    and "apart buf (file_length m bb inode) bb (fs_size m bb)"
    and "file_length m bb inode \<le> unat len" "unat len < 2 ^ 32 - 1"
  shows "\<exists>m' r. read_data m bb inode 0 buf len = (m', r) \<and> r \<noteq> -1
    \<and> bytes_at m' buf (file_length m bb inode) = file_contents m bb inode"
  by (rule read_data_whole [OF assms]) blast

end
