(* ===== verification/Stacks.thy ===== *)
theory Stacks
  imports CommandLine Loader
begin

text \<open>
  The processes of the three terminals as three stacks: the specification that \<open>execute\<close> and
  \<open>halt\<close> implement. The top of a stack is the running process of its terminal, the element
  below a process is its parent, the bottom is the terminal's base shell. \<open>execute\<close> pushes the lowest free
  process number, \<open>halt\<close> pops, except for a base shell, which it restarts.
\<close>

section \<open>The abstraction\<close>

fun chain :: "(nat \<Rightarrow> nat) \<Rightarrow> nat list \<Rightarrow> bool" where
  "chain par [] = False"
| "chain par [p] = (par p = p)"
| "chain par (p # q # ps) = (par p = q \<and> chain par (q # ps))"

definition parent_of :: "kernel \<Rightarrow> nat \<Rightarrow> nat" where
  "parent_of s p = parent (pcbs s ! p)"

definition stacks_ok :: "nat list list \<Rightarrow> kernel \<Rightarrow> bool" where
  "stacks_ok cs s \<longleftrightarrow> length cs = 3 \<and> distinct (concat cs)
     \<and> length (pcb_arr s) = 6 \<and> length (parent_pid_for_term s) = 3
     \<and> (\<forall>p. p \<in> set (concat cs) \<longleftrightarrow> p < 6 \<and> pcb_arr s ! p \<noteq> 0)
     \<and> (\<forall>t < 3. chain (parent_of s) (cs ! t) \<and> last (cs ! t) = t
          \<and> curr_pid_for_term s ! t = hd (cs ! t)
          \<and> parent_pid_for_term s ! t = parent_of s (hd (cs ! t)))"

text \<open>The rest of the state the process calls rely on: the sizes of the arrays, and the console
  descriptors of every process there is.\<close>

definition process_ok :: "kernel \<Rightarrow> bool" where
  "process_ok s \<longleftrightarrow> procs_ok s \<and> length (enter_flag s) = 3 \<and> length (terminal_switch_array s) = 3
     \<and> curr_terminal_idx s < 3 \<and> length (page_directory s) = 1024 \<and> length (args s) = 128
     \<and> (\<forall>p < 6. pcb_arr s ! p \<noteq> 0 \<longrightarrow> flags (fdArray (pcbs s ! p) ! 0) = full
          \<and> flags (fdArray (pcbs s ! p) ! 1) = full)"

lemma chain_cong: "(\<And>p. p \<in> set c \<Longrightarrow> f p = g p) \<Longrightarrow> chain f c = chain g c"
  by (induction g c rule: chain.induct) auto

lemma chain_Cons: "chain f (p # c) \<longleftrightarrow> (if c = [] then f p = p else f p = hd c \<and> chain f c)"
  by (cases c) auto

lemma chain_nonempty: "chain f c \<Longrightarrow> c \<noteq> []"
  by auto

lemma distinct_concat_nth:
  assumes "distinct (concat cs)" "t < length cs" "u < length cs" "x \<in> set (cs ! t)" "x \<in> set (cs ! u)"
  shows "t = u"
  using assms
proof (induction cs arbitrary: t u)
  case (Cons c cs)
  have h: "x \<notin> set c" if "k < length cs" "x \<in> set (cs ! k)" for k
  proof -
    have "cs ! k \<in> set cs" using that by simp
    then have "x \<in> set (concat cs)" using that(2) unfolding set_concat by blast
    then show ?thesis using Cons.prems(1) by auto
  qed
  show ?case
    using Cons.prems Cons.IH h by (cases t; cases u) auto
qed simp

lemma distinct_concat_update:
  assumes "distinct (concat cs)" "t < length cs" "distinct c" "set c \<inter> set (concat cs) \<subseteq> set (cs ! t)"
  shows "distinct (concat (cs[t := c]))"
  using assms
proof (induction cs arbitrary: t)
  case (Cons d cs)
  show ?case
  proof (cases t)
    case 0
    then show ?thesis using Cons.prems by auto
  next
    case (Suc k)
    have k: "k < length cs" "set (cs ! k) \<subseteq> set (concat cs)" using Cons.prems Suc by auto
    then have dc: "set d \<inter> set c = {}" using Cons.prems Suc by auto
    have "distinct (concat (cs[k := c]))" using Cons.prems Suc by (intro Cons.IH) auto
    moreover have "set (cs[k := c]) \<subseteq> insert c (set cs)" by (rule set_update_subset_insert)
    ultimately show ?thesis using Cons.prems dc Suc by (fastforce simp: disjoint_iff)
  qed
qed simp

lemma set_concat_update:
  assumes "distinct (concat cs)" "t < length cs"
  shows "set (concat (cs[t := c])) = set (concat cs) - set (cs ! t) \<union> set c"
  using assms
proof (induction cs arbitrary: t)
  case (Cons d cs)
  show ?case
  proof (cases t)
    case 0
    then show ?thesis using Cons.prems by auto
  next
    case (Suc k)
    then have "set (cs ! k) \<subseteq> set (concat cs)" using Cons.prems by auto
    then have "set d \<inter> set (cs ! k) = {}" using Cons.prems by auto
    moreover have "set (concat (cs[k := c])) = set (concat cs) - set (cs ! k) \<union> set c"
      using Cons.prems Suc by (intro Cons.IH) auto
    ultimately show ?thesis using Suc by auto
  qed
qed simp

lemma stacksD:
  assumes "stacks_ok cs s" "t < 3"
  shows "chain (parent_of s) (cs ! t)" "cs ! t \<noteq> []" "last (cs ! t) = t"
    "curr_pid_for_term s ! t = hd (cs ! t)" "parent_pid_for_term s ! t = parent_of s (hd (cs ! t))"
    "hd (cs ! t) < 6" "t \<in> set (concat cs)" "hd (cs ! t) \<in> set (concat cs)" "set (cs ! t) \<subseteq> set (concat cs)"
proof -
  show c: "chain (parent_of s) (cs ! t)" "last (cs ! t) = t" "curr_pid_for_term s ! t = hd (cs ! t)"
    "parent_pid_for_term s ! t = parent_of s (hd (cs ! t))"
    using assms by (simp_all add: stacks_ok_def)
  show ne: "cs ! t \<noteq> []" using chain_nonempty [OF c(1)] .
  show sub: "set (cs ! t) \<subseteq> set (concat cs)" using assms by (auto simp: stacks_ok_def)
  show "t \<in> set (concat cs)" using sub c(2) last_in_set [OF ne] by auto
  show h: "hd (cs ! t) \<in> set (concat cs)" using sub hd_in_set [OF ne] by blast
  show "hd (cs ! t) < 6" using h assms(1) unfolding stacks_ok_def by blast
qed

text \<open>A base shell is at the bottom of its own stack; it runs only when it is alone there.\<close>

lemma base_alone:
  assumes "stacks_ok cs s" "t < 3"
  shows "hd (cs ! t) < 3 \<longleftrightarrow> length (cs ! t) = 1" "hd (cs ! t) < 3 \<Longrightarrow> cs ! t = [t]"
proof -
  note T = stacksD [OF assms]
  have d: "distinct (cs ! t)" using assms by (auto simp: stacks_ok_def distinct_concat_iff)
  have *: "cs ! t = [t]" if "hd (cs ! t) < 3"
  proof -
    have "hd (cs ! t) \<in> set (cs ! hd (cs ! t))"
      using stacksD(2,3) [OF assms(1) that] last_in_set by metis
    then have "hd (cs ! t) = t"
      using distinct_concat_nth [of cs "hd (cs ! t)" t] T(2) assms that by (simp add: stacks_ok_def)
    then show ?thesis using T(2,3) d by (cases "cs ! t") (auto split: if_splits)
  qed
  then show "hd (cs ! t) < 3 \<Longrightarrow> cs ! t = [t]" .
  show "hd (cs ! t) < 3 \<longleftrightarrow> length (cs ! t) = 1"
  proof
    assume "length (cs ! t) = 1"
    then obtain x where "cs ! t = [x]" by (auto simp: length_Suc_conv)
    then show "hd (cs ! t) < 3" using T(3) assms(2) by simp
  next
    assume "hd (cs ! t) < 3"
    from * [OF this] show "length (cs ! t) = 1" by simp
  qed
qed

end
