(* ===== verification/Execute.thy ===== *)
theory Execute
  imports Stacks
begin

text \<open>
  \<open>execute\<close> step by step: the state a started process leaves, the start of a program from a
  well-formed file, and the effect on the process stacks.
\<close>

section \<open>The state after a start\<close>

definition new_pcb :: "nat \<Rightarrow> nat \<Rightarrow> mem \<Rightarrow> PCB \<Rightarrow> PCB" where
  "new_pcb p par m pcb = (init_pcb p par pcb)\<lparr>eip := ld32 m (PROGRAM_IMG + 24),
     esp_program_start := USR_MEM_VIRT_ADDR + MB4 - 4\<rparr>"

definition started_pcbs :: "frame \<Rightarrow> nat \<Rightarrow> nat \<Rightarrow> mem \<Rightarrow> PCB list \<Rightarrow> PCB list" where
  "started_pcbs fr p par m ps =
     (if p < 3 then ps[p := new_pcb p p m (ps ! p)]
      else let ps = ps[p := new_pcb p par m (ps ! p)]
        in ps[par := (ps ! par)\<lparr>ebp := fr_ebp fr, esp := fr_esp fr\<rparr>])"

definition started :: "frame \<Rightarrow> nat \<Rightarrow> nat \<Rightarrow> mem \<Rightarrow> kernel \<Rightarrow> kernel" where
  "started fr t p m s = (set_tss p (set_vmem m ((set_user_page p s)
     \<lparr>pcb_arr := (pcb_arr s)[p := 1],
      parent_pid_for_term := (parent_pid_for_term s)[t := curr_pid_for_term s ! t],
      curr_pid_for_term := (curr_pid_for_term s)[t := p]\<rparr>)))
     \<lparr>pcbs := started_pcbs fr p (curr_pid_for_term s ! t) m (pcbs s)\<rparr>"

lemma base_pids: "p = 0 \<or> p = Suc 0 \<or> p = 2 \<longleftrightarrow> p < (3 :: nat)"
  by auto

lemma vmem_process_upd [simp]:
  "vmem (s\<lparr>pcb_arr := a\<rparr>) = vmem s" "vmem (s\<lparr>parent_pid_for_term := b\<rparr>) = vmem s"
  "vmem (s\<lparr>curr_pid_for_term := c\<rparr>) = vmem s" "vmem (s\<lparr>pcbs := d\<rparr>) = vmem s"
  "vmem (s\<lparr>args := e\<rparr>) = vmem s" "vmem (set_tss p s) = vmem s" "vmem (cli s) = vmem s"
  "vmem (s\<lparr>enter_flag := f\<rparr>) = vmem s" "vmem (s\<lparr>tss_esp0 := g\<rparr>) = vmem s"
  "vmem (s\<lparr>tss_ss0 := h\<rparr>) = vmem s" "vmem (s\<lparr>iflag := i\<rparr>) = vmem s"
  by (rule ext, simp add: vmem_def user_frame_def set_tss_def cli_def)+

lemma set_user_page_upd [simp]:
  "set_user_page p (s\<lparr>pcb_arr := a\<rparr>) = (set_user_page p s)\<lparr>pcb_arr := a\<rparr>"
  "set_user_page p (s\<lparr>parent_pid_for_term := b\<rparr>) = (set_user_page p s)\<lparr>parent_pid_for_term := b\<rparr>"
  "set_user_page p (s\<lparr>curr_pid_for_term := c\<rparr>) = (set_user_page p s)\<lparr>curr_pid_for_term := c\<rparr>"
  by (simp_all add: set_user_page_def)

lemma set_user_page_fields [simp]:
  "boot_block (set_user_page p s) = boot_block s" "pcbs (set_user_page p s) = pcbs s"
  "pcb_arr (set_user_page p s) = pcb_arr s" "frames (set_user_page p s) = frames s"
  "lowmem (set_user_page p s) = lowmem s" "scheduled_term (set_user_page p s) = scheduled_term s"
  "curr_pid_for_term (set_user_page p s) = curr_pid_for_term s"
  "parent_pid_for_term (set_user_page p s) = parent_pid_for_term s"
  "length (page_directory (set_user_page p s)) = length (page_directory s)"
  by (simp_all add: set_user_page_def)

lemma set_vmem_fields [simp]:
  "boot_block (set_vmem m s) = boot_block s" "pcbs (set_vmem m s) = pcbs s"
  "pcb_arr (set_vmem m s) = pcb_arr s" "scheduled_term (set_vmem m s) = scheduled_term s"
  "curr_pid_for_term (set_vmem m s) = curr_pid_for_term s" "args (set_vmem m s) = args s"
  "parent_pid_for_term (set_vmem m s) = parent_pid_for_term s"
  "currentTerminal (set_vmem m s) = currentTerminal s" "user_frame (set_vmem m s) = user_frame s"
  "page_directory (set_vmem m s) = page_directory s"
  by (simp_all add: set_vmem_def user_frame_def)

lemma started_fields [simp]:
  "pcb_arr (started fr t p m s) = (pcb_arr s)[p := 1]"
  "parent_pid_for_term (started fr t p m s) = (parent_pid_for_term s)[t := curr_pid_for_term s ! t]"
  "curr_pid_for_term (started fr t p m s) = (curr_pid_for_term s)[t := p]"
  "pcbs (started fr t p m s) = started_pcbs fr p (curr_pid_for_term s ! t) m (pcbs s)"
  "scheduled_term (started fr t p m s) = scheduled_term s"
  "enter_flag (started fr t p m s) = enter_flag s"
  "terminal_switch_array (started fr t p m s) = terminal_switch_array s"
  "curr_terminal_idx (started fr t p m s) = curr_terminal_idx s"
  "args (started fr t p m s) = args s" "currentTerminal (started fr t p m s) = currentTerminal s"
  "boot_block (started fr t p m s) = boot_block s"
  "page_directory (started fr t p m s) = page_directory (set_user_page p s)"
  "tss_esp0 (started fr t p m s) = MB8 - KB8 * of_nat p"
  by (simp_all add: started_def set_tss_def set_vmem_def) (simp_all add: set_user_page_def)

lemma vmem_started [simp]: "vmem (started fr t p m s) = m"
  by (simp add: started_def)

lemma start_process_eq:
  assumes "procs_ok s" "length (pcb_arr s) = 6" "length (parent_pid_for_term s) = 3" "t < 3"
    and "first_index 0 (pcb_arr s) = Some p"
    and "read_data (vmem (set_user_page p s)) (boot_block s) ino 0 PROGRAM_IMG 0x400000 = (m, r)" "r \<noteq> -1"
  shows "start_process fr t ino s = Some (iret_user (ld32 m (PROGRAM_IMG + 24)) (USR_MEM_VIRT_ADDR + MB4 - 4)
    (cli (started fr t p m s)))"
proof -
  have p: "p < 6" using first_index_Some [OF assms(5)] assms(2) by simp
  have l: "length (curr_pid_for_term s) = 3" "length (pcbs s) = 6" "curr_pid_for_term s ! t < 6"
    using assms(1,4) by (auto simp: procs_ok_def)
  show ?thesis
    using p l assms(2-7) by (cases "p < 3")
      (simp_all add: start_process_def Let_def base_pids started_pcbs_def new_pcb_def set_tss_def iret_user_def
        aget_def aset_def started_def)
qed

section \<open>A start pushes\<close>

lemma started_pcbs_nth:
  assumes "length ps = 6" "p < 6" "par < 6" "3 \<le> p" "par \<noteq> p" "q < 6"
  shows "started_pcbs fr p par m ps ! q = (if q = p then new_pcb p par m (ps ! p)
    else if q = par then (ps ! par)\<lparr>ebp := fr_ebp fr, esp := fr_esp fr\<rparr> else ps ! q)"
  using assms by (auto simp: started_pcbs_def Let_def nth_list_update)

lemma length_started_pcbs [simp]: "length (started_pcbs fr p par m ps) = length ps"
  by (simp add: started_pcbs_def Let_def)

lemma new_pcb_fds:
  assumes "fds_ok pcb"
  shows "fds_ok (new_pcb p par m pcb)" "flags (fdArray (new_pcb p par m pcb) ! 0) = full"
    "flags (fdArray (new_pcb p par m pcb) ! 1) = full"
proof -
  have l: "length (fdArray pcb) = 8" using assms by (simp add: fds_ok_def)
  then obtain a xs where "fdArray pcb = a # xs" "length xs = 7" by (cases "fdArray pcb") auto
  moreover then obtain b ys where "xs = b # ys" "length ys = 6" by (cases xs) auto
  ultimately have F: "fdArray pcb = a # b # ys" "length ys = 6" by simp_all
  then show "fds_ok (new_pcb p par m pcb)"
    using assms by (auto simp: fds_ok_def new_pcb_def init_pcb_def console_fd_def console_table_def wild_def)
  show "flags (fdArray (new_pcb p par m pcb) ! 0) = full" "flags (fdArray (new_pcb p par m pcb) ! 1) = full"
    by (simp_all add: new_pcb_def init_pcb_def F console_fd_def)
qed

lemma fds_ok_regs [simp]: "fds_ok (pcb\<lparr>ebp := a, esp := b\<rparr>) = fds_ok pcb"
  by (simp add: fds_ok_def)

lemma free_pid:
  assumes "stacks_ok cs s" "first_index 0 (pcb_arr s) = Some p"
  shows "p < 6" "3 \<le> p" "p \<notin> set (concat cs)" "pcb_arr s ! p = 0"
proof -
  show p: "p < 6" "pcb_arr s ! p = 0"
    using first_index_Some [OF assms(2)] assms(1) by (auto simp: stacks_ok_def)
  then show "p \<notin> set (concat cs)" using assms(1) by (simp add: stacks_ok_def del: set_concat)
  then show "3 \<le> p" using stacksD(7) [OF assms(1), of p] by fastforce
qed

lemma started_push:
  assumes "stacks_ok cs s" "process_ok s" "t < 3" "first_index 0 (pcb_arr s) = Some p"
  shows "stacks_ok (cs[t := p # cs ! t]) (started fr t p m s)"
proof -
  note P = free_pid [OF assms(1,4)] and T = stacksD [OF assms(1)]
  have L: "length cs = 3" "length (pcb_arr s) = 6" "length (parent_pid_for_term s) = 3" "distinct (concat cs)"
    "length (curr_pid_for_term s) = 3" "length (pcbs s) = 6"
    using assms(1,2) by (simp_all add: stacks_ok_def process_ok_def procs_ok_def)
  let ?s = "started fr t p m s" and ?cs = "cs[t := p # cs ! t]"
  have h: "hd (cs ! t) \<noteq> p" using T(8) [OF assms(3)] P(3) by metis
  have par: "parent_of ?s q = (if q = p then hd (cs ! t) else parent_of s q)" if "q < 6" for q
    using that started_pcbs_nth [OF L(6) P(1) T(6) [OF assms(3)] P(2) h] T(4) [OF assms(3)]
    by (simp add: parent_of_def new_pcb_def init_pcb_def)
  have sub: "q < 6" if "q \<in> set (concat cs)" for q
    using that assms(1) unfolding stacks_ok_def by blast
  have set': "set (concat ?cs) = insert p (set (concat cs))"
    using set_concat_update [OF L(4), of t] T(9) [OF assms(3)] L(1) assms(3) by auto
  have dist: "distinct (concat ?cs)"
    using L assms(3) P(3) by (intro distinct_concat_update) (auto simp: distinct_concat_iff)
  have ch: "chain (parent_of ?s) (cs ! u)" if "u < 3" for u
  proof -
    have "parent_of ?s q = parent_of s q" if "q \<in> set (cs ! u)" for q
    proof -
      have "q \<in> set (concat cs)" using that T(9) [OF \<open>u < 3\<close>] by blast
      then show ?thesis using par [OF sub] P(3) by metis
    qed
    then show ?thesis using T(1) [OF that] chain_cong by metis
  qed
  have "chain (parent_of ?s) (?cs ! u) \<and> last (?cs ! u) = u \<and> curr_pid_for_term ?s ! u = hd (?cs ! u)
      \<and> parent_pid_for_term ?s ! u = parent_of ?s (hd (?cs ! u))" if "u < 3" for u
  proof (cases "u = t")
    case True
    then show ?thesis using ch [OF assms(3)] T [OF assms(3)] par [OF P(1)] L assms(3) by (simp add: chain_Cons)
  next
    case False
    have "hd (cs ! u) \<noteq> p" using T(8) [OF that] P(3) by auto
    then show ?thesis using False ch [OF that] T [OF that] par [OF T(6) [OF that]] L by simp
  qed
  moreover have "q \<in> set (concat ?cs) \<longleftrightarrow> q < 6 \<and> pcb_arr ?s ! q \<noteq> 0" for q
    using assms(1) L(2) P(1) unfolding set' stacks_ok_def
    by (cases "q = p") (auto simp del: set_concat)
  ultimately show ?thesis using L dist by (simp add: stacks_ok_def del: set_concat)
qed

lemma started_process_ok:
  assumes "stacks_ok cs s" "process_ok s" "t < 3" "first_index 0 (pcb_arr s) = Some p"
  shows "process_ok (started fr t p m s)"
proof -
  note P = free_pid [OF assms(1,4)] and T = stacksD [OF assms(1,3)]
  have L: "length (pcb_arr s) = 6" "length (curr_pid_for_term s) = 3" "length (pcbs s) = 6"
    and F: "\<And>q. q < 6 \<Longrightarrow> fds_ok (pcbs s ! q)"
    using assms(1,2) by (simp_all add: stacks_ok_def process_ok_def procs_ok_def)
  have par: "hd (cs ! t) < 6" "hd (cs ! t) \<noteq> p" "curr_pid_for_term s ! t = hd (cs ! t)"
    using T P by auto
  note nth = started_pcbs_nth [OF L(3) P(1) par(1) P(2) par(2)]
  have "fds_ok (started_pcbs fr p (hd (cs ! t)) m (pcbs s) ! q)" if "q < 6" for q
    using that F new_pcb_fds(1) P(1) par(1) by (auto simp: nth)
  then have "\<forall>pcb \<in> set (started_pcbs fr p (hd (cs ! t)) m (pcbs s)). fds_ok pcb"
    using L(3) by (auto simp: in_set_conv_nth)
  moreover have "set ((curr_pid_for_term s)[t := p]) \<subseteq> insert p (set (curr_pid_for_term s))"
    by (rule set_update_subset_insert)
  ultimately have "procs_ok (started fr t p m s)"
    using assms(2) P(1) L par(3) by (auto simp: process_ok_def procs_ok_def)
  then show ?thesis
    using assms(2) L P new_pcb_fds(2,3) [OF F [OF P(1)]] par
    by (auto simp: process_ok_def nth nth_list_update)
qed

end
