(* ===== verification/Halt.thy ===== *)
theory Halt
  imports Execute
begin

text \<open>
  \<open>halt\<close>: the closing of the descriptors, the state it leaves, and its effect on the process
  stacks.
\<close>

section \<open>Closing the descriptors\<close>

text \<open>The close functions change only the line buffer and the table of terminals.\<close>

definition closing :: "kernel \<Rightarrow> kernel \<Rightarrow> bool" where
  "closing s s' \<longleftrightarrow> (\<exists>tb tis. s' = s\<lparr>term_buf := tb, terminal_switch_array := tis\<rparr>
     \<and> length tis = length (terminal_switch_array s))"

lemma closing_refl [simp]: "closing s s"
  unfolding closing_def by (rule exI [of _ "term_buf s"], rule exI [of _ "terminal_switch_array s"]) simp

lemma closingI: "length tis = length (terminal_switch_array s) \<Longrightarrow>
    closing s (s\<lparr>term_buf := tb, terminal_switch_array := tis\<rparr>)"
  unfolding closing_def by blast

lemma closing_trans:
  assumes "closing s t" "closing t u"
  shows "closing s u"
proof -
  obtain a b where t: "t = s\<lparr>term_buf := a, terminal_switch_array := b\<rparr>"
    "length b = length (terminal_switch_array s)"
    using assms(1) unfolding closing_def by blast
  obtain c d where u: "u = t\<lparr>term_buf := c, terminal_switch_array := d\<rparr>"
    "length d = length (terminal_switch_array t)"
    using assms(2) unfolding closing_def by blast
  show ?thesis using t u(2) unfolding u(1) by (simp add: closingI)
qed

lemma closing_fields:
  assumes "closing s s'"
  shows "pcbs s' = pcbs s" "pcb_arr s' = pcb_arr s" "curr_pid_for_term s' = curr_pid_for_term s"
    "parent_pid_for_term s' = parent_pid_for_term s" "scheduled_term s' = scheduled_term s"
    "length (terminal_switch_array s') = length (terminal_switch_array s)"
    "curr_terminal_idx s' = curr_terminal_idx s" "page_directory s' = page_directory s"
    "frames s' = frames s" "lowmem s' = lowmem s" "enter_flag s' = enter_flag s" "args s' = args s"
    "currentTerminal s' = currentTerminal s" "iflag s' = iflag s"
  using assms by (auto simp: closing_def)

lemma call_close_closing:
  assumes "g \<noteq> Close_wild" "curr_terminal_idx s < length (terminal_switch_array s)"
  shows "\<exists>s' r. call_close g s = Some (s', r) \<and> closing s s'"
  using assms by (cases g) (auto simp: terminal_close_def Let_def aget_def aset_def intro: closingI)

lemma close_fd_closing:
  assumes "p < length (pcbs s)" "i < 8" "fds_ok (pcbs s ! p)" "flags (fdArray (pcbs s ! p) ! i) = full"
    and "curr_terminal_idx s < length (terminal_switch_array s)"
  shows "\<exists>s'. close_fd p i s = Some s' \<and> closing s s'"
proof -
  have l: "length (fdArray (pcbs s ! p)) = 8" using assms(3) by (simp add: fds_ok_def)
  then have "fdArray (pcbs s ! p) ! i \<in> set (fdArray (pcbs s ! p))" using assms(2) by simp
  then have "closeFunc (jump_table (fdArray (pcbs s ! p) ! i)) \<noteq> Close_wild"
    using assms(3,4) by (auto simp: fds_ok_def wild_def)
  from call_close_closing [OF this assms(5)] show ?thesis
    using assms(1,2) l by (auto simp: close_fd_def aget_def)
qed

lemma close_open_closing:
  assumes "p < length (pcbs s)" "fds_ok (pcbs s ! p)" "\<forall>i \<in> set is. 2 \<le> i \<and> i < 8"
    and "curr_terminal_idx s < length (terminal_switch_array s)"
  shows "\<exists>s'. close_open p is s = Some s' \<and> closing s s'"
  using assms
proof (induction "is" arbitrary: s)
  case (Cons i "is")
  then have i: "i - 2 < 6" "i < 8" "2 \<le> i" by auto
  then have l: "i - 2 < length (openIndexes (pcbs s ! p))" using Cons.prems(2) by (simp add: fds_ok_def)
  show ?case
  proof (cases "openIndexes (pcbs s ! p) ! (i - 2) = 0")
    case True
    then show ?thesis using Cons.prems(1) l by (auto simp: aget_def)
  next
    case False
    obtain j where j: "i = j + 2" "j < 6" using i that [of "i - 2"] by simp
    then have "flags (fdArray (pcbs s ! p) ! i) = full"
      using Cons.prems(2) False by (auto simp: fds_ok_def)
    from close_fd_closing [OF Cons.prems(1) i(2) Cons.prems(2) this Cons.prems(4)]
    obtain u where u: "close_fd p i s = Some u" "closing s u" by blast
    have "\<exists>s'. close_open p is u = Some s' \<and> closing u s'"
      using Cons.prems closing_fields [OF u(2)] by (intro Cons.IH) auto
    then show ?thesis
      using Cons.prems(1) l False u closing_trans by (fastforce simp: aget_def)
  qed
qed simp

section \<open>The state after a halt\<close>

text \<open>What \<open>halt\<close> does to the processes, the page tables and the flags, before it closes files.\<close>

definition released :: "nat \<Rightarrow> nat \<Rightarrow> kernel \<Rightarrow> kernel" where
  "released p par s = set_user_page par ((cli s)\<lparr>enter_flag := (enter_flag s)[scheduled_term s := 0],
     pcb_arr := (pcb_arr s)[p := 0],
     curr_pid_for_term := (curr_pid_for_term s)[scheduled_term s := par],
     parent_pid_for_term := (parent_pid_for_term s)[scheduled_term s := parent_of s par]\<rparr>)"

lemma released_fields [simp]:
  "pcbs (released p par s) = pcbs s" "pcb_arr (released p par s) = (pcb_arr s)[p := 0]"
  "curr_pid_for_term (released p par s) = (curr_pid_for_term s)[scheduled_term s := par]"
  "parent_pid_for_term (released p par s) = (parent_pid_for_term s)[scheduled_term s := parent_of s par]"
  "scheduled_term (released p par s) = scheduled_term s"
  "terminal_switch_array (released p par s) = terminal_switch_array s"
  "curr_terminal_idx (released p par s) = curr_terminal_idx s" "args (released p par s) = args s"
  "length (page_directory (released p par s)) = length (page_directory s)"
  "enter_flag (released p par s) = (enter_flag s)[scheduled_term s := 0]"
  "currentTerminal (released p par s) = currentTerminal s"
  "frames (released p par s) = frames s" "lowmem (released p par s) = lowmem s"
  by (simp_all add: released_def cli_def) (simp_all add: set_user_page_def)

text \<open>The two outcomes of \<open>halt\<close>: a base shell is restarted, any other process returns to the
  place where its parent called \<open>execute\<close>.\<close>

lemma halt_base:
  assumes "stacks_ok cs s" "process_ok s" "hd (cs ! scheduled_term s) < 3"
  shows "halt status s = Some (iret_user (eip (pcbs s ! scheduled_term s)) (USR_MEM_VIRT_ADDR + MB4 - 4)
    ((cli s)\<lparr>enter_flag := (enter_flag s)[scheduled_term s := 0]\<rparr>))"
proof -
  have t: "scheduled_term s < 3" using assms(2) by (simp add: process_ok_def procs_ok_def)
  have L: "length (curr_pid_for_term s) = 3" "length (pcbs s) = 6" "length (enter_flag s) = 3"
    using assms(2) by (simp_all add: process_ok_def procs_ok_def)
  have "curr_pid_for_term s ! scheduled_term s = scheduled_term s"
    using stacksD(4) [OF assms(1) t] base_alone(2) [OF assms(1) t assms(3)] by simp
  then show ?thesis
    using t L by (simp add: halt_def cli_def aget_def aset_def Let_def base_pids)
qed

lemma halt_child:
  assumes "stacks_ok cs s" "process_ok s" "p = hd (cs ! scheduled_term s)" "3 \<le> p" "par = parent_of s p"
  shows "\<exists>u. halt status s = Some (set_tss par u, Leave_ret (if status = 255 then 256 else ucast status)
      (esp (pcbs s ! par)) (ebp (pcbs s ! par))) \<and> closing (released p par s) u"
proof -
  let ?t = "scheduled_term s"
  have t: "?t < 3" using assms(2) by (simp add: process_ok_def procs_ok_def)
  note T = stacksD [OF assms(1) t]
  have L: "length (curr_pid_for_term s) = 3" "length (pcbs s) = 6" "length (enter_flag s) = 3"
    "length (pcb_arr s) = 6" "length (parent_pid_for_term s) = 3"
    "curr_terminal_idx s < length (terminal_switch_array s)"
    using assms(1,2) by (simp_all add: process_ok_def procs_ok_def stacks_ok_def)
  obtain c where c: "cs ! ?t = p # c" using T(2) assms(3) by (cases "cs ! ?t") auto
  have "c \<noteq> []" using T(3) c assms(4) t by auto
  then have "par = hd c" using T(1) c assms(5) by (simp add: chain_Cons)
  then have "par \<in> set (cs ! ?t)" using c hd_in_set [OF \<open>c \<noteq> []\<close>] by simp
  then have "par \<in> set (concat cs)" using T(9) by blast
  then have par: "par < 6" using assms(1) unfolding stacks_ok_def by blast
  have p: "p < 6" "curr_pid_for_term s ! ?t = p" "parent_pid_for_term s ! ?t = par"
    using T(4-6) assms(3,5) by simp_all
  have "p \<in> set (concat cs)" using T(8) assms(3) by simp
  then have "pcb_arr s ! p \<noteq> 0" using assms(1) unfolding stacks_ok_def by blast
  then have F: "fds_ok (pcbs s ! p)" "flags (fdArray (pcbs s ! p) ! 0) = full"
    "flags (fdArray (pcbs s ! p) ! 1) = full"
    using assms(2) p(1) L(2) by (simp_all add: process_ok_def procs_ok_def)
  let ?r = "released p par s"
  obtain u0 where u0: "close_fd p 0 ?r = Some u0" "closing ?r u0"
    using close_fd_closing [of p ?r 0] p(1) L F by auto
  obtain u1 where u1: "close_fd p 1 u0 = Some u1" "closing u0 u1"
    using close_fd_closing [of p u0 1] p(1) L F closing_fields [OF u0(2)] by auto
  have c1: "closing ?r u1" by (rule closing_trans [OF u0(2) u1(2)])
  obtain u2 where u2: "close_open p [2..<8] u1 = Some u2" "closing u1 u2"
    using close_open_closing [of p u1 "[2..<8]"] p(1) L F closing_fields [OF c1] by auto
  have c2: "closing ?r u2" by (rule closing_trans [OF c1 u2(2)])
  have q: "aget (pcbs (set_tss par u2)) par = Some (pcbs s ! par)" using closing_fields(1) [OF c2] par L by (simp add: set_tss_def aget_def)
  have "halt status s = do {
       s \<leftarrow> close_fd p 0 ?r; s \<leftarrow> close_fd p 1 s; s \<leftarrow> close_open p [2..<8] s;
       let s = set_tss par s;
       parent_pcb \<leftarrow> aget (pcbs s) par;
       let status_int32 = (if status = 255 then 256 else ucast status);
       Some (s, Leave_ret status_int32 (esp parent_pcb) (ebp parent_pcb)) }"
    using t p L par assms(4)
    by (simp add: halt_def cli_def aget_def aset_def Let_def released_def parent_of_def)
  then have "halt status s = Some (set_tss par u2, Leave_ret (if status = 255 then 256 else ucast status)
      (esp (pcbs s ! par)) (ebp (pcbs s ! par)))"
    by (simp only: u0(1) u1(1) u2(1) Option.bind.simps Let_def q)
  then show ?thesis using c2 by blast
qed

section \<open>A halt pops\<close>

lemma set_tss_fields [simp]:
  "pcbs (set_tss p s) = pcbs s" "pcb_arr (set_tss p s) = pcb_arr s"
  "curr_pid_for_term (set_tss p s) = curr_pid_for_term s"
  "parent_pid_for_term (set_tss p s) = parent_pid_for_term s"
  "scheduled_term (set_tss p s) = scheduled_term s"
  "terminal_switch_array (set_tss p s) = terminal_switch_array s" "args (set_tss p s) = args s"
  "curr_terminal_idx (set_tss p s) = curr_terminal_idx s" "page_directory (set_tss p s) = page_directory s"
  "enter_flag (set_tss p s) = enter_flag s" "currentTerminal (set_tss p s) = currentTerminal s"
  "frames (set_tss p s) = frames s" "user_frame (set_tss p s) = user_frame s"
  by (simp_all add: set_tss_def user_frame_def)

lemma popped:
  assumes "stacks_ok cs s" "process_ok s" "t = scheduled_term s" "p = hd (cs ! t)" "3 \<le> p" "par = parent_of s p"
    and "closing (released p par s) u"
  shows "stacks_ok (cs[t := tl (cs ! t)]) (set_tss par u)" "process_ok (set_tss par u)"
    "par = hd (tl (cs ! t))" "par < 6" "p < 6"
proof -
  have t: "t < 3" using assms(2,3) by (simp add: process_ok_def procs_ok_def)
  note T = stacksD [OF assms(1)] and C = closing_fields [OF assms(7)]
  have L: "length cs = 3" "length (pcb_arr s) = 6" "length (parent_pid_for_term s) = 3" "distinct (concat cs)"
    "length (curr_pid_for_term s) = 3" "length (pcbs s) = 6"
    using assms(1,2) by (simp_all add: stacks_ok_def process_ok_def procs_ok_def)
  let ?s = "set_tss par u" and ?cs = "cs[t := tl (cs ! t)]"
  obtain c where c: "cs ! t = p # c" using T(2) [OF t] assms(4) by (cases "cs ! t") auto
  have ne: "c \<noteq> []" using T(3) [OF t] c assms(5) t by auto
  then show par: "par = hd (tl (cs ! t))" using T(1) [OF t] c assms(6) by (simp add: chain_Cons)
  have sub: "q < 6" if "q \<in> set (concat cs)" for q
    using that assms(1) unfolding stacks_ok_def by blast
  have "hd c \<in> set (cs ! t)" using c hd_in_set [OF ne] by simp
  then have hc: "hd c \<in> set (concat cs)" using T(9) [OF t] by blast
  then show par6: "par < 6" using sub par c by simp
  show p6: "p < 6" using T(6) [OF t] assms(4) by simp
  have dt: "distinct (cs ! t)" using L(1,4) t by (auto simp: distinct_concat_iff)
  then have pc: "p \<notin> set c" using c by simp
  have set': "set (concat ?cs) = set (concat cs) - {p}"
    using set_concat_update [OF L(4), of t] T(9) [OF t] L(1) t c pc by auto
  have dist: "distinct (concat ?cs)"
    using L t dt c by (intro distinct_concat_update) auto
  have po: "parent_of ?s = parent_of s" by (rule ext) (simp add: parent_of_def C(1))
  have "chain (parent_of ?s) (?cs ! v) \<and> last (?cs ! v) = v \<and> curr_pid_for_term ?s ! v = hd (?cs ! v)
      \<and> parent_pid_for_term ?s ! v = parent_of ?s (hd (?cs ! v))" if "v < 3" for v
    using T [OF that] that C(3,4) L c ne par assms(3) unfolding po
    by (cases "v = t") (auto simp: chain_Cons)
  moreover have "q \<in> set (concat ?cs) \<longleftrightarrow> q < 6 \<and> pcb_arr ?s ! q \<noteq> 0" for q
    using assms(1) L(2) p6 C(2) unfolding set' stacks_ok_def
    by (cases "q = p") (auto simp del: set_concat)
  ultimately show "stacks_ok ?cs ?s" using L dist C(2,4) assms(3) by (simp add: stacks_ok_def del: set_concat)
  have "set ((curr_pid_for_term s)[t := par]) \<subseteq> insert par (set (curr_pid_for_term s))"
    by (rule set_update_subset_insert)
  then have "procs_ok ?s"
    using assms(2,3) C par6 by (auto simp: process_ok_def procs_ok_def)
  then show "process_ok ?s"
    using assms(2) C L p6 by (auto simp: process_ok_def nth_list_update)
qed

section \<open>A successful execute\<close>

text \<open>What \<open>execute\<close> does before it starts the process leaves the processes alone.\<close>

definition same_processes :: "kernel \<Rightarrow> kernel \<Rightarrow> bool" where
  "same_processes s s' \<longleftrightarrow> (\<exists>m as f. s' = (set_vmem m s)\<lparr>iflag := f, args := as\<rparr> \<and> length as = 128)"

lemma set_vmem_twice [simp]: "set_vmem m (set_vmem m' s) = set_vmem m s"
  by (rule kernel.equality) (auto simp: set_vmem_def user_frame_def fun_eq_iff)

lemma same_processes_ok:
  assumes "same_processes s s'"
  shows "stacks_ok cs s' = stacks_ok cs s" "process_ok s \<Longrightarrow> process_ok s'"
    "pcb_arr s' = pcb_arr s" "currentTerminal s' = currentTerminal s" "scheduled_term s' = scheduled_term s"
    "curr_pid_for_term s' = curr_pid_for_term s" "pcbs s' = pcbs s"
    "parent_pid_for_term s' = parent_pid_for_term s" "page_directory s' = page_directory s"
proof -
  obtain m as f where s': "s' = (set_vmem m s)\<lparr>iflag := f, args := as\<rparr>" "length as = 128"
    using assms unfolding same_processes_def by blast
  show a: "pcb_arr s' = pcb_arr s" "currentTerminal s' = currentTerminal s" "scheduled_term s' = scheduled_term s"
    "curr_pid_for_term s' = curr_pid_for_term s" "pcbs s' = pcbs s"
    "parent_pid_for_term s' = parent_pid_for_term s" "page_directory s' = page_directory s"
    by (simp_all add: s'(1)) 
  have b: "parent_of s' = parent_of s" by (rule ext) (simp add: parent_of_def a)
  show "stacks_ok cs s' = stacks_ok cs s" by (simp add: stacks_ok_def a b)
  show "process_ok s \<Longrightarrow> process_ok s'"
    using s'(2) unfolding process_ok_def procs_ok_def a by (simp add: s'(1)) (simp add: set_vmem_def)
qed

end
