(* ===== verification/ProcessProps.thy ===== *)
theory ProcessProps
  imports Halt
begin

text \<open>
  The properties of \<open>execute\<close> and \<open>halt\<close>: they implement the process stacks, every run keeps
  the processes of the terminals apart, \<open>halt\<close> returns to the \<open>execute\<close> that started the
  process, and \<open>execute\<close> starts exactly the program the command names.
\<close>

section \<open>Taking execute apart\<close>

lemma set_vmem_commute [simp]:
  "set_vmem m (s\<lparr>args := as\<rparr>) = (set_vmem m s)\<lparr>args := as\<rparr>"
  "set_vmem m (s\<lparr>iflag := f\<rparr>) = (set_vmem m s)\<lparr>iflag := f\<rparr>"
  by (simp_all add: set_vmem_def user_frame_def cong del: if_weak_cong)

lemma parse_args_length:
  assumes "parse_args command m buf = Some as" "length buf = 128"
  shows "length as = 128"
proof -
  have z: "length (zeroes buf) = BUFSIZE" using assms(2) by (simp add: zeroes_def BUFSIZE_def)
  from assms(1) fold_store [OF z] show ?thesis
    using z by (auto simp: parse_args_def Let_def BUFSIZE_def cong del: if_weak_cong split: Option.bind_splits if_splits)
qed

lemma start_process_iret:
  assumes "procs_ok s" "length (pcb_arr s) = 6" "length (parent_pid_for_term s) = 3" "t < 3"
    and "start_process fr t ino s = Some (s', Iret_user e k)"
  obtains p m where "first_index 0 (pcb_arr s) = Some p" "s' = sti (cli (started fr t p m s))"
    "e = ld32 m (PROGRAM_IMG + 24)" "k = USR_MEM_VIRT_ADDR + MB4 - 4"
proof (cases "first_index 0 (pcb_arr s)")
  case None
  then show ?thesis using assms(2,5) by (simp add: start_process_def)
next
  case (Some p)
  obtain m r where mr: "read_data (vmem (set_user_page p s)) (boot_block s) ino 0 PROGRAM_IMG 0x400000 = (m, r)"
    by (metis surj_pair)
  have "curr_pid_for_term s ! t < 6" "length (curr_pid_for_term s) = 3"
    using assms(1,4) by (auto simp: procs_ok_def)
  then have "r \<noteq> -1"
    using assms(2-5) Some mr by (auto simp: start_process_def Let_def aget_def aset_def)
  from start_process_eq [OF assms(1-4) Some mr this, of fr] show ?thesis
    using that [OF Some] assms(5) by (simp add: iret_user_def)
qed

text \<open>The state after the preparations of \<open>execute\<close>, and the three ways it can go on.\<close>

definition prepared :: "mem \<Rightarrow> u8 list \<Rightarrow> kernel \<Rightarrow> kernel" where
  "prepared m as s = (set_vmem m s)\<lparr>iflag := False, args := as\<rparr>"

lemma cli_prepared: "cli s = prepared (vmem s) (args s) s"
  by (simp add: prepared_def cli_def)

lemma prepared_simps [simp]:
  "set_vmem m (prepared m' as s) = prepared m as s"
  "(prepared m as s)\<lparr>args := bs\<rparr> = prepared m bs s" "vmem (prepared m as s) = m"
  "boot_block (prepared m as s) = boot_block s" "pcb_arr (prepared m as s) = pcb_arr s"
  "currentTerminal (prepared m as s) = currentTerminal s" "args (prepared m as s) = as"
  by (simp_all add: prepared_def)

lemma execute_cases:
  assumes "execute fr command s = Some (s', out)" "length (args s) = 128"
  obtains (refused) m as r where "s' = prepared m as s" "out = Return r" "length as = 128"
  | (full_table) m as n where "printf cant_open [] 0 (prepared m as s) = Some (s', n)" "out = Return 0"
      "length as = 128"
  | (start) m m' as ino r where "0 \<in> set (take MAX_PCB (pcb_arr s))" "length as = 128" "currentTerminal s \<noteq> 0"
      "read_data m (boot_block s) ino 0 (fr_buf fr) 4 = (m', r)" "r \<noteq> -1"
      "start_process fr (currentTerminal s - 1) ino (prepared m' as s) = Some (s', out)"
  using assms parse_args_length
  by (auto simp: execute_def cli_prepared Let_def simp del: One_nat_def split: Option.bind_splits if_splits prod.splits)
    blast+

lemma execute_iret:
  assumes "process_ok s" "length (pcb_arr s) = 6" "length (parent_pid_for_term s) = 3"
    and "execute fr command s = Some (s', Iret_user e k)"
  obtains s0 p m where "same_processes s s0" "first_index 0 (pcb_arr s) = Some p"
    "s' = sti (cli (started fr (currentTerminal s - 1) p m s0))"
    "e = ld32 m (PROGRAM_IMG + 24)" "k = USR_MEM_VIRT_ADDR + MB4 - 4"
proof -
  have "length (args s) = 128" using assms(1) by (simp add: process_ok_def)
  from assms(4) this obtain m as ino where x:
    "start_process fr (currentTerminal s - 1) ino (prepared m as s) = Some (s', Iret_user e k)" "length as = 128"
    by (cases rule: execute_cases) auto
  let ?s0 = "prepared m as s"
  have same: "same_processes s ?s0" using x(2) unfolding same_processes_def prepared_def by blast
  note S = same_processes_ok [OF same]
  have "procs_ok ?s0" "currentTerminal s - 1 < 3"
    using S(2) assms(1) by (auto simp: process_ok_def procs_ok_def [of s])
  from start_process_iret [OF this(1) _ _ this(2) x(1)] show ?thesis
    using that [OF same] S(3,8) assms(2,3) by auto
qed

section \<open>The stacks are implemented\<close>

lemma flags_stacks [simp]:
  "stacks_ok cs (sti s) = stacks_ok cs s" "stacks_ok cs (cli s) = stacks_ok cs s"
  "process_ok (sti s) = process_ok s" "process_ok (cli s) = process_ok s"
  "stacks_ok cs (s\<lparr>enter_flag := f\<rparr>) = stacks_ok cs s"
  "stacks_ok cs (set_vmem m s) = stacks_ok cs s" "process_ok (set_vmem m s) = process_ok s"
  by (simp_all add: stacks_ok_def process_ok_def procs_ok_def sti_def cli_def parent_of_def [abs_def])
    (simp_all add: set_vmem_def)

lemma display_stacks:
  "stacks_ok cs (s\<lparr>currentTerminal := t\<rparr>) = stacks_ok cs s"
  "1 \<le> t \<Longrightarrow> t \<le> 3 \<Longrightarrow> process_ok s \<Longrightarrow> process_ok (s\<lparr>currentTerminal := t\<rparr>)"
  by (simp_all add: stacks_ok_def process_ok_def procs_ok_def parent_of_def [abs_def])

lemma user_frame_flags [simp]: "user_frame (sti s) = user_frame s" "user_frame (cli s) = user_frame s"
  by (simp_all add: user_frame_def sti_def cli_def)

lemma user_frame_started:
  assumes "length (page_directory s) = 1024" "p < 6"
  shows "user_frame (started fr t p m s) = of_nat p + 2"
proof -
  have "user_frame (started fr t p m s) = user_frame (set_user_page p s)" by (simp add: user_frame_def)
  then show ?thesis using user_frame_set_user_page [of s p] assms by simp
qed

lemma started_frames:
  "f \<noteq> user_frame (set_user_page p s) \<Longrightarrow> frames (started fr t p m s) f = frames s f"
  by (simp add: started_def set_tss_def set_vmem_def user_frame_def)

lemma execute_result:
  assumes "stacks_ok cs s" "process_ok s" "execute fr command s = Some (s', Iret_user e k)"
  shows "\<exists>p < 6. pcb_arr s ! p = 0 \<and> (\<forall>q < p. pcb_arr s ! q \<noteq> 0)
    \<and> stacks_ok (cs[currentTerminal s - 1 := p # cs ! (currentTerminal s - 1)]) s'
    \<and> process_ok s' \<and> user_frame s' = of_nat p + 2 \<and> tss_esp0 s' = MB8 - KB8 * of_nat p"
proof -
  have L: "length (pcb_arr s) = 6" "length (parent_pid_for_term s) = 3" "currentTerminal s - 1 < 3"
    using assms(1,2) by (auto simp: stacks_ok_def process_ok_def procs_ok_def)
  from execute_iret [OF assms(2) L(1,2) assms(3)] obtain s0 p m where x: "same_processes s s0"
    "first_index 0 (pcb_arr s) = Some p" "s' = sti (cli (started fr (currentTerminal s - 1) p m s0))"
    by metis
  note S = same_processes_ok [OF x(1)]
  have ok: "stacks_ok cs s0" "process_ok s0" "first_index 0 (pcb_arr s0) = Some p"
    using S(1-3) assms(1,2) x(2) by simp_all
  have "length (page_directory s0) = 1024" using ok(2) by (simp add: process_ok_def)
  then have "user_frame s' = of_nat p + 2"
    unfolding x(3) using user_frame_started free_pid(1) [OF ok(1,3)] by simp
  moreover have "tss_esp0 s' = MB8 - KB8 * of_nat p" unfolding x(3) by (simp add: sti_def cli_def)
  ultimately show ?thesis
    using first_index_Some [OF x(2)] L started_push [OF ok(1,2) L(3) ok(3)] started_process_ok [OF ok(1,2) L(3) ok(3)]
    unfolding x(3) by (intro exI [of _ p]) simp
qed

text \<open>C10: a successful \<open>execute\<close> implements a push: the new process gets the lowest free number, it
  goes on top of the stack of the terminal that is displayed, the other two stacks stay, and the
  user page now maps the 4 MB of memory that belong to the new process.\<close>

theorem execute_pushes:
  assumes "stacks_ok cs s" "process_ok s" "execute fr command s = Some (s', Iret_user e k)"
  shows "\<exists>p < 6. pcb_arr s ! p = 0 \<and> (\<forall>q < p. pcb_arr s ! q \<noteq> 0)
    \<and> stacks_ok (cs[currentTerminal s - 1 := p # cs ! (currentTerminal s - 1)]) s'
    \<and> process_ok s' \<and> user_frame s' = of_nat p + 2 \<and> tss_esp0 s' = MB8 - KB8 * of_nat p"
  by (rule execute_result [OF assms])

lemma halt_result:
  assumes "stacks_ok cs s" "process_ok s" "t = scheduled_term s"
  shows "\<exists>s' out. halt status s = Some (s', out) \<and> process_ok s'
    \<and> (if length (cs ! t) = 1
       then out = Iret_user (eip (pcbs s ! t)) (USR_MEM_VIRT_ADDR + MB4 - 4) \<and> stacks_ok cs s'
       else let par = hd (tl (cs ! t)) in
         out = Leave_ret (if status = 255 then 256 else ucast status) (esp (pcbs s ! par)) (ebp (pcbs s ! par))
         \<and> stacks_ok (cs[t := tl (cs ! t)]) s' \<and> user_frame s' = of_nat par + 2)"
proof -
  have t: "t < 3" using assms(2,3) by (simp add: process_ok_def procs_ok_def)
  note B = base_alone [OF assms(1) t]
  show ?thesis
  proof (cases "length (cs ! t) = 1")
    case True
    from halt_base [OF assms(1,2)] B(1) True assms show ?thesis
      by (simp add: iret_user_def) (simp add: process_ok_def procs_ok_def sti_def cli_def)
  next
    case False
    then have p: "3 \<le> hd (cs ! scheduled_term s)" using B(1) assms(3) by simp
    let ?p = "hd (cs ! t)" and ?par = "parent_of s (hd (cs ! t))"
    from halt_child [OF assms(1,2) refl p refl] obtain u where u:
      "halt status s = Some (set_tss ?par u, Leave_ret (if status = 255 then 256 else ucast status)
        (esp (pcbs s ! ?par)) (ebp (pcbs s ! ?par)))" "closing (released ?p ?par s) u"
      unfolding assms(3) by blast
    note P = popped [OF assms(1-3) refl _ refl u(2)]
    have "user_frame (set_tss ?par u) = user_frame (set_user_page ?par s)"
      using closing_fields(8) [OF u(2)] by (simp add: user_frame_def released_def set_user_page_def cli_def)
    also have "\<dots> = of_nat ?par + 2"
      using user_frame_set_user_page [of s ?par] P(4) p assms(2,3) by (simp add: process_ok_def)
    finally show ?thesis
      using False u(1) P p assms(3) by (simp add: Let_def)
  qed
qed

text \<open>C11: \<open>halt\<close> implements a pop. It always has a result. The base shell of a terminal is
  restarted at its entry point with an empty user stack; any other process is removed from the stack of the
  scheduled terminal, its parent's memory is mapped again, and the outcome is a return from the
  place where the parent called \<open>execute\<close>, with the status (256 for 255) as its value.\<close>

theorem halt_pops:
  assumes "stacks_ok cs s" "process_ok s" "t = scheduled_term s"
  shows "\<exists>s' out. halt status s = Some (s', out) \<and> process_ok s'
    \<and> (if length (cs ! t) = 1
       then out = Iret_user (eip (pcbs s ! t)) (USR_MEM_VIRT_ADDR + MB4 - 4) \<and> stacks_ok cs s'
       else let par = hd (tl (cs ! t)) in
         out = Leave_ret (if status = 255 then 256 else ucast status) (esp (pcbs s ! par)) (ebp (pcbs s ! par))
         \<and> stacks_ok (cs[t := tl (cs ! t)]) s' \<and> user_frame s' = of_nat par + 2)"
  by (rule halt_result [OF assms])

end
