(* ===== verification/Quiet.thy ===== *)
theory Quiet
  imports Descriptors
begin

text \<open>
  The interrupt handlers of the keyboard and the real-time clock leave the processes alone, so
  they may arrive at any time, in particular while a system call waits for them.
\<close>

section \<open>Operations that leave the processes alone\<close>

text \<open>\<open>dev_shape\<close> is what a device interrupt leaves alone: the processes, the memory, and
  which frame is the user page.\<close>

definition dev_shape where
  "dev_shape s = (proc_shape s, frames s, page_directory s, lowmem s)"

lemma dev_shape_eqD:
  "dev_shape s' = dev_shape s \<Longrightarrow> proc_shape s' = proc_shape s \<and> frames s' = frames s
     \<and> page_directory s' = page_directory s \<and> lowmem s' = lowmem s"
  by (simp add: dev_shape_def)

lemma dev_shape_vmem: "dev_shape s' = dev_shape s \<Longrightarrow> vmem s' = vmem s"
  by (rule ext) (simp add: dev_shape_def vmem_def user_frame_def)

lemma dev_shape_ok: "dev_shape s' = dev_shape s \<Longrightarrow> procs_ok s \<Longrightarrow> procs_ok s'"
  using dev_shape_eqD proc_shape_ok by blast

lemma con_eq_dev_shape: "con_eq s s' \<Longrightarrow> dev_shape s' = dev_shape s"
  by (simp add: dev_shape_def con_eq_proc_shape con_eq_fields)

lemma dev_shape_upd [simp]:
  "dev_shape (s\<lparr>outs := a\<rparr>) = dev_shape s" "dev_shape (s\<lparr>iflag := b\<rparr>) = dev_shape s"
  "aset (enter_flag s) n v = Some d \<Longrightarrow> dev_shape (s\<lparr>enter_flag := d\<rparr>) = dev_shape s"
  "dev_shape (s\<lparr>term_buf := e\<rparr>) = dev_shape s" "dev_shape (s\<lparr>rtc_flag := f\<rparr>) = dev_shape s"
  "dev_shape (s\<lparr>curr_count := g\<rparr>) = dev_shape s"
  "aset (terminal_switch_array s) q w = Some j \<Longrightarrow> dev_shape (s\<lparr>terminal_switch_array := j\<rparr>) = dev_shape s"
  "dev_shape (sti s) = dev_shape s" "dev_shape (cli s) = dev_shape s"
  by (simp_all add: dev_shape_def) (simp_all add: sti_def cli_def)

locale quiet_op =
  fixes f :: "kernel \<Rightarrow> kernel option"
  assumes shape: "procs_ok s \<Longrightarrow> f s = Some s' \<Longrightarrow> dev_shape s' = dev_shape s"
begin

lemma keeps_procs: "procs_ok s \<Longrightarrow> f s = Some s' \<Longrightarrow> procs_ok s'"
  using shape dev_shape_ok by blast

lemma proc: "procs_ok s \<Longrightarrow> f s = Some s' \<Longrightarrow> proc_shape s' = proc_shape s"
  using dev_shape_eqD shape by blast

end

lemma dev_shape_keyboard [simp]:
  "dev_shape (s\<lparr>keyboard_buf := a\<rparr>) = dev_shape s" "dev_shape (s\<lparr>keyboard_buf1 := a\<rparr>) = dev_shape s"
  "dev_shape (s\<lparr>keyboard_buf2 := a\<rparr>) = dev_shape s" "dev_shape (s\<lparr>keyboard_buf3 := a\<rparr>) = dev_shape s"
  "dev_shape (s\<lparr>buf_idx := b\<rparr>) = dev_shape s" "dev_shape (s\<lparr>ctrl_info := a\<rparr>) = dev_shape s"
  "dev_shape (s\<lparr>capslock_flag := c\<rparr>) = dev_shape s" "dev_shape (s\<lparr>capital_flag := c\<rparr>) = dev_shape s"
  "dev_shape (s\<lparr>alt_info := d\<rparr>) = dev_shape s" "dev_shape (s\<lparr>f1_info := d\<rparr>) = dev_shape s"
  "dev_shape (s\<lparr>f2_info := d\<rparr>) = dev_shape s" "dev_shape (s\<lparr>f3_info := d\<rparr>) = dev_shape s"
  "dev_shape (s\<lparr>recentTermChoice := e\<rparr>) = dev_shape s" "dev_shape (s\<lparr>vram := v\<rparr>) = dev_shape s"
  "dev_shape (s\<lparr>page_table := g\<rparr>) = dev_shape s" "dev_shape (s\<lparr>video_page_table := g\<rparr>) = dev_shape s"
  "dev_shape (set_ctrl i w s) = dev_shape s" "dev_shape (irq_done s) = dev_shape s"
  "dev_shape (outb w p s) = dev_shape s" "dev_shape (send_eoi w s) = dev_shape s"
  "dev_shape (set_video_page n s) = dev_shape s" "dev_shape (set_vidmap_page n s) = dev_shape s"
  "dev_shape (set_paging_scheduling n s) = dev_shape s" "dev_shape (copy_page n k s) = dev_shape s"
  "dev_shape (keyboard_switch n k s) = dev_shape s"
  by (auto simp: dev_shape_def proc_shape_def proc_sizes_def set_ctrl_def irq_done_def sti_def send_eoi_def outb_def
      set_video_page_def set_vidmap_page_def set_paging_scheduling_def copy_page_def keyboard_switch_def Let_def)

lemma put_buf_shape: "put_buf c s = Some s' \<Longrightarrow> dev_shape s' = dev_shape s"
  by (auto simp: put_buf_def split: Option.bind_splits)

lemmas con_shapes = keyboardputc.frame [THEN con_eq_dev_shape] clear.frame [THEN con_eq_dev_shape]
  redraw_line.frame [THEN con_eq_dev_shape] clear_help.frame [THEN con_eq_dev_shape]
  update_cursor.frame [THEN con_eq_dev_shape] put_buf_shape

section \<open>The keyboard\<close>

lemma buffer_clear_term_shape: "buffer_clear_term t s = Some s' \<Longrightarrow> dev_shape s' = dev_shape s"
  by (auto simp: buffer_clear_term_def split: Option.bind_splits if_splits dest!: con_shapes)

lemma buffer_clear_shape: "buffer_clear s = Some s' \<Longrightarrow> dev_shape s' = dev_shape s"
  by (auto simp: buffer_clear_def Let_def split: Option.bind_splits if_splits dest!: buffer_clear_term_shape)

lemma enter_shape: "enter_helper s = Some s' \<Longrightarrow> dev_shape s' = dev_shape s"
  by (auto simp: enter_helper_def Let_def split: Option.bind_splits if_splits dest!: buffer_clear_shape con_shapes)

lemma backspace_shape: "backspace_helper s = Some s' \<Longrightarrow> dev_shape s' = dev_shape s"
  by (auto simp: backspace_helper_def Let_def split: Option.bind_splits if_splits dest!: con_shapes)

lemma space_shape: "space_helper s = Some s' \<Longrightarrow> dev_shape s' = dev_shape s"
  by (auto simp: space_helper_def split: Option.bind_splits dest!: con_shapes)

lemma tab_shape: "tab_loop n s = Some s' \<Longrightarrow> dev_shape s' = dev_shape s"
  by (induction n arbitrary: s) (auto split: Option.bind_splits if_splits dest!: space_shape)

lemma terminal_changing_shape:
  assumes "1 \<le> curr_term s" "curr_term s \<le> 3" "1 \<le> currentTerminal s \<and> currentTerminal s \<le> 3"
  shows "dev_shape (terminal_changing s) = dev_shape s"
  using assms by (simp add: terminal_changing_def Let_def)
    (auto simp: dev_shape_def proc_shape_def proc_sizes_def set_video_page_def copy_page_def)

lemma terminal_changing_handler_shape:
  assumes "terminal_changing_handler s = Some s'" "procs_ok s" "1 \<le> curr_term s" "curr_term s \<le> 3"
  shows "dev_shape s' = dev_shape s"
proof -
  have c: "currentTerminal (set_paging_scheduling n s) = currentTerminal s"
    "recentTermChoice (set_paging_scheduling n s) = recentTermChoice s" for n
    by (simp_all add: set_paging_scheduling_def set_video_page_def set_vidmap_page_def)
  have "dev_shape (terminal_changing (set_paging_scheduling n s)) = dev_shape s" for n
    using terminal_changing_shape [of "set_paging_scheduling n s"] assms(2-4) c by (simp add: procs_ok_def)
  then show ?thesis
    using assms(1) by (auto simp: terminal_changing_handler_def Let_def split: Option.bind_splits
        dest!: update_cursor.frame [THEN con_eq_dev_shape])
qed

lemma f_helper_shape:
  assumes "f_helper key_state n s = Some s'" "procs_ok s" "n \<in> {1, 2, 3}"
  shows "dev_shape s' = dev_shape s"
proof -
  let ?t = "s\<lparr>recentTermChoice := [curr_term s, n]\<rparr>"
  have "procs_ok ?t" by (rule dev_shape_ok [OF _ assms(2)]) simp
  then have "dev_shape u = dev_shape s" if "terminal_changing_handler ?t = Some u" for u
    using terminal_changing_handler_shape [OF that] assms(3) by auto
  then show ?thesis
    using assms(1,3) by (auto simp: f_helper_def Let_def split: if_splits Option.bind_splits)
qed

lemma key_default_shape: "key_default k s = Some s' \<Longrightarrow> dev_shape s' = dev_shape s"
  by (auto simp: key_default_def split: if_splits Option.bind_splits option.splits dest!: con_shapes)

interpretation keyboard: quiet_op "keyboard_handler k" for k
proof
  fix s s' assume ok: "procs_ok s" and k: "keyboard_handler k s = Some s'"
  have "procs_ok (cli s)" "dev_shape (cli s) = dev_shape s" using ok by simp_all
  then show "dev_shape s' = dev_shape s"
    using k by (auto simp: keyboard_handler_def Let_def control_helper_def capslock_helper_def shift_helper_def
        alt_helper_def tab_helper_def split: if_splits
        dest: enter_shape backspace_shape space_shape tab_shape key_default_shape f_helper_shape)
qed

section \<open>The real-time clock\<close>

interpretation rtc_tick: quiet_op "rtc_tick i" for i
  by unfold_locales (auto simp: rtc_tick_def split: Option.bind_splits if_splits)

interpretation rtc: quiet_op rtc_handler
proof
  fix s s' assume ok: "procs_ok s" and r: "rtc_handler s = Some s'"
  have fold: "foldM rtc_tick xs t = Some u \<Longrightarrow> procs_ok t \<Longrightarrow> dev_shape u = dev_shape t" for xs t u
  proof (induction xs arbitrary: t)
    case (Cons x xs)
    then obtain v where "rtc_tick x t = Some v" "foldM rtc_tick xs v = Some u" by (auto split: Option.bind_splits)
    then show ?case using Cons rtc_tick.shape rtc_tick.keeps_procs by metis
  qed simp
  have "procs_ok (outb 0x0C RTC_PORT s)" by (rule dev_shape_ok [OF _ ok]) simp
  then show "dev_shape s' = dev_shape s"
    using r fold by (auto simp: rtc_handler_def split: Option.bind_splits)
qed

section \<open>Waiting for devices\<close>

text \<open>A read may wait through any sequence of key presses and clock ticks.\<close>

definition device_irqs :: "(kernel \<Rightarrow> kernel option) list \<Rightarrow> bool" where
  "device_irqs irqs \<longleftrightarrow> (\<forall>f \<in> set irqs. f = rtc_handler \<or> (\<exists>k. f = keyboard_handler k))"

lemma device_irqs_simps [simp]:
  "device_irqs []" "device_irqs (keyboard_handler k # irqs) = device_irqs irqs"
  "device_irqs (rtc_handler # irqs) = device_irqs irqs"
  by (auto simp: device_irqs_def)

lemma device_shape:
  assumes "device_irqs irqs" "f \<in> set irqs" "procs_ok s" "f s = Some s'"
  shows "dev_shape s' = dev_shape s"
proof -
  have "f = rtc_handler \<or> (\<exists>k. f = keyboard_handler k)" using assms(1,2) by (simp add: device_irqs_def)
  then show ?thesis using keyboard.shape [OF assms(3)] rtc.shape [OF assms(3)] assms(4) by blast
qed

lemma device_quiet: "device_irqs irqs \<Longrightarrow> quiet_irqs irqs"
  unfolding quiet_irqs_def using device_shape dev_shape_eqD by blast

lemma device_wait:
  assumes "wait_until P irqs s = Some s'" "device_irqs irqs" "procs_ok s"
  shows "dev_shape s' = dev_shape s"
proof -
  have "procs_ok s' \<and> dev_shape s' = dev_shape s"
  proof (rule wait_until_invariant [OF assms(1)])
    fix f t u assume f: "f \<in> set irqs" "f t = Some u" and t: "procs_ok t \<and> dev_shape t = dev_shape s"
    then have "dev_shape u = dev_shape t" using device_shape [OF assms(2)] by blast
    then show "procs_ok u \<and> dev_shape u = dev_shape s" using dev_shape_ok [of u t] t by simp
  qed (use assms(3) in simp)
  then show ?thesis ..
qed

end
