(* ===== verification/Runs.thy ===== *)
theory Runs
  imports ProcessProps DescriptorProps Quiet
begin

text \<open>
  Runs of the whole kernel: what user programs do between \<open>execute\<close> and \<open>halt\<close>, and the steps
  of all processes in any order. The descriptor calls and the stores of a program leave the
  process stacks as they are, so \<open>halt\<close> finds what \<open>execute\<close> saved.
\<close>

section \<open>What the other system calls leave alone\<close>

type_synonym tree_node = "nat \<times> u32 \<times> u32 \<times> u32 \<times> u32 \<times> u32 \<times> i32 \<times> i32"

definition pcb_tree :: "PCB \<Rightarrow> tree_node" where
  "pcb_tree pcb = (parent pcb, esp pcb, ebp pcb, eip pcb, scheduledEsp pcb, scheduledEbp pcb,
     flags (fdArray pcb ! 0), flags (fdArray pcb ! 1))"

definition tree_shape ::
  "kernel \<Rightarrow> tree_node list \<times> nat list \<times> nat \<times> int list \<times> nat list \<times> sizes" where
  "tree_shape s = (map pcb_tree (pcbs s),
     curr_pid_for_term s, scheduled_term s, pcb_arr s, parent_pid_for_term s, proc_sizes s)"

lemma pcb_shape_tree:
  assumes "pcb_shape p = pcb_shape q" "length (fdArray p) = 8"
  shows "pcb_tree p = pcb_tree q"
proof -
  have a: "p\<lparr>fdArray := []\<rparr> = q\<lparr>fdArray := []\<rparr>"
    using assms by (simp add: pcb_shape_def)
  have "parent p = parent q" "esp p = esp q" "ebp p = ebp q" "eip p = eip q"
    "scheduledEsp p = scheduledEsp q" "scheduledEbp p = scheduledEbp q"
    using a [THEN arg_cong, of parent] a [THEN arg_cong, of esp] a [THEN arg_cong, of ebp]
      a [THEN arg_cong, of eip] a [THEN arg_cong, of scheduledEsp] a [THEN arg_cong, of scheduledEbp]
    by simp_all
  moreover have "flags (fdArray p ! i) = flags (fdArray q ! i)" if "i < 8" for i
    using pcb_shape_fds(3) [OF assms(1)] assms(2) that by (simp add: fd_shape_eq)
  ultimately show ?thesis by (simp add: pcb_tree_def)
qed

lemma proc_shape_tree:
  assumes "proc_shape s' = proc_shape s" "procs_ok s"
  shows "tree_shape s' = tree_shape s"
proof -
  have m: "map pcb_shape (pcbs s') = map pcb_shape (pcbs s)" and r: "curr_pid_for_term s' = curr_pid_for_term s"
    "scheduled_term s' = scheduled_term s" "pcb_arr s' = pcb_arr s"
    "parent_pid_for_term s' = parent_pid_for_term s" "proc_sizes s' = proc_sizes s"
    using assms(1) by (simp_all add: proc_shape_def)
  have l: "length (pcbs s') = length (pcbs s)" using m map_eq_imp_length_eq by blast
  have "map pcb_tree (pcbs s')
    = map pcb_tree (pcbs s)"
  proof (rule nth_equalityI)
    fix i assume "i < length (map pcb_tree (pcbs s'))"
    then have i: "i < length (pcbs s)" using l by simp
    then have "pcb_shape (pcbs s ! i) = pcb_shape (pcbs s' ! i)" using m l by (metis nth_map)
    moreover have "length (fdArray (pcbs s ! i)) = 8"
      using assms(2) i by (simp add: procs_ok_def fds_ok_def)
    ultimately show "map pcb_tree (pcbs s') ! i
      = map pcb_tree (pcbs s) ! i"
      using pcb_shape_tree [of "pcbs s ! i" "pcbs s' ! i"] i l by simp
  qed (simp add: l)
  then show ?thesis using r by (simp add: tree_shape_def)
qed

lemma tree_shape_ok:
  assumes "tree_shape s' = tree_shape s" "procs_ok s'"
  shows "stacks_ok cs s' = stacks_ok cs s" "process_ok s \<Longrightarrow> process_ok s'"
proof -
  have m: "map pcb_tree (pcbs s')
      = map pcb_tree (pcbs s)"
    and r: "curr_pid_for_term s' = curr_pid_for_term s" "pcb_arr s' = pcb_arr s"
    "parent_pid_for_term s' = parent_pid_for_term s" "proc_sizes s' = proc_sizes s"
    using assms(1) by (simp_all add: tree_shape_def)
  have l: "length (pcbs s') = length (pcbs s)" using m map_eq_imp_length_eq by blast
  have l6: "length (pcbs s') = 6" using assms(2) by (simp add: procs_ok_def)
  have f: "parent (pcbs s' ! p) = parent (pcbs s ! p) \<and> flags (fdArray (pcbs s' ! p) ! 0) = flags (fdArray (pcbs s ! p) ! 0)
      \<and> flags (fdArray (pcbs s' ! p) ! 1) = flags (fdArray (pcbs s ! p) ! 1)" if "p < 6" for p
    using m [THEN arg_cong, of "\<lambda>xs. xs ! p"] l l6 that by (simp add: pcb_tree_def)
  have one: "stacks_ok cs b" if "stacks_ok cs a" "curr_pid_for_term b = curr_pid_for_term a" "pcb_arr b = pcb_arr a"
      "parent_pid_for_term b = parent_pid_for_term a" "\<And>p. p < 6 \<Longrightarrow> parent (pcbs b ! p) = parent (pcbs a ! p)" for a b
  proof -
    have "chain (parent_of b) (cs ! t) \<and> parent_of b (hd (cs ! t)) = parent_of a (hd (cs ! t))" if t: "t < 3" for t
    proof -
      have "p < 6" if "p \<in> set (cs ! t)" for p
        using that stacksD(9) [OF \<open>stacks_ok cs a\<close> t] \<open>stacks_ok cs a\<close> unfolding stacks_ok_def by blast
      then show ?thesis
        using \<open>\<And>p. p < 6 \<Longrightarrow> parent (pcbs b ! p) = parent (pcbs a ! p)\<close> stacksD(1,6) [OF \<open>stacks_ok cs a\<close> t]
          chain_cong [of "cs ! t" "parent_of a" "parent_of b"] by (simp add: parent_of_def)
    qed
    then show ?thesis using that by (simp add: stacks_ok_def)
  qed
  show "stacks_ok cs s' = stacks_ok cs s"
    using one [of s s'] one [of s' s] r f by auto
  show "process_ok s \<Longrightarrow> process_ok s'"
    using assms(2) r f by (simp add: process_ok_def proc_sizes_def)
qed

lemma tree_shape_upd [simp]:
  "tree_shape (set_vmem m s) = tree_shape s" "tree_shape (sti s) = tree_shape s"
  "tree_shape (cli s) = tree_shape s" "tree_shape (s\<lparr>vram := v\<rparr>) = tree_shape s"
  "tree_shape (s\<lparr>page_directory := (page_directory s)[i := d]\<rparr>) = tree_shape s"
  "tree_shape (set_vidmap_page p s) = tree_shape s" "tree_shape (store_user a b s) = tree_shape s"
  by (simp_all add: tree_shape_def proc_sizes_def sti_def cli_def set_vmem_def set_vidmap_page_def
      store_user_def Let_def)

lemma tree_shape_pcb:
  assumes "p < length (pcbs s)" "pcb_tree pcb = pcb_tree (pcbs s ! p)"
  shows "tree_shape (s\<lparr>pcbs := (pcbs s)[p := pcb]\<rparr>) = tree_shape s"
  using assms map_update_same [of p "pcbs s" pcb_tree pcb] by (simp add: tree_shape_def proc_sizes_def)

lemma sys_open_tree:
  assumes "sys_open fn d s = Some (s', r)" "procs_ok s"
  shows "tree_shape s' = tree_shape s"
proof (cases "fn = 0")
  case False
  obtain m v where l: "read_dentry_by_name (vmem s) (boot_block s) fn d = Some (m, v)"
    using assms(1) False by (auto simp: sys_open_def split: Option.bind_splits)
  define t where "t = set_vmem m s"
  have t: "procs_ok t" "tree_shape t = tree_shape s" using assms(2) by (simp_all add: t_def)
  from assms(1) consider "s' = t" | i r' where
    "first_index empty (openIndexes (pcbs t ! current_pid t)) = Some i"
    "call_open (openFunc (jump_table (new_fd i d t))) (open_state i d t) = Some (s', r')"
    unfolding sys_open_eq [OF assms(2) False l t_def]
    by (auto split: if_splits option.splits Option.bind_splits)
  then show ?thesis
  proof cases
    case (2 i r')
    then have "openFunc (jump_table (new_fd i d t)) \<noteq> Open_wild" by auto
    note ok = open_state_ok [OF t(1) 2(1) this]
    have "current_pid t < length (pcbs t)" using the_pcb_ok(2) [OF t(1)] t(1) by (simp add: procs_ok_def)
    then have "tree_shape (open_state i d t) = tree_shape t"
      unfolding open_state_def by (rule tree_shape_pcb) (simp add: opened_def Let_def pcb_tree_def)
    then show ?thesis using proc_shape_tree [OF open_call.shape [OF 2(2)] ok] t(2) by simp
  qed (use t in simp)
qed (use assms in \<open>simp add: sys_open_def\<close>)

lemma sys_close_tree:
  assumes "sys_close fd s = Some (s', r)" "procs_ok s"
  shows "tree_shape s' = tree_shape s"
proof (cases "sint fd < 2 \<or> 7 < sint fd \<or> flags (fdArray (pcbs s ! current_pid s) ! unat fd) = empty")
  case False
  then have fd: "2 \<le> unat fd" "unat fd < 8" using fd_range2 [of fd] by simp_all
  have "current_pid s < length (pcbs s)" using the_pcb_ok(2) [OF assms(2)] assms(2) by (simp add: procs_ok_def)
  then have "tree_shape (closed (unat fd) s) = tree_shape s"
    unfolding closed_def Let_def by (rule tree_shape_pcb) (use fd in \<open>simp add: pcb_tree_def\<close>)
  moreover have "call_close (closeFunc (jump_table (fdArray (pcbs s ! current_pid s) ! unat fd)))
      (closed (unat fd) s) = Some (s', r)"
    using assms(1) False unfolding sys_close_eq [OF assms(2)] by (simp split: if_splits)
  ultimately show ?thesis
    using proc_shape_tree [OF close_call.shape closed_ok [OF assms(2) fd]] by simp
qed (use assms in \<open>auto simp: sys_close_eq\<close>)

lemma sys_read_tree:
  assumes "sys_read fd buf n irqs s = Some (s', r)" "quiet_irqs irqs" "procs_ok s"
  shows "tree_shape s' = tree_shape s"
  using assms proc_shape_tree [OF call_read_shape, of _ _ _ _ _ "sti s"]
  by (auto simp: sys_read_def Let_def split: if_splits Option.bind_splits)

lemma sys_write_tree:
  assumes "sys_write fd buf n s = Some (s', r)" "procs_ok s"
  shows "tree_shape s' = tree_shape s"
proof -
  have p: "printf [CHR 0x0A] [] 0 t = Some (s', r') \<Longrightarrow> proc_shape s' = proc_shape t" for t r'
    using con_eq_proc_shape [OF printf_plain_frame [of "[0x0A]" "[]" 0 t s']]
    by (auto simp: printf_def split: Option.bind_splits)
  have ok: "procs_ok (sti s)" using assms(2) by simp
  show ?thesis
    using assms(1) proc_shape_tree [OF write_call.shape ok] proc_shape_tree [OF p ok]
    by (auto simp: sys_write_def Let_def split: if_splits Option.bind_splits)
qed

lemma sys_getargs_tree: "sys_getargs buf n s = Some (s', r) \<Longrightarrow> tree_shape s' = tree_shape s"
  by (auto simp: sys_getargs_def split: if_splits Option.bind_splits)

lemma sys_vidmap_tree: "tree_shape (fst (sys_vidmap vpt a s)) = tree_shape s"
proof -
  have f: "tree_shape (fold (\<lambda>i. store_user (p i) (v i)) xs s) = tree_shape s" for p v xs s
    by (induction xs arbitrary: s) simp_all
  show ?thesis by (simp add: sys_vidmap_def Let_def f)
qed

section \<open>A process between execute and halt\<close>

inductive user_step :: "kernel \<Rightarrow> kernel \<Rightarrow> bool" where
  user_store: "user_step s (set_vmem m s)"
| user_open: "sys_open fn d s = Some (s', r) \<Longrightarrow> user_step s s'"
| user_close: "sys_close fd s = Some (s', r) \<Longrightarrow> user_step s s'"
| user_read: "sys_read fd buf n irqs s = Some (s', r) \<Longrightarrow> device_irqs irqs \<Longrightarrow> user_step s s'"
| user_write: "sys_write fd buf n s = Some (s', r) \<Longrightarrow> user_step s s'"
| user_getargs: "sys_getargs buf n s = Some (s', r) \<Longrightarrow> user_step s s'"
| user_vidmap: "user_step s (fst (sys_vidmap vpt a s))"

lemma procs_ok_same:
  "pcbs s' = pcbs s \<Longrightarrow> curr_pid_for_term s' = curr_pid_for_term s \<Longrightarrow> scheduled_term s' = scheduled_term s
   \<Longrightarrow> currentTerminal s' = currentTerminal s \<Longrightarrow> procs_ok s \<Longrightarrow> procs_ok s'"
  by (simp add: procs_ok_def)

lemma sys_getargs_ok: "sys_getargs buf n s = Some (s', r) \<Longrightarrow> procs_ok s \<Longrightarrow> procs_ok s'"
  by (auto simp: sys_getargs_def split: if_splits Option.bind_splits)

lemma sys_vidmap_ok: "procs_ok s \<Longrightarrow> procs_ok (fst (sys_vidmap vpt a s))"
proof -
  have f: "pcbs (fold (\<lambda>i. store_user (p i) (v i)) xs s) = pcbs s
    \<and> curr_pid_for_term (fold (\<lambda>i. store_user (p i) (v i)) xs s) = curr_pid_for_term s
    \<and> scheduled_term (fold (\<lambda>i. store_user (p i) (v i)) xs s) = scheduled_term s
    \<and> currentTerminal (fold (\<lambda>i. store_user (p i) (v i)) xs s) = currentTerminal s" for p v xs s
    by (induction xs arbitrary: s) (simp_all add: store_user_def Let_def)
  assume "procs_ok s"
  then show ?thesis
    by (rule procs_ok_same [rotated 4]) (simp_all add: sys_vidmap_def Let_def f set_vidmap_page_def)
qed

lemma user_step_keeps:
  assumes "user_step s s'" "procs_ok s"
  shows "procs_ok s' \<and> tree_shape s' = tree_shape s"
  using assms
  by (induction rule: user_step.induct)
    (simp_all add: device_quiet sys_open_ok sys_open_tree sys_close_ok sys_close_tree sys_read_ok sys_read_tree
      sys_write_ok sys_write_tree sys_getargs_ok sys_getargs_tree sys_vidmap_ok sys_vidmap_tree)

lemma user_steps_keep:
  assumes "user_step\<^sup>*\<^sup>* s s'" "procs_ok s"
  shows "procs_ok s' \<and> tree_shape s' = tree_shape s"
  using assms by (induction rule: rtranclp_induct) (auto dest: user_step_keeps)

lemma tree_shape_regs:
  assumes "tree_shape s' = tree_shape s" "p < length (pcbs s)"
  shows "esp (pcbs s' ! p) = esp (pcbs s ! p)" "ebp (pcbs s' ! p) = ebp (pcbs s ! p)"
    "scheduledEsp (pcbs s' ! p) = scheduledEsp (pcbs s ! p)"
    "scheduledEbp (pcbs s' ! p) = scheduledEbp (pcbs s ! p)"
    "scheduled_term s' = scheduled_term s"
proof -
  have m: "map pcb_tree (pcbs s') = map pcb_tree (pcbs s)" using assms(1) by (simp add: tree_shape_def)
  then have "length (pcbs s') = length (pcbs s)" using map_eq_imp_length_eq by blast
  then have "pcb_tree (pcbs s' ! p) = pcb_tree (pcbs s ! p)" using m assms(2) by (metis nth_map)
  then show "esp (pcbs s' ! p) = esp (pcbs s ! p)" "ebp (pcbs s' ! p) = ebp (pcbs s ! p)"
    "scheduledEsp (pcbs s' ! p) = scheduledEsp (pcbs s ! p)"
    "scheduledEbp (pcbs s' ! p) = scheduledEbp (pcbs s ! p)"
    by (simp_all add: pcb_tree_def)
  show "scheduled_term s' = scheduled_term s" using assms(1) by (simp add: tree_shape_def)
qed

text \<open>C6: \<open>halt\<close> undoes \<open>execute\<close>. When the process of the displayed terminal starts a program, the
  program does whatever it likes with its memory and with system calls, and then halts, control
  returns to the frame of that \<open>execute\<close> with the program's status, the process stacks of all
  three terminals are as before, and the memory of the caller is mapped again.\<close>

theorem execute_then_halt:
  assumes "stacks_ok cs s" "process_ok s" "currentTerminal s = scheduled_term s + 1"
    and "execute fr command s = Some (s1, Iret_user e k)" "user_step\<^sup>*\<^sup>* s1 s2"
  shows "\<exists>s3. halt status s2
      = Some (s3, Leave_ret (if status = 255 then 256 else ucast status) (fr_esp fr) (fr_ebp fr))
    \<and> stacks_ok cs s3 \<and> process_ok s3 \<and> user_frame s3 = of_nat (current_pid s) + 2"
proof -
  let ?t = "scheduled_term s"
  have L: "length (pcb_arr s) = 6" "length (parent_pid_for_term s) = 3" "?t < 3" "length cs = 3"
    using assms(1,2) by (auto simp: stacks_ok_def process_ok_def procs_ok_def)
  from execute_iret [OF assms(2) L(1,2) assms(4)] obtain s0 p m where x: "same_processes s s0"
    "first_index 0 (pcb_arr s) = Some p" "s1 = sti (cli (started fr ?t p m s0))"
    unfolding assms(3) by (metis add_diff_cancel_right')
  note S = same_processes_ok [OF x(1)]
  have ok: "stacks_ok cs s0" "process_ok s0" "first_index 0 (pcb_arr s0) = Some p"
    using S(1-3) assms(1,2) x(2) by simp_all
  note P = free_pid [OF ok(1,3)] and T = stacksD [OF ok(1) L(3)]
  let ?c = "cs ! ?t" and ?cs = "cs[?t := p # cs ! ?t]"
  have s1: "stacks_ok ?cs s1" "process_ok s1"
    unfolding x(3) using started_push [OF ok(1,2) L(3) ok(3)] started_process_ok [OF ok(1,2) L(3) ok(3)]
    by simp_all
  have s1t: "scheduled_term s1 = ?t" unfolding x(3) using S(5) by (simp add: sti_def cli_def)
  have pcbs0: "length (pcbs s0) = 6" using ok(2) by (simp add: process_ok_def procs_ok_def)
  have ne: "hd ?c \<noteq> p" using T(8) P(3) by metis
  have regs: "length (pcbs s1) = 6" "esp (pcbs s1 ! hd ?c) = fr_esp fr" "ebp (pcbs s1 ! hd ?c) = fr_ebp fr"
    unfolding x(3) using started_pcbs_nth [OF pcbs0 P(1) T(6) P(2) ne T(6)] ne T(4) pcbs0
    by (simp_all add: sti_def cli_def)
  have "procs_ok s1" using s1(2) by (simp add: process_ok_def)
  from user_steps_keep [OF assms(5) this] have u: "procs_ok s2" "tree_shape s2 = tree_shape s1" by simp_all
  have s2: "stacks_ok ?cs s2" "process_ok s2" using tree_shape_ok [OF u(2,1)] s1(1,2) by simp_all
  have r2: "esp (pcbs s2 ! hd ?c) = fr_esp fr" "ebp (pcbs s2 ! hd ?c) = fr_ebp fr" "scheduled_term s2 = ?t"
    using tree_shape_regs [OF u(2), of "hd ?c"] regs T(6) s1t by simp_all
  have c: "?cs ! ?t = p # ?c" "?c \<noteq> []" "?cs[?t := ?c] = cs" using L T(2) by simp_all
  have "curr_pid_for_term s ! ?t = hd ?c" using T(4) S(6) by simp
  then show ?thesis
    using halt_result [OF s2 r2(3) [symmetric], of status] c r2 by (auto simp: current_pid_def Let_def)
qed

section \<open>Failing calls of execute\<close>

text \<open>The stack variable \<open>buf\<close> of \<open>execute\<close> and the user page lie outside the boot block.\<close>

definition locals_ok :: "frame \<Rightarrow> kernel \<Rightarrow> bool" where
  "locals_ok fr s \<longleftrightarrow> (\<forall>j < 4. \<not> in_user_page (boot_block s + 4 + of_nat j)
     \<and> \<not> within (fr_buf fr) 4 (boot_block s + 4 + of_nat j))"

lemma read_data_refused:
  assumes "read_data m bb ino 0 buf len = (m', r)" "unat len < 2 ^ 32 - 1"
  shows "r = -1 \<longleftrightarrow> ino \<ge> num_inodes m bb"
proof (cases "ino \<ge> num_inodes m bb")
  case False
  define a where "a = buf + of_nat (unat len)"
  have a: "a \<noteq> buf + of_nat k" if "k < unat len" for k
    using that assms(2) of_nat_inj32 [of k "unat len"] by (auto simp: a_def)
  have "unat r \<le> unat len"
    using assms(1) False read_data_loop_frame [of 0 len a buf 0 m "inode_at bb ino" "data_start m bb" 0 0
        "data_block_num m (inode_at bb ino) 0" 0] a
    by (auto simp: read_data_def Let_def)
  then show ?thesis using False of_nat_neq_m1 [of "unat r"] assms(2) by auto
qed (use assms(1) in \<open>simp add: read_data_def Let_def\<close>)

lemma read_data_other:
  assumes "read_data m bb ino 0 buf len = (m', r)" "\<not> within buf (unat len) a" "unat len < 2 ^ 32"
  shows "m' a = m a"
proof (cases "ino \<ge> num_inodes m bb")
  case False
  have a: "a \<noteq> buf + of_nat k" if "k < unat len" for k
    using that assms(2,3) within_offset [of k buf "unat len"] by auto
  show ?thesis
    using assms(1) False read_data_loop_frame [of 0 len a buf 0 m "inode_at bb ino" "data_start m bb" 0 0
        "data_block_num m (inode_at bb ino) 0" 0] a
    by (auto simp: read_data_def Let_def)
qed (use assms(1) in \<open>simp add: read_data_def Let_def\<close>)

text \<open>Once the first read has accepted the inode, the second one, which loads the program, does too:
  the process that \<open>execute\<close> has already entered in the tables is never left half-made.\<close>

lemma second_read_accepts:
  assumes "locals_ok fr s" "read_data (vmem s) (boot_block s) ino 0 (fr_buf fr) 4 = (m, r)" "r \<noteq> -1"
    and "read_data (vmem (set_user_page p (set_vmem m s))) (boot_block s) ino 0 PROGRAM_IMG 0x400000 = (m', r')"
  shows "r' \<noteq> -1"
proof -
  have v: "vmem (set_user_page p (set_vmem m s)) a = vmem s a"
    if "\<not> in_user_page a" "\<not> within (fr_buf fr) 4 a" for a
    using that read_data_other [OF assms(2), of a] by (simp add: vmem_def [of "set_user_page p (set_vmem m s)"])
      (simp add: set_vmem_def)
  have "num_inodes (vmem (set_user_page p (set_vmem m s))) (boot_block s) = num_inodes (vmem s) (boot_block s)"
    unfolding num_inodes_def by (rule ld32_cong) (use assms(1) v in \<open>simp add: locals_ok_def\<close>)
  then show ?thesis using read_data_refused [OF assms(2)] read_data_refused [OF assms(4)] assms(3) by simp
qed

lemma start_process_result:
  assumes "procs_ok s" "length (pcb_arr s) = 6" "length (parent_pid_for_term s) = 3" "t < 3"
    and "first_index 0 (pcb_arr s) = Some p"
    and "\<And>m r. read_data (vmem (set_user_page p s)) (boot_block s) ino 0 PROGRAM_IMG 0x400000 = (m, r) \<Longrightarrow> r \<noteq> -1"
  shows "\<exists>s' e k. start_process fr t ino s = Some (s', Iret_user e k)"
proof -
  obtain m r where "read_data (vmem (set_user_page p s)) (boot_block s) ino 0 PROGRAM_IMG 0x400000 = (m, r)"
    by (metis surj_pair)
  then show ?thesis using start_process_eq [OF assms(1-5) _ assms(6)] by (auto simp: iret_user_def)
qed

lemma same_processes_tree: "same_processes s s' \<Longrightarrow> length (args s) = 128 \<Longrightarrow> tree_shape s' = tree_shape s"
  unfolding same_processes_def tree_shape_def proc_sizes_def
  by (auto simp: set_vmem_def)

lemma start_enters:
  assumes "process_ok s" "length (pcb_arr s) = 6" "length (parent_pid_for_term s) = 3" "locals_ok fr s"
    and start: "0 \<in> set (take MAX_PCB (pcb_arr s))" "length as = 128"
      "read_data m (boot_block s) ino 0 (fr_buf fr) 4 = (m', r)" "r \<noteq> -1"
      "start_process fr (currentTerminal s - 1) ino (prepared m' as s) = Some (s', out)"
  shows "\<exists>e k. out = Iret_user e k"
proof -
  let ?s = "prepared m' as s"
  have same: "same_processes s ?s" using start(2) unfolding same_processes_def prepared_def by blast
  have k: "procs_ok ?s" "currentTerminal s - 1 < 3" "length (parent_pid_for_term ?s) = 3"
    using same_processes_ok(2,8) [OF same] assms(1,3) by (auto simp: process_ok_def procs_ok_def [of s])
  obtain p where p: "first_index 0 (pcb_arr ?s) = Some p"
    using start(1) assms(2) first_index_None [of 0 "pcb_arr s"] by auto
  have "r' \<noteq> -1" if "read_data (vmem (set_user_page p ?s)) (boot_block ?s) ino 0 PROGRAM_IMG 0x400000 = (m2, r')" for m2 r'
  proof (rule second_read_accepts [of fr "prepared m as s"])
    show "locals_ok fr (prepared m as s)" using assms(4) by (simp add: locals_ok_def)
  qed (use that start in simp_all)
  then have "\<exists>s' e k. start_process fr (currentTerminal s - 1) ino ?s = Some (s', Iret_user e k)"
    by (intro start_process_result [OF k(1) _ k(3,2) p]) (use assms(2) in auto)
  then show ?thesis using start(5) by auto
qed

lemma execute_returns:
  assumes "process_ok s" "length (pcb_arr s) = 6" "length (parent_pid_for_term s) = 3" "locals_ok fr s"
    and "execute fr command s = Some (s', out)" "\<And>e k. out \<noteq> Iret_user e k"
  shows "procs_ok s' \<and> tree_shape s' = tree_shape s"
proof -
  have A: "length (args s) = 128" "procs_ok s" using assms(1) by (simp_all add: process_ok_def)
  have keep: "procs_ok ((set_vmem m s)\<lparr>iflag := f, args := as\<rparr>)
      \<and> tree_shape ((set_vmem m s)\<lparr>iflag := f, args := as\<rparr>) = tree_shape s" if "length as = 128" for m f as
  proof -
    have "same_processes s ((set_vmem m s)\<lparr>iflag := f, args := as\<rparr>)"
      using that unfolding same_processes_def by blast
    then show ?thesis using same_processes_ok(2) same_processes_tree A(1) assms(1) by (simp add: process_ok_def)
  qed
  have print: "procs_ok s' \<and> tree_shape s' = tree_shape t"
    if "printf cant_open [] 0 t = Some (s', n)" "procs_ok t" for t n
  proof -
    have "proc_shape s' = proc_shape t"
      using that(1) con_eq_proc_shape [OF printf_plain_frame [of "map of_char cant_open" "[]" 0 t s']]
      by (auto simp: printf_def cant_open_def split: Option.bind_splits)
    then show ?thesis using proc_shape_ok proc_shape_tree that(2) by blast
  qed
  from assms(5) A(1) show ?thesis
  proof (cases rule: execute_cases)
    case (refused m as r)
    then show ?thesis using keep unfolding prepared_def by simp
  next
    case (full_table m as n)
    then show ?thesis using keep [of as False m] print [OF full_table(1) [unfolded prepared_def]] by simp
  next
    case (start m m' as ino r)
    then show ?thesis using start_enters [OF assms(1-4)] assms(6) by blast
  qed
qed

section \<open>The invariant of all runs\<close>

definition kernel_ok :: "kernel \<Rightarrow> bool" where
  "kernel_ok s \<longleftrightarrow> process_ok s \<and> (\<exists>cs. stacks_ok cs s)"

lemma execute_keeps_ok:
  assumes "kernel_ok s" "execute fr command s = Some (s', out)" "locals_ok fr s"
  shows "kernel_ok s'"
proof -
  obtain cs where cs: "stacks_ok cs s" "process_ok s" using assms(1) by (auto simp: kernel_ok_def)
  then have L: "length (pcb_arr s) = 6" "length (parent_pid_for_term s) = 3" by (simp_all add: stacks_ok_def)
  show ?thesis
  proof (cases "\<exists>e k. out = Iret_user e k")
    case True
    then obtain e k where "execute fr command s = Some (s', Iret_user e k)" using assms(2) by blast
    from execute_result [OF cs this] show ?thesis by (auto simp: kernel_ok_def)
  next
    case False
    then have "procs_ok s' \<and> tree_shape s' = tree_shape s"
      using execute_returns [OF cs(2) L assms(3,2)] by blast
    then show ?thesis using tree_shape_ok [of s' s] cs by (auto simp: kernel_ok_def)
  qed
qed

lemma halt_keeps_ok:
  assumes "kernel_ok s" "halt status s = Some (s', out)"
  shows "kernel_ok s'"
proof -
  obtain cs where cs: "stacks_ok cs s" "process_ok s" using assms(1) by (auto simp: kernel_ok_def)
  from halt_result [OF cs refl, of status] show ?thesis
    using assms(2) by (auto simp: kernel_ok_def Let_def split: if_splits)
qed

lemma kernel_ok_same:
  assumes "kernel_ok s" "tree_shape s' = tree_shape s" "procs_ok s'"
  shows "kernel_ok s'"
  using assms tree_shape_ok [of s' s] by (auto simp: kernel_ok_def)

lemma user_step_keeps_ok: "user_step s s' \<Longrightarrow> kernel_ok s \<Longrightarrow> kernel_ok s'"
  using user_step_keeps [of s s'] kernel_ok_same [of s s'] by (auto simp: kernel_ok_def process_ok_def)

text \<open>C39: the terminal whose process calls \<open>execute\<close> is not consulted. When another terminal is on
  display, the new process is entered for that one: it becomes its running process and the
  caller's registers are saved in the block of the process that runs there, while the tables of the
  caller's own terminal stay as they were. So \<open>halt\<close> of the new program returns into
  the frame of a process of the other terminal.\<close>

theorem execute_uses_displayed_terminal:
  assumes "stacks_ok cs s" "process_ok s" "v = currentTerminal s - 1" "v \<noteq> scheduled_term s"
    and "execute fr command s = Some (s', Iret_user e k)"
  shows "curr_pid_for_term s' ! scheduled_term s = current_pid s
    \<and> pcb_arr s ! (curr_pid_for_term s' ! v) = 0
    \<and> esp (pcbs s' ! (curr_pid_for_term s ! v)) = fr_esp fr
    \<and> ebp (pcbs s' ! (curr_pid_for_term s ! v)) = fr_ebp fr"
proof -
  have L: "length (pcb_arr s) = 6" "length (parent_pid_for_term s) = 3" "v < 3" "scheduled_term s < 3"
    "length (curr_pid_for_term s) = 3"
    using assms(1-3) by (auto simp: stacks_ok_def process_ok_def procs_ok_def)
  from execute_iret [OF assms(2) L(1,2) assms(5)] obtain s0 p m where x: "same_processes s s0"
    "first_index 0 (pcb_arr s) = Some p" "s' = sti (cli (started fr v p m s0))"
    unfolding assms(3) by metis
  note S = same_processes_ok [OF x(1)]
  note P = free_pid [OF assms(1) x(2)] and T = stacksD [OF assms(1) L(3)]
  have ne: "hd (cs ! v) \<noteq> p" using T(8) P(3) by metis
  have l6: "length (pcbs s0) = 6" using S(2) [OF assms(2)] by (simp add: process_ok_def procs_ok_def)
  show ?thesis
    unfolding x(3) using started_pcbs_nth [OF l6 P(1) T(6) P(2) ne T(6)] ne T(4) S(6) L P(4) assms(4)
    by (simp add: sti_def cli_def current_pid_def)
qed

end
