(* ===== verification/ExecuteLoads.thy ===== *)
theory ExecuteLoads
  imports Runs
begin

text \<open>
  \<open>execute\<close> from the command line to user mode: which program it starts, with which arguments
  and at which address, and what it refuses.
\<close>

section \<open>A program on the disk and a call of execute\<close>

text \<open>The last directory entry of that name is a file with these contents; it is a program when
  they start with the ELF magic number, hold an entry point, and fit the user page.\<close>

definition file_named :: "mem \<Rightarrow> u32 \<Rightarrow> u8 list \<Rightarrow> u8 list \<Rightarrow> bool" where
  "file_named m bb name c \<longleftrightarrow> fs_ok m bb
     \<and> (\<exists>k. last_named m bb name k
          \<and> inode_num m (dentry_at bb (of_nat k)) < num_inodes m bb
          \<and> inode_ok m bb (inode_num m (dentry_at bb (of_nat k)))
          \<and> file_contents m bb (inode_num m (dentry_at bb (of_nat k))) = c)"

definition program :: "u8 list \<Rightarrow> bool" where
  "program c \<longleftrightarrow> 28 \<le> length c \<and> length c \<le> 0x3B7000 \<and> take 4 c = [0x7F, 0x45, 0x4C, 0x46]"

text \<open>The command line and the locals of \<open>execute\<close> lie beside the image, which is in kernel memory.\<close>

definition call_ok :: "frame \<Rightarrow> u32 \<Rightarrow> u8 list \<Rightarrow> kernel \<Rightarrow> bool" where
  "call_ok fr command cs s \<longleftrightarrow> command \<noteq> 0 \<and> cstring (vmem s) command cs \<and> cs \<noteq> []
     \<and> length (command_name cs) < 32
     \<and> (\<forall>k \<le> length cs. \<not> within (fr_function fr) 32 (command + of_nat k))
     \<and> apart (fr_function fr) 32 (boot_block s) (fs_size (vmem s) (boot_block s))
     \<and> apart (fr_dentry fr) 64 (boot_block s) (fs_size (vmem s) (boot_block s))
     \<and> apart (fr_buf fr) 4 (boot_block s) (fs_size (vmem s) (boot_block s))
     \<and> (\<forall>a. within (boot_block s) (fs_size (vmem s) (boot_block s)) a \<longrightarrow> \<not> in_user_page a)"

text \<open>The little-endian word at an offset of a file.\<close>

definition word_at :: "u8 list \<Rightarrow> nat \<Rightarrow> u32" where
  "word_at c off = ld32 (\<lambda>a. c ! unat a) (of_nat off)"

text \<open>A file of an image is the same file after a change outside the image.\<close>

lemma image_file:
  assumes "same_image m m' bb" "fs_ok m bb" "ino < num_inodes m bb" "inode_ok m bb ino" "file_contents m bb ino = c"
  shows "ino < num_inodes m' bb" "inode_ok m' bb ino" "file_contents m' bb ino = c"
    "fs_size m' bb = fs_size m bb" "fs_size m' bb \<le> 2 ^ 32" "fs_ok m' bb"
proof -
  have size: "fs_size m bb \<le> 2 ^ 32" using assms(2) by (simp add: fs_ok_def)
  define f where "f = demo_fd\<lparr>inode_check := ino, file_position := 0, flags := full\<rparr>"
  have "reading m bb f" using assms by (simp add: reading_def f_def)
  from same_image_reading [OF assms(1) size this]
  show "ino < num_inodes m' bb" "inode_ok m' bb ino" "file_contents m' bb ino = c"
    using assms(5) by (auto simp: reading_def remaining_def f_def)
  show "fs_size m' bb = fs_size m bb" "fs_ok m' bb" using same_image_fs_ok [OF assms(1,2)] by simp_all
  then show "fs_size m' bb \<le> 2 ^ 32" using size by simp
qed

lemma ld32_cong2:
  assumes "\<And>j. j < 4 \<Longrightarrow> m (a + of_nat j) = m' (b + of_nat j)"
  shows "ld32 m a = ld32 m' b"
  using assms [of 0] assms [of 1] assms [of 2] assms [of 3] by (simp add: ld32_def)

lemma cstring_same:
  "cstring m p cs \<Longrightarrow> (\<And>k. k \<le> length cs \<Longrightarrow> m' (p + of_nat k) = m (p + of_nat k)) \<Longrightarrow> cstring m' p cs"
  unfolding cstring_def by (metis bytes_at_cong less_or_eq_imp_le order_refl)

lemma file_named_image:
  assumes "same_image m m' bb" "file_named m bb name c"
  shows "file_named m' bb name c"
proof -
  obtain k where k: "fs_ok m bb" "last_named m bb name k" "inode_num m (dentry_at bb (of_nat k)) < num_inodes m bb"
    "inode_ok m bb (inode_num m (dentry_at bb (of_nat k)))"
    "file_contents m bb (inode_num m (dentry_at bb (of_nat k))) = c"
    using assms(2) by (auto simp: file_named_def)
  note F = same_image_fs_ok [OF assms(1) k(1)]
  have d: "entry_name m' bb j = entry_name m bb j"
    "inode_num m' (dentry_at bb (of_nat j)) = inode_num m (dentry_at bb (of_nat j))" if "j < entry_count m bb" for j
    using same_image_dentry(2,3) [OF assms(1) k(1) that] by simp_all
  then have l: "last_named m' bb name k" "inode_num m' (dentry_at bb (of_nat k)) = inode_num m (dentry_at bb (of_nat k))"
    using k(2) F(2) by (auto simp: last_named_def)
  show ?thesis
    using assms(2) F(1) l image_file [OF assms(1) k(1,3-5)] by (auto simp: file_named_def)
qed

lemma same_image_trans:
  "same_image m m' bb \<Longrightarrow> same_image m' m'' bb \<Longrightarrow> fs_size m' bb = fs_size m bb \<Longrightarrow> same_image m m'' bb"
  by (simp add: same_image_def)

lemma same_image_outside:
  "(\<And>a. \<not> within p n a \<Longrightarrow> m' a = m a) \<Longrightarrow> apart p n bb (fs_size m bb) \<Longrightarrow> same_image m m' bb"
  unfolding same_image_def apart_def by blast

text \<open>The lookup of a program in the directory.\<close>

lemma lookup_file:
  assumes "file_named m bb name c" "cstring m fname name" "apart dp 64 bb (fs_size m bb)"
  obtains m' where "read_dentry_by_name m bb fname dp = Some (m', 0)" "same_image m m' bb"
    "inode_num m' dp < num_inodes m bb" "inode_ok m bb (inode_num m' dp)"
    "file_contents m bb (inode_num m' dp) = c"
proof -
  obtain k where k: "fs_ok m bb" "last_named m bb name k" "inode_num m (dentry_at bb (of_nat k)) < num_inodes m bb"
    "inode_ok m bb (inode_num m (dentry_at bb (of_nat k)))"
    "file_contents m bb (inode_num m (dentry_at bb (of_nat k))) = c"
    using assms(1) by (auto simp: file_named_def)
  have uniq: "last_named m bb name j \<Longrightarrow> j = k" for j
    using k(2) unfolding last_named_def by (metis linorder_neqE_nat)
  obtain j m' where m: "last_named m bb name j" "read_dentry_by_name m bb fname dp = Some (m', 0)"
    "dentry_copied m m' bb j dp"
    using read_dentry_by_name_cases [OF k(1) assms(2,3)] k(2) by (auto simp: last_named_def)
  have "j = k" by (rule uniq [OF m(1)])
  then have "inode_num m' dp = inode_num m (dentry_at bb (of_nat k))" using m(3) by (simp add: dentry_copied_def)
  then show ?thesis using that [OF m(2) dentry_copied_image [OF m(3) assms(3)]] k by simp
qed

lemma set_user_page_vmem:
  "\<not> in_user_page a \<Longrightarrow> vmem (set_user_page p s) a = vmem s a"
  by (simp add: vmem_def)

lemma program_img_within:
  assumes "n \<le> 0x3B7000" "within PROGRAM_IMG n a"
  shows "in_user_page a"
proof -
  obtain k where k: "k < n" "a = PROGRAM_IMG + of_nat k" using assms(2) by (metis withinE)
  have "a - USR_MEM_VIRT_ADDR = 0x48000 + of_nat k"
    by (simp add: k(2) PROGRAM_IMG_def USR_MEM_VIRT_ADDR_def)
  also have "unat \<dots> = 0x48000 + k"
    using k(1) assms(1) by (simp add: unat_word_ariths unat_of_nat32)
  finally show ?thesis using k(1) assms(1) by (simp add: in_user_page_def MB4_def word_less_nat_alt)
qed

lemma word_at_image:
  assumes "bytes_at m p (length c) = c" "off + 4 \<le> length c" "off < 2 ^ 31"
  shows "ld32 m (p + of_nat off) = word_at c off"
  unfolding word_at_def
proof (rule ld32_cong2)
  fix j :: nat assume j: "j < 4"
  then have "m (p + of_nat (off + j)) = c ! (off + j)"
    using bytes_at_nth [of "off + j" "length c" m p] assms by simp
  moreover have "unat (of_nat off + of_nat j :: u32) = off + j"
    using j assms(3) unat_of_nat32 [of "off + j"] by simp
  ultimately show "m (p + of_nat off + of_nat j) = c ! unat (of_nat off + of_nat j :: u32)"
    by (simp add: add.assoc)
qed

definition arguments :: "u8 list \<Rightarrow> u8 list" where
  "arguments cs = take 128 (command_args cs) @ replicate (128 - length (command_args cs)) 0"

text \<open>\<open>execute\<close> is at the test for a free process number once the name is found in the directory.\<close>

definition execute_rest :: "frame \<Rightarrow> i32 \<Rightarrow> mem \<Rightarrow> u8 list \<Rightarrow> kernel \<Rightarrow> (kernel \<times> outcome) option" where
  "execute_rest fr ino m as s =
     (if 0 \<notin> set (take MAX_PCB (pcb_arr s))
      then do { (s, n) \<leftarrow> printf cant_open [] 0 (prepared m as s); Some (s, Return 0) }
      else let (m, valid) = read_data m (boot_block s) ino 0 (fr_buf fr) 4; s = prepared m as s in
        if valid = -1 then Some (s, Return (-1))
        else if bytes_at m (fr_buf fr) 4 \<noteq> [0x7F, 0x45, 0x4C, 0x46] then Some (s, Return (-1))
        else if currentTerminal s = 0 then None
        else start_process fr (currentTerminal s - 1) ino s)"

lemma execute_finds:
  assumes "length (args s) = 128" and call: "call_ok fr command cs s"
    and named: "file_named (vmem s) (boot_block s) (command_name cs) c"
  obtains m ino where "execute fr command s = execute_rest fr ino m (arguments cs) s"
    "fs_ok m (boot_block s)" "ino < num_inodes m (boot_block s)" "inode_ok m (boot_block s) ino"
    "file_contents m (boot_block s) ino = c"
    "fs_size m (boot_block s) = fs_size (vmem s) (boot_block s)"
proof -
  let ?bb = "boot_block s"
  note C = call [unfolded call_ok_def]
  have fs: "fs_ok (vmem s) ?bb" using named by (simp add: file_named_def)
  obtain m1 where m1: "parse_name command (fr_function fr) (vmem s) = Some m1"
    "cstring m1 (fr_function fr) (command_name cs)" "\<And>a. \<not> within (fr_function fr) 32 a \<Longrightarrow> m1 a = vmem s a"
    using parse_name_correct [of "vmem s" command cs "fr_function fr"] C by metis
  have i1: "same_image (vmem s) m1 ?bb"
    by (rule same_image_outside [of "fr_function fr" 32]) (use m1(3) C in simp_all)
  note s1 = same_image_fs_ok [OF i1 fs]
  have "m1 (command + of_nat k) = vmem s (command + of_nat k)" if "k \<le> length cs" for k
    using m1(3) C that by blast
  then have "cstring m1 command cs" using C cstring_same by blast
  then have as: "parse_args command m1 (args s) = Some (arguments cs)"
    unfolding arguments_def using assms(1) by (rule parse_args_correct)
  obtain m2 where m2: "read_dentry_by_name m1 ?bb (fr_function fr) (fr_dentry fr) = Some (m2, 0)"
    "same_image m1 m2 ?bb" "inode_num m2 (fr_dentry fr) < num_inodes m1 ?bb"
    "inode_ok m1 ?bb (inode_num m2 (fr_dentry fr))" "file_contents m1 ?bb (inode_num m2 (fr_dentry fr)) = c"
    using lookup_file [OF file_named_image [OF i1 named] m1(2), of "fr_dentry fr"] C s1(3) by metis
  note M2 = image_file [OF m2(2) s1(1) m2(3-5)]
  show ?thesis
  proof (rule that [OF _ M2(6,1,2,3)])
    show "fs_size m2 ?bb = fs_size (vmem s) ?bb" using M2(4) s1(3) by simp
  qed (use C m1(1) as m2(1) in \<open>simp add: execute_def execute_rest_def cli_prepared Let_def split: prod.splits\<close>)
qed

lemma execute_loads:
  assumes ok: "process_ok s" "length (pcb_arr s) = 6" "length (parent_pid_for_term s) = 3"
    and call: "call_ok fr command cs s" and named: "file_named (vmem s) (boot_block s) (command_name cs) c"
    and lc: "program c" and free: "first_index 0 (pcb_arr s) = Some p"
  obtains m m' where "execute fr command s = Some (iret_user (word_at c 24) (USR_MEM_VIRT_ADDR + MB4 - 4)
      (cli (started fr (currentTerminal s - 1) p m (prepared m' (arguments cs) s))))"
    "bytes_at m PROGRAM_IMG (length c) = c"
proof -
  let ?bb = "boot_block s" and ?t = "currentTerminal s - 1"
  note C = call [unfolded call_ok_def] and lc = lc [unfolded program_def]
  have args: "length (args s) = 128" "1 \<le> currentTerminal s" "?t < 3" "procs_ok s"
    using ok(1) by (auto simp: process_ok_def procs_ok_def [of s])
  have zero: "0 \<in> set (take MAX_PCB (pcb_arr s))"
    using first_index_None [of 0 "pcb_arr s"] free ok(2) by auto
  obtain m2 ino where ex: "execute fr command s = execute_rest fr ino m2 (arguments cs) s"
    and m2: "fs_ok m2 ?bb" "ino < num_inodes m2 ?bb" "inode_ok m2 ?bb ino" "file_contents m2 ?bb ino = c"
      "fs_size m2 ?bb = fs_size (vmem s) ?bb"
    by (rule execute_finds [OF args(1) call named])
  have size: "fs_size m2 ?bb \<le> 2 ^ 32" using m2(1) by (simp add: fs_ok_def)
  have len2: "file_length m2 ?bb ino = length c" using m2(4) file_contents_length [of m2 ?bb ino] by simp
  have f4: "file_bytes m2 ?bb ino 0 4 = take 4 c"
    using file_bytes_contents [of 0 4 m2 ?bb ino] lc m2(4) len2 by simp
  define m3 where "m3 = poke m2 (fr_buf fr) (take 4 c)"
  have r4: "read_data m2 ?bb ino 0 (fr_buf fr) 4 = (m3, 4)"
    using read_data_correct [OF size m2(2,3), of "fr_buf fr" 4 0] C m2(5) len2 lc f4
    by (simp add: m3_def)
  have l4: "length (take 4 c) = 4" using conjunct1 [OF lc] by simp
  have i3: "same_image m2 m3 ?bb"
    unfolding m3_def by (rule same_image_poke, unfold l4 m2(5)) (use C in blast)
  have elf: "bytes_at m3 (fr_buf fr) 4 = [0x7F, 0x45, 0x4C, 0x46]"
  proof -
    have "take 4 c = [0x7F, 0x45, 0x4C, 0x46]" using lc by simp
    then show ?thesis
      using bytes_at_poke [of "take 4 c" m2 "fr_buf fr"] unfolding m3_def l4 by (simp only:) simp
  qed
  note M3 = image_file [OF i3 m2(1-4)]
  let ?s = "prepared m3 (arguments cs) s"
  let ?m4 = "vmem (set_user_page p ?s)"
  have w3: "fs_size m3 ?bb = fs_size (vmem s) ?bb" using m2(5) M3(4) by simp
  have i4: "same_image m3 ?m4 ?bb"
    using C w3 by (simp add: same_image_def set_user_page_vmem)
  note M4 = image_file [OF i4 M3(6) M3(1-3)]
  have len4: "file_length ?m4 ?bb ino = length c" using M4(3) file_contents_length [of ?m4 ?bb ino] by simp
  have "apart PROGRAM_IMG (length c) ?bb (fs_size ?m4 ?bb)"
    unfolding apart_def M4(4) w3 using program_img_within [of "length c"] lc C by blast
  then have ap: "apart PROGRAM_IMG (file_length ?m4 ?bb ino) ?bb (fs_size ?m4 ?bb)" by (simp only: len4)
  have "file_length ?m4 ?bb ino \<le> unat (0x400000 :: u32)" "unat (0x400000 :: u32) < 2 ^ 32 - 1"
    using len4 lc by simp_all
  from read_data_loaded [OF M4(5) M4(1,2) ap this] obtain m5 r where m5:
    "read_data ?m4 ?bb ino 0 PROGRAM_IMG 0x400000 = (m5, r)" "r \<noteq> -1" "bytes_at m5 PROGRAM_IMG (length c) = c"
    unfolding len4 M4(3) by blast
  have eip: "ld32 m5 (PROGRAM_IMG + 24) = word_at c 24"
    using word_at_image [OF m5(3), of 24] lc by simp
  have ss: "procs_ok ?s" "length (pcb_arr ?s) = 6" "length (parent_pid_for_term ?s) = 3"
    using args(4) ok by (simp_all add: prepared_def procs_ok_def)
  have fp: "first_index 0 (pcb_arr ?s) = Some p" using free by simp
  have "start_process fr ?t ino ?s = Some (iret_user (word_at c 24) (USR_MEM_VIRT_ADDR + MB4 - 4)
      (cli (started fr ?t p m5 ?s)))"
    using start_process_eq [OF ss args(3) fp _ m5(2), of ino m5] m5(1) eip by simp
  then have "execute fr command s = Some (iret_user (word_at c 24) (USR_MEM_VIRT_ADDR + MB4 - 4)
      (cli (started fr ?t p m5 ?s)))"
    using r4 elf args(2) zero by (simp add: ex execute_rest_def)
  then show ?thesis using that m5(3) by blast
qed

section \<open>What execute starts\<close>

lemma new_pcb_flags:
  assumes "length (fdArray pcb) = 8" "i < 8"
  shows "flags (fdArray (new_pcb p par m pcb) ! i) = (if i < 2 then full else empty)"
  using assms by (auto simp: new_pcb_def init_pcb_def nth_append console_fd_def)

lemma first_free:
  assumes "p < length xs" "xs ! p = v" "\<forall>q < p. xs ! q \<noteq> v"
  shows "first_index v xs = Some p"
proof -
  obtain q where q: "first_index v xs = Some q"
    using assms(1,2) first_index_None [of v xs] by (metis nth_mem option.exhaust)
  then show ?thesis using first_index_Some [OF q] assms by (metis linorder_neqE_nat)
qed

lemma execute_starts:
  assumes "stacks_ok cs s" "process_ok s" "call_ok fr command line s"
    and "file_named (vmem s) (boot_block s) (command_name line) c" "program c"
    and "p < 6" "pcb_arr s ! p = 0" "\<forall>q < p. pcb_arr s ! q \<noteq> 0"
  shows "\<exists>s'. execute fr command s = Some (s', Iret_user (word_at c 24) 0x83FFFFC)
    \<and> iflag s' \<and> user_frame s' = of_nat p + 2
    \<and> bytes_at (vmem s') 0x08048000 (length c) = c
    \<and> args s' = take 128 (command_args line) @ replicate (128 - length (command_args line)) 0
    \<and> (\<forall>i < 8. flags (fdArray (pcbs s' ! p) ! i) = (if i < 2 then full else empty))
    \<and> (\<forall>f. f \<noteq> of_nat p + 2 \<and> f \<noteq> user_frame s \<longrightarrow> frames s' f = frames s f)"
proof -
  have L: "length (pcb_arr s) = 6" "length (parent_pid_for_term s) = 3" using assms(1) by (simp_all add: stacks_ok_def)
  let ?t = "currentTerminal s - 1"
  have t: "?t < 3" "length (page_directory s) = 1024" using assms(2) by (auto simp: process_ok_def procs_ok_def)
  have f: "first_index 0 (pcb_arr s) = Some p" using assms(6-8) L by (intro first_free) simp_all
  from execute_loads [OF assms(2) L assms(3-5) f] obtain m m' where
    x: "execute fr command s = Some (iret_user (word_at c 24) (USR_MEM_VIRT_ADDR + MB4 - 4)
      (cli (started fr ?t p m (prepared m' (arguments line) s))))" "bytes_at m PROGRAM_IMG (length c) = c"
    by metis
  let ?s0 = "prepared m' (arguments line) s"
  note P = free_pid [OF assms(1) f] and T = stacksD [OF assms(1) t(1)]
  have ne: "hd (cs ! ?t) \<noteq> p" using T(8) P(3) by metis
  have s0: "pcbs ?s0 = pcbs s" "curr_pid_for_term ?s0 = curr_pid_for_term s"
    "length (page_directory ?s0) = 1024"
    "g \<noteq> user_frame s \<Longrightarrow> frames ?s0 g = frames s g" for g
    using t by (simp_all add: prepared_def set_vmem_def)
  have l6: "length (pcbs s) = 6" "fds_ok (pcbs s ! p)"
    using assms(2,6) by (simp_all add: process_ok_def procs_ok_def)
  have uf: "user_frame (started fr ?t p m ?s0) = of_nat p + 2"
    by (rule user_frame_started [OF s0(3) assms(6)])
  have uf0: "user_frame (set_user_page p ?s0) = of_nat p + 2"
    using user_frame_set_user_page [of ?s0 p] s0(3) assms(6) by simp
  have pcb: "pcbs (started fr ?t p m ?s0) ! p = new_pcb p (hd (cs ! ?t)) m (pcbs s ! p)"
    using started_pcbs_nth [OF l6(1) P(1) T(6) P(2) ne P(1)] T(4) s0(1,2) by simp
  have k: "USR_MEM_VIRT_ADDR + MB4 - 4 = 0x83FFFFC" by (simp add: USR_MEM_VIRT_ADDR_def MB4_def)
  show ?thesis
  proof (intro exI conjI)
    show "user_frame (sti (cli (started fr ?t p m ?s0))) = of_nat p + 2" using uf by simp
    show "execute fr command s = Some (sti (cli (started fr ?t p m ?s0)), Iret_user (word_at c 24) 0x83FFFFC)"
      using x(1) by (simp add: iret_user_def k)
    show "\<forall>i < 8. flags (fdArray (pcbs (sti (cli (started fr ?t p m ?s0))) ! p) ! i) = (if i < 2 then full else empty)"
      using new_pcb_flags [of "pcbs s ! p"] l6(2) pcb by (simp add: sti_def cli_def fds_ok_def)
    show "\<forall>f. f \<noteq> of_nat p + 2 \<and> f \<noteq> user_frame s \<longrightarrow>
        frames (sti (cli (started fr ?t p m ?s0))) f = frames s f"
      using started_frames [of _ p ?s0 fr ?t m] uf0 s0(4) by (simp add: sti_def cli_def)
    show "bytes_at (vmem (sti (cli (started fr ?t p m ?s0)))) 0x08048000 (length c) = c"
      using x(2) by (simp add: PROGRAM_IMG_def)
  qed (simp_all add: sti_def cli_def arguments_def)
qed

text \<open>C7: \<open>execute\<close> starts the program the command names. When the first word of the command is the
  name of an ELF program on the disk and a process number is free, control goes to user mode at
  the entry point the file gives at offset 24, on an empty stack at the end of the user page, with
  interrupts on; the user page is the frame of the new process and holds the whole file at
  \<open>0x08048000\<close>; the arguments are what follows the last space of the command, cut at 128 bytes;
  of the eight descriptors exactly the two of the console are open; and the frames of all other
  processes are untouched.\<close>

theorem execute_starts_program:
  assumes "stacks_ok cs s" "process_ok s" "call_ok fr command line s"
    and "file_named (vmem s) (boot_block s) (command_name line) c" "program c"
    and "p < 6" "pcb_arr s ! p = 0" "\<forall>q < p. pcb_arr s ! q \<noteq> 0"
  shows "\<exists>s'. execute fr command s = Some (s', Iret_user (word_at c 24) 0x83FFFFC)
    \<and> iflag s' \<and> user_frame s' = of_nat p + 2
    \<and> bytes_at (vmem s') 0x08048000 (length c) = c
    \<and> args s' = take 128 (command_args line) @ replicate (128 - length (command_args line)) 0
    \<and> (\<forall>i < 8. flags (fdArray (pcbs s' ! p) ! i) = (if i < 2 then full else empty))
    \<and> (\<forall>f. f \<noteq> of_nat p + 2 \<and> f \<noteq> user_frame s \<longrightarrow> frames s' f = frames s f)"
  by (rule execute_starts [where c = c and p = p, OF assms])

section \<open>What execute refuses\<close>

lemma prepared_tree:
  assumes "length as = 128" "length (args s) = 128"
  shows "tree_shape (prepared m as s) = tree_shape s"
  using same_processes_tree [of s "prepared m as s"] assms unfolding same_processes_def prepared_def by blast

lemma arguments_length [simp]: "length (arguments cs) = 128"
  by (simp add: arguments_def)


end
