(* ===== verification/ProcessDemo.thy ===== *)
theory ProcessDemo
  imports ExecuteLoads
begin

text \<open>
  A kernel with the three base shells running and a program on its disk, on which the properties
  of processes are applied.
\<close>

section \<open>A disk with one program\<close>

text \<open>The directory holds \<open>.\<close> and \<open>go\<close>, a 28-byte ELF file with entry point \<open>0x08048080\<close>. The
  command \<open>go ab\<close> and the locals of \<open>execute\<close> lie behind the image.\<close>

definition go_disk :: mem where
  "go_disk a = (case map_of
     [(0x400000, 2), (0x400004, 2), (0x400008, 1),
      (0x400040, 46), (0x400060, 1),
      (0x400080, 103), (0x400081, 111), (0x4000A0, 2), (0x4000A4, 1),
      (0x402000, 28), (0x403000, 0x7F), (0x403001, 0x45), (0x403002, 0x4C), (0x403003, 0x46),
      (0x403018, 0x80), (0x403019, 0x80), (0x40301A, 0x04), (0x40301B, 0x08),
      (0x500000, 103), (0x500001, 111), (0x500002, 32), (0x500003, 97), (0x500004, 98),
      (0x500010, 110), (0x500011, 111)] a
     of None \<Rightarrow> 0 | Some v \<Rightarrow> v)"

definition go_code :: "u8 list" where
  "go_code = [0x7F, 0x45, 0x4C, 0x46, 0, 0, 0, 0, 0, 0, 0, 0, 0, 0, 0, 0, 0, 0, 0, 0, 0, 0, 0, 0,
     0x80, 0x80, 0x04, 0x08]"

definition go_frame :: frame where
  "go_frame = \<lparr>fr_function = 0x500100, fr_dentry = 0x500200, fr_buf = 0x500300, fr_esp = 0x7FDF00, fr_ebp = 0x7FDF80\<rparr>"

lemmas go_defs = go_disk_def demo_bb_def num_directory_entries_def num_inodes_def
  num_data_blocks_def fs_size_def dentry_at_def filetype_def inode_num_def inode_at_def
  inode_length_def data_block_num_def data_start_def ld32_def

lemma go_header:
  "num_directory_entries go_disk demo_bb = 2" "num_inodes go_disk demo_bb = 2"
  "num_data_blocks go_disk demo_bb = 1" "fs_size go_disk demo_bb = 16384"
  "inode_length go_disk (inode_at demo_bb 1) = 28" "data_block_num go_disk (inode_at demo_bb 1) 0 = 0"
  by (simp_all add: go_defs)

lemma go_fs_ok: "fs_ok go_disk demo_bb"
  by (simp add: fs_ok_def go_header less_2_nat) (auto simp: go_defs)

lemma go_count: "entry_count go_disk demo_bb = 2"
  by (simp add: entry_count_def go_header)

lemma go_names: "entry_name go_disk demo_bb 0 = [46]" "entry_name go_disk demo_bb 1 = [103, 111]"
proof -
  have "cstring go_disk (dentry_at demo_bb 0) [46]" "cstring go_disk (dentry_at demo_bb 1) [103, 111]"
    by (simp_all add: cstring_def bytes_at_def dentry_at_def demo_bb_def go_disk_def upt_rec)
  from this [THEN cut_cstring, of 32] show
    "entry_name go_disk demo_bb 0 = [46]" "entry_name go_disk demo_bb 1 = [103, 111]"
    by (simp_all add: entry_name_def)
qed

lemma go_inode: "inode_num go_disk (dentry_at demo_bb 1) = 1" "inode_ok go_disk demo_bb 1"
proof -
  show "inode_num go_disk (dentry_at demo_bb 1) = 1" by (simp add: go_defs)
  have "4096 * j < 28 \<longleftrightarrow> j = 0" for j :: nat by auto
  then show "inode_ok go_disk demo_bb 1" by (simp add: inode_ok_def go_header)
qed

lemma go_contents: "file_contents go_disk demo_bb 1 = go_code"
proof -
  have "file_byte_at go_disk demo_bb 1 k = 0x403000 + of_nat k" if "k < 28" for k
    using that by (simp add: file_byte_at_def go_header data_start_def) (simp add: demo_bb_def)
  then have "file_contents go_disk demo_bb 1 = map (\<lambda>k. go_disk (0x403000 + of_nat k)) [0..<28]"
    by (simp add: file_contents_def file_bytes_def file_length_def go_header)
  also have "\<dots> = go_code"
    unfolding go_code_def by (simp add: upt_rec go_disk_def)
  finally show ?thesis .
qed

lemma go_named: "file_named go_disk demo_bb [103, 111] go_code"
proof -
  have "last_named go_disk demo_bb [103, 111] 1"
    using go_names by (auto simp: last_named_def go_count less_2_nat)
  then show ?thesis
    using go_fs_ok go_inode go_contents go_header(2) unfolding file_named_def
    by (intro conjI exI [of _ 1]) simp_all
qed

lemma go_program: "program go_code"
  by (simp add: program_def go_code_def)

section \<open>Three shells\<close>

definition shells :: kernel where
  "shells = ready_state\<lparr>lowmem := go_disk, boot_block := demo_bb, pcb_arr := [1, 1, 1, 0, 0, 0],
     pcbs := [new_pcb 0 0 (\<lambda>a. 0) empty_PCB, new_pcb 1 1 (\<lambda>a. 0) empty_PCB, new_pcb 2 2 (\<lambda>a. 0) empty_PCB,
       empty_PCB, empty_PCB, empty_PCB]\<rparr>"

lemma shells_vmem: "vmem shells = go_disk"
proof
  fix a
  have "in_user_page a \<Longrightarrow> go_disk a = 0"
    by (auto simp: go_disk_def in_user_page_def USR_MEM_VIRT_ADDR_def MB4_def)
  then show "vmem shells a = go_disk a" by (simp add: vmem_def shells_def)
qed

lemma shells_simps [simp]:
  "boot_block shells = demo_bb" "scheduled_term shells = 0" "currentTerminal shells = 1"
  "pcb_arr shells = [1, 1, 1, 0, 0, 0]" "curr_pid_for_term shells = [0, 1, 2]"
  "parent_pid_for_term shells = [0, 1, 2]" "current_pid shells = 0" "length (page_directory shells) = 1024"
  "length (args shells) = 128" "length (enter_flag shells) = 3" "length (terminal_switch_array shells) = 3"
  "curr_terminal_idx shells = 0"
  by (simp_all add: shells_def ready_state_def paging_init_def boot_state_def current_pid_def)

lemma shells_procs:
  "pcbs shells = [new_pcb 0 0 (\<lambda>a. 0) empty_PCB, new_pcb 1 1 (\<lambda>a. 0) empty_PCB,
     new_pcb 2 2 (\<lambda>a. 0) empty_PCB, empty_PCB, empty_PCB, empty_PCB]"
  by (simp add: shells_def)

lemma empty_fds_ok: "fds_ok empty_PCB"
  using boot_procs_ok by (simp add: procs_ok_def boot_state_def)

lemma less_6: "p < 6 \<longleftrightarrow> p = 0 \<or> p = 1 \<or> p = 2 \<or> p = 3 \<or> p = 4 \<or> p = (5 :: nat)"
  by auto

lemma shells_process_ok: "process_ok shells"
proof -
  have "procs_ok shells"
    using empty_fds_ok by (simp add: procs_ok_def shells_procs new_pcb_fds(1))
  moreover have "flags (fdArray (pcbs shells ! p) ! 0) = full \<and> flags (fdArray (pcbs shells ! p) ! 1) = full"
    if "p < 6" "pcb_arr shells ! p \<noteq> 0" for p
  proof -
    have "p = 0 \<or> p = 1 \<or> p = 2" using that by (simp add: less_6) (elim disjE; simp)
    then have "pcbs shells ! p = new_pcb p p (\<lambda>a. 0) empty_PCB"
      unfolding shells_procs by (elim disjE) simp_all
    then show ?thesis using new_pcb_fds(2,3) [OF empty_fds_ok] by simp
  qed
  ultimately show ?thesis unfolding process_ok_def by simp
qed

lemma shells_stacks: "stacks_ok [[0], [1], [2]] shells"
proof -
  have "parent_of shells p = p" if "p < 3" for p
    using that by (auto simp: parent_of_def shells_procs new_pcb_def init_pcb_def less_3)
  then have p: "parent_of shells 0 = 0" "parent_of shells 1 = 1" "parent_of shells 2 = 2" by simp_all
  have "q \<in> set (concat [[0], [1], [2]]) \<longleftrightarrow> q < 6 \<and> pcb_arr shells ! q \<noteq> 0" for q
  proof (cases "q < 6")
    case True
    then show ?thesis by (simp add: less_6) (elim disjE; simp)
  qed simp
  moreover have "chain (parent_of shells) ([[0], [1], [2]] ! t) \<and> last ([[0], [1], [2]] ! t) = t
      \<and> curr_pid_for_term shells ! t = hd ([[0], [1], [2]] ! t)
      \<and> parent_pid_for_term shells ! t = parent_of shells (hd ([[0], [1], [2]] ! t))" if "t < 3" for t
  proof -
    from that have "t = 0 \<or> t = 1 \<or> t = 2" by (simp add: less_3)
    then show ?thesis using p by (elim disjE) simp_all
  qed
  moreover have "length [[0], [1], [2 :: nat]] = 3" "distinct (concat [[0], [1], [2 :: nat]])"
    "length (pcb_arr shells) = 6" "length (parent_pid_for_term shells) = 3" by simp_all
  ultimately show ?thesis unfolding stacks_ok_def by blast
qed

lemma shells_call: "call_ok go_frame 0x500000 [103, 111, 32, 97, 98] shells"
proof -
  have s: "cstring go_disk 0x500000 [103, 111, 32, 97, 98]"
    by (simp add: cstring_def bytes_at_def upt_rec go_disk_def)
  have n: "\<not> within 0x500100 32 (0x500000 + of_nat k :: u32)" if "k \<le> 5" for k
  proof -
    have "apart 0x500100 32 0x500000 6" by (rule apartI) simp_all
    moreover have "within 0x500000 6 (0x500000 + of_nat k :: u32)" using that by (subst within_offset) simp_all
    ultimately show ?thesis unfolding apart_def by blast
  qed
  have a: "apart (fr_function go_frame) 32 demo_bb 16384" "apart (fr_dentry go_frame) 64 demo_bb 16384"
    "apart (fr_buf go_frame) 4 demo_bb 16384"
    by (rule apartI; simp add: demo_bb_def go_frame_def)+
  have u: "\<not> in_user_page a" if w: "within demo_bb 16384 a" for a
  proof -
    obtain k where k: "k < 16384" "a = demo_bb + of_nat k" by (rule withinE [OF w])
    then have "a = of_nat (0x400000 + k)" by (simp add: demo_bb_def)
    then have "unat a = 0x400000 + k" using k(1) unat_of_nat32 [of "0x400000 + k"] by simp
    then show ?thesis using k(1) by (simp add: in_user_page_iff)
  qed
  show ?thesis
    unfolding call_ok_def shells_vmem shells_simps(1) go_header(4)
  proof (intro conjI allI impI)
    show "cstring go_disk 0x500000 [103, 111, 32, 97, 98]" by (rule s)
    fix k assume "k \<le> length [103, 111, 32, 97, 98 :: u8]"
    then show "\<not> within (fr_function go_frame) 32 (0x500000 + of_nat k)"
      using n [of k] by (simp add: go_frame_def)
  next
    fix b assume "within demo_bb 16384 b"
    then show "\<not> in_user_page b" by (rule u)
  qed (use a in \<open>simp_all add: command_name_def separator_def\<close>)
qed

lemma shells_start:
  obtains s' where "execute go_frame 0x500000 shells = Some (s', Iret_user (word_at go_code 24) (USR_MEM_VIRT_ADDR + MB4 - 4))"
proof -
  have f: "first_index 0 (pcb_arr shells) = Some 3" by simp
  have n: "file_named (vmem shells) (boot_block shells) (command_name [103, 111, 32, 97, 98]) go_code"
    using go_named by (simp add: shells_vmem command_name_def separator_def)
  show ?thesis
    by (rule execute_loads [OF shells_process_ok _ _ shells_call n go_program f]) (use that in \<open>auto simp: iret_user_def\<close>)
qed

end
