(* ===== verification/Scheduling.thy ===== *)
theory Scheduling
  imports Process
begin

text \<open>
  The scheduler, \<open>student-distrib/scheduling.c\<close>: the set-up of the timer and its interrupt handler,
  which gives the processor to the terminals in turn and, in its first two calls, starts the
  shells of the second and third terminal. \<open>set_paging_scheduling\<close> is in theory \<open>Paging\<close>.

  The handler reads \<open>esp\<close> and \<open>ebp\<close> with inline assembly (\<open>s_esp\<close>, \<open>s_ebp\<close>); \<open>command\<close> is the
  address of the literal \<open>"shell"\<close>, and \<open>fr\<close> the frame of the call of \<open>execute\<close>.
\<close>

section \<open>The timer\<close>

definition PIT_FREQ :: nat where "PIT_FREQ = 1193180"
definition FREQ :: nat where "FREQ = 50"

definition pit_init :: "(kernel \<Rightarrow> u16 \<Rightarrow> u8) \<Rightarrow> kernel \<Rightarrow> kernel" where
  "pit_init inb s =
     (let divisor = of_nat (PIT_FREQ div FREQ) :: u32;
          s = outb 0x36 0x43 s;
          low_byte = ucast (divisor AND 0xFF);
          high_byte = ucast (drop_bit 8 divisor AND 0xFF);
          s = outb low_byte 0x40 s;
          s = outb high_byte 0x40 s
      in enable_irq (inb s) 0 s)"

section \<open>The handler\<close>

text \<open>The start of the shell of terminal \<open>i + 1\<close>. When \<open>execute\<close> returns, so does the handler.\<close>

definition open_terminal :: "nat \<Rightarrow> frame \<Rightarrow> u32 \<Rightarrow> kernel \<Rightarrow> (kernel \<times> outcome) option" where
  "open_terminal i fr command s = do {
     let s = s\<lparr>recentTermChoice := [recentTermChoice s ! 1, i + 1]\<rparr>;
     s \<leftarrow> terminal_changing_handler s;
     s \<leftarrow> clear s;
     inst \<leftarrow> aset (terminalInstantiated s) i 1;
     execute fr command (s\<lparr>terminalInstantiated := inst\<rparr>)
   }"

text \<open>The switch of the display back to the first terminal, once all three have started.\<close>

definition show_first :: "kernel \<Rightarrow> kernel option" where
  "show_first s =
     (if doneInstantiating s = 0 then do {
        s \<leftarrow> terminal_changing_handler (s\<lparr>recentTermChoice := [3, 1]\<rparr>);
        Some (s\<lparr>doneInstantiating := 1\<rparr>)
      } else Some s)"

definition switch_process :: "kernel \<Rightarrow> (kernel \<times> outcome) option" where
  "switch_process s = do {
     next_pid \<leftarrow> aget (curr_pid_for_term s) (scheduled_term s);
     let s = s\<lparr>pid := next_pid\<rparr>;
     next_pcb \<leftarrow> aget (pcbs s) next_pid;
     let s = set_tss next_pid (set_user_page next_pid s);
     Some (s, Resume (scheduledEsp next_pcb) (scheduledEbp next_pcb))
   }"

definition pit_handler :: "frame \<Rightarrow> u32 \<Rightarrow> u32 \<Rightarrow> u32 \<Rightarrow> kernel \<Rightarrow> (kernel \<times> outcome) option" where
  "pit_handler fr command s_esp s_ebp s = do {
     let s = cli (send_eoi 0 s);
     let oldTerm = scheduled_term s;
     let s = s\<lparr>scheduled_term := (scheduled_term s + 1) mod NUM_TERMS\<rparr>;
     old_pid \<leftarrow> aget (curr_pid_for_term s) oldTerm;
     leavingPCB \<leftarrow> aget (pcbs s) old_pid;
     let s = s\<lparr>pcbs := (pcbs s)[old_pid :=
               leavingPCB\<lparr>scheduledEbp := s_ebp, scheduledEsp := s_esp\<rparr>]\<rparr>;
     let s = set_paging_scheduling (currentTerminal s) s;
     inst1 \<leftarrow> aget (terminalInstantiated s) 1;
     inst2 \<leftarrow> aget (terminalInstantiated s) 2;
     if scheduled_term s = 1 \<and> inst1 = 0 then open_terminal 1 fr command s
     else if scheduled_term s = 2 \<and> inst2 = 0 then open_terminal 2 fr command s
     else do { s \<leftarrow> show_first s; switch_process s }
   }"

end
