(* ===== verification/Interrupts.thy ===== *)
theory Interrupts
  imports Process Scheduling
begin

text \<open>
  Interrupts and exceptions: the interrupt descriptor table of \<open>student-distrib/x86_desc.h\<close> and
  \<open>initialize_idt\<close>, the handlers of the processor's exceptions
  (\<open>student-distrib/exception_handlers.c\<close>), and the entry of the system calls
  (\<open>student-distrib/syscall_helper.S\<close>).

  A descriptor is the pair of its two 32-bit words, \<open>val[0]\<close> and \<open>val[1]\<close> of the union, and its bit fields are
  positions in them. Where the linker puts a handler is a parameter: \<open>addr\<close> gives the address of each.
\<close>

section \<open>Descriptors\<close>

type_synonym idt_desc = "u32 \<times> u32"

definition offset_15_00 :: bitfield where "offset_15_00 = (0, 16)"
definition seg_selector :: bitfield where "seg_selector = (16, 16)"
definition reserved4 :: bitfield where "reserved4 = (0, 8)"
definition reserved3 :: bitfield where "reserved3 = (8, 1)"
definition reserved2 :: bitfield where "reserved2 = (9, 1)"
definition reserved1 :: bitfield where "reserved1 = (10, 1)"
definition gate_size :: bitfield where "gate_size = (11, 1)"
definition reserved0 :: bitfield where "reserved0 = (12, 1)"
definition gate_dpl :: bitfield where "gate_dpl = (13, 2)"
definition gate_present :: bitfield where "gate_present = (15, 1)"
definition offset_31_16 :: bitfield where "offset_31_16 = (16, 16)"

lemmas gate_defs = offset_15_00_def seg_selector_def reserved4_def reserved3_def reserved2_def
  reserved1_def gate_size_def reserved0_def gate_dpl_def gate_present_def offset_31_16_def

definition set0 :: "bitfield \<Rightarrow> u32 \<Rightarrow> idt_desc \<Rightarrow> idt_desc" where
  "set0 f v d = (setf f v (fst d), snd d)"

definition set1 :: "bitfield \<Rightarrow> u32 \<Rightarrow> idt_desc \<Rightarrow> idt_desc" where
  "set1 f v d = (fst d, setf f v (snd d))"

definition SET_IDT_ENTRY :: "u32 \<Rightarrow> idt_desc \<Rightarrow> idt_desc" where
  "SET_IDT_ENTRY handler d =
     set0 offset_15_00 (handler AND 0xFFFF)
       (set1 offset_31_16 (drop_bit 16 (handler AND 0xFFFF0000)) d)"

section \<open>The table\<close>

datatype handler =
    Interrupt nat
  | Pit_translated
  | Keyboard_translated
  | Rtc_translated
  | Syscall_handler

abbreviation (input) NUM_VEC :: nat where "NUM_VEC \<equiv> 256"
abbreviation (input) KERNEL_CS :: u32 where "KERNEL_CS \<equiv> 0x10"

definition set_entries :: "(nat \<times> handler) list" where
  "set_entries = map (\<lambda>n. (n, Interrupt n)) ([0..<15] @ [16..<20])
     @ [(32, Pit_translated), (33, Keyboard_translated), (128, Syscall_handler), (40, Rtc_translated)]"

definition trap_gate :: "idt_desc \<Rightarrow> idt_desc" where
  "trap_gate d =
     (let d = set0 seg_selector KERNEL_CS d;
          d = set1 reserved4 0 d;
          d = set1 reserved3 1 d;
          d = set1 reserved2 1 d;
          d = set1 reserved1 1 d;
          d = set1 reserved0 0 d;
          d = set1 gate_size 1 d;
          d = set1 gate_dpl 0 d
      in set1 gate_present 1 d)"

definition interrupt_gate :: "nat \<Rightarrow> idt_desc \<Rightarrow> idt_desc" where
  "interrupt_gate i d =
     (let d = set0 seg_selector KERNEL_CS d;
          d = set1 reserved4 0 d;
          d = set1 reserved3 0 d;
          d = set1 reserved2 1 d;
          d = set1 reserved1 1 d;
          d = set1 reserved0 0 d;
          d = set1 gate_size 1 d;
          d = set1 gate_dpl 0 d;
          d = set1 gate_present 0 d;
          d = (if i = 128 then set1 gate_present 1 (set1 gate_dpl 3 d) else d);
          d = (if i = 32 then set1 gate_present 1 (set1 gate_dpl 0 d) else d);
          d = (if i = 33 then set1 gate_present 1 (set1 gate_dpl 0 d) else d)
      in if i = 40 then set1 gate_present 1 (set1 gate_dpl 0 d) else d)"

definition initialize_idt :: "(handler \<Rightarrow> u32) \<Rightarrow> idt_desc list \<Rightarrow> idt_desc list" where
  "initialize_idt addr idt =
     (let idt = fold (\<lambda>(n, h) t. t[n := SET_IDT_ENTRY (addr h) (t ! n)]) set_entries idt;
          idt = fold (\<lambda>i t. if i \<noteq> 15 then t[i := trap_gate (t ! i)] else t) [0..<20] idt
      in fold (\<lambda>i t. t[i := interrupt_gate i (t ! i)]) [32..<NUM_VEC] idt)"

text \<open>The table as \<open>x86_desc.S\<close> declares it: all zero.\<close>

definition boot_idt :: "idt_desc list" where
  "boot_idt = replicate NUM_VEC (0, 0)"

section \<open>Exceptions\<close>

definition HALTCODE :: u8 where "HALTCODE = 255"

text \<open>All nineteen handlers print a message and halt the program.\<close>

definition exception :: "string \<Rightarrow> kernel \<Rightarrow> (kernel \<times> outcome) option" where
  "exception msg s = do { (s, n) \<leftarrow> printf msg [] 0 s; halt HALTCODE s }"

definition interrupt_0_handler where "interrupt_0_handler = exception ''Divide Error Exception''"
definition interrupt_1_handler where "interrupt_1_handler = exception ''Debug Exception''"
definition interrupt_2_handler where "interrupt_2_handler = exception ''NMI Interrupt''"
definition interrupt_3_handler where "interrupt_3_handler = exception ''Breakpoint Exception''"
definition interrupt_4_handler where "interrupt_4_handler = exception ''Overflow Exception''"
definition interrupt_5_handler where "interrupt_5_handler = exception ''BOUND Range Exceeded Exception''"
definition interrupt_6_handler where "interrupt_6_handler = exception ''Invalid Opcode Exception''"
definition interrupt_7_handler where "interrupt_7_handler = exception ''Device Not Available Exception''"
definition interrupt_8_handler where "interrupt_8_handler = exception ''Double Fault Exception''"
definition interrupt_9_handler where "interrupt_9_handler = exception ''Coprocessor Segment Overrun''"
definition interrupt_10_handler where "interrupt_10_handler = exception ''Invalid TSS Exception''"
definition interrupt_11_handler where "interrupt_11_handler = exception ''Segment Not Present''"
definition interrupt_12_handler where "interrupt_12_handler = exception ''Stack Fault Exception''"
definition interrupt_13_handler where "interrupt_13_handler = exception ''General Protection Exception''"
definition interrupt_14_handler where "interrupt_14_handler = exception (''Page-Fault Exception'' @ [CHR 0x0A])"
definition interrupt_16_handler where "interrupt_16_handler = exception ''x87 FPU Floating-Point Error''"
definition interrupt_17_handler where "interrupt_17_handler = exception ''Alignment Check Exception''"
definition interrupt_18_handler where "interrupt_18_handler = exception ''Machine Check''"
definition interrupt_19_handler where "interrupt_19_handler = exception ''SIMD Floating-Point Exception''"

text \<open>The handlers by vector.\<close>

definition exception_handlers :: "(nat \<times> (kernel \<Rightarrow> (kernel \<times> outcome) option)) list" where
  "exception_handlers =
     [(0, interrupt_0_handler), (1, interrupt_1_handler), (2, interrupt_2_handler),
      (3, interrupt_3_handler), (4, interrupt_4_handler), (5, interrupt_5_handler),
      (6, interrupt_6_handler), (7, interrupt_7_handler), (8, interrupt_8_handler),
      (9, interrupt_9_handler), (10, interrupt_10_handler), (11, interrupt_11_handler),
      (12, interrupt_12_handler), (13, interrupt_13_handler), (14, interrupt_14_handler),
      (16, interrupt_16_handler), (17, interrupt_17_handler), (18, interrupt_18_handler),
      (19, interrupt_19_handler)]"

section \<open>System calls\<close>

text \<open>The entry of \<open>int 0x80\<close>: a signed check of the call number, then the jump table. \<open>dentry\<close> and
  \<open>fr\<close> are the locals of \<open>open\<close> and \<open>execute\<close>, \<open>vpt\<close> the address of the page table of \<open>vidmap\<close>.\<close>

definition returns :: "(kernel \<times> i32) option \<Rightarrow> (kernel \<times> outcome) option" where
  "returns r = map_option (\<lambda>(s, v). (s, Return v)) r"

definition syscall_handler :: "frame \<Rightarrow> u32 \<Rightarrow> u32 \<Rightarrow> (kernel \<Rightarrow> kernel option) list
    \<Rightarrow> u32 \<Rightarrow> u32 \<Rightarrow> u32 \<Rightarrow> u32 \<Rightarrow> kernel \<Rightarrow> (kernel \<times> outcome) option" where
  "syscall_handler fr dentry vpt irqs eax ebx ecx edx s =
     (if sint eax \<le> 0 \<or> sint eax > 10 then Some (s, Return (-1))
      else if eax = 1 then halt (ucast ebx) s
      else if eax = 2 then execute fr ebx s
      else if eax = 3 then returns (sys_read ebx ecx edx irqs s)
      else if eax = 4 then returns (sys_write ebx ecx edx s)
      else if eax = 5 then returns (sys_open ebx dentry s)
      else if eax = 6 then returns (sys_close ebx s)
      else if eax = 7 then returns (sys_getargs ebx ecx s)
      else if eax = 8 then returns (Some (sys_vidmap vpt ebx s))
      else if eax = 9 then Some (s, Return (sys_set_handler ebx ecx))
      else Some (s, Return sys_sigreturn))"

end
