(* ===== verification/Entry.thy ===== *)
theory Entry
  imports Interrupts I8259
begin

text \<open>
  The C entry point of the kernel, \<open>entry\<close> of \<open>student-distrib/kernel.c\<close>, from the construction of the
  segment descriptors on: the descriptors of the local descriptor table and of the task state, and
  the initialisation of the components in the order of the code, up to the first \<open>execute\<close>. Before it,
  \<open>entry\<close> prints what the boot loader passed on, with paging still off; that part is not
  modelled, and its one effect on the rest, \<open>file_system_start\<close>, is an argument.

  \<open>inb s p\<close> is what port \<open>p\<close> reads in state \<open>s\<close>; \<open>pt\<close> and \<open>vpt\<close> are the addresses of the two page tables,
  \<open>command\<close> that of the literal \<open>"shell"\<close>.
\<close>

section \<open>Segment descriptors\<close>

type_synonym seg_desc = "u32 \<times> u32"

definition seg_lim_15_00 :: bitfield where "seg_lim_15_00 = (0, 16)"
definition base_15_00 :: bitfield where "base_15_00 = (16, 16)"
definition base_23_16 :: bitfield where "base_23_16 = (0, 8)"
definition seg_type :: bitfield where "seg_type = (8, 4)"
definition seg_sys :: bitfield where "seg_sys = (12, 1)"
definition seg_dpl :: bitfield where "seg_dpl = (13, 2)"
definition seg_present :: bitfield where "seg_present = (15, 1)"
definition seg_lim_19_16 :: bitfield where "seg_lim_19_16 = (16, 4)"
definition seg_avail :: bitfield where "seg_avail = (20, 1)"
definition seg_reserved :: bitfield where "seg_reserved = (21, 1)"
definition seg_opsize :: bitfield where "seg_opsize = (22, 1)"
definition seg_granularity :: bitfield where "seg_granularity = (23, 1)"
definition base_31_24 :: bitfield where "base_31_24 = (24, 8)"

lemmas segment_defs = seg_lim_15_00_def base_15_00_def base_23_16_def seg_type_def seg_sys_def seg_dpl_def
  seg_present_def seg_lim_19_16_def seg_avail_def seg_reserved_def seg_opsize_def seg_granularity_def
  base_31_24_def

definition SET_LDT_PARAMS :: "u32 \<Rightarrow> u32 \<Rightarrow> seg_desc \<Rightarrow> seg_desc" where
  "SET_LDT_PARAMS addr lim d =
     (let d = set1 base_31_24 (drop_bit 24 (addr AND 0xFF000000)) d;
          d = set1 base_23_16 (drop_bit 16 (addr AND 0x00FF0000)) d;
          d = set0 base_15_00 (addr AND 0x0000FFFF) d;
          d = set1 seg_lim_19_16 (drop_bit 16 (lim AND 0x000F0000)) d
      in set0 seg_lim_15_00 (lim AND 0x0000FFFF) d)"

definition SET_TSS_PARAMS :: "u32 \<Rightarrow> u32 \<Rightarrow> seg_desc \<Rightarrow> seg_desc" where
  "SET_TSS_PARAMS addr lim d =
     (let d = set1 base_31_24 (drop_bit 24 (addr AND 0xFF000000)) d;
          d = set1 base_23_16 (drop_bit 16 (addr AND 0x00FF0000)) d;
          d = set0 base_15_00 (addr AND 0x0000FFFF) d;
          d = set1 seg_lim_19_16 (drop_bit 16 (lim AND 0x000F0000)) d
      in set0 seg_lim_15_00 (lim AND 0x0000FFFF) d)"

text \<open>The two descriptors \<open>entry\<close> builds; \<open>d\<close> is the local variable before its first assignment.\<close>

abbreviation (input) TSS_SIZE :: u32 where "TSS_SIZE \<equiv> 104"

definition the_ldt_desc :: "u32 \<Rightarrow> u32 \<Rightarrow> seg_desc \<Rightarrow> seg_desc" where
  "the_ldt_desc ldt ldt_size d =
     (let d = set1 seg_granularity 0 d;
          d = set1 seg_opsize 1 d;
          d = set1 seg_reserved 0 d;
          d = set1 seg_avail 0 d;
          d = set1 seg_present 1 d;
          d = set1 seg_dpl 0 d;
          d = set1 seg_sys 0 d;
          d = set1 seg_type 2 d
      in SET_LDT_PARAMS ldt ldt_size d)"

definition the_tss_desc :: "u32 \<Rightarrow> u32 \<Rightarrow> seg_desc \<Rightarrow> seg_desc" where
  "the_tss_desc tss tss_size d =
     (let d = set1 seg_granularity 0 d;
          d = set1 seg_opsize 0 d;
          d = set1 seg_reserved 0 d;
          d = set1 seg_avail 0 d;
          d = set1 seg_lim_19_16 (TSS_SIZE AND 0x000F0000) d;
          d = set1 seg_present 1 d;
          d = set1 seg_dpl 0 d;
          d = set1 seg_sys 0 d;
          d = set1 seg_type 9 d;
          d = set0 seg_lim_15_00 (TSS_SIZE AND 0x0000FFFF) d
      in SET_TSS_PARAMS tss tss_size d)"

section \<open>Starting the components\<close>

definition init_file_systems :: "u32 \<Rightarrow> kernel \<Rightarrow> kernel" where
  "init_file_systems file_system_start s = s\<lparr>boot_block := file_system_start\<rparr>"

definition set_boot_tss :: "kernel \<Rightarrow> kernel" where
  "set_boot_tss s = s\<lparr>tss_ss0 := KERNEL_DS, tss_esp0 := 0x800000\<rparr>"

definition init_components :: "(kernel \<Rightarrow> u16 \<Rightarrow> u8) \<Rightarrow> u32 \<Rightarrow> u32 \<Rightarrow> u32 \<Rightarrow> kernel \<Rightarrow> kernel option" where
  "init_components inb file_system_start pt vpt s = do {
     let s = init_file_systems file_system_start s;
     let s = i8259_init inb s;
     let s = keyboard_init inb s;
     let s = rtc_init inb s;
     let s = paging_init pt vpt s;
     s \<leftarrow> clear s;
     let s = cli s;
     Some (pit_init inb s)
   }"

definition entry :: "(kernel \<Rightarrow> u16 \<Rightarrow> u8) \<Rightarrow> u32 \<Rightarrow> u32 \<Rightarrow> u32 \<Rightarrow> frame \<Rightarrow> u32 \<Rightarrow> kernel
    \<Rightarrow> (kernel \<times> outcome) option" where
  "entry inb file_system_start pt vpt fr command s = do {
     s \<leftarrow> init_components inb file_system_start pt vpt (set_boot_tss s);
     inst \<leftarrow> aset (terminalInstantiated s) 0 1;
     execute fr command (s\<lparr>terminalInstantiated := inst\<rparr>)
   }"

end
