(* ===== verification/Ticks.thy ===== *)
theory Ticks
  imports Runs Scheduling
begin

text \<open>
  The timer interrupt: what the handler does to the processes, and that it keeps the invariant of
  all runs.
\<close>

section \<open>Changes the invariant does not see\<close>

lemma kernel_ok_proc_shape: "proc_shape s' = proc_shape s \<Longrightarrow> kernel_ok s \<Longrightarrow> kernel_ok s'"
proof -
  assume a: "proc_shape s' = proc_shape s" and k: "kernel_ok s"
  have ok: "procs_ok s" using k by (simp add: kernel_ok_def process_ok_def)
  show ?thesis by (rule kernel_ok_same [OF k proc_shape_tree [OF a ok] proc_shape_ok [OF a ok]])
qed

lemma stacks_ok_upd [simp]:
  "stacks_ok cs (s\<lparr>scheduled_term := t\<rparr>) = stacks_ok cs s" "stacks_ok cs (s\<lparr>pid := p\<rparr>) = stacks_ok cs s"
  "stacks_ok cs (s\<lparr>terminalInstantiated := i\<rparr>) = stacks_ok cs s"
  "stacks_ok cs (s\<lparr>doneInstantiating := d\<rparr>) = stacks_ok cs s"
  "stacks_ok cs (set_user_page q s) = stacks_ok cs s" "stacks_ok cs (set_tss q s) = stacks_ok cs s"
  by (simp_all add: stacks_ok_def parent_of_def [abs_def])

lemma process_ok_upd [simp]:
  "t < 3 \<Longrightarrow> process_ok s \<Longrightarrow> process_ok (s\<lparr>scheduled_term := t\<rparr>)"
  "process_ok (s\<lparr>pid := p\<rparr>) = process_ok s"
  "process_ok (s\<lparr>terminalInstantiated := i\<rparr>) = process_ok s"
  "process_ok (s\<lparr>doneInstantiating := d\<rparr>) = process_ok s"
  "process_ok (set_user_page q s) = process_ok s" "process_ok (set_tss q s) = process_ok s"
  by (simp_all add: process_ok_def procs_ok_def) (simp_all add: set_user_page_def set_tss_def)

text \<open>The registers saved in a block are invisible to the process stacks.\<close>

definition saved_regs :: "nat \<Rightarrow> u32 \<Rightarrow> u32 \<Rightarrow> kernel \<Rightarrow> kernel" where
  "saved_regs p e b s = s\<lparr>pcbs := (pcbs s)[p := (pcbs s ! p)\<lparr>scheduledEbp := b, scheduledEsp := e\<rparr>]\<rparr>"

lemma fds_ok_saved [simp]: "fds_ok (pcb\<lparr>scheduledEbp := b, scheduledEsp := e\<rparr>) = fds_ok pcb"
  by (simp add: fds_ok_def)

lemma saved_regs_pcb:
  assumes "length (pcbs s) = 6" "p < 6" "q < 6"
  shows "pcbs (saved_regs p e b s) ! q
    = (if q = p then (pcbs s ! p)\<lparr>scheduledEbp := b, scheduledEsp := e\<rparr> else pcbs s ! q)"
  using assms by (simp add: saved_regs_def nth_list_update)

lemma saved_regs_parent:
  assumes "process_ok s" "p < 6"
  shows "parent_of (saved_regs p e b s) = parent_of s"
proof
  fix q
  have "length (pcbs s) = 6" using assms(1) by (simp add: process_ok_def procs_ok_def)
  then show "parent_of (saved_regs p e b s) q = parent_of s q"
    using assms(2) by (cases "q = p") (simp_all add: parent_of_def saved_regs_def)
qed

lemma saved_regs_stacks:
  "process_ok s \<Longrightarrow> p < 6 \<Longrightarrow> stacks_ok cs (saved_regs p e b s) = stacks_ok cs s"
  by (simp add: stacks_ok_def saved_regs_parent) (simp add: saved_regs_def)

lemma saved_regs_process:
  assumes "process_ok s" "p < 6"
  shows "process_ok (saved_regs p e b s)"
proof -
  have l: "length (pcbs s) = 6" "fds_ok (pcbs s ! p)" using assms by (simp_all add: process_ok_def procs_ok_def)
  have "fds_ok x" if "x \<in> set (pcbs (saved_regs p e b s))" for x
    using that l assms(1) set_update_subset_insert [of "pcbs s" p "(pcbs s ! p)\<lparr>scheduledEbp := b, scheduledEsp := e\<rparr>"]
    by (auto simp: saved_regs_def process_ok_def procs_ok_def)
  then show ?thesis
    using assms l(1) unfolding process_ok_def procs_ok_def by (simp add: saved_regs_def nth_list_update)
qed

section \<open>The handler step by step\<close>

text \<open>The state once the registers of the interrupted process are saved and the video pages
  belong to the next terminal.\<close>

definition next_term :: "kernel \<Rightarrow> nat" where
  "next_term s = (scheduled_term s + 1) mod 3"

definition preempted :: "u32 \<Rightarrow> u32 \<Rightarrow> kernel \<Rightarrow> kernel" where
  "preempted e b s = set_paging_scheduling (currentTerminal s)
     (saved_regs (current_pid s) e b ((cli (send_eoi 0 s))\<lparr>scheduled_term := next_term s\<rparr>))"

lemma send_eoi_fields [simp]:
  "pcbs (send_eoi n s) = pcbs s" "currentTerminal (send_eoi n s) = currentTerminal s"
  "scheduled_term (send_eoi n s) = scheduled_term s" "curr_pid_for_term (send_eoi n s) = curr_pid_for_term s"
  "terminalInstantiated (send_eoi n s) = terminalInstantiated s"
  by (simp_all add: send_eoi_def outb_def)

lemma set_paging_scheduling_keeps [simp]:
  "terminalInstantiated (set_paging_scheduling n s) = terminalInstantiated s"
  "doneInstantiating (set_paging_scheduling n s) = doneInstantiating s"
  "boot_block (set_paging_scheduling n s) = boot_block s" "pcbs (set_paging_scheduling n s) = pcbs s"
  "curr_pid_for_term (set_paging_scheduling n s) = curr_pid_for_term s"
  "scheduled_term (set_paging_scheduling n s) = scheduled_term s"
  "currentTerminal (set_paging_scheduling n s) = currentTerminal s"
  "page_directory (set_paging_scheduling n s) = page_directory s"
  "recentTermChoice (set_paging_scheduling n s) = recentTermChoice s"
  "terminal_switch_array (set_paging_scheduling n s) = terminal_switch_array s"
  "lowmem (set_paging_scheduling n s) = lowmem s" "frames (set_paging_scheduling n s) = frames s"
  "termScreenx (set_paging_scheduling n s) = termScreenx s"
  "termScreeny (set_paging_scheduling n s) = termScreeny s"
  "termReadFlag (set_paging_scheduling n s) = termReadFlag s"
  by (simp_all add: set_paging_scheduling_def set_video_page_def set_vidmap_page_def)

lemma preempted_fields [simp]:
  "terminalInstantiated (preempted e b s) = terminalInstantiated s"
  "doneInstantiating (preempted e b s) = doneInstantiating s" "boot_block (preempted e b s) = boot_block s"
  "curr_pid_for_term (preempted e b s) = curr_pid_for_term s" "scheduled_term (preempted e b s) = next_term s"
  "currentTerminal (preempted e b s) = currentTerminal s" "page_directory (preempted e b s) = page_directory s"
  "pcbs (preempted e b s) = (pcbs s)[current_pid s :=
     (pcbs s ! current_pid s)\<lparr>scheduledEbp := b, scheduledEsp := e\<rparr>]"
  by (simp_all add: preempted_def saved_regs_def cli_def send_eoi_def outb_def)

lemma pit_handler_eq:
  assumes "process_ok s" "2 < length (terminalInstantiated s)"
  shows "pit_handler fr command e b s =
    (if next_term s = 1 \<and> terminalInstantiated s ! 1 = 0 then open_terminal 1 fr command (preempted e b s)
     else if next_term s = 2 \<and> terminalInstantiated s ! 2 = 0 then open_terminal 2 fr command (preempted e b s)
     else show_first (preempted e b s) \<bind> switch_process)"
proof -
  have c: "scheduled_term s < 3" "length (curr_pid_for_term s) = 3" "length (pcbs s) = 6" "current_pid s < 6"
    using assms(1) the_pcb_ok(2) [of s] by (simp_all add: process_ok_def procs_ok_def)
  define t where "t = (cli (send_eoi 0 s))\<lparr>scheduled_term := next_term s\<rparr>"
  have t: "pcbs t = pcbs s" "currentTerminal t = currentTerminal s" by (simp_all add: t_def cli_def)
  have "pit_handler fr command e b s = do {
     inst1 \<leftarrow> aget (terminalInstantiated (preempted e b s)) 1;
     inst2 \<leftarrow> aget (terminalInstantiated (preempted e b s)) 2;
     if scheduled_term (preempted e b s) = 1 \<and> inst1 = 0 then open_terminal 1 fr command (preempted e b s)
     else if scheduled_term (preempted e b s) = 2 \<and> inst2 = 0 then open_terminal 2 fr command (preempted e b s)
     else do { s \<leftarrow> show_first (preempted e b s); switch_process s } }"
    using c by (simp add: pit_handler_def preempted_def saved_regs_def next_term_def Let_def aget_def current_pid_def
        cli_def cong del: if_weak_cong)
  then show ?thesis using assms(2) by (simp add: aget_def)
qed

lemma preempted_process:
  assumes "process_ok s"
  shows "process_ok (preempted e b s)" "parent_of (preempted e b s) = parent_of s"
    "stacks_ok cs (preempted e b s) = stacks_ok cs s"
proof -
  let ?u = "cli (send_eoi 0 s)" let ?t = "?u\<lparr>scheduled_term := next_term s\<rparr>"
  have p: "current_pid s < 6" using assms the_pcb_ok(2) [of s] by (simp add: process_ok_def)
  have n: "next_term s < 3" by (simp add: next_term_def)
  have par: "parent_of (send_eoi n s) = parent_of s" "parent_of (cli (send_eoi n s)) = parent_of s" for n
    by (simp_all add: parent_of_def [abs_def] cli_def)
  have eoi: "stacks_ok cs (send_eoi n s) = stacks_ok cs s" "process_ok (send_eoi n s) = process_ok s" for n
    by (simp_all add: stacks_ok_def process_ok_def procs_ok_def parent_of_def [abs_def] send_eoi_def outb_def)
  have u: "process_ok ?t" "parent_of ?t = parent_of s" "stacks_ok cs ?t = stacks_ok cs s"
    using assms n eoi par by (simp_all add: parent_of_def [abs_def])
  have w: "stacks_ok cs (set_paging_scheduling n x) = stacks_ok cs x"
    "process_ok (set_paging_scheduling n x) = process_ok x"
    "parent_of (set_paging_scheduling n x) = parent_of x" for n x
    by (simp_all add: stacks_ok_def process_ok_def procs_ok_def parent_of_def [abs_def] set_paging_scheduling_def
        set_video_page_def set_vidmap_page_def)
  show "process_ok (preempted e b s)" "parent_of (preempted e b s) = parent_of s"
    "stacks_ok cs (preempted e b s) = stacks_ok cs s"
    unfolding preempted_def w
    using saved_regs_process [OF u(1) p] saved_regs_parent [OF u(1) p] saved_regs_stacks [OF u(1) p] u(2,3) by simp_all
qed

lemma preempted_ok:
  assumes "stacks_ok cs s" "process_ok s"
  shows "stacks_ok cs (preempted e b s)" "process_ok (preempted e b s)"
  using preempted_process [OF assms(2)] assms(1) by simp_all

section \<open>A tick keeps the invariant\<close>

lemma dev_shape_boot: "dev_shape s' = dev_shape s \<Longrightarrow> boot_block s' = boot_block s"
  by (simp add: dev_shape_def proc_shape_def proc_sizes_def)

lemma kernel_ok_dev_shape: "dev_shape s' = dev_shape s \<Longrightarrow> kernel_ok s \<Longrightarrow> kernel_ok s'"
  using dev_shape_eqD kernel_ok_proc_shape by blast

lemma kernel_ok_upd [simp]:
  "kernel_ok (s\<lparr>terminalInstantiated := i\<rparr>) = kernel_ok s" "kernel_ok (s\<lparr>doneInstantiating := d\<rparr>) = kernel_ok s"
  "kernel_ok (s\<lparr>pid := p\<rparr>) = kernel_ok s" "kernel_ok (set_user_page q s) = kernel_ok s"
  "kernel_ok (set_tss q s) = kernel_ok s"
  by (simp_all add: kernel_ok_def)

lemma kernel_ok_procs: "kernel_ok s \<Longrightarrow> procs_ok s"
  by (simp add: kernel_ok_def process_ok_def)

text \<open>Switching the display in the handler.\<close>

lemma switch_display_shape:
  assumes "terminal_changing_handler (s\<lparr>recentTermChoice := [v, n]\<rparr>) = Some s'" "procs_ok s" "1 \<le> n" "n \<le> 3"
  shows "dev_shape s' = dev_shape s"
proof -
  have "procs_ok (s\<lparr>recentTermChoice := [v, n]\<rparr>)" by (rule dev_shape_ok [OF _ assms(2)]) simp
  from terminal_changing_handler_shape [OF assms(1) this] show ?thesis using assms(3,4) by simp
qed

lemma terminal_changing_handler_display:
  assumes "terminal_changing_handler s = Some s'"
  shows "currentTerminal s' = curr_term s" "lowmem s' = lowmem s"
proof -
  have k: "currentTerminal (keyboard_switch u v t) = currentTerminal t" "lowmem (keyboard_switch u v t) = lowmem t" for u v t
    by (simp_all add: keyboard_switch_def Let_def)
  have c: "currentTerminal (terminal_changing t) = curr_term t" "lowmem (terminal_changing t) = lowmem t" for t
    by (simp_all add: terminal_changing_def Let_def set_video_page_def copy_page_def)
  have u: "currentTerminal v = currentTerminal t \<and> lowmem v = lowmem t" if "update_cursor t = Some v" for t v
    using con_eq_fields(4,1) [OF update_cursor.frame [OF that]] by simp_all
  show "currentTerminal s' = curr_term s" "lowmem s' = lowmem s"
    using assms by (auto simp: terminal_changing_handler_def Let_def c k split: Option.bind_splits dest!: u)
qed

lemma open_terminal_steps:
  assumes "open_terminal i fr command s = Some (s', out)" "procs_ok s" "i < 3"
  obtains t where "dev_shape t = dev_shape s" "currentTerminal t = i + 1" "lowmem t = lowmem s"
    "execute fr command (t\<lparr>terminalInstantiated := (terminalInstantiated s)[i := 1]\<rparr>) = Some (s', out)"
proof -
  let ?s = "s\<lparr>recentTermChoice := [recentTermChoice s ! 1, i + 1]\<rparr>"
  obtain t u inst where t: "terminal_changing_handler ?s = Some t" "clear t = Some u"
    "aset (terminalInstantiated u) i 1 = Some inst" "execute fr command (u\<lparr>terminalInstantiated := inst\<rparr>) = Some (s', out)"
    using assms(1) by (auto simp: open_terminal_def split: Option.bind_splits)
  have "dev_shape t = dev_shape s" using switch_display_shape [OF t(1) assms(2)] assms(3) by simp
  then have p: "dev_shape u = dev_shape s" using con_eq_dev_shape [OF clear.frame [OF t(2)]] by simp
  moreover have "currentTerminal u = i + 1" "lowmem u = lowmem s"
    using terminal_changing_handler_display [OF t(1)] con_eq_fields(4,1) [OF clear.frame [OF t(2)]] by simp_all
  moreover have "inst = (terminalInstantiated s)[i := 1]"
    using t(3) p by (auto simp: aset_def dev_shape_def proc_shape_def proc_sizes_def split: if_splits)
  ultimately show ?thesis using that t(4) by blast
qed

lemma open_terminal_ok:
  assumes "open_terminal i fr command s = Some (s', out)" "kernel_ok s" "i < 3" "locals_ok fr s"
  shows "kernel_ok s'"
proof -
  obtain t where t: "dev_shape t = dev_shape s"
    "execute fr command (t\<lparr>terminalInstantiated := (terminalInstantiated s)[i := 1]\<rparr>) = Some (s', out)"
    by (rule open_terminal_steps [OF assms(1) kernel_ok_procs [OF assms(2)] assms(3)])
  have "locals_ok fr (t\<lparr>terminalInstantiated := (terminalInstantiated s)[i := 1]\<rparr>)"
    using assms(4) dev_shape_boot [OF t(1)] by (simp add: locals_ok_def)
  then show ?thesis using execute_keeps_ok [OF _ t(2)] kernel_ok_dev_shape [OF t(1) assms(2)] by simp
qed

lemma show_first_shape:
  assumes "show_first s = Some s'" "procs_ok s"
  obtains t where "dev_shape t = dev_shape s" "s' = t\<lparr>doneInstantiating := doneInstantiating s'\<rparr>"
proof (cases "doneInstantiating s = 0")
  case True
  then obtain t where t: "terminal_changing_handler (s\<lparr>recentTermChoice := [3, 1]\<rparr>) = Some t"
    "s' = t\<lparr>doneInstantiating := 1\<rparr>"
    using assms(1) by (auto simp: show_first_def split: Option.bind_splits)
  show ?thesis by (rule that [OF switch_display_shape [OF t(1) assms(2)]]) (simp_all add: t(2))
next
  case False
  then show ?thesis using that [of s] assms(1) by (simp add: show_first_def)
qed

lemma tick_keeps_ok:
  assumes "pit_handler fr command e b s = Some (s', out)" "kernel_ok s" "locals_ok fr s"
  shows "kernel_ok s'"
proof -
  let ?p = "preempted e b s"
  have ok: "process_ok s" "kernel_ok ?p"
    using assms(2) preempted_ok [of _ s e b] unfolding kernel_ok_def by blast+
  then have loc: "locals_ok fr ?p" using assms(3) by (simp add: locals_ok_def)
  have "\<exists>x. aget (terminalInstantiated s) 2 = Some x"
    using assms(1) by (auto simp: pit_handler_def Let_def cli_def split: Option.bind_splits)
  then have "2 < length (terminalInstantiated s)" by (auto simp: aget_def split: if_splits)
  note eq = pit_handler_eq [OF ok(1) this, of fr command e b]
  consider i where "i = 1 \<or> i = 2" "open_terminal i fr command ?p = Some (s', out)"
    | t where "show_first ?p = Some t" "switch_process t = Some (s', out)"
    using assms(1) unfolding eq by (auto simp del: One_nat_def split: if_splits Option.bind_splits)
  then show ?thesis
  proof cases
    case 1
    then have "i < 3" by auto
    from open_terminal_ok [OF 1(2) ok(2) this loc] show ?thesis .
  next
    case 2
    obtain u where u: "dev_shape u = dev_shape ?p" "t = u\<lparr>doneInstantiating := doneInstantiating t\<rparr>"
      by (rule show_first_shape [OF 2(1) kernel_ok_procs [OF ok(2)]])
    have "kernel_ok t" using kernel_ok_dev_shape [OF u(1) ok(2)] kernel_ok_upd(2) u(2) by metis
    then show ?thesis using 2(2) by (auto simp: switch_process_def Let_def split: Option.bind_splits)
  qed
qed

end
