(* ===== verification/KernelRuns.thy ===== *)
theory KernelRuns
  imports Ticks
begin

text \<open>
  Runs of the whole kernel: the system calls of all processes and the interrupts of the timer,
  the keyboard and the real-time clock, in any order.
\<close>

section \<open>Runs of the kernel\<close>

text \<open>What happens to the kernel, in any order: a process stores or makes a system call, the timer
  interrupts it, a key is pressed, the real-time clock ticks.\<close>

inductive kernel_step :: "kernel \<Rightarrow> kernel \<Rightarrow> bool" where
  user: "user_step s s' \<Longrightarrow> kernel_step s s'"
| execute: "execute fr command s = Some (s', out) \<Longrightarrow> locals_ok fr s \<Longrightarrow> kernel_step s s'"
| halt: "halt status s = Some (s', out) \<Longrightarrow> kernel_step s s'"
| tick: "pit_handler fr command e b s = Some (s', out) \<Longrightarrow> locals_ok fr s \<Longrightarrow> kernel_step s s'"
| key: "keyboard_handler k s = Some s' \<Longrightarrow> kernel_step s s'"
| clock: "rtc_handler s = Some s' \<Longrightarrow> kernel_step s s'"

lemma kernel_step_ok: "kernel_step s s' \<Longrightarrow> kernel_ok s \<Longrightarrow> kernel_ok s'"
  by (induction rule: kernel_step.induct)
    (blast intro: user_step_keeps_ok execute_keeps_ok halt_keeps_ok tick_keeps_ok kernel_ok_procs
      kernel_ok_proc_shape keyboard.proc rtc.proc)+

text \<open>C2: in every run of the kernel, from three running base shells on, the running processes of
  the three terminals are different processes, all of them are in use, and so are their
  memories: whatever programs are started and ended, whatever keys are pressed, and however the timer
  interrupts them, no two terminals ever run in the same 4 MB frame.\<close>

theorem processes_apart:
  assumes "kernel_step\<^sup>*\<^sup>* s0 s" "process_ok s0" "stacks_ok [[0], [1], [2]] s0" "t < 3" "u < 3" "t \<noteq> u"
  shows "curr_pid_for_term s ! t \<noteq> curr_pid_for_term s ! u
    \<and> pcb_arr s ! (curr_pid_for_term s ! t) \<noteq> 0
    \<and> user_frame (set_user_page (curr_pid_for_term s ! t) s) \<noteq> user_frame (set_user_page (curr_pid_for_term s ! u) s)"
proof -
  have k0: "kernel_ok s0" using assms(2,3) unfolding kernel_ok_def by blast
  have "kernel_ok s"
    using assms(1) k0 by (induction rule: rtranclp_induct) (auto intro: kernel_step_ok)
  then obtain cs where cs: "stacks_ok cs s" "process_ok s" by (auto simp: kernel_ok_def)
  note T = stacksD [OF cs(1) assms(4)] and U = stacksD [OF cs(1) assms(5)]
  have d: "curr_pid_for_term s ! t \<noteq> curr_pid_for_term s ! u"
    using distinct_concat_nth [of cs t u "hd (cs ! t)"] T(2,4) U(2,4) cs(1) assms(4-6)
      hd_in_set [OF T(2)] hd_in_set [OF U(2)] by (auto simp: stacks_ok_def)
  have "length (page_directory s) = 1024" using cs(2) by (simp add: process_ok_def)
  then have "user_frame (set_user_page p s) = of_nat (p + 2)" if "p < 6" for p
    using user_frame_set_user_page [of s p] that by simp
  then have "user_frame (set_user_page (curr_pid_for_term s ! t) s) \<noteq> user_frame (set_user_page (curr_pid_for_term s ! u) s)"
    using d T(4,6) U(4,6) of_nat_inj32 [of "curr_pid_for_term s ! t + 2" "curr_pid_for_term s ! u + 2"] by simp
  moreover have "pcb_arr s ! (curr_pid_for_term s ! t) \<noteq> 0"
    using T(4,8) cs(1) unfolding stacks_ok_def by metis
  ultimately show ?thesis using d by simp
qed


end
