(* ===== verification/Isolation.thy ===== *)
theory Isolation
  imports KernelRuns
begin

text \<open>
  Separation of memory: what a process does, by stores, by system calls and through the interrupts
  that arrive meanwhile, changes no frame of physical memory but the one its own user page maps.
\<close>

section \<open>Steps that stay inside the user page\<close>

definition own_memory :: "kernel \<Rightarrow> kernel \<Rightarrow> bool" where
  "own_memory s s' \<longleftrightarrow> user_frame s' = user_frame s \<and> (\<forall>f. f \<noteq> user_frame s \<longrightarrow> frames s' f = frames s f)"

lemma own_memory_refl [simp]: "own_memory s s"
  by (simp add: own_memory_def)

lemma own_memory_trans [trans]: "own_memory s t \<Longrightarrow> own_memory t u \<Longrightarrow> own_memory s u"
  by (simp add: own_memory_def)

lemma own_memory_upd [simp]:
  "own_memory s (set_vmem m t) = own_memory s t" "own_memory s (t\<lparr>pcbs := a\<rparr>) = own_memory s t"
  "own_memory s (t\<lparr>termReadFlag := b\<rparr>) = own_memory s t" "own_memory s (t\<lparr>enter_flag := c\<rparr>) = own_memory s t"
  "own_memory s (t\<lparr>rtc_flag := d\<rparr>) = own_memory s t" "own_memory s (t\<lparr>vram := e\<rparr>) = own_memory s t"
  "own_memory s (sti t) = own_memory s t" "own_memory s (cli t) = own_memory s t"
  "own_memory (set_vmem m s) t = own_memory s t" "own_memory (s\<lparr>pcbs := a\<rparr>) t = own_memory s t"
  "own_memory (s\<lparr>termReadFlag := b\<rparr>) t = own_memory s t" "own_memory (s\<lparr>rtc_flag := d\<rparr>) t = own_memory s t"
  "own_memory (sti s) t = own_memory s t"
  by (auto simp: own_memory_def user_frame_def set_vmem_def sti_def cli_def)

lemma own_memory_frames:
  "frames s' = frames s \<Longrightarrow> page_directory s' = page_directory s \<Longrightarrow> own_memory s s'"
  by (simp add: own_memory_def user_frame_def)

lemma con_own: "con_eq s s' \<Longrightarrow> own_memory s s'"
  by (rule own_memory_frames) (simp_all add: con_eq_fields)

lemma dev_own: "dev_shape s' = dev_shape s \<Longrightarrow> own_memory s s'"
  by (rule own_memory_frames) (simp_all add: dev_shape_def)

section \<open>The system calls\<close>

text \<open>The contract of the calls a process makes.\<close>

locale memory_call =
  fixes call :: "kernel \<Rightarrow> (kernel \<times> i32) option"
  assumes own: "procs_ok s \<Longrightarrow> call s = Some (s', r) \<Longrightarrow> own_memory s s'"
begin

lemma other_frame: "procs_ok s \<Longrightarrow> call s = Some (s', r) \<Longrightarrow> f \<noteq> user_frame s \<Longrightarrow> frames s' f = frames s f"
  using own by (simp add: own_memory_def)

end

lemma call_open_own: "call_open g s = Some (s', r) \<Longrightarrow> own_memory s s'"
  by (cases g) (auto simp: terminal_open_def rtc_open_def Let_def split: Option.bind_splits intro!: own_memory_frames)

lemma call_close_own: "call_close g s = Some (s', r) \<Longrightarrow> own_memory s s'"
  by (cases g) (auto simp: terminal_close_def Let_def split: Option.bind_splits intro!: own_memory_frames)

interpretation open_memory: memory_call "sys_open fn d" for fn d
proof
  fix s s' r assume "sys_open fn d s = Some (s', r)"
  then show "own_memory s s'"
    by (auto simp: sys_open_def Let_def put_pcb_def split: if_splits Option.bind_splits option.splits
        dest!: call_open_own)
qed

interpretation close_memory: memory_call "sys_close fd" for fd
proof
  fix s s' r assume "sys_close fd s = Some (s', r)"
  then show "own_memory s s'"
    by (auto simp: sys_close_def Let_def put_pcb_def split: if_splits Option.bind_splits
        dest!: call_close_own)
qed

lemma put_fd_own: "put_fd fd f s = Some s' \<Longrightarrow> own_memory s s'"
  by (auto simp: put_fd_def put_pcb_def split: Option.bind_splits)

lemma call_read_own:
  assumes "call_read g fd buf n irqs s = Some (s', r)" "device_irqs irqs" "procs_ok s"
  shows "own_memory s s'"
proof (cases g)
  case Terminal_read
  have "procs_ok (s\<lparr>termReadFlag := fl\<rparr>)" for fl by (rule proc_shape_ok [OF _ assms(3)]) simp
  note w = device_wait [OF _ assms(2) this, THEN dev_own]
  show ?thesis
    using assms(1) by (auto simp: Terminal_read terminal_read_def Let_def split: if_splits Option.bind_splits
        dest!: w)
next
  case Rtc_read
  have "procs_ok (s\<lparr>rtc_flag := fl\<rparr>)" for fl by (rule proc_shape_ok [OF _ assms(3)]) simp
  note w = device_wait [OF _ assms(2) this, THEN dev_own]
  show ?thesis
    using assms(1) by (auto simp: Rtc_read rtc_read_def split: Option.bind_splits dest!: w
       )
next
  case Read_directory
  then show ?thesis
    using assms(1) by (auto split: Option.bind_splits dest!: put_fd_own)
next
  case Read_file
  then show ?thesis
    using assms(1) by (auto simp: Let_def split: Option.bind_splits prod.splits dest!: put_fd_own
       )
qed (use assms in simp)

interpretation read_memory: memory_call "\<lambda>s. if device_irqs irqs then sys_read fd buf n irqs s else None" for fd buf n irqs
proof
  fix s s' r assume ok: "procs_ok s"
    and r: "(if device_irqs irqs then sys_read fd buf n irqs s else None) = Some (s', r)"
  have "procs_ok (sti s)" using ok by simp
  note c = call_read_own [OF _ _ this]
  show "own_memory s s'"
    using r by (auto simp: sys_read_def Let_def split: if_splits Option.bind_splits dest!: c)
qed

lemma call_write_own: "call_write g buf n s = Some (s', r) \<Longrightarrow> own_memory s s'"
proof (cases g)
  case Terminal_write
  have step: "con_eq s s'" if "write_step buf i s = Some s'" for i s s'
    using that putc.frame by (auto simp: write_step_def Let_def split: if_splits)
  have "own_memory s t" if "foldM (write_step buf) xs s = Some t" for xs s t
    by (rule con_own [OF foldM_con_eq [OF _ that]]) (rule step)
  moreover assume "call_write g buf n s = Some (s', r)"
  ultimately show ?thesis
    by (auto simp: Terminal_write terminal_write_def split: if_splits Option.bind_splits)
next
  case Rtc_write
  assume "call_write g buf n s = Some (s', r)"
  then show ?thesis
    by (auto simp: Rtc_write rtc_write_def Let_def split: Option.bind_splits if_splits option.splits
        intro!: own_memory_frames)
qed auto

interpretation write_memory: memory_call "sys_write fd buf n" for fd buf n
proof
  fix s s' r assume w: "sys_write fd buf n s = Some (s', r)"
  have p: "own_memory t u" if "printf [CHR 0x0A] [] 0 t = Some (u, k)" for t u k
    using con_own [OF printf_plain_frame [of "[0x0A]" "[]" 0 t u]] that
    by (auto simp: printf_def split: Option.bind_splits)
  show "own_memory s s'"
    using w by (auto simp: sys_write_def Let_def split: if_splits Option.bind_splits dest!: call_write_own p)
qed

interpretation getargs_memory: memory_call "sys_getargs buf n" for buf n
  by unfold_locales (auto simp: sys_getargs_def split: if_splits Option.bind_splits)

interpretation vidmap_memory: memory_call "\<lambda>s. Some (sys_vidmap vpt a s)" for vpt a
proof
  fix s s' r assume v: "Some (sys_vidmap vpt a s) = Some (s', r)"
  have store: "own_memory s (store_user b w t) = own_memory s t" for s b w t
    by (simp add: store_user_def Let_def)
  have f: "own_memory s (fold (\<lambda>i. store_user (p i) (w i)) xs t) = own_memory s t" for s p w xs t
    by (induction xs arbitrary: t) (simp_all add: store)
  have d: "own_memory s (s\<lparr>page_directory := (page_directory s)[33 := x]\<rparr>)" for s x
    by (simp add: own_memory_def user_frame_def)
  have g: "own_memory s (set_vidmap_page k t) = own_memory s t" for s k t
    by (simp add: own_memory_def user_frame_def set_vidmap_page_def)
  show "own_memory s s'"
    using v by (auto simp: sys_vidmap_def Let_def f d g split: if_splits)
qed

lemma user_step_own:
  assumes "user_step s s'" "procs_ok s"
  shows "own_memory s s'"
  using assms(1)
proof cases
  case (user_read fd buf n irqs r)
  then show ?thesis using read_memory.own [OF assms(2), of irqs fd buf n s' r] by simp
next
  case (user_vidmap vpt a)
  then show ?thesis using vidmap_memory.own [OF assms(2), of vpt a s'] by (metis prod.collapse)
qed (use assms(2) open_memory.own close_memory.own write_memory.own getargs_memory.own in auto)

lemma user_steps_own:
  assumes "user_step\<^sup>*\<^sup>* s s'" "procs_ok s"
  shows "own_memory s s'"
  using assms
proof (induction rule: rtranclp_induct)
  case (step t u)
  then show ?case using user_steps_keep user_step_own own_memory_trans by metis
qed simp


end
