(* ===== verification/RoundRobin.thy ===== *)
theory RoundRobin
  imports Isolation
begin

text \<open>
  The scheduler as a round robin: with all three terminals started, every tick hands the
  processor to the next terminal, and the third tick gives it back, with the registers, the memory
  and the kernel stack the process was interrupted with.
\<close>

section \<open>A process that waits for its turn\<close>

definition waiting :: "nat \<Rightarrow> kernel \<Rightarrow> nat \<times> u32 \<times> u32" where
  "waiting u s = (curr_pid_for_term s ! u, scheduledEsp (pcbs s ! (curr_pid_for_term s ! u)),
     scheduledEbp (pcbs s ! (curr_pid_for_term s ! u)))"

definition all_started :: "kernel \<Rightarrow> bool" where
  "all_started s \<longleftrightarrow> length (terminalInstantiated s) = 3 \<and> terminalInstantiated s ! 1 \<noteq> 0
     \<and> terminalInstantiated s ! 2 \<noteq> 0 \<and> doneInstantiating s \<noteq> 0"

definition same_turn :: "kernel \<Rightarrow> kernel \<Rightarrow> bool" where
  "same_turn s s' \<longleftrightarrow> scheduled_term s' = scheduled_term s \<and> all_started s' = all_started s
     \<and> (\<forall>u < 3. u \<noteq> scheduled_term s \<longrightarrow> waiting u s' = waiting u s)"

lemma same_turn_refl [simp]: "same_turn s s"
  by (simp add: same_turn_def)

lemma same_turn_trans: "same_turn s t \<Longrightarrow> same_turn t u \<Longrightarrow> same_turn s u"
  by (simp add: same_turn_def)

lemma tree_same_turn:
  assumes "tree_shape s' = tree_shape s" "kernel_ok s"
  shows "same_turn s s'"
proof -
  have c: "curr_pid_for_term s' = curr_pid_for_term s" "scheduled_term s' = scheduled_term s"
    "terminalInstantiated s' = terminalInstantiated s" "doneInstantiating s' = doneInstantiating s"
    using assms(1) by (simp_all add: tree_shape_def proc_sizes_def)
  have l: "length (pcbs s) = 6" "\<forall>p \<in> set (curr_pid_for_term s). p < 6" "length (curr_pid_for_term s) = 3"
    using kernel_ok_procs [OF assms(2)] by (simp_all add: procs_ok_def)
  then have "curr_pid_for_term s ! u < length (pcbs s)" if "u < 3" for u
    using that by simp
  then show ?thesis
    using tree_shape_regs(3,4) [OF assms(1)] c by (simp add: same_turn_def waiting_def all_started_def)
qed

text \<open>The steps of the kernel between two ticks. Programs are started from the terminal on display,
  the only one whose shell a user can give a command.\<close>

inductive own_step :: "kernel \<Rightarrow> kernel \<Rightarrow> bool" where
  own_user: "user_step s s' \<Longrightarrow> own_step s s'"
| own_execute: "execute fr command s = Some (s', out) \<Longrightarrow> locals_ok fr s
    \<Longrightarrow> currentTerminal s = scheduled_term s + 1 \<Longrightarrow> own_step s s'"
| own_halt: "halt status s = Some (s', out) \<Longrightarrow> own_step s s'"
| own_key: "keyboard_handler k s = Some s' \<Longrightarrow> own_step s s'"
| own_clock: "rtc_handler s = Some s' \<Longrightarrow> own_step s s'"

lemma own_kernel_step: "own_step s s' \<Longrightarrow> kernel_step s s'"
  by (induction rule: own_step.induct) (blast intro: kernel_step.intros)+

lemma execute_same_turn:
  assumes "kernel_ok s" "execute fr command s = Some (s', out)" "locals_ok fr s"
    "currentTerminal s = scheduled_term s + 1"
  shows "same_turn s s'"
proof -
  obtain cs where cs: "stacks_ok cs s" "process_ok s" using assms(1) by (auto simp: kernel_ok_def)
  then have L: "length (pcb_arr s) = 6" "length (parent_pid_for_term s) = 3" "length (pcbs s) = 6"
    "length (curr_pid_for_term s) = 3" "scheduled_term s < 3"
    by (simp_all add: stacks_ok_def process_ok_def procs_ok_def)
  show ?thesis
  proof (cases "\<exists>e k. out = Iret_user e k")
    case True
    then obtain e k where "execute fr command s = Some (s', Iret_user e k)" using assms(2) by blast
    from execute_iret [OF cs(2) L(1,2) this] obtain s0 p m where x: "same_processes s s0"
      "first_index 0 (pcb_arr s) = Some p" "s' = sti (cli (started fr (scheduled_term s) p m s0))"
      unfolding assms(4) by (metis add_diff_cancel_right')
    note S = same_processes_ok [OF x(1)] and P = free_pid [OF cs(1) x(2)] and T = stacksD [OF cs(1)]
    have i: "terminalInstantiated s0 = terminalInstantiated s" "doneInstantiating s0 = doneInstantiating s"
      using x(1) by (auto simp: same_processes_def set_vmem_def)
    have t: "curr_pid_for_term s ! u < 6" "curr_pid_for_term s ! u \<noteq> p" if "u < 3" for u
      using T(4,6,8) [OF that] P(3) by metis+
    have "pcbs s' = started_pcbs fr p (curr_pid_for_term s ! scheduled_term s) m (pcbs s)"
      "curr_pid_for_term s' = (curr_pid_for_term s)[scheduled_term s := p]"
      "scheduled_term s' = scheduled_term s" "terminalInstantiated s' = terminalInstantiated s"
      "doneInstantiating s' = doneInstantiating s"
      unfolding x(3) using S(5-7) i by (simp_all add: sti_def cli_def)
        (simp_all add: started_def set_tss_def set_vmem_def set_user_page_def)
    then show ?thesis
      using started_pcbs_nth [OF L(3) P(1) t(1) P(2) t(2)] t L
      by (simp add: same_turn_def waiting_def all_started_def)
  next
    case False
    then have "procs_ok s' \<and> tree_shape s' = tree_shape s"
      using execute_returns [OF cs(2) L(1,2) assms(3,2)] by blast
    then show ?thesis using tree_same_turn assms(1) by blast
  qed
qed

lemma halt_same_turn:
  assumes "kernel_ok s" "halt status s = Some (s', out)"
  shows "same_turn s s'"
proof -
  obtain cs where cs: "stacks_ok cs s" "process_ok s" using assms(1) by (auto simp: kernel_ok_def)
  then have L: "length (curr_pid_for_term s) = 3" "scheduled_term s < 3"
    by (simp_all add: process_ok_def procs_ok_def)
  show ?thesis
  proof (cases "hd (cs ! scheduled_term s) < 3")
    case True
    then show ?thesis
      using halt_base [OF cs True, of status] assms(2)
      by (simp add: iret_user_def) (auto simp: same_turn_def waiting_def all_started_def sti_def cli_def)
  next
    case False
    then have "3 \<le> hd (cs ! scheduled_term s)" by simp
    from halt_child [OF cs refl this refl, of status] assms(2) obtain u where
      u: "s' = set_tss (parent_of s (hd (cs ! scheduled_term s))) u"
      "closing (released (hd (cs ! scheduled_term s)) (parent_of s (hd (cs ! scheduled_term s))) s) u"
      by auto
    have "terminalInstantiated s' = terminalInstantiated s" "doneInstantiating s' = doneInstantiating s"
      using u(2) unfolding u(1) by (auto simp: closing_def set_tss_def released_def set_user_page_def cli_def)
    then show ?thesis
      using closing_fields [OF u(2)] L unfolding u(1) by (simp add: same_turn_def waiting_def all_started_def)
  qed
qed

lemma own_step_keeps:
  assumes "own_step s s'" "kernel_ok s"
  shows "kernel_ok s' \<and> same_turn s s'"
proof
  show "kernel_ok s'" using kernel_step_ok [OF own_kernel_step [OF assms(1)] assms(2)] .
  have quiet: "same_turn s s'" if "proc_shape s' = proc_shape s"
    using tree_same_turn [OF proc_shape_tree [OF that kernel_ok_procs] assms(2)] assms(2) by blast
  show "same_turn s s'"
    using assms(1)
  proof cases
    case own_user
    then show ?thesis using user_step_keeps tree_same_turn assms(2) kernel_ok_procs by metis
  next
    case own_execute
    then show ?thesis using execute_same_turn [OF assms(2)] by blast
  next
    case own_halt
    then show ?thesis using halt_same_turn [OF assms(2)] by blast
  next
    case own_key
    then show ?thesis using quiet keyboard.proc [OF kernel_ok_procs [OF assms(2)]] by blast
  next
    case own_clock
    then show ?thesis using quiet rtc.proc [OF kernel_ok_procs [OF assms(2)]] by blast
  qed
qed

section \<open>The memory of a waiting process\<close>

definition mapped :: "kernel \<Rightarrow> bool" where
  "mapped s \<longleftrightarrow> user_frame s = of_nat (current_pid s) + 2"

definition frame_of :: "nat \<Rightarrow> kernel \<Rightarrow> u32 \<Rightarrow> u8" where
  "frame_of u s = frames s (of_nat (curr_pid_for_term s ! u) + 2)"

definition same_memory :: "kernel \<Rightarrow> kernel \<Rightarrow> bool" where
  "same_memory s s' \<longleftrightarrow> (\<forall>u < 3. u \<noteq> scheduled_term s \<longrightarrow> frame_of u s' = frame_of u s)"

lemma frame_neq:
  assumes "p < 6" "q < 6" "p \<noteq> q"
  shows "of_nat p + (2 :: u32) \<noteq> of_nat q + 2"
  using assms of_nat_inj32 [of p q] by auto

lemma current_pids:
  assumes "kernel_ok s" "u < 3"
  shows "curr_pid_for_term s ! u < 6" "u \<noteq> scheduled_term s \<Longrightarrow> curr_pid_for_term s ! u \<noteq> current_pid s"
    "pcb_arr s ! (curr_pid_for_term s ! u) \<noteq> 0"
proof -
  obtain cs where cs: "stacks_ok cs s" "process_ok s" using assms(1) by (auto simp: kernel_ok_def)
  note T = stacksD [OF cs(1)]
  have t: "scheduled_term s < 3" using cs(2) by (simp add: process_ok_def procs_ok_def)
  show "curr_pid_for_term s ! u < 6" using T(4,6) [OF assms(2)] by simp
  show "pcb_arr s ! (curr_pid_for_term s ! u) \<noteq> 0"
    using T(4,8) [OF assms(2)] cs(1) unfolding stacks_ok_def by metis
  show "curr_pid_for_term s ! u \<noteq> current_pid s" if "u \<noteq> scheduled_term s"
    using distinct_concat_nth [of cs u "scheduled_term s" "hd (cs ! u)"] T(2,4) [OF assms(2)] T(2,4) [OF t] that
      hd_in_set [OF T(2) [OF assms(2)]] hd_in_set [OF T(2) [OF t]] cs(1) t assms(2)
    by (auto simp: stacks_ok_def current_pid_def)
qed

lemma own_memory_same:
  assumes "own_memory s s'" "kernel_ok s" "mapped s" "curr_pid_for_term s' = curr_pid_for_term s"
    "scheduled_term s' = scheduled_term s"
  shows "mapped s' \<and> same_memory s s'"
proof
  have c: "current_pid s < 6" using the_pcb_ok(2) [OF kernel_ok_procs [OF assms(2)]] .
  show "mapped s'" using assms by (simp add: mapped_def own_memory_def current_pid_def)
  have "of_nat (curr_pid_for_term s ! u) + 2 \<noteq> user_frame s" if "u < 3" "u \<noteq> scheduled_term s" for u
    using frame_neq [OF current_pids(1) [OF assms(2) that(1)] c current_pids(2) [OF assms(2) that]] assms(3)
    by (simp add: mapped_def)
  then show "same_memory s s'"
    using assms(1,4) by (simp add: same_memory_def frame_of_def own_memory_def)
qed

lemma tree_own:
  assumes "own_memory s s'" "tree_shape s' = tree_shape s" "kernel_ok s" "mapped s"
  shows "mapped s' \<and> same_memory s s'"
  using own_memory_same [OF assms(1,3,4)] assms(2) by (simp add: tree_shape_def)

lemma execute_memory:
  assumes "kernel_ok s" "mapped s" "execute fr command s = Some (s', out)" "locals_ok fr s"
    "currentTerminal s = scheduled_term s + 1"
  shows "mapped s' \<and> same_memory s s'"
proof -
  obtain cs where cs: "stacks_ok cs s" "process_ok s" using assms(1) by (auto simp: kernel_ok_def)
  then have L: "length (pcb_arr s) = 6" "length (parent_pid_for_term s) = 3" "length (args s) = 128"
    "length (curr_pid_for_term s) = 3" "scheduled_term s < 3" "length (page_directory s) = 1024"
    by (simp_all add: stacks_ok_def process_ok_def procs_ok_def)
  have c: "current_pid s < 6" using the_pcb_ok(2) [OF kernel_ok_procs [OF assms(1)]] .
  show ?thesis
  proof (cases "\<exists>e k. out = Iret_user e k")
    case True
    then obtain e k where "execute fr command s = Some (s', Iret_user e k)" using assms(3) by blast
    from execute_iret [OF cs(2) L(1,2) this] obtain s0 p m where x: "same_processes s s0"
      "first_index 0 (pcb_arr s) = Some p" "s' = sti (cli (started fr (scheduled_term s) p m s0))"
      unfolding assms(5) by (metis add_diff_cancel_right')
    note S = same_processes_ok [OF x(1)] and P = free_pid [OF cs(1) x(2)]
    have l0: "length (page_directory s0) = 1024" using S(9) L(6) by simp
    have o: "own_memory s s0" using x(1) unfolding same_processes_def own_memory_def by (auto simp: set_vmem_other_frame user_frame_def)
    have uf: "user_frame (set_user_page p s0) = of_nat p + 2"
      using user_frame_set_user_page [of s0 p] l0 P(1) by simp
    have "curr_pid_for_term s ! u \<noteq> p" if "u < 3" for u using current_pids(3) [OF assms(1) that] P(4) by metis
    then have "frames s' (of_nat (curr_pid_for_term s ! u) + 2) = frames s (of_nat (curr_pid_for_term s ! u) + 2)"
      if "u < 3" "u \<noteq> scheduled_term s" for u
      unfolding x(3) using started_frames [of _ p s0 fr "scheduled_term s" m] uf o that P(1) assms(2) c
        frame_neq [OF current_pids(1) [OF assms(1) that(1)] P(1)]
        frame_neq [OF current_pids(1) [OF assms(1) that(1)] c current_pids(2) [OF assms(1) that]]
      by (simp add: own_memory_def mapped_def) (simp add: sti_def cli_def)
    then have "same_memory s s'"
      unfolding x(3) using S(6) L by (simp add: same_memory_def frame_of_def) (simp add: sti_def cli_def)
    moreover have "mapped s'"
      unfolding x(3) using user_frame_started [OF l0 P(1)] S(5,6) L
      by (simp add: mapped_def current_pid_def) (simp add: sti_def cli_def)
    ultimately show ?thesis by simp
  next
    case False
    then have t: "tree_shape s' = tree_shape s"
      using execute_returns [OF cs(2) L(1,2) assms(4,3)] by blast
    have prep: "own_memory s (prepared m as s)" for m as
      by (simp add: prepared_def own_memory_def user_frame_def) (simp add: set_vmem_def user_frame_def)
    from assms(3) L(3) have "own_memory s s'"
    proof (cases rule: execute_cases)
      case (full_table m as n)
      then have "con_eq (prepared m as s) s'"
        using printf_plain_frame [of "map of_char cant_open" "[]" 0 "prepared m as s" s']
        by (auto simp: printf_def cant_open_def split: Option.bind_splits)
      then show ?thesis using own_memory_trans [OF prep con_own] by blast
    next
      case (start m m' as ino r)
      then show ?thesis using start_enters [OF cs(2) L(1,2) assms(4)] False by blast
    qed (use prep in simp)
    then show ?thesis using tree_own t assms(1,2) by blast
  qed
qed

lemma halt_memory:
  assumes "kernel_ok s" "mapped s" "halt status s = Some (s', out)"
  shows "mapped s' \<and> same_memory s s'"
proof -
  obtain cs where cs: "stacks_ok cs s" "process_ok s" using assms(1) by (auto simp: kernel_ok_def)
  then have L: "length (curr_pid_for_term s) = 3" "scheduled_term s < 3"
    by (simp_all add: process_ok_def procs_ok_def)
  show ?thesis
  proof (cases "hd (cs ! scheduled_term s) < 3")
    case True
    then show ?thesis
      using halt_base [OF cs True, of status] assms(2,3)
      by (auto simp: iret_user_def same_memory_def frame_of_def mapped_def current_pid_def user_frame_def sti_def cli_def)
  next
    case False
    then have p: "3 \<le> hd (cs ! scheduled_term s)" by simp
    let ?par = "parent_of s (hd (cs ! scheduled_term s))"
    from halt_child [OF cs refl p refl, of status] assms(3) obtain u where
      u: "s' = set_tss ?par u" "closing (released (hd (cs ! scheduled_term s)) ?par s) u"
      by auto
    note C = closing_fields [OF u(2)] and P = popped [OF cs refl refl p refl u(2)]
    have "user_frame s' = user_frame (set_user_page ?par s)"
      using C(8) unfolding u(1) by (simp add: user_frame_def released_def set_user_page_def cli_def)
    also have "\<dots> = of_nat ?par + 2"
      using user_frame_set_user_page [of s ?par] P(4) cs(2) by (simp add: process_ok_def)
    finally show ?thesis
      using C L unfolding u(1) by (simp add: same_memory_def frame_of_def mapped_def current_pid_def)
  qed
qed

lemma own_step_memory:
  assumes "own_step s s'" "kernel_ok s" "mapped s"
  shows "mapped s' \<and> same_memory s s'"
proof -
  have ok: "procs_ok s" by (rule kernel_ok_procs [OF assms(2)])
  have quiet: ?thesis if "dev_shape s' = dev_shape s"
    using tree_own [OF dev_own [OF that] proc_shape_tree assms(2,3)] dev_shape_eqD [OF that] ok by blast
  show ?thesis
    using assms(1)
  proof cases
    case own_user
    then show ?thesis
      using tree_own [OF user_step_own [OF own_user ok] _ assms(2,3)] user_step_keeps [OF own_user ok] by simp
  next
    case own_execute
    then show ?thesis using execute_memory [OF assms(2,3)] by blast
  next
    case own_halt
    then show ?thesis using halt_memory [OF assms(2,3)] by blast
  next
    case own_key
    then show ?thesis using quiet keyboard.shape [OF ok] by blast
  next
    case own_clock
    then show ?thesis using quiet rtc.shape [OF ok] by blast
  qed
qed

text \<open>What the other terminals may rely on while one has the processor.\<close>

definition turn_ok :: "kernel \<Rightarrow> bool" where
  "turn_ok s \<longleftrightarrow> kernel_ok s \<and> mapped s"

definition others_kept :: "kernel \<Rightarrow> kernel \<Rightarrow> bool" where
  "others_kept s s' \<longleftrightarrow> same_turn s s' \<and> same_memory s s'"

lemma own_steps_keep:
  assumes "own_step\<^sup>*\<^sup>* s s'" "turn_ok s"
  shows "turn_ok s' \<and> others_kept s s'"
  using assms
proof (induction rule: rtranclp_induct)
  case base
  then show ?case by (simp add: others_kept_def same_memory_def)
next
  case (step t u)
  then have t: "kernel_ok t" "mapped t" "same_turn s t" "same_memory s t"
    by (simp_all add: turn_ok_def others_kept_def)
  have "kernel_ok u \<and> same_turn t u" "mapped u \<and> same_memory t u"
    using own_step_keeps [OF step(2) t(1)] own_step_memory [OF step(2) t(1,2)] by simp_all
  then show ?case
    using t same_turn_trans by (auto simp: turn_ok_def others_kept_def same_memory_def same_turn_def)
qed

section \<open>One tick\<close>

definition switched :: "u32 \<Rightarrow> u32 \<Rightarrow> kernel \<Rightarrow> kernel" where
  "switched e b s = (let p = curr_pid_for_term s ! next_term s in
     set_tss p (set_user_page p ((preempted e b s)\<lparr>pid := p\<rparr>)))"

lemma tick_result:
  assumes "kernel_ok s" "all_started s" "waiting (next_term s) s = (q, e', b')"
  shows "pit_handler fr command e b s = Some (switched e b s, Resume e' b')"
    "scheduled_term (switched e b s) = next_term s" "all_started (switched e b s)"
    "waiting (scheduled_term s) (switched e b s) = (current_pid s, e, b)"
    "u < 3 \<Longrightarrow> u \<noteq> scheduled_term s \<Longrightarrow> waiting u (switched e b s) = waiting u s"
    "user_frame (switched e b s) = of_nat q + 2" "tss_esp0 (switched e b s) = MB8 - KB8 * of_nat q"
    "kernel_ok (switched e b s)"
proof -
  obtain cs where cs: "stacks_ok cs s" "process_ok s" using assms(1) by (auto simp: kernel_ok_def)
  then have L: "length (pcbs s) = 6" "length (curr_pid_for_term s) = 3" "scheduled_term s < 3"
    "length (page_directory s) = 1024"
    by (simp_all add: process_ok_def procs_ok_def)
  have n: "next_term s < 3" "next_term s \<noteq> scheduled_term s"
    using L(3) by (auto simp: next_term_def) (cases "scheduled_term s" rule: nat.exhaust; simp; presburger)
  note T = stacksD [OF cs(1)]
  have pid: "curr_pid_for_term s ! u < 6" if "u < 3" for u using T(4,6) [OF that] by simp
  have ne: "curr_pid_for_term s ! u \<noteq> current_pid s" if "u < 3" "u \<noteq> scheduled_term s" for u
    using distinct_concat_nth [of cs u "scheduled_term s" "hd (cs ! u)"] T(2,4) [OF that(1)] T(2,4) [OF L(3)] that
      hd_in_set [OF T(2) [OF that(1)]] hd_in_set [OF T(2) [OF L(3)]] cs(1) L(3)
    by (auto simp: stacks_ok_def current_pid_def)
  let ?p = "preempted e b s"
  have regs: "pcbs ?p ! (curr_pid_for_term s ! u) = pcbs s ! (curr_pid_for_term s ! u)"
    if "u < 3" "u \<noteq> scheduled_term s" for u
    using ne [OF that] by simp
  have q: "q = curr_pid_for_term s ! next_term s" "e' = scheduledEsp (pcbs s ! q)" "b' = scheduledEbp (pcbs s ! q)"
    using assms(3) by (auto simp: waiting_def)
  have sw: "pcbs (switched e b s) = pcbs ?p" "curr_pid_for_term (switched e b s) = curr_pid_for_term s"
    by (simp_all add: switched_def Let_def)
  show "pit_handler fr command e b s = Some (switched e b s, Resume e' b')"
    using assms(2) L(1,2) n pid [OF n(1)] regs [OF n] q
    by (simp add: pit_handler_eq [OF cs(2)] all_started_def show_first_def switch_process_def aget_def
        switched_def Let_def)
  show "scheduled_term (switched e b s) = next_term s" "all_started (switched e b s)"
    using assms(2) by (simp_all add: switched_def Let_def all_started_def set_tss_def set_user_page_def)
  show "waiting (scheduled_term s) (switched e b s) = (current_pid s, e, b)"
    using L pid [OF L(3)] by (simp add: waiting_def sw current_pid_def)
  show "u < 3 \<Longrightarrow> u \<noteq> scheduled_term s \<Longrightarrow> waiting u (switched e b s) = waiting u s"
    using regs by (simp add: waiting_def sw)
  show "user_frame (switched e b s) = of_nat q + 2"
    using user_frame_set_user_page [of "?p\<lparr>pid := q\<rparr>" q] L(4) pid [OF n(1)] q(1)
    by (simp add: switched_def Let_def)
  show "tss_esp0 (switched e b s) = MB8 - KB8 * of_nat q"
    using q(1) by (simp add: switched_def Let_def set_tss_def)
  show "kernel_ok (switched e b s)"
    using preempted_ok [OF cs, of e b] by (auto simp: switched_def Let_def kernel_ok_def)
qed

lemma switched_frames: "frames (switched e b s) = frames s"
  by (simp add: switched_def Let_def preempted_def saved_regs_def cli_def send_eoi_def outb_def
      set_paging_scheduling_def set_video_page_def set_vidmap_page_def)

lemma tick_turn:
  assumes "kernel_ok s" "all_started s" "waiting (next_term s) s = (q, e', b')"
  shows "turn_ok (switched e b s)" "frame_of u (switched e b s) = frame_of u s" "current_pid (switched e b s) = q"
proof -
  note T = tick_result [OF assms]
  have c: "curr_pid_for_term (switched e b s) = curr_pid_for_term s" by (simp add: switched_def Let_def)
  have q: "curr_pid_for_term s ! next_term s = q" using assms(3) by (simp add: waiting_def)
  show "current_pid (switched e b s) = q" using T(2) c q by (simp add: current_pid_def)
  then show "turn_ok (switched e b s)" using T(6,8) by (simp add: turn_ok_def mapped_def)
  show "frame_of u (switched e b s) = frame_of u s" by (simp add: frame_of_def switched_frames c)
qed


section \<open>Three ticks\<close>

text \<open>One tick and the steps of the process it resumes, seen from a terminal whose turn it is not.\<close>

lemma tick_then_own:
  assumes "kernel_ok s" "all_started s" "own_step\<^sup>*\<^sup>* (switched e b s) s'"
  shows "turn_ok s'" "all_started s'" "scheduled_term s' = next_term s"
    "u < 3 \<Longrightarrow> u \<noteq> next_term s \<Longrightarrow> frame_of u s' = frame_of u s"
    "u < 3 \<Longrightarrow> u \<noteq> next_term s \<Longrightarrow> u \<noteq> scheduled_term s \<Longrightarrow> waiting u s' = waiting u s"
    "waiting (scheduled_term s) s' = (current_pid s, e, b)"
proof -
  obtain q e' b' where w: "waiting (next_term s) s = (q, e', b')" by (rule prod_cases3)
  note T = tick_result [OF assms(1,2) w] and U = tick_turn [OF assms(1,2) w]
  have k: "turn_ok s'" "same_turn (switched e b s) s'" "same_memory (switched e b s) s'"
    using own_steps_keep [OF assms(3) U(1)] by (simp_all add: others_kept_def)
  show "turn_ok s'" "all_started s'" "scheduled_term s' = next_term s"
    using k T(2,3) by (simp_all add: same_turn_def)
  show "u < 3 \<Longrightarrow> u \<noteq> next_term s \<Longrightarrow> frame_of u s' = frame_of u s"
    using k(3) T(2) U(2) by (simp add: same_memory_def)
  show "u < 3 \<Longrightarrow> u \<noteq> next_term s \<Longrightarrow> u \<noteq> scheduled_term s \<Longrightarrow> waiting u s' = waiting u s"
    using k(2) T(2,5) by (simp add: same_turn_def)
  have "scheduled_term s < 3" using kernel_ok_procs [OF assms(1)] by (simp add: procs_ok_def)
  moreover have "scheduled_term s \<noteq> next_term s"
    unfolding next_term_def using calculation by presburger
  ultimately show "waiting (scheduled_term s) s' = (current_pid s, e, b)"
    using k(2) T(2,4) by (simp add: same_turn_def)
qed

lemma next_terms:
  assumes "t < (3 :: nat)"
  shows "(t + 1) mod 3 \<noteq> t" "((t + 1) mod 3 + 1) mod 3 \<noteq> t" "((t + 1) mod 3 + 1) mod 3 \<noteq> (t + 1) mod 3"
    "(((t + 1) mod 3 + 1) mod 3 + 1) mod 3 = t"
  using assms by presburger+

text \<open>C4: The scheduler is a round robin that loses nothing. From any state with all terminals
  started, the timer always has a result; the process interrupted by one tick is resumed by the third
  tick from there, with the \<open>esp\<close> and \<open>ebp\<close> it was interrupted with, its 4 MB of memory mapped,
  and every byte of it as it was, whatever system calls the two processes scheduled in between
  make, programs they start and end, and device interrupts they handle.\<close>

theorem round_robin:
  assumes "kernel_ok s0" "all_started s0" "p = current_pid s0"
  shows "\<exists>s1 o1. pit_handler fr command e b s0 = Some (s1, o1)
    \<and> (\<forall>t1. own_step\<^sup>*\<^sup>* s1 t1 \<longrightarrow> (\<exists>s2 o2. pit_handler fr command e1 b1 t1 = Some (s2, o2)
    \<and> (\<forall>t2. own_step\<^sup>*\<^sup>* s2 t2 \<longrightarrow> (\<exists>s3. pit_handler fr command e2 b2 t2 = Some (s3, Resume e b)
        \<and> scheduled_term s3 = scheduled_term s0 \<and> current_pid s3 = p
        \<and> user_frame s3 = of_nat p + 2 \<and> frames s3 (of_nat p + 2) = frames s0 (of_nat p + 2)))))"
proof -
  let ?t = "scheduled_term s0"
  have t: "?t < 3" using kernel_ok_procs [OF assms(1)] by (simp add: procs_ok_def)
  note N = next_terms [OF t]
  have tick: "\<exists>out. pit_handler fr command e b s = Some (switched e b s, out)" if "kernel_ok s" "all_started s" for e b s
    using tick_result(1) [OF that] by (metis prod_cases3)
  have third: "\<exists>s3. pit_handler fr command e2 b2 t2 = Some (s3, Resume e b)
        \<and> scheduled_term s3 = ?t \<and> current_pid s3 = p
        \<and> user_frame s3 = of_nat p + 2 \<and> frames s3 (of_nat p + 2) = frames s0 (of_nat p + 2)"
    if "own_step\<^sup>*\<^sup>* (switched e b s0) t1" "own_step\<^sup>*\<^sup>* (switched e1 b1 t1) t2" for t1 t2
  proof -
    note A = tick_then_own [OF assms(1,2) that(1)]
    have k1: "kernel_ok t1" using A(1) by (simp add: turn_ok_def)
    note B = tick_then_own [OF k1 A(2) that(2)]
    have k2: "kernel_ok t2" using B(1) by (simp add: turn_ok_def)
    have n: "next_term t1 \<noteq> ?t" "scheduled_term t1 \<noteq> ?t" "next_term t2 = ?t" "next_term s0 \<noteq> ?t"
      using A(3) B(3) N by (simp_all add: next_term_def)
    have w: "waiting (next_term t2) t2 = (p, e, b)"
      using B(5) [OF t] A(6) n assms(3) by simp
    note T = tick_result(1) [OF k2 B(2) w, where e = e2 and b = b2]
      tick_result(2,6) [OF k2 B(2) w, where e = e2 and b = b2]
      and U = tick_turn(3) [OF k2 B(2) w, where e = e2 and b = b2]
    have c: "curr_pid_for_term t2 ! ?t = p" "curr_pid_for_term s0 ! ?t = p"
      using w n(3) assms(3) by (simp_all add: waiting_def current_pid_def)
    have "frame_of ?t t2 = frame_of ?t s0" using B(4) [OF t] A(4) [OF t] n by simp
    then show ?thesis
      using T U n(3) c switched_frames [of e2 b2 t2] by (simp add: frame_of_def)
  qed
  have second: "\<exists>s2 o2. pit_handler fr command e1 b1 t1 = Some (s2, o2)
      \<and> (\<forall>t2. own_step\<^sup>*\<^sup>* s2 t2 \<longrightarrow> (\<exists>s3. pit_handler fr command e2 b2 t2 = Some (s3, Resume e b)
          \<and> scheduled_term s3 = ?t \<and> current_pid s3 = p
          \<and> user_frame s3 = of_nat p + 2 \<and> frames s3 (of_nat p + 2) = frames s0 (of_nat p + 2)))"
    if x: "own_step\<^sup>*\<^sup>* (switched e b s0) t1" for t1
  proof -
    have "kernel_ok t1" "all_started t1" using tick_then_own(1,2) [OF assms(1,2) x] by (simp_all add: turn_ok_def)
    from tick [OF this] obtain o2 where "pit_handler fr command e1 b1 t1 = Some (switched e1 b1 t1, o2)" by blast
    moreover note third [OF x]
    ultimately show ?thesis by blast
  qed
  obtain out where "pit_handler fr command e b s0 = Some (switched e b s0, out)"
    using tick [OF assms(1,2)] by blast
  moreover note second
  ultimately show ?thesis by blast
qed

end
