(* ===== verification/Boot.thy ===== *)
theory Boot
  imports ExecuteLoads RoundRobin
begin

text \<open>
  How the three shells come up: the kernel starts the first one, the first two ticks of the timer
  start the others, each on a terminal of its own, and the third tick returns to the first. From
  then on the invariant of all runs holds, which theory \<open>KernelRuns\<close> assumes of its first state.
\<close>

section \<open>Switching the display while the shells come up\<close>

lemma set_paging_scheduling_pt:
  assumes "pt_ok (page_table s)" "scheduled_term s < 3"
  shows "pt_ok (page_table (set_paging_scheduling n s))"
proof -
  have p: "page_table (set_vidmap_page k s) = page_table s" for k by (simp add: set_vidmap_page_def)
  have q: "(VIDEO + (scheduled_term s + 1) * FourKB) div FourKB \<in> {185, 186, 187}"
    using assms(2) by (auto simp: VIDEO_def FourKB_def less_3)
  have r: "VIDEO div FourKB = 184" by (simp add: VIDEO_def FourKB_def)
  show ?thesis
    unfolding set_paging_scheduling_def r
    using set_video_page_ok [of "set_vidmap_page _ s"] assms(1) p q by auto
qed

lemma terminal_changing_parts:
  assumes "pt_ok (page_table s)"
  obtains v t where "terminal_changing s = s\<lparr>vram := v, page_table := t, currentTerminal := curr_term s\<rparr>" "pt_ok t"
proof -
  let ?t = "set_video_page (VIDEO div FourKB) s" and ?o = "video_page VIDEO_PAGE s"
  have r: "VIDEO div FourKB = 184" by (simp add: VIDEO_def FourKB_def)
  have o: "?o \<in> {184, 185, 186, 187}" using video_page_in(1) [OF assms, of 184] by simp
  have t: "pt_ok (page_table ?t)" using set_video_page_ok [OF assms, of 184] r by simp
  have "pt_ok (page_table (set_video_page ?o (u\<lparr>page_table := page_table ?t\<rparr>)))" for u
    using set_video_page_ok [of "u\<lparr>page_table := page_table ?t\<rparr>", OF _ o] t by simp
  then have u: "pt_ok ((page_table ?t)[VIDEO_PAGE := setf p_address (of_nat ?o) (page_table ?t ! VIDEO_PAGE)])"
    by (simp add: set_video_page_def)
  show ?thesis
    by (rule that [OF _ u, where v = "vram (terminal_changing s)"])
      (rule kernel.equality; simp add: terminal_changing_def Let_def set_video_page_def copy_page_def)
qed

lemma display_switch:
  assumes "console_ok s" "length (terminal_switch_array s) = 3" "v \<in> {1, 2, 3}" "n \<in> {1, 2, 3}"
  shows "\<exists>s'. terminal_changing_handler (s\<lparr>recentTermChoice := [v, n]\<rparr>) = Some s' \<and> console_ok s'
    \<and> currentTerminal s' = n \<and> lowmem s' = lowmem s \<and> recentTermChoice s' = [v, n]"
proof -
  note D = console_okD [OF assms(1)]
  let ?s = "s\<lparr>recentTermChoice := [v, n]\<rparr>"
  have pt: "pt_ok (page_table (set_paging_scheduling n ?s))"
    using set_paging_scheduling_pt [of ?s n] D(1,3) by simp
  obtain vr t where t: "terminal_changing (set_paging_scheduling n ?s)
      = (set_paging_scheduling n ?s)\<lparr>vram := vr, page_table := t, currentTerminal := n\<rparr>" "pt_ok t"
    by (rule terminal_changing_parts [OF pt]) simp
  define w where "w = keyboard_switch v n (terminal_changing (set_paging_scheduling n ?s))"
  have w: "page_table w = t" "currentTerminal w = n" "recentTermChoice w = [v, n]" "lowmem w = lowmem s"
    "scheduled_term w = scheduled_term s" "termScreenx w = termScreenx s" "termScreeny w = termScreeny s"
    "termReadFlag w = termReadFlag s" "terminal_switch_array w = terminal_switch_array s"
    unfolding w_def t(1) by (simp_all add: keyboard_switch_def Let_def)
  obtain tis where tis: "aset (terminal_switch_array s) (v - 1)
      ((terminal_switch_array s ! (v - 1))\<lparr>ti_term_buf := term_buf w, ti_buf_idx := buf_idx w\<rparr>) = Some tis"
    "length tis = 3"
    using assms(2,3) by (auto simp: aset_def)
  let ?w = "w\<lparr>terminal_switch_array := tis\<rparr>"
  have vis: "visible ?w = n - 1" "n - 1 < 3" using assms(4) w(2) by (auto simp: visible_def)
  have cur: "update_cursor ?w = Some (?w\<lparr>outs := outs w @ cursor_writes (termScreenx s ! (n - 1)) (termScreeny s ! (n - 1))\<rparr>)"
    using update_cursor_eq [of ?w] vis w(6,7) D(4,5) by simp
  let ?u = "?w\<lparr>outs := outs w @ cursor_writes (termScreenx s ! (n - 1)) (termScreeny s ! (n - 1)),
    term_buf := ti_term_buf (tis ! (n - 1)), buf_idx := ti_buf_idx (tis ! (n - 1))\<rparr>"
  have "recentTermChoice (terminal_changing (set_paging_scheduling n ?s)) = [v, n]" by (simp add: t(1))
  moreover have "aget (terminal_switch_array s) (v - 1) = Some (terminal_switch_array s ! (v - 1))"
    "aget tis (n - 1) = Some (tis ! (n - 1))"
    using assms(2-4) tis(2) by (auto simp: aget_def)
  ultimately have "terminal_changing_handler ?s = Some ?u"
    using tis(1) w(3,9) cur by (simp add: terminal_changing_handler_def Let_def w_def [symmetric] del: One_nat_def)
  moreover have "console_ok ?u"
    using assms(1,4) w(1,2,5-8) t(2) by (simp add: console_ok_def)
  ultimately show ?thesis using w(2-4) by auto
qed

section \<open>The shells one after the other\<close>

text \<open>The processes once the first \<open>n\<close> shells have been started.\<close>

definition booted :: "nat \<Rightarrow> kernel \<Rightarrow> bool" where
  "booted n s \<longleftrightarrow> n \<le> 3 \<and> process_ok s \<and> curr_pid_for_term s = [0, 1, 2] \<and> parent_pid_for_term s = [0, 1, 2]
     \<and> pcb_arr s = replicate n 1 @ replicate (6 - n) 0 \<and> (\<forall>p < n. parent_of s p = p)"

lemma booted_stacks:
  assumes "booted 3 s"
  shows "stacks_ok [[0], [1], [2]] s"
proof -
  have B: "curr_pid_for_term s = [0, 1, 2]" "parent_pid_for_term s = [0, 1, 2]"
    "pcb_arr s = replicate 3 1 @ replicate 3 0" "\<forall>p < 3. parent_of s p = p"
    using assms by (simp_all add: booted_def)
  have "q \<in> set (concat [[0], [1], [2]]) \<longleftrightarrow> q < 6 \<and> pcb_arr s ! q \<noteq> 0" for q
    unfolding B(3) by (auto simp: nth_append)
  moreover have "chain (parent_of s) ([[0], [1], [2]] ! t) \<and> last ([[0], [1], [2]] ! t) = t
      \<and> curr_pid_for_term s ! t = hd ([[0], [1], [2]] ! t)
      \<and> parent_pid_for_term s ! t = parent_of s (hd ([[0], [1], [2]] ! t))" if "t < 3" for t
  proof -
    from that have "t = 0 \<or> t = 1 \<or> t = 2" by (simp add: less_3)
    then show ?thesis using B(1,2,4) by (elim disjE) simp_all
  qed
  ultimately show ?thesis using B(2,3) by (simp add: stacks_ok_def)
qed

lemma booted_kernel_ok: "booted 3 s \<Longrightarrow> kernel_ok s"
  using booted_stacks by (auto simp: kernel_ok_def booted_def)

lemma booted_free:
  assumes "booted n s" "n < 3"
  shows "first_index 0 (pcb_arr s) = Some n"
proof (rule first_free)
  show "n < length (pcb_arr s)" "pcb_arr s ! n = 0" "\<forall>q < n. pcb_arr s ! q \<noteq> 0"
    using assms by (auto simp: booted_def nth_append)
qed

lemma booted_started:
  assumes "booted n s" "n < 3"
  shows "booted (n + 1) (started fr n n m s)"
proof -
  have B: "process_ok s" "curr_pid_for_term s = [0, 1, 2]" "parent_pid_for_term s = [0, 1, 2]"
    "pcb_arr s = replicate n 1 @ replicate (6 - n) 0" "\<forall>p < n. parent_of s p = p"
    using assms(1) by (simp_all add: booted_def)
  have L: "length (pcbs s) = 6" "\<And>q. q < 6 \<Longrightarrow> fds_ok (pcbs s ! q)"
    using B(1) by (simp_all add: process_ok_def procs_ok_def)
  have n: "curr_pid_for_term s ! n = n" "[0, 1, 2][n := n] = [0, 1, 2]"
    using assms(2) B(2) by (auto simp: less_3)
  have pcbs: "pcbs (started fr n n m s) = (pcbs s)[n := new_pcb n n m (pcbs s ! n)]"
    using assms(2) n by (simp add: started_pcbs_def)
  have arr: "(replicate n 1 @ replicate (6 - n) 0)[n := 1] = replicate (n + 1) 1 @ replicate (6 - (n + 1)) (0 :: int)"
  proof -
    have "n = 0 \<or> n = 1 \<or> n = 2" using assms(2) by auto
    then show ?thesis by (elim disjE) (simp_all add: eval_nat_numeral)
  qed
  have "fds_ok ((pcbs s)[n := new_pcb n n m (pcbs s ! n)] ! q)" if "q < 6" for q
    using L that new_pcb_fds(1) assms(2) by (simp add: nth_list_update)
  then have "\<forall>pcb \<in> set ((pcbs s)[n := new_pcb n n m (pcbs s ! n)]). fds_ok pcb"
    using L(1) by (auto simp: in_set_conv_nth)
  then have "procs_ok (started fr n n m s)"
    using B(1) pcbs n assms(2) by (simp add: process_ok_def procs_ok_def B(2))
  moreover have "flags (fdArray (pcbs (started fr n n m s) ! q) ! 0) = full
      \<and> flags (fdArray (pcbs (started fr n n m s) ! q) ! 1) = full"
    if "q < 6" "pcb_arr (started fr n n m s) ! q \<noteq> 0" for q
    using that B(1,4) L new_pcb_fds(2,3) assms(2) unfolding pcbs process_ok_def
    by (cases "q = n") (auto simp: nth_list_update)
  ultimately have ok: "process_ok (started fr n n m s)" using B(1) by (simp add: process_ok_def)
  have "parent_of (started fr n n m s) q = q" if "q < n + 1" for q
  proof (cases "q = n")
    case True
    then show ?thesis using L(1) assms(2) unfolding parent_of_def pcbs by (simp add: new_pcb_def init_pcb_def)
  next
    case False
    then show ?thesis using that B(5) unfolding parent_of_def pcbs by (simp add: parent_of_def)
  qed
  then show ?thesis using ok B(2-4) n arr assms(2) by (simp add: booted_def)
qed

lemma booted_same:
  assumes "booted n s" "same_processes s s'"
  shows "booted n s'"
  using assms same_processes_ok [OF assms(2)] by (simp add: booted_def parent_of_def)

lemma booted_tree:
  assumes "booted n s" "tree_shape s' = tree_shape s" "procs_ok s'"
  shows "booted n s'"
proof -
  have m: "map pcb_tree (pcbs s') = map pcb_tree (pcbs s)" and r: "curr_pid_for_term s' = curr_pid_for_term s"
    "pcb_arr s' = pcb_arr s" "parent_pid_for_term s' = parent_pid_for_term s"
    using assms(2) by (simp_all add: tree_shape_def)
  have l: "length (pcbs s') = length (pcbs s)" "length (pcbs s') = 6"
    using map_eq_imp_length_eq [OF m] assms(3) by (auto simp: procs_ok_def)
  have "parent_of s' p = parent_of s p" if "p < 6" for p
    using m [THEN arg_cong, of "\<lambda>xs. xs ! p"] l that by (simp add: pcb_tree_def parent_of_def)
  moreover have "n \<le> 6" using assms(1) r(2) by (auto simp: booted_def)
  ultimately show ?thesis
    using assms tree_shape_ok(2) r by (simp add: booted_def)
qed

lemma booted_execute:
  assumes "booted n s" "n < 3" "currentTerminal s = n + 1" "execute fr command s = Some (s', Iret_user e k)"
  shows "booted (n + 1) s'" "scheduled_term s' = scheduled_term s" "currentTerminal s' = currentTerminal s"
    "terminalInstantiated s' = terminalInstantiated s" "doneInstantiating s' = doneInstantiating s"
    "user_frame s' = of_nat n + 2" "u < 3 \<Longrightarrow> u \<noteq> n \<Longrightarrow> waiting u s' = waiting u s"
proof -
  have B: "process_ok s" "length (pcb_arr s) = 6" "length (parent_pid_for_term s) = 3"
    using assms(1,2) by (simp_all add: booted_def)
  obtain s0 p m where x: "same_processes s s0" "first_index 0 (pcb_arr s) = Some p"
    "s' = sti (cli (started fr (currentTerminal s - 1) p m s0))"
    by (rule execute_iret [OF B assms(4)]) blast
  then have s': "s' = sti (cli (started fr n n m s0))" using booted_free [OF assms(1,2)] assms(3) by simp
  note S = same_processes_ok [OF x(1)]
  have i: "terminalInstantiated s0 = terminalInstantiated s" "doneInstantiating s0 = doneInstantiating s"
    using x(1) by (auto simp: same_processes_def set_vmem_def)
  have flags: "booted k (sti (cli u)) = booted k u" for k u
    by (simp add: booted_def parent_of_def) (simp add: sti_def cli_def)
  show "booted (n + 1) s'"
    unfolding s' flags by (rule booted_started [OF booted_same [OF assms(1) x(1)] assms(2)])
  show "scheduled_term s' = scheduled_term s" "currentTerminal s' = currentTerminal s"
    "terminalInstantiated s' = terminalInstantiated s" "doneInstantiating s' = doneInstantiating s"
    unfolding s' using S i by (simp_all add: sti_def cli_def) (simp_all add: started_def set_tss_def set_vmem_def set_user_page_def)
  have "length (page_directory s0) = 1024" using S(9) B(1) by (simp add: process_ok_def)
  then show "user_frame s' = of_nat n + 2" unfolding s' using user_frame_started [of s0 n] assms(2) by simp
  have c: "curr_pid_for_term s = [0, 1, 2]" "curr_pid_for_term s ! n = n" "[0, 1, 2 :: nat][n := n] = [0, 1, 2]"
    using assms(1,2) by (auto simp: booted_def less_3)
  have "curr_pid_for_term s' = curr_pid_for_term s" "pcbs s' = (pcbs s)[n := new_pcb n n m (pcbs s ! n)]"
    unfolding s' using S(6,7) c assms(2) by (simp_all add: sti_def cli_def started_pcbs_def)
  moreover have "curr_pid_for_term s ! u = u" if "u < 3" using that c(1) by (auto simp: less_3)
  ultimately show "u < 3 \<Longrightarrow> u \<noteq> n \<Longrightarrow> waiting u s' = waiting u s" by (simp add: waiting_def)
qed

lemma booted_user:
  assumes "booted n s" "user_step\<^sup>*\<^sup>* s s'"
  shows "booted n s'" "scheduled_term s' = scheduled_term s" "terminalInstantiated s' = terminalInstantiated s"
    "doneInstantiating s' = doneInstantiating s" "waiting u s = w \<Longrightarrow> u < 3 \<Longrightarrow> waiting u s' = w"
proof -
  have p: "procs_ok s" using assms(1) by (simp add: booted_def process_ok_def)
  note U = user_steps_keep [OF assms(2) p]
  show "booted n s'" using booted_tree [OF assms(1)] U by simp
  show t: "scheduled_term s' = scheduled_term s" "terminalInstantiated s' = terminalInstantiated s"
    "doneInstantiating s' = doneInstantiating s"
    using U by (simp_all add: tree_shape_def proc_sizes_def)
  have "curr_pid_for_term s ! u < length (pcbs s)" if "u < 3"
    using that p by (simp add: procs_ok_def)
  then show "waiting u s = w \<Longrightarrow> u < 3 \<Longrightarrow> waiting u s' = w"
    using U tree_shape_regs(3,4) [of s' s] by (auto simp: waiting_def tree_shape_def)
qed

section \<open>The ticks that start the shells\<close>

lemma booted_preempted:
  assumes "booted n s"
  shows "booted n (preempted e b s)"
proof -
  have "pcb_arr (preempted e b s) = pcb_arr s" "parent_pid_for_term (preempted e b s) = parent_pid_for_term s"
    by (simp_all add: preempted_def saved_regs_def cli_def send_eoi_def outb_def set_paging_scheduling_def
        set_video_page_def set_vidmap_page_def)
  then show ?thesis using assms preempted_process(1,2) [of s e b] by (simp add: booted_def)
qed

lemma waiting_preempted:
  assumes "booted n s" "u < 3"
  shows "waiting u (preempted e b s) = (if u = scheduled_term s then (u, e, b) else waiting u s)"
proof -
  have B: "curr_pid_for_term s = [0, 1, 2]" "length (pcbs s) = 6" "scheduled_term s < 3"
    using assms(1) by (simp_all add: booted_def process_ok_def procs_ok_def)
  have c: "curr_pid_for_term s ! v = v" if "v < 3" for v using that B(1) by (auto simp: less_3)
  then have "current_pid s = scheduled_term s" using B(3) by (simp add: current_pid_def)
  then show ?thesis using B(2) assms(2) c by (simp add: waiting_def)
qed

lemma booted_dev:
  assumes "booted n s" "dev_shape t = dev_shape s"
  shows "booted n t" "terminalInstantiated t = terminalInstantiated s" "doneInstantiating t = doneInstantiating s"
    "scheduled_term t = scheduled_term s" "u < 3 \<Longrightarrow> waiting u t = waiting u s"
    "page_directory t = page_directory s" "frames t = frames s" "boot_block t = boot_block s"
proof -
  have p: "procs_ok s" using assms(1) by (simp add: booted_def process_ok_def)
  have tree: "tree_shape t = tree_shape s" "procs_ok t"
    using proc_shape_tree [OF _ p] dev_shape_eqD [OF assms(2)] proc_shape_ok [OF _ p] by blast+
  show "booted n t" by (rule booted_tree [OF assms(1) tree])
  show c: "terminalInstantiated t = terminalInstantiated s" "doneInstantiating t = doneInstantiating s"
    "scheduled_term t = scheduled_term s" "boot_block t = boot_block s"
    using tree(1) by (simp_all add: tree_shape_def proc_sizes_def)
  show "page_directory t = page_directory s" "frames t = frames s" using dev_shape_eqD [OF assms(2)] by simp_all
  have d: "curr_pid_for_term t = curr_pid_for_term s" using tree(1) by (simp add: tree_shape_def)
  show "waiting u t = waiting u s" if "u < 3"
  proof -
    have "curr_pid_for_term s ! u < length (pcbs s)" using that p by (simp add: procs_ok_def)
    then show ?thesis using tree_shape_regs(3,4) [OF tree(1)] d by (simp add: waiting_def)
  qed
qed

lemma booted_instantiated [simp]:
  "booted n (s\<lparr>terminalInstantiated := i\<rparr>) = booted n s" "waiting u (s\<lparr>terminalInstantiated := i\<rparr>) = waiting u s"
  "booted n (s\<lparr>doneInstantiating := d\<rparr>) = booted n s" "waiting u (s\<lparr>doneInstantiating := d\<rparr>) = waiting u s"
  by (simp_all add: booted_def parent_of_def waiting_def)

lemma boot_tick:
  assumes "booted n s" "n \<in> {1, 2}" "scheduled_term s = n - 1" "length (terminalInstantiated s) = 3"
    "terminalInstantiated s ! n = 0"
    and "pit_handler fr command e b s = Some (s', Iret_user e' k')"
  shows "booted (n + 1) s'" "scheduled_term s' = n" "currentTerminal s' = n + 1"
    "terminalInstantiated s' = (terminalInstantiated s)[n := 1]" "doneInstantiating s' = doneInstantiating s"
    "user_frame s' = of_nat n + 2"
    "u < 3 \<Longrightarrow> u \<noteq> n \<Longrightarrow> waiting u s' = (if u = n - 1 then (u, e, b) else waiting u s)"
proof -
  have n: "n < 3" "next_term s = n" using assms(2,3) by (auto simp: next_term_def)
  have ok: "process_ok s" using assms(1) by (simp add: booted_def)
  let ?p = "preempted e b s"
  have P: "booted n ?p" "procs_ok ?p"
    using booted_preempted [OF assms(1)] by (simp_all add: booted_def process_ok_def)
  have "pit_handler fr command e b s = open_terminal n fr command ?p"
    using pit_handler_eq [OF ok, of fr command e b] assms(2,4,5) n(2) by auto
  then have o: "open_terminal n fr command ?p = Some (s', Iret_user e' k')" using assms(6) by simp
  obtain t where t: "dev_shape t = dev_shape ?p" "currentTerminal t = n + 1" 
    "execute fr command (t\<lparr>terminalInstantiated := (terminalInstantiated ?p)[n := 1]\<rparr>) = Some (s', Iret_user e' k')"
    by (rule open_terminal_steps [OF o P(2) n(1)])
  note D = booted_dev [OF P(1) t(1)]
  let ?u = "t\<lparr>terminalInstantiated := (terminalInstantiated s)[n := 1]\<rparr>"
  have u: "booted n ?u" "currentTerminal ?u = n + 1" using D(1) t(2) by simp_all
  note E = booted_execute [OF u(1) n(1) u(2) t(3) [unfolded preempted_fields]]
  show "booted (n + 1) s'" "scheduled_term s' = n" "currentTerminal s' = n + 1"
    "terminalInstantiated s' = (terminalInstantiated s)[n := 1]" "doneInstantiating s' = doneInstantiating s"
    "user_frame s' = of_nat n + 2"
    using E D(2-4) n(2) t(2) by simp_all
  show "u < 3 \<Longrightarrow> u \<noteq> n \<Longrightarrow> waiting u s' = (if u = n - 1 then (u, e, b) else waiting u s)"
    using E(7) [of u] D(5) [of u] waiting_preempted [OF assms(1), of u e b] assms(3) by simp
qed

text \<open>The boot sequence. When the first \<open>execute\<close> and those of the first two ticks start
  programs, whatever these do meanwhile, the third tick puts the first terminal
  on display and resumes its shell with the registers the first tick interrupted it with; the
  processes are then the three base shells, each on the stack of its own terminal, all terminals
  count as started, and the invariant of all later runs holds.\<close>

lemma boot_sequence:
  assumes "booted 0 s0" "scheduled_term s0 = 0" "currentTerminal s0 = 1"
    "terminalInstantiated s0 = [1, 0, 0]" "doneInstantiating s0 = 0"
    and "execute fr0 c0 s0 = Some (s1, Iret_user e0 k0)" "user_step\<^sup>*\<^sup>* s1 t1"
    and "pit_handler fr1 c1 e1 b1 t1 = Some (s2, Iret_user e1' k1')" "user_step\<^sup>*\<^sup>* s2 t2"
    and "pit_handler fr2 c2 e2 b2 t2 = Some (s3, Iret_user e2' k2')" "user_step\<^sup>*\<^sup>* s3 t3"
    and "pit_handler fr3 c3 e3 b3 t3 = Some (s4, out)"
  shows "out = Resume e1 b1 \<and> stacks_ok [[0], [1], [2]] s4 \<and> process_ok s4 \<and> all_started s4
    \<and> scheduled_term s4 = 0 \<and> currentTerminal s4 = 1 \<and> user_frame s4 = 2"
proof -
  have a: "0 < (3 :: nat)" "currentTerminal s0 = 0 + 1" using assms(3) by simp_all
  note A = booted_execute [OF assms(1) a assms(6)]
  note A' = booted_user [OF A(1) assms(7)]
  have b1: "booted 1 t1" using A'(1) by simp
  have t1: "(1 :: nat) \<in> {1, 2}" "scheduled_term t1 = 1 - 1" "length (terminalInstantiated t1) = 3"
    "terminalInstantiated t1 ! 1 = 0" "doneInstantiating t1 = 0"
    using A(2,4,5) A'(2-4) assms(2,4,5) by simp_all
  note B = boot_tick [OF b1 t1(1-4) assms(8)]
  have b2: "booted 2 s2" using B(1) by (simp add: numeral_2_eq_2)
  note B' = booted_user [OF b2 assms(9)]
  have t2: "(2 :: nat) \<in> {1, 2}" "scheduled_term t2 = 2 - 1" "length (terminalInstantiated t2) = 3"
    "terminalInstantiated t2 ! 2 = 0" "doneInstantiating t2 = 0"
    using A(4) A'(3) B(2,4,5) B'(2-4) assms(4) t1(5) by (simp_all add: numeral_2_eq_2)
  note C = boot_tick [OF B'(1) t2(1-4) assms(10)]
  have b3: "booted 3 s3" using C(1) by (simp add: numeral_3_eq_3 numeral_2_eq_2)
  note C' = booted_user [OF b3 assms(11)]
  have t3: "scheduled_term t3 = 2" "terminalInstantiated t3 = [1, 1, 1]" "doneInstantiating t3 = 0"
    using A(4) A'(3) B(4) B'(3) C(2,4,5) C'(2-4) assms(4) t2(5) by (simp_all add: numeral_2_eq_2)
  have "waiting 0 s2 = (0, e1, b1)" using B(7) [of 0] by simp
  then have "waiting 0 s3 = (0, e1, b1)" using C(7) [of 0] B'(5) [of 0] by simp
  then have w: "waiting 0 t3 = (0, e1, b1)" using C'(5) by simp
  let ?p = "preempted e3 b3 t3"
  have ok: "process_ok t3" "next_term t3 = 0" using C'(1) t3(1) by (simp_all add: booted_def next_term_def)
  have "pit_handler fr3 c3 e3 b3 t3 = show_first ?p \<bind> switch_process"
    using pit_handler_eq [OF ok(1), of fr3 c3 e3 b3] t3(2) ok(2) by simp
  then obtain v where v: "show_first ?p = Some v" "switch_process v = Some (s4, out)"
    using assms(12) by (auto split: Option.bind_splits)
  obtain x where x: "terminal_changing_handler (?p\<lparr>recentTermChoice := [3, 1]\<rparr>) = Some x"
    "v = x\<lparr>doneInstantiating := 1\<rparr>"
    using v(1) t3(3) by (auto simp: show_first_def split: Option.bind_splits)
  have P: "booted 3 ?p" "procs_ok ?p"
    using booted_preempted [OF C'(1)] by (simp_all add: booted_def process_ok_def)
  have d: "dev_shape x = dev_shape ?p" using switch_display_shape [OF x(1) P(2)] by simp
  note X = booted_dev [OF P(1) d]
  have disp: "currentTerminal v = 1" using terminal_changing_handler_display(1) [OF x(1)] x(2) by simp
  have V: "booted 3 v" "scheduled_term v = 0" "terminalInstantiated v = [1, 1, 1]" "doneInstantiating v = 1"
    "waiting 0 v = (0, e1, b1)"
    using X(1-4) X(5) [of 0] t3 ok(2) w x(2) waiting_preempted [OF C'(1), of 0 e3 b3] by simp_all
  have c: "curr_pid_for_term v = [0, 1, 2]" "length (pcbs v) = 6" "length (page_directory v) = 1024"
    using V(1) by (simp_all add: booted_def process_ok_def procs_ok_def)
  have s4: "s4 = set_tss 0 (set_user_page 0 (v\<lparr>pid := 0\<rparr>))" "out = Resume e1 b1"
    using v(2) V(2,5) c by (simp_all add: switch_process_def aget_def waiting_def)
  have "user_frame s4 = 2"
    using user_frame_set_user_page [of "v\<lparr>pid := 0\<rparr>" 0] c(3) unfolding s4(1) by simp
  moreover have "process_ok s4" "stacks_ok [[0], [1], [2]] s4"
    using V(1) booted_stacks [OF V(1)] unfolding s4(1) by (simp_all add: booted_def)
  moreover have "all_started s4" "scheduled_term s4 = 0" "currentTerminal s4 = 1"
    using V disp unfolding s4(1) all_started_def by (simp_all add: set_tss_def set_user_page_def)
  ultimately show ?thesis using s4(2) by blast
qed

section \<open>A tick does start a shell\<close>

lemma vmem_cong:
  "lowmem s' = lowmem s \<Longrightarrow> frames s' = frames s \<Longrightarrow> page_directory s' = page_directory s \<Longrightarrow> vmem s' = vmem s"
  by (rule ext) (simp add: vmem_def user_frame_def)

lemma call_ok_cong:
  "vmem s' = vmem s \<Longrightarrow> boot_block s' = boot_block s \<Longrightarrow> call_ok fr command cs s' = call_ok fr command cs s"
  by (simp add: call_ok_def)

lemma console_ok_preempted:
  assumes "console_ok s"
  shows "console_ok (preempted e b s)"
proof -
  let ?t = "saved_regs (current_pid s) e b ((cli (send_eoi 0 s))\<lparr>scheduled_term := next_term s\<rparr>)"
  have t: "console_ok ?t"
    using assms by (simp add: console_ok_def saved_regs_def cli_def send_eoi_def outb_def next_term_def)
  then have "pt_ok (page_table (set_paging_scheduling n ?t))" for n
    using set_paging_scheduling_pt console_okD(1,3) by blast
  then show ?thesis using t unfolding preempted_def by (simp add: console_ok_def)
qed

lemma console_ok_clear:
  assumes "console_ok s" "clear s = Some s'"
  shows "console_ok s'"
proof -
  have "visible s < 3" using console_okD [OF assms(1)] by simp
  then have "console_ok (s\<lparr>termScreenx := (termScreenx s)[visible s := 0], termScreeny := (termScreeny s)[visible s := 0]\<rparr>)"
    by (intro console_ok_upd [OF assms(1)]) (simp_all add: cursor_ok_def)
  then show ?thesis using assms(2) unfolding clear_correct [OF assms(1)] by (auto simp: console_ok_def)
qed

lemma preempted_memory: "vmem (preempted e b s) = vmem s" "recentTermChoice (preempted e b s) = recentTermChoice s"
  "terminal_switch_array (preempted e b s) = terminal_switch_array s"
proof -
  show "vmem (preempted e b s) = vmem s"
    by (rule vmem_cong) (simp_all add: preempted_def saved_regs_def cli_def send_eoi_def outb_def)
qed (simp_all add: preempted_def saved_regs_def cli_def send_eoi_def outb_def)

lemma open_terminal_shows:
  assumes "console_ok s" "procs_ok s" "length (terminal_switch_array s) = 3" "recentTermChoice s ! 1 \<in> {1, 2, 3}"
    and "i \<in> {1, 2}" "i < length (terminalInstantiated s)"
  obtains t where "dev_shape t = dev_shape s" "console_ok t" "currentTerminal t = i + 1" "lowmem t = lowmem s"
    "open_terminal i fr command s = execute fr command (t\<lparr>terminalInstantiated := (terminalInstantiated s)[i := 1]\<rparr>)"
    "recentTermChoice t ! 1 = i + 1"
proof -
  let ?v = "recentTermChoice s ! 1"
  have i: "i + 1 \<in> {1, 2, 3}" using assms(5) by auto
  from display_switch [OF assms(1,3,4) i] obtain u where u:
    "terminal_changing_handler (s\<lparr>recentTermChoice := [?v, i + 1]\<rparr>) = Some u" "console_ok u"
    "currentTerminal u = i + 1" "lowmem u = lowmem s"
    "recentTermChoice u = [?v, i + 1]"
    by blast
  obtain t where t: "clear u = Some t" using clear_correct [OF u(2)] by blast
  have "dev_shape u = dev_shape s" using switch_display_shape [OF u(1) assms(2)] assms(5) by auto
  then have d: "dev_shape t = dev_shape s" using con_eq_dev_shape [OF clear.frame [OF t]] by simp
  then have "terminalInstantiated t = terminalInstantiated s"
    by (simp add: dev_shape_def proc_shape_def proc_sizes_def)
  then have "open_terminal i fr command s = execute fr command (t\<lparr>terminalInstantiated := (terminalInstantiated s)[i := 1]\<rparr>)"
    using u(1) t assms(6) by (simp add: open_terminal_def aset_def)
  then show ?thesis
    using that [OF d console_ok_clear [OF u(2) t]] u(3-5) con_eq_fields(4,1,13) [OF clear.frame [OF t]] by simp
qed

lemma tick_starts:
  assumes "booted n s" "n \<in> {1, 2}" "scheduled_term s = n - 1" "length (terminalInstantiated s) = 3"
    "terminalInstantiated s ! n = 0" "console_ok s" "recentTermChoice s ! 1 \<in> {1, 2, 3}"
    and "call_ok fr command line s" "file_named (vmem s) (boot_block s) (command_name line) c" "program c"
  shows "\<exists>s'. pit_handler fr command e b s = Some (s', Iret_user (word_at c 24) 0x83FFFFC)
    \<and> booted (n + 1) s' \<and> scheduled_term s' = n \<and> currentTerminal s' = n + 1
    \<and> user_frame s' = of_nat n + 2 \<and> bytes_at (vmem s') 0x08048000 (length c) = c
    \<and> console_ok s' \<and> recentTermChoice s' ! 1 = n + 1 \<and> boot_block s' = boot_block s"
proof -
  let ?p = "preempted e b s"
  have n: "n < 3" "next_term s = n" using assms(2,3) by (auto simp: next_term_def)
  have ok: "process_ok s" using assms(1) by (simp add: booted_def)
  have P: "booted n ?p" "procs_ok ?p" "length (terminal_switch_array ?p) = 3" "recentTermChoice ?p ! 1 \<in> {1, 2, 3}"
    "n < length (terminalInstantiated ?p)"
    using booted_preempted [OF assms(1)] ok assms(4,7) n(1) preempted_memory(2,3) [of e b s]
    by (simp_all add: booted_def process_ok_def)
  obtain t where t: "dev_shape t = dev_shape ?p" "console_ok t" "currentTerminal t = n + 1" "lowmem t = lowmem ?p"
    "open_terminal n fr command ?p = execute fr command (t\<lparr>terminalInstantiated := (terminalInstantiated ?p)[n := 1]\<rparr>)"
    "recentTermChoice t ! 1 = n + 1"
    by (rule open_terminal_shows [OF console_ok_preempted [OF assms(6)] P(2-4) assms(2) P(5)])
  note D = booted_dev [OF P(1) t(1)]
  let ?u = "t\<lparr>terminalInstantiated := (terminalInstantiated s)[n := 1]\<rparr>"
  have "vmem ?u = vmem ?p" by (rule vmem_cong) (use t(4) D(6,7) in simp_all)
  then have m: "vmem ?u = vmem s" "boot_block ?u = boot_block s" using preempted_memory(1) D(8) by simp_all
  have U: "booted n ?u" "currentTerminal ?u = n + 1" using D(1) t(3) by simp_all
  then have V: "process_ok ?u" "length (pcb_arr ?u) = 6" "length (parent_pid_for_term ?u) = 3"
    using n(1) unfolding booted_def by simp_all
  have W: "call_ok fr command line ?u" "file_named (vmem ?u) (boot_block ?u) (command_name line) c"
    using assms(8,9) call_ok_cong [OF m] m by simp_all
  obtain x y where x: "execute fr command ?u = Some (iret_user (word_at c 24) (USR_MEM_VIRT_ADDR + MB4 - 4)
      (cli (started fr (currentTerminal ?u - 1) n x (prepared y (arguments line) ?u))))"
    "bytes_at x PROGRAM_IMG (length c) = c"
    by (rule execute_loads [OF V W assms(10) booted_free [OF U(1) n(1)]])
  have "pit_handler fr command e b s = open_terminal n fr command ?p"
    using pit_handler_eq [OF ok, of fr command e b] assms(2,4,5) n(2) by auto
  also have "\<dots> = execute fr command ?u" using t(5) by simp
  also note x(1)
  finally have r: "pit_handler fr command e b s = Some (sti (cli (started fr n n x (prepared y (arguments line) ?u))),
      Iret_user (word_at c 24) 0x83FFFFC)"
    using t(3) by (simp add: iret_user_def USR_MEM_VIRT_ADDR_def MB4_def)
  have "vmem (sti (cli (started fr n n x (prepared y (arguments line) ?u)))) = x"
    by (simp add: vmem_cong [of "sti _"] sti_def)
  moreover have "console_ok (sti (cli (started fr n n x (prepared y (arguments line) ?u))))"
    using t(2) by (simp add: console_ok_def sti_def cli_def started_def set_tss_def prepared_def)
      (simp add: set_vmem_def set_user_page_def)
  moreover have "recentTermChoice (sti (cli (started fr n n x (prepared y (arguments line) ?u)))) ! 1 = n + 1"
    using t(6) by (simp add: sti_def cli_def started_def set_tss_def prepared_def) (simp add: set_vmem_def set_user_page_def)
  moreover have "boot_block (sti (cli (started fr n n x (prepared y (arguments line) ?u)))) = boot_block s"
    using m(2) by (simp add: sti_def cli_def)
  ultimately show ?thesis using r boot_tick [OF assms(1-5) r] x(2) by (simp add: PROGRAM_IMG_def)
qed

text \<open>C19: Each of the first two ticks does start a shell: when the literal names a program on the disk
  and the console is in order, the tick that gives the processor to a terminal for the first time
  puts that terminal on display, loads the program for it, and enters it at
  its entry point in a frame of its own.\<close>

theorem tick_starts_shell:
  assumes "booted n s" "n \<in> {1, 2}" "scheduled_term s = n - 1" "length (terminalInstantiated s) = 3"
    "terminalInstantiated s ! n = 0" "console_ok s" "recentTermChoice s ! 1 \<in> {1, 2, 3}"
    and "call_ok fr command line s" "file_named (vmem s) (boot_block s) (command_name line) c" "program c"
  shows "\<exists>s'. pit_handler fr command e b s = Some (s', Iret_user (word_at c 24) 0x83FFFFC)
    \<and> booted (n + 1) s' \<and> scheduled_term s' = n \<and> currentTerminal s' = n + 1
    \<and> user_frame s' = of_nat n + 2 \<and> bytes_at (vmem s') 0x08048000 (length c) = c"
  using tick_starts [OF assms, of e b] by blast

end
