(* ===== verification/EntryProps.thy ===== *)
theory EntryProps
  imports Entry Boot
begin

text \<open>
  What \<open>entry\<close> establishes: the segment descriptors it builds, and the state in which it starts the
  first shell, from which the boot sequence of theory \<open>Boot\<close> goes on.
\<close>

section \<open>Segment descriptors\<close>

text \<open>How the processor puts base and limit of a segment together.\<close>

definition seg_base :: "seg_desc \<Rightarrow> u32" where
  "seg_base d = push_bit 24 (getf base_31_24 (snd d)) OR push_bit 16 (getf base_23_16 (snd d))
     OR getf base_15_00 (fst d)"

definition seg_limit :: "seg_desc \<Rightarrow> u32" where
  "seg_limit d = push_bit 16 (getf seg_lim_19_16 (snd d)) OR getf seg_lim_15_00 (fst d)"

lemma byte_masks:
  "(0xFF000000 :: u32) = push_bit 24 (mask 8)" "(0x00FF0000 :: u32) = push_bit 16 (mask 8)"
  "(0x000F0000 :: u32) = push_bit 16 (mask 4)" "(0x0000FFFF :: u32) = mask 16"
  by (simp_all add: mask_eq_exp_minus_1 push_bit_eq_mult)

lemma base_parts [simp]:
  "push_bit 24 (take_bit 8 (drop_bit 24 a)) AND 0xFF000000 OR push_bit 16 (take_bit 8 (drop_bit 16 a)) AND 0x00FF0000
     OR take_bit 16 a AND 0x0000FFFF = (a :: u32)"
proof (rule bit_eqI)
  fix n
  have "n - 24 < 8" "24 \<le> n \<Longrightarrow> 24 + (n - 24) = n" if "n < 32" for n :: nat using that by auto
  then show "bit (push_bit 24 (take_bit 8 (drop_bit 24 a)) AND 0xFF000000 OR push_bit 16 (take_bit 8 (drop_bit 16 a)) AND 0x00FF0000
     OR take_bit 16 a AND 0x0000FFFF) n = bit a n"
    unfolding byte_masks using bit32_bound [of a n]
    by (cases "n < 16"; cases "n < 24") (auto simp: bit_simps)
qed

lemma limit_parts [simp]:
  "push_bit 16 (take_bit 4 (drop_bit 16 l)) AND 0x000F0000 OR take_bit 16 l AND 0x0000FFFF = take_bit 20 (l :: u32)"
proof (rule bit_eqI)
  fix n
  show "bit (push_bit 16 (take_bit 4 (drop_bit 16 l)) AND 0x000F0000 OR take_bit 16 l AND 0x0000FFFF) n
      = bit (take_bit 20 l) n"
    unfolding byte_masks using bit32_bound [of l n] by (auto simp: bit_simps)
qed

lemma set_params_reads [simp]:
  "seg_base (SET_LDT_PARAMS a l d) = a" "seg_limit (SET_LDT_PARAMS a l d) = take_bit 20 l"
  "seg_base (SET_TSS_PARAMS a l d) = a" "seg_limit (SET_TSS_PARAMS a l d) = take_bit 20 l"
  by (simp_all add: SET_LDT_PARAMS_def SET_TSS_PARAMS_def seg_base_def seg_limit_def set0_def set1_def segment_defs)

text \<open>The access byte and the flags: granularity, size, reserved, available; present, privilege, system, type.\<close>

definition seg_access :: "seg_desc \<Rightarrow> u32 list" where
  "seg_access d = map (\<lambda>f. getf f (snd d)) [seg_granularity, seg_opsize, seg_reserved, seg_avail,
     seg_present, seg_dpl, seg_sys, seg_type]"

text \<open>The descriptors \<open>entry\<close> puts into the global table decode to what it was given, whatever the
  local variables held before: the base is the full 32-bit address of the table, the limit its low 20
  bits, and the access bits are those of a present local descriptor table and a present, available 32-bit
  task state segment of the kernel.\<close>

theorem segment_descriptors_decode:
  "seg_base (the_ldt_desc a l d) = a \<and> seg_limit (the_ldt_desc a l d) = take_bit 20 l
   \<and> seg_access (the_ldt_desc a l d) = [0, 1, 0, 0, 1, 0, 0, 2]
   \<and> seg_base (the_tss_desc a l d) = a \<and> seg_limit (the_tss_desc a l d) = take_bit 20 l
   \<and> seg_access (the_tss_desc a l d) = [0, 0, 0, 0, 1, 0, 0, 9]"
proof -
  have a: "seg_access (SET_LDT_PARAMS a l d) = seg_access d" "seg_access (SET_TSS_PARAMS a l d) = seg_access d" for d
    by (simp_all add: SET_LDT_PARAMS_def SET_TSS_PARAMS_def seg_access_def set0_def set1_def segment_defs)
  show ?thesis
    by (simp add: the_ldt_desc_def the_tss_desc_def a Let_def)
      (simp add: seg_access_def set0_def set1_def segment_defs)
qed

section \<open>The interrupt controllers\<close>

text \<open>A data port of a controller reads the mask last written to it.\<close>

definition pic :: "(kernel \<Rightarrow> u16 \<Rightarrow> u8) \<Rightarrow> bool" where
  "pic inb \<longleftrightarrow> (\<forall>s. inb s 0x21 = imr_after 0x21 0 (outs s) \<and> inb s 0xA1 = imr_after 0xA1 0 (outs s))"

definition masks :: "kernel \<Rightarrow> u8 \<times> u8" where
  "masks s = (imr_after 0x21 0 (outs s), imr_after 0xA1 0 (outs s))"

lemma masks_outb [simp]:
  "masks (outb v p s) = (if p = 0x21 then v else fst (masks s), if p = 0xA1 then v else snd (masks s))"
  by (simp add: masks_def outb_def)

lemma outb_masks [simp]: "master_mask (outb v p s) = master_mask s" "slave_mask (outb v p s) = slave_mask s"
  by (simp_all add: outb_def)

lemma masks_cong: "outs s' = outs s \<Longrightarrow> masks s' = masks s"
  by (simp add: masks_def)

lemma masks_enable:
  assumes "pic inb"
  shows "irq < 8 \<Longrightarrow> masks (enable_irq (inb s) irq s) = (ucast (ucast (fst (masks s)) AND NOT (shl1 irq)), snd (masks s))"
    "\<not> irq < 8 \<Longrightarrow> masks (enable_irq (inb s) irq s) = (fst (masks s), ucast (ucast (snd (masks s)) AND NOT (shl1 (irq - 8))))"
  using assms by (simp_all add: enable_irq_def MASTER_8259_PORT_def SLAVE_8259_PORT_def pic_def)
    (simp_all add: masks_def)

lemma init_masks:
  assumes "pic inb"
  shows "masks (i8259_init inb s) = (master_mask s AND NOT 4, slave_mask s)"
    "masks (keyboard_init inb s) = (fst (masks s) AND NOT 2, snd (masks s))"
    "masks (rtc_init inb s) = (fst (masks s), snd (masks s) AND NOT 1)"
    "masks (pit_init inb s) = (fst (masks s) AND NOT 1, snd (masks s))"
proof -
  have k: "ucast (ucast m AND NOT (shl1 n)) = m AND NOT (ucast (shl1 n))" for m n :: u8
    by (rule bit_word_eqI) (auto simp: bit_simps)
  have s: "ucast (shl1 2) = (4 :: u8)" "ucast (shl1 1) = (2 :: u8)" "ucast (shl1 0) = (1 :: u8)"
    by (simp_all add: shl1_def)
  note E = masks_enable [OF assms]
  show "masks (i8259_init inb s) = (master_mask s AND NOT 4, slave_mask s)"
    by (simp add: i8259_init_def E k s Let_def MASTER_8259_PORT_def SLAVE_8259_PORT_def)
  show "masks (keyboard_init inb s) = (fst (masks s) AND NOT 2, snd (masks s))"
    by (simp add: keyboard_init_def E k s Let_def) (simp add: masks_def)
  show "masks (rtc_init inb s) = (fst (masks s), snd (masks s) AND NOT 1)"
    by (simp add: rtc_init_def E k s Let_def RTC_PORT_def CMOS_WRITE_def)
  show "masks (pit_init inb s) = (fst (masks s) AND NOT 1, snd (masks s))"
    by (simp add: pit_init_def E k s Let_def)
qed

section \<open>The state the components are started in\<close>

lemma init_only_ports:
  "i8259_init inb s = s\<lparr>outs := outs (i8259_init inb s)\<rparr>" "rtc_init inb s = s\<lparr>outs := outs (rtc_init inb s)\<rparr>"
  "pit_init inb s = s\<lparr>outs := outs (pit_init inb s)\<rparr>"
  by (simp_all add: i8259_init_def rtc_init_def pit_init_def enable_irq_def outb_def Let_def del: if_split)

text \<open>The flags of the keyboard after its initialisation.\<close>

definition keyboard_idle :: "kernel \<Rightarrow> kernel" where
  "keyboard_idle s = s\<lparr>enter_flag := (enter_flag s)[0 := 0, 1 := 0, 2 := 0], ctrl_info := [0, 0],
     shift_flag := 0, keyboard_flags := map clear_flags (keyboard_flags s), capslock_flag := 0,
     capital_flag := 0, buf_idx := 0\<rparr>"

lemma keyboard_init_fields: "keyboard_init inb s = (keyboard_idle s)\<lparr>outs := outs (keyboard_init inb s)\<rparr>"
  by (simp add: keyboard_init_def keyboard_idle_def enable_irq_def outb_def Let_def del: if_split)

text \<open>What the boot loader and the part of \<open>entry\<close> before the components leave: every global variable has its initial value,
  but the first terminal's cursor, the interrupt flag, memory and the ports may have been used by \<open>printf\<close>.\<close>

definition loaded :: "kernel \<Rightarrow> bool" where
  "loaded s \<longleftrightarrow> s = boot_state\<lparr>outs := outs s, iflag := iflag s, lowmem := lowmem s, frames := frames s, vram := vram s,
      termScreenx := [termScreenx s ! 0, 0, 0], termScreeny := [termScreeny s ! 0, 0, 0]\<rparr>
    \<and> cursor_ok (termScreenx s ! 0) (termScreeny s ! 0)"

text \<open>The state with all components set up and the cursor at home, up to ports, memory and screen.\<close>

definition initial :: "u32 \<Rightarrow> u32 \<Rightarrow> u32 \<Rightarrow> kernel" where
  "initial fs pt vpt = (paging_init pt vpt (set_boot_tss (init_file_systems fs (keyboard_idle boot_state))))
     \<lparr>termScreenx := [0, 0, 0], termScreeny := [0, 0, 0]\<rparr>"

lemma init_components_result:
  assumes "loaded s"
  obtains w where "init_components inb fs pt vpt (set_boot_tss s) = Some ((initial fs pt vpt)\<lparr>outs := w, lowmem := lowmem s, frames := frames s,
      vram := (vram s)(184 := blank (vram s 184))\<rparr>)"
    "pic inb \<Longrightarrow> imr_after 0x21 0 w = 0xF8 \<and> imr_after 0xA1 0 w = 0xFE"
proof -
  let ?x = "termScreenx s ! 0" and ?y = "termScreeny s ! 0"
  let ?a = "i8259_init inb (init_file_systems fs (set_boot_tss s))"
  let ?b = "keyboard_init inb ?a" let ?c = "rtc_init inb ?b" let ?d = "paging_init pt vpt ?c"
  have L: "s = boot_state\<lparr>outs := outs s, iflag := iflag s, lowmem := lowmem s, frames := frames s, vram := vram s,
      termScreenx := [?x, 0, 0], termScreeny := [?y, 0, 0]\<rparr>" "cursor_ok ?x ?y"
    using assms by (simp_all add: loaded_def)
  have d: "?d = (initial fs pt vpt)\<lparr>outs := outs ?c, iflag := iflag s, lowmem := lowmem s, frames := frames s, vram := vram s,
      termScreenx := [?x, 0, 0], termScreeny := [?y, 0, 0]\<rparr>"
    by (subst (1) init_only_ports(2), subst (1) keyboard_init_fields, subst (1) init_only_ports(1), subst (2) L(1))
      (simp add: initial_def paging_init_def keyboard_idle_def init_file_systems_def set_boot_tss_def)
  have init: "page_table (initial fs pt vpt) = for_entries pt_entry_init (replicate 1024 0)"
    "currentTerminal (initial fs pt vpt) = 1" "scheduled_term (initial fs pt vpt) = 0"
    "termReadFlag (initial fs pt vpt) = [0, 0, 0]"
    by (simp_all add: initial_def paging_init_def keyboard_idle_def init_file_systems_def set_boot_tss_def boot_state_def)
  have co: "console_ok ?d"
    unfolding d using L(2) pt_init_ok init
    by (auto simp: console_ok_def less_3 cursor_ok_def)
  have vis: "visible ?d = 0" unfolding d using init(2) by (simp add: visible_def)
  let ?e = "(initial fs pt vpt)\<lparr>outs := outs ?c @ cursor_writes 0 0, lowmem := lowmem s, frames := frames s,
      vram := (vram s)(184 := blank (vram s 184))\<rparr>"
  have e: "clear ?d = Some ((?e)\<lparr>iflag := iflag s\<rparr>)"
    unfolding clear_correct [OF co] vis unfolding d
    by (simp add: initial_def)
  have f: "cli ((?e)\<lparr>iflag := iflag s\<rparr>) = ?e"
    by (simp add: cli_def initial_def paging_init_def keyboard_idle_def init_file_systems_def set_boot_tss_def boot_state_def)
  have g: "init_components inb fs pt vpt (set_boot_tss s) = Some (pit_init inb ?e)"
    unfolding init_components_def Let_def e f by (simp add: e f)
  have h: "pit_init inb ?e = (initial fs pt vpt)\<lparr>outs := outs (pit_init inb ?e), lowmem := lowmem s, frames := frames s,
      vram := (vram s)(184 := blank (vram s 184))\<rparr>"
    by (subst init_only_ports(3)) simp
  have "masks (pit_init inb ?e) = (0xF8, 0xFE)" if "pic inb"
  proof -
    have "masks ?e = masks ?c" by (simp add: masks_def imr_after_def cursor_writes_def Let_def)
    moreover have "master_mask (init_file_systems fs (set_boot_tss s)) = 0xFF \<and> slave_mask (init_file_systems fs (set_boot_tss s)) = 0xFF"
      by (subst (1 2) L(1)) (simp add: init_file_systems_def set_boot_tss_def boot_state_def)
    ultimately show ?thesis using init_masks [OF that] by simp
  qed
  then show ?thesis using that [of "outs (pit_init inb ?e)"] g h by (simp add: masks_def)
qed

section \<open>The boot of the kernel\<close>

abbreviation (input) with_devices :: "(u8 \<times> u16) list \<Rightarrow> kernel \<Rightarrow> kernel \<Rightarrow> kernel" where
  "with_devices w s t \<equiv> t\<lparr>outs := w, lowmem := lowmem s, frames := frames s,
     vram := (vram s)(184 := blank (vram s 184))\<rparr>"

lemma initial_fields:
  "currentTerminal (initial fs pt vpt) = 1" "scheduled_term (initial fs pt vpt) = 0"
  "terminalInstantiated (initial fs pt vpt) = [0, 0, 0]" "doneInstantiating (initial fs pt vpt) = 0"
  "recentTermChoice (initial fs pt vpt) = [1, 1]" "\<not> iflag (initial fs pt vpt)" "boot_block (initial fs pt vpt) = fs"
  "termReadFlag (initial fs pt vpt) = [0, 0, 0]" "termScreenx (initial fs pt vpt) = [0, 0, 0]"
  "termScreeny (initial fs pt vpt) = [0, 0, 0]" "pcbs (initial fs pt vpt) = pcbs boot_state"
  "curr_pid_for_term (initial fs pt vpt) = [0, 1, 2]" "parent_pid_for_term (initial fs pt vpt) = [0, 1, 2]"
  "pcb_arr (initial fs pt vpt) = replicate 6 0" "enter_flag (initial fs pt vpt) = [0, 0, 0]"
  "length (terminal_switch_array (initial fs pt vpt)) = 3" "curr_terminal_idx (initial fs pt vpt) = 0"
  "length (args (initial fs pt vpt)) = 128" "length (page_directory (initial fs pt vpt)) = 1024"
  by (simp_all add: initial_def paging_init_def keyboard_idle_def init_file_systems_def set_boot_tss_def boot_state_def)

lemma initial_booted: "booted 0 ((with_devices w s (initial fs pt vpt))\<lparr>terminalInstantiated := i\<rparr>)"
  using boot_procs_ok by (simp add: booted_def process_ok_def procs_ok_def initial_fields)

lemma initial_paging: "paging_ok pt vpt (initial fs pt vpt)"
proof -
  have "paging_ok pt vpt (paging_init pt vpt (set_boot_tss (init_file_systems fs (keyboard_idle boot_state))))"
    by (rule paging_init_ok) (simp_all add: keyboard_idle_def init_file_systems_def set_boot_tss_def boot_state_def)
  then show ?thesis by (simp add: initial_def paging_ok_def)
qed

lemma initial_console: "console_ok ((with_devices w s (initial fs pt vpt))\<lparr>terminalInstantiated := i\<rparr>)"
  using initial_paging [of pt vpt fs] by (auto simp: console_ok_def initial_fields paging_ok_def less_3 cursor_ok_def)

lemma entry_eq:
  assumes "loaded s"
  obtains w where "entry inb fs pt vpt fr command s =
      execute fr command ((with_devices w s (initial fs pt vpt))\<lparr>terminalInstantiated := [1, 0, 0]\<rparr>)"
    "pic inb \<Longrightarrow> imr_after 0x21 0 w = 0xF8 \<and> imr_after 0xA1 0 w = 0xFE"
proof -
  obtain w where w: "init_components inb fs pt vpt (set_boot_tss s) = Some (with_devices w s (initial fs pt vpt))"
    "pic inb \<Longrightarrow> imr_after 0x21 0 w = 0xF8 \<and> imr_after 0xA1 0 w = 0xFE"
    by (rule init_components_result [OF assms, of inb fs pt vpt]) blast
  have "aset [0, 0, 0] 0 1 = Some [1, 0, 0 :: int]" by (simp add: aset_def)
  then show ?thesis using that [OF _ w(2)] by (simp add: entry_def w(1) initial_fields)
qed

text \<open>C25: the state in which \<open>entry\<close> starts the first shell. The page tables are those of
  \<open>paging_init\<close>, the screen of the first terminal is blank with its cursor at home, no process
  exists yet, interrupts are still off and exactly the lines of the timer, the keyboard, the second controller and the
  real-time clock are unmasked.\<close>

theorem entry_initialises:
  assumes "loaded s" "pic inb"
  shows "\<exists>t. entry inb fs pt vpt fr command s = execute fr command t
    \<and> booted 0 t \<and> paging_ok pt vpt t \<and> console_ok t \<and> screen_at 0 t = (0, 0, blank (vram s 184))
    \<and> terminalInstantiated t = [1, 0, 0] \<and> \<not> iflag t \<and> boot_block t = fs \<and> lowmem t = lowmem s
    \<and> (\<forall>n < 8. bit (imr_after 0x21 0 (outs t)) n \<longleftrightarrow> n \<notin> {0, 1, 2})
    \<and> (\<forall>n < 8. bit (imr_after 0xA1 0 (outs t)) n \<longleftrightarrow> n \<noteq> 0)"
proof -
  obtain w where w: "entry inb fs pt vpt fr command s =
      execute fr command ((with_devices w s (initial fs pt vpt))\<lparr>terminalInstantiated := [1, 0, 0]\<rparr>)"
    "imr_after 0x21 0 w = 0xF8" "imr_after 0xA1 0 w = 0xFE"
    by (rule entry_eq [OF assms(1), of inb fs pt vpt fr command]) (use assms(2) in blast)
  let ?t = "(with_devices w s (initial fs pt vpt))\<lparr>terminalInstantiated := [1, 0, 0]\<rparr>"
  have "bit (0xF8 :: u8) n \<longleftrightarrow> n \<notin> {0, 1, 2}" "bit (0xFE :: u8) n \<longleftrightarrow> n \<noteq> 0" if "n < 8" for n
  proof -
    from that have "n = 0 \<or> n = 1 \<or> n = 2 \<or> n = 3 \<or> n = 4 \<or> n = 5 \<or> n = 6 \<or> n = 7" by auto
    then show "bit (0xF8 :: u8) n \<longleftrightarrow> n \<notin> {0, 1, 2}" "bit (0xFE :: u8) n \<longleftrightarrow> n \<noteq> 0" by (elim disjE; simp)+
  qed
  moreover have "video_page 184 ?t = 184"
    using paging_init_frames(1) [of "set_boot_tss (init_file_systems fs (keyboard_idle boot_state))" 184 pt vpt]
    by (simp add: video_page_def initial_def)
      (simp add: keyboard_idle_def init_file_systems_def set_boot_tss_def boot_state_def)
  moreover have "paging_ok pt vpt ?t" using initial_paging by (simp add: paging_ok_def)
  ultimately show ?thesis
    using w initial_booted [where w = w and s = s and fs = fs and pt = pt and vpt = vpt and i = "[1, 0, 0]"] initial_console [where w = w and s = s and fs = fs and pt = pt and vpt = vpt and i = "[1, 0, 0]"]
    by (intro exI [of _ ?t]) (simp add: screen_at_def initial_fields)
qed


end
