(* ===== verification/InterruptProps.thy ===== *)
theory InterruptProps
  imports Interrupts KernelRuns
begin

text \<open>
  What the interrupt descriptor table and the handlers behind it guarantee: which handler each
  vector reaches and with which privileges, what an exception does to the program that raised it,
  and that no software interrupt with any registers breaks the invariant of the processes.
\<close>

section \<open>How the processor reads a gate\<close>

text \<open>The processor's side: a vector is delivered through the descriptor at its index. It raises a
  general protection exception when the descriptor is no 32-bit gate or when a program without the
  gate's privilege asks for it, and segment-not-present when the gate is not there. Otherwise
  it enters the handler at the gate's selector and offset; an interrupt gate disables interrupts.\<close>

abbreviation (input) GP :: nat where "GP \<equiv> 13"
abbreviation (input) NP :: nat where "NP \<equiv> 11"

definition gate_offset :: "idt_desc \<Rightarrow> u32" where
  "gate_offset d = push_bit 16 (getf offset_31_16 (snd d)) OR getf offset_15_00 (fst d)"

definition is_gate :: "idt_desc \<Rightarrow> bool" where
  "is_gate d \<longleftrightarrow> getf reserved0 (snd d) = 0 \<and> getf gate_size (snd d) = 1
     \<and> getf reserved1 (snd d) = 1 \<and> getf reserved2 (snd d) = 1"

definition deliver :: "bool \<Rightarrow> idt_desc \<Rightarrow> nat + u32 \<times> u32 \<times> bool" where
  "deliver user d =
     (if \<not> is_gate d \<or> (user \<and> getf gate_dpl (snd d) < 3) then Inl GP
      else if getf gate_present (snd d) = 0 then Inl NP
      else Inr (getf seg_selector (fst d), gate_offset d, getf reserved3 (snd d) = 0))"

section \<open>The table\<close>

text \<open>A loop that updates distinct entries of an array one by one.\<close>

lemma fold_entry:
  assumes "distinct (map k xs)" "v < length t"
  shows "fold (\<lambda>x t. t[k x := g x (t ! k x)]) xs t ! v
      = (case find (\<lambda>x. k x = v) xs of None \<Rightarrow> t ! v | Some x \<Rightarrow> g x (t ! v))
    \<and> length (fold (\<lambda>x t. t[k x := g x (t ! k x)]) xs t) = length t"
  using assms
proof (induction xs arbitrary: t)
  case (Cons x xs)
  have "find (\<lambda>y. k y = v) xs = None" if "k x = v"
    using that Cons.prems(1) by (simp add: find_None_iff) (metis imageI)
  then show ?case
    using Cons by (auto simp: nth_list_update split: option.splits)
qed simp

lemma fold_entry_nth:
  assumes "distinct (map k xs)" "v < length t" "\<And>x t. x \<in> set xs \<Longrightarrow> h x t = t[k x := g x (t ! k x)]"
  shows "fold h xs t ! v = (case find (\<lambda>x. k x = v) xs of None \<Rightarrow> t ! v | Some x \<Rightarrow> g x (t ! v))"
    "length (fold h xs t) = length t"
proof -
  have "fold h xs t = fold (\<lambda>x t. t[k x := g x (t ! k x)]) xs t"
    by (rule fold_cong) (auto intro!: ext assms(3))
  then show "fold h xs t ! v = (case find (\<lambda>x. k x = v) xs of None \<Rightarrow> t ! v | Some x \<Rightarrow> g x (t ! v))"
    "length (fold h xs t) = length t"
    using fold_entry [OF assms(1,2), of g] by simp_all
qed

lemma find_map_of:
  "find (\<lambda>x. fst x = v) xs = map_option (Pair v) (map_of xs v)"
  by (induction xs) auto

lemma find_upt: "find (\<lambda>x. x = v) xs = (if v \<in> set xs then Some v else None)"
  by (induction xs) auto

lemma set_entries_distinct: "distinct (map fst set_entries)"
  by (simp add: set_entries_def upt_rec)

definition with_offset :: "(handler \<Rightarrow> u32) \<Rightarrow> nat \<Rightarrow> idt_desc \<Rightarrow> idt_desc" where
  "with_offset addr v d = (case map_of set_entries v of None \<Rightarrow> d | Some h \<Rightarrow> SET_IDT_ENTRY (addr h) d)"

lemma initialize_idt_nth:
  assumes "v < 256" "length idt = 256"
  shows "initialize_idt addr idt ! v =
    (if v < 20 \<and> v \<noteq> 15 then trap_gate (with_offset addr v (idt ! v))
     else if 32 \<le> v then interrupt_gate v (with_offset addr v (idt ! v))
     else with_offset addr v (idt ! v))"
proof -
  let ?a = "fold (\<lambda>(n, h) t. t[n := SET_IDT_ENTRY (addr h) (t ! n)]) set_entries idt"
  let ?b = "fold (\<lambda>i t. if i \<noteq> 15 then t[i := trap_gate (t ! i)] else t) [0..<20] ?a"
  have v: "v < length idt" using assms by simp
  note A = fold_entry_nth [OF set_entries_distinct v, of "\<lambda>(n, h) t. t[n := SET_IDT_ENTRY (addr h) (t ! n)]"
      "\<lambda>x. SET_IDT_ENTRY (addr (snd x))"]
  have a: "?a ! v = with_offset addr v (idt ! v)" "length ?a = 256"
    using A assms(2) by (auto simp: with_offset_def find_map_of split: option.splits)
  have d: "distinct (map (\<lambda>i. i) [0..<20])" "distinct (map (\<lambda>i. i) [32..<256])"
    by (simp_all del: upt_rec_numeral)
  have va: "v < length ?a" using a(2) assms(1) by simp
  note B = fold_entry_nth [OF d(1) va, of "\<lambda>i t. if i \<noteq> 15 then t[i := trap_gate (t ! i)] else t"
      "\<lambda>i d. if i \<noteq> 15 then trap_gate d else d"]
  have b: "?b ! v = (if v < 20 \<and> v \<noteq> 15 then trap_gate (?a ! v) else ?a ! v)" "length ?b = 256"
    using B a(2) by (auto simp: find_upt simp del: upt_rec_numeral)
  have vb: "v < length ?b" using b(2) assms(1) by simp
  note C = fold_entry_nth [OF d(2) vb, of "\<lambda>i t. t[i := interrupt_gate i (t ! i)]" interrupt_gate]
  show ?thesis
    using C(1) a(1) b(1) assms(1) by (auto simp: initialize_idt_def find_upt simp del: upt_rec_numeral)
qed

lemma gate_offset_set [simp]: "gate_offset (SET_IDT_ENTRY h d) = h"
proof -
  have "push_bit 16 (take_bit 16 (drop_bit 16 (h AND 0xFFFF0000))) OR take_bit 16 (h AND 0xFFFF) = h"
  proof (rule bit_eqI)
    fix n
    have m: "(0xFFFF0000 :: u32) = push_bit 16 (mask 16)" "(0xFFFF :: u32) = mask 16"
      by (simp_all add: mask_eq_exp_minus_1 push_bit_eq_mult)
    show "bit (push_bit 16 (take_bit 16 (drop_bit 16 (h AND 0xFFFF0000))) OR take_bit 16 (h AND 0xFFFF)) n = bit h n"
      unfolding m using bit32_bound [of h n] by (auto simp: bit_simps)
  qed
  then show ?thesis by (simp add: gate_offset_def SET_IDT_ENTRY_def set0_def set1_def gate_defs)
qed

lemma trap_gate_reads:
  "is_gate (trap_gate d)" "getf gate_dpl (snd (trap_gate d)) = 0" "getf gate_present (snd (trap_gate d)) = 1"
  "getf seg_selector (fst (trap_gate d)) = KERNEL_CS" "gate_offset (trap_gate d) = gate_offset d"
  "getf reserved3 (snd (trap_gate d)) = 1"
  by (simp_all add: trap_gate_def is_gate_def gate_offset_def set0_def set1_def gate_defs Let_def)

lemma interrupt_gate_reads:
  "is_gate (interrupt_gate v d)" "getf gate_dpl (snd (interrupt_gate v d)) = (if v = 128 then 3 else 0)"
  "getf gate_present (snd (interrupt_gate v d)) = (if v \<in> {32, 33, 40, 128} then 1 else 0)"
  "getf seg_selector (fst (interrupt_gate v d)) = KERNEL_CS"
  "gate_offset (interrupt_gate v d) = gate_offset d" "getf reserved3 (snd (interrupt_gate v d)) = 0"
  by (simp_all add: interrupt_gate_def is_gate_def gate_offset_def set0_def set1_def gate_defs Let_def)

lemma set_entries_lookup:
  "map_of set_entries v = (if v < 20 \<and> v \<noteq> 15 then Some (Interrupt v) else if v = 32 then Some Pit_translated
     else if v = 33 then Some Keyboard_translated else if v = 40 then Some Rtc_translated
     else if v = 128 then Some Syscall_handler else None)"
proof -
  have m: "map_of (map (\<lambda>n. (n, Interrupt n)) xs) v = (if v \<in> set xs then Some (Interrupt v) else None)" for xs
    by (induction xs) auto
  show ?thesis unfolding set_entries_def map_of_append map_add_def m by auto
qed

lemma delivered:
  assumes "v < 256" "length idt = 256" "idt ! v = (0, 0)"
  shows "deliver user (initialize_idt addr idt ! v) =
    (case map_of set_entries v of
       None \<Rightarrow> if user \<or> v < 32 then Inl GP else Inl NP
     | Some h \<Rightarrow> if user \<and> h \<noteq> Syscall_handler then Inl GP
         else Inr (KERNEL_CS, addr h, 32 \<le> v))"
proof -
  have z: "\<not> is_gate (0, 0)" by (simp add: is_gate_def getf_def fld_def gate_defs)
  show ?thesis
    unfolding initialize_idt_nth [OF assms(1,2)] with_offset_def assms(3)
    by (auto simp: set_entries_lookup deliver_def trap_gate_reads interrupt_gate_reads z)
qed



section \<open>Exceptions\<close>

lemma closing_screen:
  "closing s s' \<Longrightarrow> vram s' = vram s \<and> page_table s' = page_table s \<and> termScreenx s' = termScreenx s \<and> termScreeny s' = termScreeny s"
  by (auto simp: closing_def)

lemma released_screen [simp]:
  "vram (released p par s) = vram s" "page_table (released p par s) = page_table s" "termScreenx (released p par s) = termScreenx s"
  "termScreeny (released p par s) = termScreeny s"
  by (simp_all add: released_def cli_def) (simp_all add: set_user_page_def)

lemma halt_screen:
  assumes "halt status s = Some (s', out)" "stacks_ok cs s" "process_ok s"
  shows "vram s' = vram s \<and> page_table s' = page_table s \<and> termScreenx s' = termScreenx s \<and> termScreeny s' = termScreeny s"
proof (cases "hd (cs ! scheduled_term s) < 3")
  case True
  have "s' = sti ((cli s)\<lparr>enter_flag := (enter_flag s)[scheduled_term s := 0]\<rparr>)"
    using assms(1) unfolding halt_base [OF assms(2,3) True] by (simp add: iret_user_def)
  then show ?thesis by (simp add: sti_def cli_def)
next
  case False
  then have p: "3 \<le> hd (cs ! scheduled_term s)" by simp
  from halt_child [OF assms(2,3) refl p refl, of status] obtain u where
    "s' = set_tss (parent_of s (hd (cs ! scheduled_term s))) u"
    "closing (released (hd (cs ! scheduled_term s)) (parent_of s (hd (cs ! scheduled_term s))) s) u"
    using assms(1) by auto
  then show ?thesis using closing_screen by (fastforce simp: set_tss_def)
qed

lemma con_eq_kernel:
  assumes "con_eq s s'" "stacks_ok cs s" "process_ok s"
  shows "stacks_ok cs s'" "process_ok s'" "scheduled_term s' = scheduled_term s" "pcbs s' = pcbs s"
proof -
  have p: "procs_ok s" using assms(3) by (simp add: process_ok_def)
  have "proc_shape s' = proc_shape s" by (rule con_eq_proc_shape [OF assms(1)])
  note T = proc_shape_tree [OF this p] and P = proc_shape_ok [OF this p]
  show "stacks_ok cs s'" "process_ok s'" using tree_shape_ok [OF T P] assms(2,3) by simp_all
  show "scheduled_term s' = scheduled_term s" "pcbs s' = pcbs s" using con_eq_fields [OF assms(1)] by simp_all
qed

text \<open>The message of each exception.\<close>

definition messages :: "string list" where
  "messages =
     [''Divide Error Exception'', ''Debug Exception'', ''NMI Interrupt'', ''Breakpoint Exception'',
      ''Overflow Exception'', ''BOUND Range Exceeded Exception'', ''Invalid Opcode Exception'',
      ''Device Not Available Exception'', ''Double Fault Exception'', ''Coprocessor Segment Overrun'',
      ''Invalid TSS Exception'', ''Segment Not Present'', ''Stack Fault Exception'',
      ''General Protection Exception'', ''Page-Fault Exception'' @ [CHR 0x0A], [],
      ''x87 FPU Floating-Point Error'', ''Alignment Check Exception'', ''Machine Check'',
      ''SIMD Floating-Point Exception'']"

definition message :: "nat \<Rightarrow> u8 list" where
  "message n = map of_char (messages ! n)"

lemma exception_handlers_messages:
  "exception_handlers = map (\<lambda>n. (n, exception (messages ! n))) ([0..<15] @ [16..<20])"
  by (simp add: upt_conv_Cons exception_handlers_def messages_def interrupt_0_handler_def interrupt_1_handler_def
      interrupt_2_handler_def interrupt_3_handler_def interrupt_4_handler_def interrupt_5_handler_def
      interrupt_6_handler_def interrupt_7_handler_def interrupt_8_handler_def interrupt_9_handler_def
      interrupt_10_handler_def interrupt_11_handler_def interrupt_12_handler_def interrupt_13_handler_def
      interrupt_14_handler_def interrupt_16_handler_def interrupt_17_handler_def interrupt_18_handler_def
      interrupt_19_handler_def)

lemma messages_plain: "list_all (\<lambda>m. CHR ''%'' \<notin> set m \<and> CHR 0x08 \<notin> set m) messages"
  by (simp add: messages_def)

lemma of_char_notin:
  "CHR ''%'' \<notin> set m \<Longrightarrow> (37 :: u8) \<notin> set (map of_char m)" "CHR 0x08 \<notin> set m \<Longrightarrow> (8 :: u8) \<notin> set (map of_char m)"
proof -
  have "uint (of_char c :: u8) = of_char c" for c
    using of_int_of_char [of c, where 'a = "8 word", symmetric] by (simp add: uint_word_of_int)
  then have e: "(of_char c :: u8) = of_char d \<longleftrightarrow> c = d" for c d
    using of_char_eq_iff [of c d, where 'a = int] by metis
  have "(37 :: u8) = of_char CHR ''%''" "(8 :: u8) = of_char CHR 0x08" by simp_all
  then show "CHR ''%'' \<notin> set m \<Longrightarrow> (37 :: u8) \<notin> set (map of_char m)"
    "CHR 0x08 \<notin> set m \<Longrightarrow> (8 :: u8) \<notin> set (map of_char m)"
    using e by (auto simp del: of_char_Char)
qed

lemma exception_message:
  assumes "(n, h) \<in> set exception_handlers"
  obtains msg where "h = exception msg" "message n = map of_char msg" "37 \<notin> set (message n)" "8 \<notin> set (message n)"
proof -
  have n: "n < length messages" "h = exception (messages ! n)"
    using assms unfolding exception_handlers_messages by (auto simp: messages_def)
  have "CHR ''%'' \<notin> set (messages ! n) \<and> CHR 0x08 \<notin> set (messages ! n)"
    using messages_plain n(1) unfolding list_all_length by blast
  then show ?thesis using that [OF n(2)] of_char_notin by (simp only: message_def) blast
qed

lemma screen_at_cong:
  "vram s' = vram s \<and> page_table s' = page_table s \<and> termScreenx s' = termScreenx s
     \<and> termScreeny s' = termScreeny s \<Longrightarrow> screen_at t s' = screen_at t s"
  by (simp add: screen_at_def video_page_def)

lemma exception_run:
  assumes "stacks_ok cs s" "process_ok s" "console_ok s" "37 \<notin> set (map of_char msg :: u8 list)"
    "8 \<notin> set (map of_char msg :: u8 list)"
  obtains u where "exception msg s = halt HALTCODE u" "u = prints (map of_char msg) s"
    "stacks_ok cs u" "process_ok u" "scheduled_term u = scheduled_term s" "pcbs u = pcbs s"
proof -
  let ?u = "prints (map of_char msg) s"
  have p: "printf_loop (map of_char msg) [] 0 s = Some ?u" by (rule printf_plain [OF assms(4,5,3)])
  then have "exception msg s = halt HALTCODE ?u" by (simp add: exception_def printf_def)
  with that con_eq_kernel [OF printf_plain_frame [OF assms(4) p] assms(1,2)] show ?thesis by blast
qed

lemma exception_result:
  assumes "(n, h) \<in> set exception_handlers" "stacks_ok cs s" "process_ok s" "console_ok s" "t = scheduled_term s"
  shows "\<exists>s' out. h s = Some (s', out) \<and> process_ok s'
    \<and> screen_at (put_terminal s) s' = fold emit (message n) (screen_at (put_terminal s) s)
    \<and> (if length (cs ! t) = 1
       then out = Iret_user (eip (pcbs s ! t)) (USR_MEM_VIRT_ADDR + MB4 - 4) \<and> stacks_ok cs s'
       else let par = hd (tl (cs ! t)) in
         out = Leave_ret 256 (esp (pcbs s ! par)) (ebp (pcbs s ! par))
         \<and> stacks_ok (cs[t := tl (cs ! t)]) s' \<and> user_frame s' = of_nat par + 2)"
proof -
  obtain msg where m: "h = exception msg" "message n = map of_char msg" "37 \<notin> set (message n)" "8 \<notin> set (message n)"
    by (rule exception_message [OF assms(1)])
  obtain u where u: "exception msg s = halt HALTCODE u" "u = prints (map of_char msg) s"
    "stacks_ok cs u" "process_ok u" "scheduled_term u = scheduled_term s" "pcbs u = pcbs s"
    by (rule exception_run [OF assms(2-4) m(3,4) [unfolded m(2)]])
  have "screen_at (put_terminal s) u = fold emit (message n) (screen_at (put_terminal s) s)"
    unfolding u(2) m(2) by (rule prints_screen [OF assms(4)])
  moreover have "screen_at (put_terminal s) s' = screen_at (put_terminal s) u" if "h s = Some (s', out)" for s' out
    using screen_at_cong [OF halt_screen [OF _ u(3,4)]] that unfolding m(1) u(1) by blast
  moreover have c: "(if HALTCODE = 255 then 256 else ucast HALTCODE) = (256 :: i32)" by (simp add: HALTCODE_def)
  moreover obtain s' out where "h s = Some (s', out)" "process_ok s'"
    "if length (cs ! t) = 1
       then out = Iret_user (eip (pcbs s ! t)) (USR_MEM_VIRT_ADDR + MB4 - 4) \<and> stacks_ok cs s'
       else let par = hd (tl (cs ! t)) in
         out = Leave_ret 256 (esp (pcbs s ! par)) (ebp (pcbs s ! par))
         \<and> stacks_ok (cs[t := tl (cs ! t)]) s' \<and> user_frame s' = of_nat par + 2"
    using halt_result [OF u(3,4) refl, of HALTCODE] unfolding assms(5) u(5,6) m(1) u(1) c by blast
  ultimately show ?thesis by (intro exI [of _ s'] exI [of _ out]) simp
qed

text \<open>C9: an exception ends the program that raised it and no other. Each of the nineteen handlers prints its message
  on the terminal of the running process and halts that process: its
  parent's \<open>execute\<close> returns 256 with the parent's memory mapped again; a base
  shell is started anew. The handler itself does not fault.\<close>

theorem exception_ends_program:
  assumes "(n, h) \<in> set exception_handlers" "stacks_ok cs s" "process_ok s" "console_ok s" "t = scheduled_term s"
  shows "\<exists>s' out. h s = Some (s', out) \<and> process_ok s'
    \<and> screen_at (put_terminal s) s' = fold emit (message n) (screen_at (put_terminal s) s)
    \<and> (if length (cs ! t) = 1
       then out = Iret_user (eip (pcbs s ! t)) (USR_MEM_VIRT_ADDR + MB4 - 4) \<and> stacks_ok cs s'
       else let par = hd (tl (cs ! t)) in
         out = Leave_ret 256 (esp (pcbs s ! par)) (ebp (pcbs s ! par))
         \<and> stacks_ok (cs[t := tl (cs ! t)]) s' \<and> user_frame s' = of_nat par + 2)"
  by (rule exception_result [OF assms])

section \<open>System calls\<close>

lemma syscall_keeps_ok:
  assumes "syscall_handler fr dentry vpt irqs a b c d s = Some (s', out)" "kernel_ok s" "device_irqs irqs" "locals_ok fr s"
  shows "kernel_ok s'"
proof -
  have u: "user_step s s' \<Longrightarrow> ?thesis" using user_step_keeps_ok assms(2) by blast
  have r: "returns x = Some (s', out) \<Longrightarrow> \<exists>v. x = Some (s', v)" for x
    by (cases x) (auto simp: returns_def)
  have v: "Some (sys_vidmap vpt b s) = Some (s', w) \<Longrightarrow> ?thesis" for w
    using u user_step.user_vidmap [of s vpt b] by (metis fst_conv option.inject)
  show ?thesis
    using assms(1,2) unfolding syscall_handler_def
    by (auto split: if_splits dest!: r intro: halt_keeps_ok [OF assms(2)]
        execute_keeps_ok [OF assms(2) _ assms(4)] v
        u [OF user_read [OF _ assms(3)]] u [OF user_write] u [OF user_open] u [OF user_close] u [OF user_getargs])
qed

text \<open>What happens when a program executes \<open>int v\<close>: the processor consults the table, and enters the
  system call or the handler of the exception it raises instead.\<close>

definition software_interrupt :: "(handler \<Rightarrow> u32) \<Rightarrow> nat \<Rightarrow> frame \<Rightarrow> u32 \<Rightarrow> u32 \<Rightarrow> (kernel \<Rightarrow> kernel option) list
    \<Rightarrow> u32 \<Rightarrow> u32 \<Rightarrow> u32 \<Rightarrow> u32 \<Rightarrow> kernel \<Rightarrow> (kernel \<times> outcome) option" where
  "software_interrupt addr v fr dentry vpt irqs eax ebx ecx edx s =
     (case deliver True (initialize_idt addr boot_idt ! v) of
        Inl e \<Rightarrow> (case map_of exception_handlers e of None \<Rightarrow> None | Some h \<Rightarrow> h s)
      | Inr (selector, entry, clears) \<Rightarrow>
          if entry = addr Syscall_handler
          then syscall_handler fr dentry vpt irqs eax ebx ecx edx (if clears then cli s else s)
          else None)"

lemma exception_keeps_ok:
  assumes "(n, h) \<in> set exception_handlers" "h s = Some (s', out)" "kernel_ok s" "console_ok s"
  shows "kernel_ok s'"
proof -
  obtain cs where "stacks_ok cs s" "process_ok s" using assms(3) by (auto simp: kernel_ok_def)
  from exception_result [OF assms(1) this assms(4) refl] assms(2) show ?thesis
    by (auto simp: kernel_ok_def Let_def split: if_splits)
qed

lemma software_interrupt_eq:
  assumes "v < 256"
  shows "software_interrupt addr v fr dentry vpt irqs a b c d s =
    (if v = 128 then syscall_handler fr dentry vpt irqs a b c d (cli s) else interrupt_13_handler s)"
proof -
  have l: "length boot_idt = 256" "boot_idt ! v = (0, 0)" using assms by (simp_all add: boot_idt_def)
  have e: "map_of exception_handlers 13 = Some interrupt_13_handler" by (simp add: exception_handlers_def)
  show ?thesis
    unfolding software_interrupt_def delivered [OF assms l]
    by (auto simp: set_entries_lookup e)
qed

lemma software_interrupt_keeps_ok:
  assumes "v < 256" "kernel_ok s" "console_ok s" "device_irqs irqs" "locals_ok fr s"
    and "software_interrupt addr v fr dentry vpt irqs a b c d s = Some (s', out)"
  shows "kernel_ok s'"
proof (cases "v = 128")
  case True
  have "procs_ok (cli s)" using assms(2) by (auto simp: kernel_ok_def process_ok_def)
  then have k: "kernel_ok (cli s)" by (rule kernel_ok_same [OF assms(2) tree_shape_upd(3)])
  have "boot_block (cli s) = boot_block s" by (simp add: cli_def)
  then have l: "locals_ok fr (cli s)" using assms(5) by (simp add: locals_ok_def)
  have "syscall_handler fr dentry vpt irqs a b c d (cli s) = Some (s', out)"
    using assms(6) unfolding software_interrupt_eq [OF assms(1)] by (simp only: True simp_thms if_True)
  then show ?thesis by (rule syscall_keeps_ok [OF _ k assms(4) l])
next
  case False
  have e: "(13, interrupt_13_handler) \<in> set exception_handlers" by (simp add: exception_handlers_def)
  have "interrupt_13_handler s = Some (s', out)"
    using assms(6) unfolding software_interrupt_eq [OF assms(1)] by (simp only: False if_False)
  then show ?thesis by (rule exception_keeps_ok [OF e _ assms(2,3)])
qed


end
