(* ===== verification/ProcessWitness.thy ===== *)
theory ProcessWitness
  imports ProcessDemo EntryProps InterruptProps
begin

text \<open>The properties of processes applied to the kernel with three shells.\<close>

theorem execute_pushes_witness:
  "\<exists>s' e k. execute go_frame 0x500000 shells = Some (s', Iret_user e k)
     \<and> (\<exists>p < 6. stacks_ok ([[0], [1], [2]][0 := [p, 0]]) s')"
proof -
  obtain s' e k where x: "execute go_frame 0x500000 shells = Some (s', Iret_user e k)"
    by (rule shells_start) blast
  from execute_pushes [OF shells_stacks shells_process_ok x] x show ?thesis by auto
qed

theorem halt_pops_witness:
  "\<exists>s' out. halt 7 shells = Some (s', out) \<and> out = Iret_user 0 0x83FFFFC"
proof -
  have "eip (pcbs shells ! 0) = 0" by (simp add: shells_procs new_pcb_def ld32_def)
  then show ?thesis
    using halt_pops [OF shells_stacks shells_process_ok refl, of 7]
    by (auto simp: USR_MEM_VIRT_ADDR_def MB4_def)
qed

theorem execute_then_halt_witness:
  "\<exists>s1 e k s3. execute go_frame 0x500000 shells = Some (s1, Iret_user e k)
     \<and> halt 255 s1 = Some (s3, Leave_ret 256 0x7FDF00 0x7FDF80) \<and> stacks_ok [[0], [1], [2]] s3"
proof -
  obtain s1 e k where x: "execute go_frame 0x500000 shells = Some (s1, Iret_user e k)"
    by (rule shells_start) blast
  from execute_then_halt [OF shells_stacks shells_process_ok _ x rtranclp.rtrancl_refl, of 255] x
  show ?thesis by (auto simp: go_frame_def)
qed

theorem processes_apart_witness:
  "\<exists>s. kernel_step\<^sup>*\<^sup>* shells s \<and> curr_pid_for_term s ! 0 \<noteq> curr_pid_for_term s ! 1"
proof -
  obtain s out where "halt 0 shells = Some (s, out)"
    using halt_result [OF shells_stacks shells_process_ok refl, of 0] by blast
  then have r: "kernel_step\<^sup>*\<^sup>* shells s" by (intro r_into_rtranclp) (rule kernel_step.halt)
  from processes_apart [OF r shells_process_ok shells_stacks, of 0 1] r show ?thesis by auto
qed

theorem execute_uses_displayed_terminal_witness:
  "\<exists>s' e k. execute go_frame 0x500000 (shells\<lparr>currentTerminal := 2\<rparr>) = Some (s', Iret_user e k)
     \<and> curr_pid_for_term s' ! 0 = 0 \<and> esp (pcbs s' ! 1) = 0x7FDF00"
proof -
  let ?s = "shells\<lparr>currentTerminal := 2\<rparr>"
  have ok: "process_ok ?s" "stacks_ok [[0], [1], [2]] ?s"
    using shells_process_ok shells_stacks display_stacks(1) [where cs = "[[0], [1], [2]]" and s = shells and t = 2] display_stacks(2) [of 2 shells] by simp_all
  have v: "vmem ?s = vmem shells" by (rule ext) (simp add: vmem_def user_frame_def)
  have c: "call_ok go_frame 0x500000 [103, 111, 32, 97, 98] ?s"
    using shells_call by (simp add: call_ok_def v)
  have n: "file_named (vmem ?s) (boot_block ?s) (command_name [103, 111, 32, 97, 98]) go_code"
    using go_named by (simp add: v shells_vmem command_name_def separator_def)
  have f: "first_index 0 (pcb_arr ?s) = Some 3" by simp
  obtain s' e k where x: "execute go_frame 0x500000 ?s = Some (s', Iret_user e k)"
    by (rule execute_loads [OF ok(1) _ _ c n go_program f]) (auto simp: iret_user_def)
  have p: "current_pid ?s = 0" by (simp add: current_pid_def)
  from execute_uses_displayed_terminal [OF ok(2,1) refl _ x] x p show ?thesis
    by (auto simp: go_frame_def)
qed

theorem execute_starts_program_witness:
  "\<exists>s'. execute go_frame 0x500000 shells = Some (s', Iret_user 0x08048080 0x83FFFFC)
     \<and> user_frame s' = 5 \<and> take 2 (args s') = [97, 98] \<and> bytes_at (vmem s') 0x08048000 28 = go_code"
proof -
  have n: "file_named (vmem shells) (boot_block shells) (command_name [103, 111, 32, 97, 98]) go_code"
    using go_named by (simp add: shells_vmem command_name_def separator_def)
  have e: "word_at go_code 24 = 0x08048080" by (simp add: word_at_def ld32_def go_code_def)
  have a: "command_args [103, 111, 32, 97, 98] = [97, 98]" by (simp add: command_args_def)
  have l: "length go_code = 28" by (simp add: go_code_def)
  have free: "\<forall>q < 3. pcb_arr shells ! q \<noteq> 0" by (simp add: less_3)
  from execute_starts_program [OF shells_stacks shells_process_ok shells_call n go_program _ _ free]
  show ?thesis unfolding e a l by auto
qed


section \<open>The scheduler\<close>

definition running_shells :: kernel where
  "running_shells = shells\<lparr>terminalInstantiated := [1, 1, 1], doneInstantiating := 1\<rparr>"

lemma running_shells_ok: "kernel_ok running_shells" "all_started running_shells"
  using shells_process_ok shells_stacks by (auto simp: running_shells_def kernel_ok_def all_started_def)


theorem round_robin_witness:
  "\<exists>s1 o1 s2 o2 s3. pit_handler go_frame 0x500010 0x7FDF00 0x7FDF80 running_shells = Some (s1, o1)
     \<and> pit_handler go_frame 0x500010 1 1 s1 = Some (s2, o2)
     \<and> pit_handler go_frame 0x500010 2 2 s2 = Some (s3, Resume 0x7FDF00 0x7FDF80) \<and> current_pid s3 = 0"
proof -
  have c: "0 = current_pid running_shells" by (simp add: running_shells_def current_pid_def)
  from round_robin [OF running_shells_ok c, of go_frame "0x500010" "0x7FDF00" "0x7FDF80" 1 1 2 2]
  show ?thesis by (blast intro: rtranclp.rtrancl_refl)
qed

section \<open>Booting\<close>

abbreviation (input) go_line :: "u8 list" where "go_line \<equiv> [103, 111, 32, 97, 98]"

definition before_shells :: "nat \<Rightarrow> kernel" where
  "before_shells n = shells\<lparr>pcb_arr := replicate n 1 @ replicate (6 - n) 0, terminalInstantiated := [1, 0, 0]\<rparr>"

lemma before_shells_booted:
  assumes "n \<le> 3"
  shows "booted n (before_shells n)"
proof -
  have "process_ok (before_shells n)"
    using shells_process_ok assms unfolding process_ok_def procs_ok_def before_shells_def
    by (auto simp: nth_append nth_Cons' eval_nat_numeral split: if_splits)
  moreover have "parent_of (before_shells n) p = p" if "p < 3" for p
    using that by (auto simp: parent_of_def before_shells_def shells_procs new_pcb_def init_pcb_def less_3)
  ultimately show ?thesis using assms by (simp add: booted_def before_shells_def)
qed

lemma go_ready:
  assumes "vmem s = go_disk" "boot_block s = demo_bb"
  shows "call_ok go_frame 0x500000 go_line s" "file_named (vmem s) (boot_block s) (command_name go_line) go_code"
  using call_ok_cong [of s shells go_frame "0x500000" go_line] shells_call shells_vmem assms go_named
  by (simp_all add: command_name_def separator_def)

lemma before_shells_simps:
  "vmem (before_shells n) = go_disk" "boot_block (before_shells n) = demo_bb" "scheduled_term (before_shells n) = 0"
  "currentTerminal (before_shells n) = 1" "terminalInstantiated (before_shells n) = [1, 0, 0]"
  "doneInstantiating (before_shells n) = 0" "recentTermChoice (before_shells n) = [1, 1]"
  using vmem_cong [of "before_shells n" shells] shells_vmem
  by (simp_all add: before_shells_def) (simp_all add: shells_def ready_state_def paging_init_def boot_state_def)

lemma before_shells_console: "console_ok (before_shells n)"
  using ready_console_ok by (simp add: before_shells_def shells_def console_ok_def)

theorem tick_starts_shell_witness:
  "\<exists>s' c. pit_handler go_frame 0x500000 1 2 (before_shells 1) = Some (s', Iret_user (word_at go_code 24) 0x83FFFFC)
     \<and> currentTerminal s' = 2 \<and> user_frame s' = 3"
proof -
  have b: "booted 1 (before_shells 1)" by (rule before_shells_booted) simp
  from tick_starts_shell [OF b _ _ _ _ before_shells_console _ go_ready [OF before_shells_simps(1,2)] go_program, of 1 2]
  show ?thesis by (auto simp: before_shells_simps)
qed

text \<open>A shell that puts the memory back as it was, so that the next tick finds the command line.\<close>

definition restored :: "kernel \<Rightarrow> kernel" where
  "restored s = set_vmem go_disk s"

lemma restored_step: "user_step\<^sup>*\<^sup>* s (restored s)"
  unfolding restored_def by (rule r_into_rtranclp) (rule user_step.user_store)

lemma restored_simps [simp]:
  "vmem (restored s) = go_disk" "boot_block (restored s) = boot_block s"
  "console_ok (restored s) = console_ok s" "recentTermChoice (restored s) = recentTermChoice s"
  by (simp_all add: restored_def console_ok_def) (simp_all add: set_vmem_def)

lemma restored_tick:
  assumes "booted n s" "n \<in> {1, 2}" "scheduled_term s = n - 1" "length (terminalInstantiated s) = 3"
    "terminalInstantiated s ! n = 0" "console_ok s" "recentTermChoice s ! 1 \<in> {1, 2, 3}" "boot_block s = demo_bb"
  obtains s' where "pit_handler go_frame 0x500000 e b (restored s) = Some (s', Iret_user (word_at go_code 24) 0x83FFFFC)"
    "booted (n + 1) s'" "scheduled_term s' = n" "terminalInstantiated s' = (terminalInstantiated s)[n := 1]"
    "doneInstantiating s' = doneInstantiating s" "console_ok s'" "recentTermChoice s' ! 1 = n + 1" "boot_block s' = demo_bb"
proof -
  note R = booted_user [OF assms(1) restored_step [of s]]
  have t: "scheduled_term (restored s) = n - 1" "length (terminalInstantiated (restored s)) = 3"
    "terminalInstantiated (restored s) ! n = 0" "console_ok (restored s)" "recentTermChoice (restored s) ! 1 \<in> {1, 2, 3}"
    "boot_block (restored s) = demo_bb"
    using assms R(2,3) by simp_all
  note go = go_ready [OF restored_simps(1) t(6)]
  from tick_starts [OF R(1) assms(2) t(1-5) go go_program, of e b] obtain s' where
    s': "pit_handler go_frame 0x500000 e b (restored s) = Some (s', Iret_user (word_at go_code 24) 0x83FFFFC)"
    "booted (n + 1) s'" "scheduled_term s' = n" "console_ok s'" "recentTermChoice s' ! 1 = n + 1"
    "boot_block s' = demo_bb"
    using t(6) by auto
  show ?thesis
    using that [OF s'(1-3)] boot_tick(4,5) [OF R(1) assms(2) t(1-3) s'(1)] R(3,4) s'(4-6) by simp
qed

lemma first_shell:
  assumes "booted 0 s" "vmem s = go_disk" "boot_block s = demo_bb" "console_ok s" "scheduled_term s = 0"
    "currentTerminal s = 1" "terminalInstantiated s = [1, 0, 0]" "doneInstantiating s = 0" "recentTermChoice s = [1, 1]"
  obtains s1 where "execute go_frame 0x500000 s = Some (s1, Iret_user (word_at go_code 24) 0x83FFFFC)"
    "booted 1 s1" "scheduled_term s1 = 0" "terminalInstantiated s1 = [1, 0, 0]" "doneInstantiating s1 = 0"
    "console_ok s1" "recentTermChoice s1 = [1, 1]" "boot_block s1 = demo_bb"
proof -
  have l: "process_ok s" "length (pcb_arr s) = 6" "length (parent_pid_for_term s) = 3"
    using assms(1) by (simp_all add: booted_def)
  have f: "first_index 0 (pcb_arr s) = Some 0" using booted_free [OF assms(1)] by simp
  obtain m m' where x: "execute go_frame 0x500000 s = Some (iret_user (word_at go_code 24) (USR_MEM_VIRT_ADDR + MB4 - 4)
      (cli (started go_frame (currentTerminal s - 1) 0 m (prepared m' (arguments go_line) s))))"
    by (rule execute_loads [OF l go_ready [OF assms(2,3)] go_program f])
  let ?u = "sti (cli (started go_frame 0 0 m (prepared m' (arguments go_line) s)))"
  have e: "execute go_frame 0x500000 s = Some (?u, Iret_user (word_at go_code 24) 0x83FFFFC)"
    using x assms(6) by (simp add: iret_user_def USR_MEM_VIRT_ADDR_def MB4_def)
  have "console_ok ?u" "recentTermChoice ?u = [1, 1]" "boot_block ?u = demo_bb"
    using assms(3,4,9)
    by (simp_all add: console_ok_def sti_def cli_def started_def set_tss_def prepared_def)
      (simp_all add: set_vmem_def set_user_page_def)
  then show ?thesis
    using that [OF e] booted_execute [OF assms(1) _ _ e] assms(5-8) by simp
qed

lemma third_tick:
  assumes "booted 3 s" "scheduled_term s = 2" "terminalInstantiated s = [1, 1, 1]" "doneInstantiating s = 0" "console_ok s"
  shows "\<exists>r. pit_handler fr command e b s = Some r"
proof -
  let ?p = "preempted e b s"
  have ok: "process_ok s" "next_term s = 0" using assms(1,2) by (simp_all add: booted_def next_term_def)
  have P: "booted 3 ?p" "procs_ok ?p" "length (terminal_switch_array ?p) = 3"
    using booted_preempted [OF assms(1)] ok(1) preempted_memory(3) by (simp_all add: booted_def process_ok_def)
  obtain x where x: "terminal_changing_handler (?p\<lparr>recentTermChoice := [3, 1]\<rparr>) = Some x"
    using display_switch [OF console_ok_preempted [OF assms(5)] P(3), of 3 1] by auto
  have d: "dev_shape x = dev_shape ?p" using switch_display_shape [OF x P(2)] by simp
  note X = booted_dev(1,4) [OF P(1) d]
  have "curr_pid_for_term x = [0, 1, 2]" "length (pcbs x) = 6" "scheduled_term x = 0"
    using X ok(2) by (simp_all add: booted_def process_ok_def procs_ok_def)
  then show ?thesis
    using pit_handler_eq [OF ok(1), of fr command e b] assms(3,4) ok(2) x
    by (simp add: show_first_def switch_process_def aget_def Let_def)
qed

text \<open>The machine after the boot loader: the disk image in memory, everything else as the C code
  initialises it.\<close>

definition loader_state :: kernel where
  "loader_state = boot_state\<lparr>lowmem := go_disk\<rparr>"

definition demo_inb :: "kernel \<Rightarrow> u16 \<Rightarrow> u8" where
  "demo_inb s p = imr_after p 0 (outs s)"

lemma loader_state_loaded: "loaded loader_state"
  by (simp add: loaded_def loader_state_def cursor_ok_def) (simp add: boot_state_def)

lemma demo_pic: "pic demo_inb"
  by (simp add: pic_def demo_inb_def)

theorem entry_initialises_witness:
  "\<exists>t. entry demo_inb demo_bb demo_pt demo_vpt go_frame 0x500000 loader_state = execute go_frame 0x500000 t
     \<and> booted 0 t \<and> lowmem t = go_disk"
  using entry_initialises [OF loader_state_loaded demo_pic, of demo_bb demo_pt demo_vpt go_frame "0x500000"]
  by (auto simp: loader_state_def)

lemma entry_starts:
  obtains s1 where "entry demo_inb demo_bb demo_pt demo_vpt go_frame 0x500000 loader_state
      = Some (s1, Iret_user (word_at go_code 24) 0x83FFFFC)"
    "booted 1 s1" "scheduled_term s1 = 0" "terminalInstantiated s1 = [1, 0, 0]" "doneInstantiating s1 = 0"
    "console_ok s1" "recentTermChoice s1 = [1, 1]" "boot_block s1 = demo_bb"
proof -
  obtain w where w: "entry demo_inb demo_bb demo_pt demo_vpt go_frame 0x500000 loader_state = execute go_frame 0x500000
      ((with_devices w loader_state (initial demo_bb demo_pt demo_vpt))\<lparr>terminalInstantiated := [1, 0, 0]\<rparr>)"
    by (rule entry_eq [OF loader_state_loaded, of demo_inb demo_bb demo_pt demo_vpt go_frame "0x500000"])
  let ?t = "(with_devices w loader_state (initial demo_bb demo_pt demo_vpt))\<lparr>terminalInstantiated := [1, 0, 0]\<rparr>"
  have "in_user_page a \<Longrightarrow> go_disk a = 0" for a
    by (auto simp: go_disk_def in_user_page_def USR_MEM_VIRT_ADDR_def MB4_def)
  then have v: "vmem ?t = go_disk" by (intro ext) (simp add: vmem_def loader_state_def boot_state_def)
  have b: "booted 0 ?t" "console_ok ?t" by (rule initial_booted, rule initial_console)
  show ?thesis
    by (rule first_shell [OF b(1) v _ b(2)]) (use w that in \<open>auto simp: initial_fields\<close>)
qed


section \<open>Memory\<close>


section \<open>Exceptions and system calls\<close>

lemma shells_console: "console_ok shells"
  using before_shells_console [of 3] by (simp add: before_shells_def console_ok_def)

lemma go_running:
  obtains s1 e k where "execute go_frame 0x500000 shells = Some (s1, Iret_user e k)"
    "stacks_ok [[3, 0], [1], [2]] s1" "process_ok s1" "console_ok s1" "scheduled_term s1 = 0"
    "esp (pcbs s1 ! 0) = 0x7FDF00" "ebp (pcbs s1 ! 0) = 0x7FDF80"
proof -
  have f: "first_index 0 (pcb_arr shells) = Some 3" by simp
  have n: "file_named (vmem shells) (boot_block shells) (command_name go_line) go_code"
    using go_named by (simp add: shells_vmem command_name_def separator_def)
  obtain m m' where x: "execute go_frame 0x500000 shells = Some (iret_user (word_at go_code 24) (USR_MEM_VIRT_ADDR + MB4 - 4)
      (cli (started go_frame (currentTerminal shells - 1) 3 m (prepared m' (arguments go_line) shells))))"
    by (rule execute_loads [OF shells_process_ok _ _ shells_call n go_program f]) simp_all
  let ?s = "prepared m' (arguments go_line) shells"
  let ?u = "sti (cli (started go_frame 0 3 m ?s))"
  have e: "execute go_frame 0x500000 shells = Some (?u, Iret_user (word_at go_code 24) (USR_MEM_VIRT_ADDR + MB4 - 4))"
    using x by (simp add: iret_user_def)
  have c: "console_ok ?u"
    using shells_console by (simp add: console_ok_def sti_def cli_def started_def set_tss_def prepared_def)
      (simp add: set_vmem_def set_user_page_def)
  have r: "scheduled_term ?u = 0" by (simp add: sti_def cli_def started_def set_tss_def prepared_def)
  from execute_result [OF shells_stacks shells_process_ok e] obtain p where p: "p < 6" "pcb_arr shells ! p = 0"
    "\<forall>q < p. pcb_arr shells ! q \<noteq> 0" "stacks_ok ([[0], [1], [2]][0 := p # [[0], [1], [2]] ! 0]) ?u" "process_ok ?u"
    by auto
  have "p = 3"
    using p(1-3) first_index_Some [OF f] by (metis linorder_neqE_nat)
  moreover have "length (pcbs ?s) = 6" "pcbs (started go_frame 0 3 m ?s) = started_pcbs go_frame 3 0 m (pcbs ?s)"
    by (simp_all add: prepared_def) (simp_all add: set_vmem_def shells_procs)
  then have "esp (pcbs ?u ! 0) = 0x7FDF00 \<and> ebp (pcbs ?u ! 0) = 0x7FDF80"
    using started_pcbs_nth [of "pcbs ?s" 3 0 0 go_frame m] by (simp add: sti_def cli_def go_frame_def)
  ultimately show ?thesis using that [OF e _ p(5) c r] p(4) by simp
qed

theorem exception_ends_program_witness:
  "\<exists>s1 s2 e k. execute go_frame 0x500000 shells = Some (s1, Iret_user e k)
     \<and> interrupt_0_handler s1 = Some (s2, Leave_ret 256 0x7FDF00 0x7FDF80) \<and> stacks_ok [[0], [1], [2]] s2"
proof -
  obtain s1 e k where s1: "execute go_frame 0x500000 shells = Some (s1, Iret_user e k)"
    "stacks_ok [[3, 0], [1], [2]] s1" "process_ok s1" "console_ok s1" "scheduled_term s1 = 0"
    "esp (pcbs s1 ! 0) = 0x7FDF00" "ebp (pcbs s1 ! 0) = 0x7FDF80"
    by (rule go_running)
  have "(0, interrupt_0_handler) \<in> set exception_handlers" by (simp add: exception_handlers_def)
  from exception_ends_program [OF this s1(2-4) s1(5) [symmetric]] s1(1,6,7) show ?thesis
    by (auto simp: Let_def)
qed


end
