(* ===== verification/LibProps.thy ===== *)
theory LibProps
  imports LibString
begin

text \<open>
  The assembly and string routines of \<open>student-distrib/lib.c\<close> against what a C programmer expects
  of them: the block routines, which work in words and on unaligned ends, against loops over
  bytes, and \<open>itoa\<close> against the reading of numerals.
\<close>

section \<open>Block routines as loops over bytes\<close>

definition fill_bytes :: "mem \<Rightarrow> u32 \<Rightarrow> u8 \<Rightarrow> nat \<Rightarrow> mem" where
  "fill_bytes m s c n = fold (\<lambda>i m. m(s + of_nat i := c)) [0..<n] m"

definition copy_bytes :: "mem \<Rightarrow> u32 \<Rightarrow> u32 \<Rightarrow> nat \<Rightarrow> mem" where
  "copy_bytes m d s n = fold (\<lambda>i m. m(d + of_nat i := m (s + of_nat i))) [0..<n] m"

lemma fill_bytes_filled: "n < 2 ^ 32 \<Longrightarrow> fill_bytes m s c n = filled m s c n"
proof (induction n)
  case (Suc n)
  then have "fill_bytes m s c (Suc n) = (filled m s c n)(s + of_nat n := c)" by (simp add: fill_bytes_def)
  also have "\<dots> = filled m s c (Suc n)"
    using within_Suc [of n s] Suc.prems by (auto simp: filled_def fun_eq_iff)
  finally show ?case .
qed (simp add: fill_bytes_def)

lemma copy_bytes_copied:
  assumes "ascending_ok d s n" "n < 2 ^ 32"
  shows "copy_bytes m d s n = copied m d s n"
  using assms
proof (induction n)
  case (Suc n)
  have a: "ascending_ok d s n" using ascending_ok_mono [OF Suc.prems(1)] by simp
  have src: "copied m d s n (s + of_nat n) = m (s + of_nat n)"
  proof -
    have "\<not> within d n (s + of_nat n)"
    proof
      assume "within d n (s + of_nat n)"
      then obtain k where k: "k < n" "s + of_nat n = d + of_nat k" by (metis withinE)
      have "s + of_nat (n - k) \<noteq> d"
        by (rule ascending_okD [OF Suc.prems(1)]) (use k Suc.prems(2) in auto)
      moreover have "of_nat (n - k) = (of_nat n - of_nat k :: u32)" using k(1) by (simp add: of_nat_diff)
      ultimately show False using k(2) by (simp add: algebra_simps)
    qed
    then show ?thesis by (simp add: copied_def)
  qed
  have "copy_bytes m d s (Suc n) = (copied m d s n)(d + of_nat n := m (s + of_nat n))"
    using Suc.IH [OF a] Suc.prems(2) src by (simp add: copy_bytes_def)
  also have "\<dots> = copied m d s (Suc n)"
    using within_Suc [of n d] Suc.prems by (auto simp: copied_def fun_eq_iff)
  finally show ?case .
qed (simp add: copy_bytes_def)



section \<open>Numbers\<close>

text \<open>C37: \<open>itoa\<close> round trips. For every radix the table of digits serves it returns, and leaves at
  the buffer a string of at most 32 digits that denotes the value in that radix; nothing
  behind the terminator is written.\<close>

theorem itoa_roundtrip:
  assumes "2 \<le> unat radix" "unat radix \<le> 36"
  shows "\<exists>m' ds. itoa m v buf radix = Some m' \<and> cstring m' buf ds \<and> read_number (unat radix) ds = unat v
    \<and> ds \<noteq> [] \<and> length ds \<le> 32 \<and> (\<forall>a. \<not> within buf (length ds + 1) a \<longrightarrow> m' a = m a)"
proof -
  let ?ds = "itoa_text (unat radix) (unat v)"
  note T = itoa_text_props [OF assms unat_lt_2p32 [of v]]
  have l: "length (?ds @ [0]) = length ?ds + 1" by simp
  show ?thesis
  proof (intro exI conjI allI impI)
    show "itoa m v buf radix = Some (poke m buf (?ds @ [0]))" by (rule itoa_poke [OF assms])
    show "cstring (poke m buf (?ds @ [0])) buf ?ds" by (rule cstring_poke) (use T in simp_all)
    fix a assume "\<not> within buf (length ?ds + 1) a"
    then show "poke m buf (?ds @ [0]) a = m a" using poke_other [of buf "?ds @ [0]" a m] unfolding l by blast
  qed (use T in simp_all)
qed

theorem itoa_roundtrip_witness:
  "\<exists>m' ds. itoa (\<lambda>a. 0) 255 0x1000 16 = Some m' \<and> cstring m' 0x1000 ds \<and> read_number 16 ds = 255"
  using itoa_roundtrip [of 16 "\<lambda>a. 0" 255 "0x1000"] by auto

end
