(* ===== verification/UserLib.thy ===== *)
theory UserLib
  imports Interrupts
begin

text \<open>
  The user level: the support library of the programs, \<open>syscalls/ece391support.c\<close>, the entry of the
  system calls from a program (\<open>syscalls/ece391syscall.S\<close>), and the programs \<open>cat\<close>, \<open>ls\<close>, \<open>hello\<close>,
  \<open>testprint\<close>, \<open>counter\<close> and \<open>shell\<close>.

  A program runs on the kernel model: its memory is what the kernel sees at its addresses, and its
  system calls are the kernel's. \<open>lit s\<close> is the address of the string literal \<open>s\<close> in the program's
  image, \<open>buf\<close> that of the buffer on its stack. A loop that may not end is a partial function,
  whose \<open>None\<close> is also the value when the program faults or waits for an interrupt that never comes.
\<close>

section \<open>The support library\<close>

partial_function (option) strlen_scan :: "mem \<Rightarrow> u32 \<Rightarrow> u32 \<Rightarrow> u32 option" where
  "strlen_scan m s len = (if m s \<noteq> 0 then strlen_scan m (s + 1) (len + 1) else Some len)"

definition ece391_strlen :: "mem \<Rightarrow> u32 \<Rightarrow> u32 option" where
  "ece391_strlen m s = strlen_scan m s 0"

partial_function (option) ece391_strcpy :: "mem \<Rightarrow> u32 \<Rightarrow> u32 \<Rightarrow> mem option" where
  "ece391_strcpy m dst src =
     (let c = m src; m = m(dst := c) in if c \<noteq> 0 then ece391_strcpy m (dst + 1) (src + 1) else Some m)"

partial_function (option) ece391_strcmp :: "mem \<Rightarrow> u32 \<Rightarrow> u32 \<Rightarrow> int option" where
  "ece391_strcmp m s1 s2 =
     (if m s1 = m s2 then (if m s1 = 0 then Some 0 else ece391_strcmp m (s1 + 1) (s2 + 1))
      else Some (uint (m s1) - uint (m s2)))"

lemma unat_pred2: "n - 1 \<noteq> (0 :: u32) \<Longrightarrow> unat (n - 2) < unat (n - 1)"
  using measure_unat [of "n - 1"] by simp

function strncmp_scan :: "mem \<Rightarrow> u32 \<Rightarrow> u32 \<Rightarrow> u32 \<Rightarrow> int" where
  "strncmp_scan m s1 s2 n =
     (if m s1 = m s2 then
        if m s1 = 0 \<or> n - 1 = 0 then 0 else strncmp_scan m (s1 + 1) (s2 + 1) (n - 1)
      else uint (m s1) - uint (m s2))"
  by pat_completeness auto
termination
  by (relation "measure (\<lambda>(m, s1, s2, n). unat (n - 1))") (auto intro!: unat_pred2)

definition ece391_strncmp :: "mem \<Rightarrow> u32 \<Rightarrow> u32 \<Rightarrow> u32 \<Rightarrow> int" where
  "ece391_strncmp m s1 s2 n = (if n = 0 then 0 else strncmp_scan m s1 s2 n)"


declare strncmp_scan.simps [simp del]

definition ece391_strrev :: "mem \<Rightarrow> u32 \<Rightarrow> mem option" where
  "ece391_strrev m s = do {
     len \<leftarrow> ece391_strlen m s;
     let end' = sint (len - 1);
     if end' \<le> 0 then Some m else Some (strrev_loop m s 0 end')
   }"

definition ece391_itoa :: "mem \<Rightarrow> u32 \<Rightarrow> u32 \<Rightarrow> i32 \<Rightarrow> mem option" where
  "ece391_itoa m value buf radix =
     (if value = 0 then Some (m(buf := of_char (CHR ''0''), buf + 1 := 0))
      else do {
        (m, newbuf) \<leftarrow> itoa_loop m value buf radix;
        ece391_strrev (m(newbuf := 0)) buf
      })"

section \<open>System calls\<close>

text \<open>\<open>int $0x80\<close> with the call number in \<open>eax\<close>: the gate disables interrupts, the return to the program
  enables them. A call that does not return here (\<open>halt\<close>, a successful \<open>execute\<close>) is \<open>None\<close>. The locals
  of \<open>open\<close> and \<open>execute\<close> in the kernel and the page table of \<open>vidmap\<close> are the record \<open>locals\<close>.\<close>

record locals =
  lo_frame :: frame
  lo_dentry :: u32
  lo_vpt :: u32

type_synonym irqs = "(kernel \<Rightarrow> kernel option) list"

definition do_call :: "locals \<Rightarrow> u32 \<Rightarrow> irqs \<Rightarrow> u32 \<Rightarrow> u32 \<Rightarrow> u32 \<Rightarrow> kernel \<Rightarrow> (kernel \<times> i32) option" where
  "do_call lo number irqs ebx ecx edx s =
     (case syscall_handler (lo_frame lo) (lo_dentry lo) (lo_vpt lo) irqs number ebx ecx edx (cli s) of
        Some (s, Return v) \<Rightarrow> Some (sti s, v)
      | _ \<Rightarrow> None)"

definition ece391_read where "ece391_read lo fd buf n irqs = do_call lo 3 irqs fd buf n"
definition ece391_write where "ece391_write lo fd buf n = do_call lo 4 [] fd buf n"
definition ece391_open where "ece391_open lo fn = do_call lo 5 [] fn 0 0"
definition ece391_close where "ece391_close lo fd = do_call lo 6 [] fd 0 0"
definition ece391_getargs where "ece391_getargs lo buf n = do_call lo 7 [] buf n 0"

definition ece391_fdputs :: "locals \<Rightarrow> i32 \<Rightarrow> u32 \<Rightarrow> kernel \<Rightarrow> kernel option" where
  "ece391_fdputs lo fd p s = do {
     len \<leftarrow> ece391_strlen (vmem s) p;
     (s, _) \<leftarrow> ece391_write lo fd p len s;
     Some s
   }"

text \<open>A store of the program to its own memory.\<close>

definition store :: "u32 \<Rightarrow> u8 \<Rightarrow> kernel \<Rightarrow> kernel" where
  "store p v s = set_vmem ((vmem s)(p := v)) s"

text \<open>The result of \<open>main\<close> after a message.\<close>

definition fail_with :: "locals \<Rightarrow> u32 \<Rightarrow> i32 \<Rightarrow> kernel \<Rightarrow> (kernel \<times> i32) option" where
  "fail_with lo p code s = do { s \<leftarrow> ece391_fdputs lo 1 p s; Some (s, code) }"

section \<open>Programs\<close>

text \<open>\<open>cat\<close>. Its \<open>k\<close>-th read waits through the interrupts \<open>irqs k\<close> (a file needs none).\<close>

partial_function (option) cat_loop :: "locals \<Rightarrow> (string \<Rightarrow> u32) \<Rightarrow> u32 \<Rightarrow> i32 \<Rightarrow> (nat \<Rightarrow> irqs) \<Rightarrow> nat
    \<Rightarrow> kernel \<Rightarrow> (kernel \<times> i32) option" where
  "cat_loop lo lit buf fd irqs k s = do {
     (s, cnt) \<leftarrow> ece391_read lo fd buf 1024 (irqs k) s;
     if cnt = 0 then Some (s, 0)
     else if cnt = -1 then fail_with lo (lit (''file read failed'' @ [CHR 0x0A])) 3 s
     else do {
       (s, w) \<leftarrow> ece391_write lo 1 buf cnt s;
       if w = -1 then Some (s, 3) else cat_loop lo lit buf fd irqs (Suc k) s
     }
   }"

definition cat_main :: "locals \<Rightarrow> (string \<Rightarrow> u32) \<Rightarrow> u32 \<Rightarrow> (nat \<Rightarrow> irqs) \<Rightarrow> kernel \<Rightarrow> (kernel \<times> i32) option" where
  "cat_main lo lit buf irqs s = do {
     (s, r) \<leftarrow> ece391_getargs lo buf 1024 s;
     if r \<noteq> 0 then fail_with lo (lit (''could not read arguments'' @ [CHR 0x0A])) 3 s
     else do {
       (s, fd) \<leftarrow> ece391_open lo buf s;
       if fd = -1 then fail_with lo (lit (''file not found'' @ [CHR 0x0A])) 2 s
       else cat_loop lo lit buf fd irqs 0 s
     }
   }"

text \<open>\<open>ls\<close>: one directory entry per read, each written with a new line.\<close>

partial_function (option) ls_loop :: "locals \<Rightarrow> (string \<Rightarrow> u32) \<Rightarrow> u32 \<Rightarrow> i32 \<Rightarrow> kernel \<Rightarrow> (kernel \<times> i32) option" where
  "ls_loop lo lit buf fd s = do {
     (s, cnt) \<leftarrow> ece391_read lo fd buf 32 [] s;
     if cnt = 0 then Some (s, 0)
     else if cnt = -1 then fail_with lo (lit (''directory entry read failed'' @ [CHR 0x0A])) 3 s
     else do {
       let s = store (buf + cnt) 0x0A s;
       (s, w) \<leftarrow> ece391_write lo 1 buf (cnt + 1) s;
       if w = -1 then Some (s, 3) else ls_loop lo lit buf fd s
     }
   }"

definition ls_main :: "locals \<Rightarrow> (string \<Rightarrow> u32) \<Rightarrow> u32 \<Rightarrow> kernel \<Rightarrow> (kernel \<times> i32) option" where
  "ls_main lo lit buf s = do {
     (s, fd) \<leftarrow> ece391_open lo (lit ''.'') s;
     if fd = -1 then fail_with lo (lit (''directory open failed'' @ [CHR 0x0A])) 2 s
     else ls_loop lo lit buf fd s
   }"

definition testprint_main :: "locals \<Rightarrow> (string \<Rightarrow> u32) \<Rightarrow> kernel \<Rightarrow> (kernel \<times> i32) option" where
  "testprint_main lo lit s = do {
     s \<leftarrow> ece391_fdputs lo 1 (lit (''Hello, if this ran, the program was correct. Yay!'' @ [CHR 0x0A])) s;
     Some (s, 0)
   }"

definition hello_main :: "locals \<Rightarrow> (string \<Rightarrow> u32) \<Rightarrow> u32 \<Rightarrow> irqs \<Rightarrow> kernel \<Rightarrow> (kernel \<times> i32) option" where
  "hello_main lo lit buf irqs s = do {
     s \<leftarrow> ece391_fdputs lo 1 (lit (''Hi, what'' @ [CHR 0x27] @ ''s your name? '')) s;
     (s, cnt) \<leftarrow> ece391_read lo 0 buf 1023 irqs s;
     if cnt = -1 then fail_with lo (lit (''Can'' @ [CHR 0x27] @ ''t read name from keyboard.'' @ [CHR 0x0A])) 3 s
     else do {
       let s = store (buf + cnt) 0 s;
       s \<leftarrow> ece391_fdputs lo 1 (lit ''Hello, '') s;
       s \<leftarrow> ece391_fdputs lo 1 buf s;
       Some (s, 0)
     }
   }"

text \<open>\<open>counter\<close>: the numbers from 1 to a limit the user chooses.\<close>

definition counter_max :: "u8 \<Rightarrow> nat" where
  "counter_max c = (if c = 0x30 then 100 else if c = 0x31 then 10000 else if c = 0x32 then 100000 else 0)"

definition counter_step :: "locals \<Rightarrow> (string \<Rightarrow> u32) \<Rightarrow> u32 \<Rightarrow> nat \<Rightarrow> kernel \<Rightarrow> kernel option" where
  "counter_step lo lit buf i s = do {
     m \<leftarrow> ece391_itoa (vmem s) (of_nat i + 1) buf 10;
     s \<leftarrow> ece391_fdputs lo 1 buf (set_vmem m s);
     ece391_fdputs lo 1 (lit [CHR 0x0A]) s
   }"

definition counter_main :: "locals \<Rightarrow> (string \<Rightarrow> u32) \<Rightarrow> u32 \<Rightarrow> irqs \<Rightarrow> kernel \<Rightarrow> (kernel \<times> i32) option" where
  "counter_main lo lit buf irqs s = do {
     s \<leftarrow> ece391_fdputs lo 1
       (lit (''Enter the Test Number: (0): 100, (1): 10000, (2): 100000'' @ [CHR 0x0A])) s;
     (s, cnt) \<leftarrow> ece391_read lo 0 buf 1023 irqs s;
     if cnt = -1 then fail_with lo (lit (''Can'' @ [CHR 0x27] @ ''t read the number from keyboard.'' @ [CHR 0x0A])) 3 s
     else do {
       let s = store (buf + cnt) 0 s;
       len \<leftarrow> ece391_strlen (vmem s) buf;
       if len > 2 \<or> (len = 2 \<and> (vmem s buf < 0x30 \<or> vmem s buf > 0x32))
       then fail_with lo (lit (''Wrong Choice!'' @ [CHR 0x0A])) 0 s
       else do {
         s \<leftarrow> foldM (counter_step lo lit buf) [0..<counter_max (vmem s buf)] s;
         Some (s, 0)
       }
     }
   }"

text \<open>The shell. Its loop is split at the call of \<open>execute\<close>, which enters another program: \<open>shell_start\<close> is
  the part before the loop, \<open>shell_prompt\<close> the part of the loop before the call, with the command in \<open>buf\<close> when a command is to be run, and \<open>shell_report\<close> the
  part after it, for the value \<open>execute\<close> returned.\<close>

definition shell_start :: "locals \<Rightarrow> (string \<Rightarrow> u32) \<Rightarrow> kernel \<Rightarrow> kernel option" where
  "shell_start lo lit = ece391_fdputs lo 1 (lit (''Starting 391 Shell'' @ [CHR 0x0A]))"

datatype shell_action = Leave i32 | Next_line | Run_command

definition shell_prompt :: "locals \<Rightarrow> (string \<Rightarrow> u32) \<Rightarrow> u32 \<Rightarrow> irqs \<Rightarrow> kernel \<Rightarrow> (kernel \<times> shell_action) option" where
  "shell_prompt lo lit buf irqs s = do {
     s \<leftarrow> ece391_fdputs lo 1 (lit ''391OS> '') s;
     (s, cnt) \<leftarrow> ece391_read lo 0 buf 1023 irqs s;
     if cnt = -1 then do {
       s \<leftarrow> ece391_fdputs lo 1 (lit (''read from keyboard failed'' @ [CHR 0x0A])) s;
       Some (s, Leave 3)
     } else do {
       let cnt = (if sint cnt > 0 \<and> vmem s (buf + (cnt - 1)) = 0x0A then cnt - 1 else cnt);
       let s = store (buf + cnt) 0 s;
       c \<leftarrow> ece391_strcmp (vmem s) buf (lit ''exit'');
       if c = 0 then Some (s, Leave 0)
       else if vmem s buf = 0 then Some (s, Next_line)
       else Some (s, Run_command)
     }
   }"

definition shell_report :: "locals \<Rightarrow> (string \<Rightarrow> u32) \<Rightarrow> i32 \<Rightarrow> kernel \<Rightarrow> kernel option" where
  "shell_report lo lit rval s =
     (if rval = -1 then ece391_fdputs lo 1 (lit (''no such command'' @ [CHR 0x0A])) s
      else if rval = 256 then ece391_fdputs lo 1 (lit (''program terminated by exception'' @ [CHR 0x0A])) s
      else if rval \<noteq> 0 then ece391_fdputs lo 1 (lit (''program terminated abnormally'' @ [CHR 0x0A])) s
      else Some s)"

end
