(* ===== verification/UserProps.thy ===== *)
theory UserProps
  imports UserLib DescriptorProps ExecuteLoads
begin

text \<open>
  Properties of the user level: the support library computes what the kernel's own library does, and
  \<open>cat\<close> and \<open>ls\<close>, composed with the system calls, the file system and the console, show a file
  and the directory.
\<close>

section \<open>The support library and the kernel's library\<close>

lemma option_agree: "(\<And>r. f = Some r \<Longrightarrow> g = Some r) \<Longrightarrow> (\<And>r. g = Some r \<Longrightarrow> f = Some r) \<Longrightarrow> f = g"
  by (cases f; cases g) auto

lemma ece391_strlen_eq: "ece391_strlen m s = strlen m s"
proof -
  have a: "\<forall>s. p = s + len \<longrightarrow> strlen_from m s len = Some r" if "strlen_scan m p len = Some r" for p len r
  proof (rule strlen_scan.raw_induct [OF _ that, of "\<lambda>m p len r. \<forall>s. p = s + len \<longrightarrow> strlen_from m s len = Some r"])
    fix scan m p len r
    assume "\<And>m p len r. scan m p len = Some r \<Longrightarrow> \<forall>s. p = s + len \<longrightarrow> strlen_from m s len = Some r"
      "(if m p \<noteq> 0 then scan m (p + 1) (len + 1) else Some len) = Some r"
    then show "\<forall>s. p = s + len \<longrightarrow> strlen_from m s len = Some r"
      by (intro allI impI, subst strlen_from.simps) (simp add: add.assoc split: if_splits)
  qed
  have b: "strlen_scan m (s + len) len = Some r" if "strlen_from m s len = Some r" for s len r
  proof (rule strlen_from.raw_induct [OF _ that, of "\<lambda>m s len r. strlen_scan m (s + len) len = Some r"])
    fix scan m s len r
    assume "\<And>m s len r. scan m s len = Some r \<Longrightarrow> strlen_scan m (s + len) len = Some r"
      "(if m (s + len) \<noteq> 0 then scan m s (len + 1) else Some len) = Some r"
    then show "strlen_scan m (s + len) len = Some r"
      by (subst strlen_scan.simps) (simp add: add.assoc split: if_splits)
  qed
  have "strlen_scan m s 0 = strlen_from m s 0"
  proof (rule option_agree)
    show "strlen_from m s 0 = Some r" if "strlen_scan m s 0 = Some r" for r using a [OF that] by simp
    show "strlen_scan m s 0 = Some r" if "strlen_from m s 0 = Some r" for r using b [OF that] by simp
  qed
  then show ?thesis by (simp add: ece391_strlen_def strlen_def)
qed

lemma ece391_strcpy_eq: "ece391_strcpy m dst src = strcpy m dst src"
proof -
  have f: "\<forall>d s i. a = d + i \<longrightarrow> b = s + i \<longrightarrow> strcpy_from m d s i = Some r"
    if "ece391_strcpy m a b = Some r" for a b r
  proof (rule ece391_strcpy.raw_induct [OF _ that,
        of "\<lambda>m a b r. \<forall>d s i. a = d + i \<longrightarrow> b = s + i \<longrightarrow> strcpy_from m d s i = Some r"])
    fix cpy m a b r
    assume "\<And>m a b r. cpy m a b = Some r \<Longrightarrow> \<forall>d s i. a = d + i \<longrightarrow> b = s + i \<longrightarrow> strcpy_from m d s i = Some r"
      "(let c = m b; m = m(a := c) in if c \<noteq> 0 then cpy m (a + 1) (b + 1) else Some m) = Some r"
    then show "\<forall>d s i. a = d + i \<longrightarrow> b = s + i \<longrightarrow> strcpy_from m d s i = Some r"
      by (subst strcpy_from.simps) (auto split: if_splits simp: add.assoc Let_def)
  qed
  have g: "ece391_strcpy m (d + i) (s + i) = Some r" if "strcpy_from m d s i = Some r" for d s i r
  proof (rule strcpy_from.raw_induct [OF _ that, of "\<lambda>m d s i r. ece391_strcpy m (d + i) (s + i) = Some r"])
    fix cpy m d s i r
    assume "\<And>m d s i r. cpy m d s i = Some r \<Longrightarrow> ece391_strcpy m (d + i) (s + i) = Some r"
      "(if m (s + i) \<noteq> 0 then cpy (m(d + i := m (s + i))) d s (i + 1) else Some (m(d + i := 0))) = Some r"
    then show "ece391_strcpy m (d + i) (s + i) = Some r"
      by (subst ece391_strcpy.simps) (auto split: if_splits simp: add.assoc Let_def)
  qed
  have "ece391_strcpy m dst src = strcpy_from m dst src 0"
  proof (rule option_agree)
    show "strcpy_from m dst src 0 = Some r" if "ece391_strcpy m dst src = Some r" for r
      using f [OF that, rule_format, of dst 0 src] by simp
    show "ece391_strcpy m dst src = Some r" if "strcpy_from m dst src 0 = Some r" for r
      using g [OF that] by simp
  qed
  then show ?thesis by (simp add: strcpy_def)
qed

lemma ece391_strrev_eq: "ece391_strrev m s = strrev m s"
  by (cases "strlen m s") (simp_all add: ece391_strrev_def strrev_def ece391_strlen_eq Let_def strrev_loop.simps)

lemma ece391_itoa_eq: "ece391_itoa m value buf radix = itoa m value buf radix"
  by (simp add: ece391_itoa_def itoa_def ece391_strrev_eq)

lemma strncmp_scan_from:
  "i < n \<Longrightarrow> strncmp_scan m (s1 + i) (s2 + i) (n - i) = 0 \<longleftrightarrow> strncmp_from m s1 s2 n i = 0"
proof (induction m s1 s2 n i rule: strncmp_from.induct)
  case (1 m s1 s2 n i)
  have "n = i + 1" if "\<not> i + 1 < n"
    using that 1(2) unat_Suc32 [of i n] by (intro word_unat_eq_iff [THEN iffD2]) (simp add: word_less_nat_alt)
  then have l: "n - i - 1 = 0 \<longleftrightarrow> \<not> i + 1 < n" by (auto simp: algebra_simps)
  have e: "n - i - 1 = n - (i + 1)" "s1 + i + 1 = s1 + (i + 1)" "s2 + i + 1 = s2 + (i + 1)"
    by (simp_all add: algebra_simps)
  have z: "strncmp_from m s1 s2 n (i + 1) = 0" if "\<not> i + 1 < n"
    using that by (subst strncmp_from.simps) simp
  have u: "uint (a :: u8) = uint b \<longleftrightarrow> a = b" for a b by (simp add: word_uint_eq_iff)
  show ?case
  proof (cases "m (s1 + i) = m (s2 + i) \<and> m (s1 + i) \<noteq> 0 \<and> i + 1 < n")
    case True
    have "strncmp_scan m (s1 + (i + 1)) (s2 + (i + 1)) (n - (i + 1)) = 0
        \<longleftrightarrow> strncmp_from m s1 s2 n (i + 1) = 0"
      by (rule 1(1)) (use 1(2) True in auto)
    then show ?thesis
      using True 1(2) l by (subst strncmp_scan.simps, subst strncmp_from.simps) (simp only: e if_True if_False, simp)
  next
    case False
    then show ?thesis using l z 1(2) sint_eq8 u
      by (subst strncmp_scan.simps, subst strncmp_from.simps) auto
  qed
qed

lemma ece391_strncmp_zero: "ece391_strncmp m s1 s2 n = 0 \<longleftrightarrow> strncmp m s1 s2 n = 0"
  using strncmp_scan_from [of 0 n m s1 s2]
  by (auto simp: ece391_strncmp_def strncmp_def strncmp_from.simps word_gt_0)

lemma cstring_Cons: "cstring m p (c # cs) \<longleftrightarrow> m p = c \<and> c \<noteq> 0 \<and> cstring m (p + 1) cs \<and> length cs < 2 ^ 32 - 1"
  by (auto simp: cstring_def bytes_at_def upt_conv_Cons map_Suc_upt [symmetric] add.assoc comp_def
      simp del: upt_Suc map_Suc_upt)

lemma cstring_Nil: "cstring m p [] \<longleftrightarrow> m p = 0"
  by (simp add: cstring_def bytes_at_def)

lemma ece391_strcmp_correct:
  assumes "cstring m p cs" "cstring m q ds"
  shows "\<exists>r. ece391_strcmp m p q = Some r \<and> (r = 0 \<longleftrightarrow> cs = ds)"
  using assms
proof (induction cs arbitrary: p q ds)
  case Nil
  then show ?case
    by (cases ds; subst ece391_strcmp.simps) (auto simp: cstring_Cons cstring_Nil word_uint_eq_iff)
next
  case (Cons c cs)
  show ?case
  proof (cases ds)
    case Nil
    then show ?thesis using Cons.prems
      by (subst ece391_strcmp.simps) (auto simp: cstring_Cons cstring_Nil word_uint_eq_iff)
  next
    case (Cons d ds')
    then show ?thesis using Cons.IH [of "p + 1" "q + 1" ds'] Cons.prems
      by (subst ece391_strcmp.simps) (auto simp: cstring_Cons word_uint_eq_iff)
  qed
qed

section \<open>System calls of a program\<close>

lemma calls:
  "ece391_read lo fd buf n irqs s = map_option (\<lambda>(s, v). (sti s, v)) (sys_read fd buf n irqs (cli s))"
  "ece391_write lo fd buf n s = map_option (\<lambda>(s, v). (sti s, v)) (sys_write fd buf n (cli s))"
  "ece391_open lo fn s = map_option (\<lambda>(s, v). (sti s, v)) (sys_open fn (lo_dentry lo) (cli s))"
  "ece391_getargs lo buf n s = map_option (\<lambda>(s, v). (sti s, v)) (sys_getargs buf n (cli s))"
  by (auto simp: ece391_read_def ece391_write_def ece391_open_def ece391_getargs_def do_call_def
      syscall_handler_def returns_def split: option.splits)

text \<open>What the console of a program depends on, and does not change with its other system calls.\<close>

definition con_part :: "kernel \<Rightarrow> _" where
  "con_part s = (page_table s, currentTerminal s, scheduled_term s, termScreenx s, termScreeny s,
     termReadFlag s, keyboardPutCFlag s, vram s)"

lemma con_part_eq:
  assumes "con_part s' = con_part s"
  shows "console_ok s' = console_ok s" "put_terminal s' = put_terminal s" "screen_at t s' = screen_at t s"
  using assms by (simp_all add: con_part_def console_ok_def put_terminal_def screen_at_def visible_def video_page_def)

lemma con_part_simps [simp]:
  "con_part (cli s) = con_part s" "con_part (sti s) = con_part s" "con_part (set_vmem m s) = con_part s"
  "con_part (s\<lparr>pcbs := p\<rparr>) = con_part s" "con_part (s\<lparr>freq_count := fc\<rparr>) = con_part s"
  "con_part (s\<lparr>curr_freq := cf\<rparr>) = con_part s"
  by (simp_all add: con_part_def cli_def sti_def set_vmem_def)

definition at_work :: "nat \<Rightarrow> file_descriptor \<Rightarrow> kernel \<Rightarrow> bool" where
  "at_work fd f s \<longleftrightarrow> procs_ok s \<and> console_ok s \<and> 2 \<le> fd \<and> fd < 8
     \<and> fdArray (pcbs s ! current_pid s) ! fd = f \<and> flags f = full
     \<and> flags (fdArray (pcbs s ! current_pid s) ! 1) = full
     \<and> writeFunc (jump_table (fdArray (pcbs s ! current_pid s) ! 1)) = Terminal_write"

definition on_console :: "kernel \<Rightarrow> bool" where
  "on_console s \<longleftrightarrow> procs_ok s \<and> console_ok s
     \<and> flags (fdArray (pcbs s ! current_pid s) ! 1) = full
     \<and> writeFunc (jump_table (fdArray (pcbs s ! current_pid s) ! 1)) = Terminal_write
     \<and> length (freq_count s) = 3 \<and> length (curr_freq s) = 3"

lemma irq_flag_simps [simp]:
  "pcbs (cli s) = pcbs s" "pcbs (sti s) = pcbs s" "boot_block (cli s) = boot_block s" "boot_block (sti s) = boot_block s"
  "current_pid (cli s) = current_pid s" "current_pid (sti s) = current_pid s"
  "procs_ok (cli s) = procs_ok s" "procs_ok (sti s) = procs_ok s"
  by (simp_all add: cli_def sti_def current_pid_def procs_ok_def)

lemma at_workD:
  assumes "at_work fd f s"
  shows "get_fd fd s = Some f" "get_fd 1 s = Some (fdArray (pcbs s ! current_pid s) ! 1)"
    "unat (of_nat fd :: i32) = fd" "sint (of_nat fd :: i32) = int fd" "(of_nat fd :: i32) \<noteq> 1"
    "current_pid s < 6" "length (pcbs s) = 6" "length (fdArray (pcbs s ! current_pid s)) = 8"
proof -
  have ok: "procs_ok s" using assms by (simp add: at_work_def)
  note T = the_pcb_ok [OF ok]
  show L: "current_pid s < 6" "length (pcbs s) = 6" "length (fdArray (pcbs s ! current_pid s)) = 8"
    using T ok by (simp_all add: procs_ok_def fds_ok_def)
  then show "get_fd fd s = Some f" "get_fd 1 s = Some (fdArray (pcbs s ! current_pid s) ! 1)"
    using assms T(1) by (simp_all add: get_fd_def at_work_def)
  have f: "fd = (fd - 2) + 2" "fd - 2 < 6" using assms by (auto simp: at_work_def)
  show u: "unat (of_nat fd :: i32) = fd" "sint (of_nat fd :: i32) = int fd"
    using of_nat_fd [OF f(2)] f(1) by simp_all
  show "(of_nat fd :: i32) \<noteq> 1" using u(1) assms by (auto simp: at_work_def)
qed

lemma get_fd_irq [simp]: "get_fd fd (cli s) = get_fd fd s" "get_fd fd (sti s) = get_fd fd s"
  by (simp_all add: get_fd_def the_pcb_def cli_def sti_def)

text \<open>One read from a file or a directory.\<close>

lemma read_once:
  assumes w: "at_work fd f s" and b: "buf \<noteq> 0" and full: "flags f' = full" "jump_table f' = jump_table f"
    and rd: "readFunc (jump_table f) = Read_file \<and> read_file (vmem s) (boot_block s) f buf n = (m, f', r)
       \<or> readFunc (jump_table f) = Read_directory \<and> read_directory (vmem s) (boot_block s) f buf n = Some (m, f', r)"
  obtains s' where "\<And>irqs. ece391_read lo (of_nat fd) buf n irqs s = Some (s', r)" "at_work fd f' s'"
    "vmem s' = m" "boot_block s' = boot_block s" "con_part s' = con_part s"
    "on_console s \<Longrightarrow> on_console s'"
    "openIndexes (pcbs s' ! current_pid s') = openIndexes (pcbs s ! current_pid s)"
    "\<And>j. j \<noteq> fd \<Longrightarrow> fdArray (pcbs s' ! current_pid s') ! j = fdArray (pcbs s ! current_pid s) ! j"
proof -
  note D = at_workD [OF w]
  let ?p = "current_pid s" and ?u = "set_vmem m (sti (cli s))"
  let ?s = "?u\<lparr>pcbs := (pcbs ?u)[current_pid ?u := (pcbs ?u ! current_pid ?u)\<lparr>fdArray := (fdArray (pcbs ?u ! current_pid ?u))[fd := f']\<rparr>]\<rparr>"
  have W: "procs_ok s" "fd < 8" "2 \<le> fd" "flags f = full" using w by (auto simp: at_work_def)
  have u: "procs_ok ?u" "pcbs ?u = pcbs s" "current_pid ?u = ?p" "boot_block ?u = boot_block s"
    using W(1) by (simp_all add: set_vmem_def current_pid_def procs_ok_def cli_def sti_def)
  have vm: "vmem (sti (cli s)) = vmem s" by simp
  have pf: "put_fd fd f' ?u = Some ?s" by (rule put_fd_eq [OF u(1) W(2)])
  have r: "sys_read (of_nat fd) buf n irqs (cli s) = Some (?s, r)" for irqs
    using D(1,3-5) W b rd pf unfolding sys_read_def by (auto simp: Let_def vm)
  have "procs_ok ?s"
    using sys_read_ok [OF r [of "[]"]] W(1) by (simp add: quiet_irqs_def)
  moreover have "current_pid ?s = ?p" using u(3) by (simp add: current_pid_def)
  moreover have "con_part ?s = con_part s" by simp
  moreover have "vmem ?s = m" by simp
  ultimately have "at_work fd f' (sti ?s)"
    using w D(6-8) u(2,3) con_part_eq(1) [of "sti ?s" s] full by (simp add: at_work_def)
  moreover have q: "pcbs (sti ?s) ! current_pid (sti ?s) = (pcbs s ! ?p)\<lparr>fdArray := (fdArray (pcbs s ! ?p))[fd := f']\<rparr>"
    using \<open>current_pid ?s = ?p\<close> u(2,3) D(6,7) by simp
  moreover have "freq_count (sti ?s) = freq_count s" "curr_freq (sti ?s) = curr_freq s"
    by (simp_all add: set_vmem_def cli_def sti_def)
  moreover from calculation have "on_console s \<Longrightarrow> on_console (sti ?s)"
    using W(3) by (simp add: on_console_def at_work_def)
  ultimately show ?thesis
    using that [of "sti ?s"] r u(4) by (simp add: calls)
qed

lemma putc_result_procs [simp]:
  "boot_block (putc_result c s) = boot_block s" "curr_pid_for_term (putc_result c s) = curr_pid_for_term s"
  "pcbs (putc_result c s) = pcbs s"
  by (simp_all add: putc_result_def Let_def with_screen_def split: prod.split)

lemma prints_fields [simp]:
  "vmem (prints cs s) = vmem s" "pcbs (prints cs s) = pcbs s" "boot_block (prints cs s) = boot_block s"
  "curr_pid_for_term (prints cs s) = curr_pid_for_term s" "scheduled_term (prints cs s) = scheduled_term s"
  "currentTerminal (prints cs s) = currentTerminal s" "put_terminal (prints cs s) = put_terminal s"
  by (induction cs arbitrary: s) (simp_all add: prints_def)

lemma prints_procs [simp]:
  "current_pid (prints cs s) = current_pid s" "procs_ok (prints cs s) = procs_ok s"
  by (simp_all add: current_pid_def procs_ok_def)

text \<open>One write to the console.\<close>

lemma prints_console:
  assumes "console_ok s"
  shows "console_ok (sti (prints cs (sti (cli s))))" "put_terminal (sti (prints cs (sti (cli s)))) = put_terminal s"
    "screen_at (put_terminal s) (sti (prints cs (sti (cli s)))) = fold emit cs (screen_at (put_terminal s) s)"
proof -
  let ?u = "sti (cli s)"
  have "con_part ?u = con_part s" by simp
  note u = con_part_eq [OF this]
  have "con_part (sti (prints cs ?u)) = con_part (prints cs ?u)" by simp
  note p = con_part_eq [OF this]
  have c: "console_ok ?u" using u(1) assms by simp
  show "console_ok (sti (prints cs ?u))" using p(1) prints_ok [OF c] by simp
  show "put_terminal (sti (prints cs ?u)) = put_terminal s" using p(2) u(2) by simp
  show "screen_at (put_terminal s) (sti (prints cs ?u)) = fold emit cs (screen_at (put_terminal s) s)"
    using p(3) u(2,3) prints_screen [OF c, of cs] by simp
qed

lemma write_eq:
  assumes "procs_ok s" "console_ok s" "flags (fdArray (pcbs s ! current_pid s) ! 1) = full"
    "writeFunc (jump_table (fdArray (pcbs s ! current_pid s) ! 1)) = Terminal_write"
    and b: "buf \<noteq> 0" "0 < n" "n < 2 ^ 31" and eight: "8 \<notin> set (bytes_at (vmem s) buf n)"
  shows "ece391_write lo 1 buf (of_nat n) s
    = Some (sti (prints (filter (\<lambda>c. c \<noteq> 0) (bytes_at (vmem s) buf n)) (sti (cli s))), 0)"
proof -
  let ?u = "sti (cli s)" and ?cs = "filter (\<lambda>c. c \<noteq> 0) (bytes_at (vmem s) buf n)"
  have u: "con_part ?u = con_part s" "vmem ?u = vmem s" by simp_all
  have c: "console_ok ?u" using con_part_eq(1) [OF u(1)] assms(2) by simp
  have n: "sint (of_nat n :: i32) = int n" "nat (sint (of_nat n :: i32)) = n"
    using b(3) by (simp_all add: sint_unat32 unat_of_nat32)
  have w: "terminal_write buf (of_nat n) ?u = Some (prints ?cs ?u, 0)"
    using write_loop [OF c, of buf n] eight b by (simp add: terminal_write_def n u(2))
  have "length (pcbs s) = 6" "length (fdArray (pcbs s ! current_pid s)) = 8"
    using assms(1) the_pcb_ok(3) [OF assms(1)] by (simp_all add: procs_ok_def fds_ok_def)
  then have "get_fd 1 s = Some (fdArray (pcbs s ! current_pid s) ! 1)"
    using the_pcb_ok(1) [OF assms(1)] by (simp add: get_fd_def)
  then show ?thesis
    using w b assms(3,4) by (simp add: calls sys_write_def Let_def)
qed

lemma write_once:
  assumes w: "at_work fd f s" and b: "buf \<noteq> 0" "0 < n" "n < 2 ^ 31" and eight: "8 \<notin> set (bytes_at (vmem s) buf n)"
  obtains s' where "ece391_write lo 1 buf (of_nat n) s = Some (s', 0)" "at_work fd f s'" "vmem s' = vmem s"
    "boot_block s' = boot_block s" "put_terminal s' = put_terminal s"
    "screen_at (put_terminal s) s'
       = fold emit (filter (\<lambda>c. c \<noteq> 0) (bytes_at (vmem s) buf n)) (screen_at (put_terminal s) s)"
proof -
  let ?s = "sti (prints (filter (\<lambda>c. c \<noteq> 0) (bytes_at (vmem s) buf n)) (sti (cli s)))"
  have W: "console_ok s" using w by (simp add: at_work_def)
  have "ece391_write lo 1 buf (of_nat n) s = Some (?s, 0)"
    by (rule write_eq) (use w b eight in \<open>simp_all add: at_work_def\<close>)
  moreover have "at_work fd f ?s" using w prints_console(1) [OF W] by (simp add: at_work_def)
  ultimately show ?thesis using that [of ?s] prints_console [OF W] by simp
qed

text \<open>A message.\<close>

lemma fdputs_eq:
  assumes c: "on_console s" and p: "p \<noteq> 0" "cstring (vmem s) p cs" "cs \<noteq> []" "length cs < 2 ^ 31" "8 \<notin> set cs"
  shows "ece391_fdputs lo 1 p s = Some (sti (prints cs (sti (cli s))))"
proof -
  have b: "bytes_at (vmem s) p (length cs) = cs" "0 \<notin> set cs" using p(2) by (auto simp: cstring_def)
  then have f: "filter (\<lambda>c. c \<noteq> 0) cs = cs" by (auto simp: filter_id_conv)
  have "ece391_write lo 1 p (of_nat (length cs)) s = Some (sti (prints cs (sti (cli s))), 0)"
    by (rule write_eq [of s p "length cs" lo, unfolded b(1) f]) (use c p in \<open>simp_all add: on_console_def\<close>)
  then show ?thesis
    by (simp add: ece391_fdputs_def ece391_strlen_eq strlen_cstring [OF p(2)])
qed

text \<open>Opening a file or the directory.\<close>

lemma call_open_con: "call_open g s = Some (s', r) \<Longrightarrow> con_part s' = con_part s"
  by (cases g) (auto simp: terminal_open_def rtc_open_def con_part_def Let_def split: Option.bind_splits)

lemma sys_open_con: "sys_open fn d s = Some (s', r) \<Longrightarrow> con_part s' = con_part s"
  by (auto simp: sys_open_def put_pcb_def Let_def dest!: call_open_con
      split: if_splits option.splits Option.bind_splits)

lemma sys_open_freq:
  assumes "sys_open fn d s = Some (s', r)"
  shows "length (freq_count s') = length (freq_count s) \<and> length (curr_freq s') = length (curr_freq s)"
proof -
  have "call_open g s = Some (s', r) \<Longrightarrow> length (freq_count s') = length (freq_count s) \<and> length (curr_freq s') = length (curr_freq s)"
    for g s s' r
    by (cases g) (auto simp: terminal_open_def rtc_open_def Let_def aset_def split: Option.bind_splits if_splits)
  then show ?thesis
    using assms by (fastforce simp: sys_open_def put_pcb_def Let_def set_vmem_def split: if_splits option.splits Option.bind_splits)
qed

lemma open_once:
  assumes c: "on_console s" and "fn \<noteq> 0" "fs_ok (vmem s) (boot_block s)" "cstring (vmem s) fn cs"
    "apart (lo_dentry lo) 64 (boot_block s) (fs_size (vmem s) (boot_block s))"
    "last_named (vmem s) (boot_block s) cs k"
    "first_index empty (openIndexes (pcbs s ! current_pid s)) = Some i"
  obtains s' where "ece391_open lo fn s = Some (s', of_nat (i + 2))"
    "at_work (i + 2) (fresh_fd (vmem s) (boot_block s) k) s'" "same_image (vmem s) (vmem s') (boot_block s)"
    "boot_block s' = boot_block s" "con_part s' = con_part s" "on_console s'"
    "pcbs s' ! current_pid s' = opened i (fresh_fd (vmem s) (boot_block s) k) (cli s)"
    "\<And>a. \<not> within (lo_dentry lo) 64 a \<Longrightarrow> vmem s' a = vmem s a"
proof -
  have S: "procs_ok (cli s)" "vmem (cli s) = vmem s" "freq_count (cli s) = freq_count s" "curr_freq (cli s) = curr_freq s"
    using c by (simp_all add: on_console_def) (simp_all add: cli_def)
  have C: "procs_ok s" "console_ok s" "length (freq_count s) = 3" "length (curr_freq s) = 3"
    using c by (auto simp: on_console_def)
  let ?f = "fresh_fd (vmem s) (boot_block s) k" and ?p = "pcbs s ! current_pid s"
  from open_entry [OF S(1) assms(2), of cs "lo_dentry lo" k i] obtain s1 m where
    o: "sys_open fn (lo_dentry lo) (cli s) = Some (s1, of_nat (i + 2))"
    "dentry_copied (vmem s) m (boot_block s) k (lo_dentry lo)" "vmem s1 = m" "boot_block s1 = boot_block s"
    "pcbs s1 = (pcbs s)[current_pid s := opened i ?f (cli s)]"
    "curr_pid_for_term s1 = curr_pid_for_term (cli s)" "scheduled_term s1 = scheduled_term (cli s)" "procs_ok s1"
    using assms(3-7) C S by (simp only: irq_flag_simps) blast
  note T = the_pcb_ok [OF C(1)]
  have i: "i < 6" using first_index_Some [OF assms(7)] T(3) by (simp add: fds_ok_def)
  have L: "length (pcbs s) = 6" "length (fdArray ?p) = 8"
    using C(1) T(3) by (simp_all add: procs_ok_def fds_ok_def)
  have p: "current_pid s1 = current_pid s" using o(6,7) by (simp add: current_pid_def cli_def)
  have k: "con_part s1 = con_part s" using sys_open_con [OF o(1)] by simp
  have "at_work (i + 2) ?f (sti s1)"
    using o(5,8) p i L T(2) c con_part_eq(1) [of "sti s1" s] k C(2)
    by (simp add: at_work_def on_console_def opened_def Let_def fresh_fd_def)
  moreover from this have "on_console (sti s1)"
    using sys_open_freq [OF o(1)] C(3,4) S(3,4) by (simp add: at_work_def on_console_def) (simp add: sti_def)
  moreover have "m a = vmem s a" if "\<not> within (lo_dentry lo) 64 a" for a
    using o(2) that within_mono [of "lo_dentry lo" 40 a 64] by (auto simp: dentry_copied_def)
  moreover have "pcbs s1 ! current_pid s1 = opened i ?f (cli s)" using o(5) p L(1) T(2) by simp
  ultimately show ?thesis
    using that [of "sti s1"] o k dentry_copied_image [OF o(2) assms(5)] by (simp add: calls)
qed

text \<open>The arguments of the program.\<close>

lemma fold_poke: "fold (\<lambda>i m. m(p + of_nat i := g i)) [0..<n] m = poke m p (map g [0..<n])"
  by (induction n) (simp_all add: poke_snoc del: fun_upd_apply)

lemma getargs_once:
  assumes c: "on_console s" and "buf \<noteq> 0" "0 \<notin> set cs" "cs \<noteq> []" "length cs < 128"
    and a: "args s = cs @ replicate (128 - length cs) 0"
  obtains s' where "ece391_getargs lo buf 1024 s = Some (s', 0)" "cstring (vmem s') buf cs"
    "\<And>x. \<not> within buf 1024 x \<Longrightarrow> vmem s' x = vmem s x" "on_console s'" "boot_block s' = boot_block s"
    "pcbs s' = pcbs s" "current_pid s' = current_pid s" "con_part s' = con_part s"
proof -
  let ?g = "\<lambda>i. if i < 128 then args s ! i else 0"
  let ?m = "poke (vmem s) buf (map ?g [0..<1024])"
  let ?s = "sti (set_vmem ?m (cli s))"
  have z: "args (cli s) = args s" by (simp add: cli_def)
  have n: "length (args s) = 128" "args s ! 0 \<noteq> 0"
    using assms(3-6) by (auto simp: nth_append nth_eq_iff_index_eq in_set_conv_nth)
  have "ece391_getargs lo buf 1024 s = Some (?s, 0)"
    using assms(2) n by (simp add: calls sys_getargs_def z fold_poke cong del: if_weak_cong)
  moreover have "cstring ?m buf cs"
  proof (rule cstringI)
    have at: "?m (buf + of_nat i) = ?g i" if "i < 1024" for i
      using poke_at [of i "map ?g [0..<1024]" "vmem s" buf] that by simp
    show "?m (buf + of_nat i) = cs ! i" if "i < length cs" for i
      using at [of i] that assms(5) a by (simp add: nth_append)
    show "?m (buf + of_nat (length cs)) = 0"
      using at [of "length cs"] assms(5) a by (simp add: nth_append)
  qed (use assms(3,5) in auto)
  moreover have "?m x = vmem s x" if "\<not> within buf 1024 x" for x
    using that by (simp add: poke_other)
  moreover have f: "pcbs ?s = pcbs s" "current_pid ?s = current_pid s" "boot_block ?s = boot_block s"
    "freq_count ?s = freq_count s" "curr_freq ?s = curr_freq s" "procs_ok ?s = procs_ok s"
    by (simp_all add: set_vmem_def current_pid_def procs_ok_def cli_def sti_def)
  have k: "con_part ?s = con_part s" by simp
  have "on_console ?s"
    using c f con_part_eq(1) [OF k] by (simp add: on_console_def)
  ultimately show ?thesis using that [of ?s] f k by simp
qed

section \<open>cat\<close>

lemma same_image_poke_read: "apart buf n bb (fs_size m bb) \<Longrightarrow> length xs \<le> n \<Longrightarrow> same_image m (poke m buf xs) bb"
  by (rule same_image_poke) (rule apart_mono)

lemma read_file_keeps: "read_file m bb f buf n = (m', f', r) \<Longrightarrow> jump_table f' = jump_table f \<and> flags f' = flags f"
  by (auto simp: read_file_def Let_def split: if_splits prod.splits)

lemma read_directory_keeps:
  "read_directory m bb f buf n = Some (m', f', r) \<Longrightarrow> jump_table f' = jump_table f \<and> flags f' = flags f"
  by (auto simp: read_directory_def split: if_splits Option.bind_splits)

lemma chunk_numbers:
  assumes "0 < n" "n < 2 ^ 31"
  shows "of_nat n \<noteq> (0 :: i32)" "of_nat n \<noteq> (-1 :: i32)"
  using assms of_nat_inj32 [of n 0] of_nat_neq_m1 [of n] by simp_all

text \<open>The loop writes the chunks of the file one after the other.\<close>

lemma cat_loop_prints:
  assumes "at_work fd f s" "readFunc (jump_table f) = Read_file" "boot_block s = bb"
    and "file_reader_ok bb buf 1024 (vmem s) f" "file_chunks bb 1024 (vmem s) f = css"
    and "\<forall>c \<in> set css. 8 \<notin> set c"
  shows "\<exists>s'. cat_loop lo lit buf (of_nat fd) irqs k s = Some (s', 0)
    \<and> screen_at (put_terminal s) s' = fold emit (filter (\<lambda>c. c \<noteq> 0) (concat css)) (screen_at (put_terminal s) s)"
  using assms
proof (induction css arbitrary: s f k)
  case Nil
  have b: "buf \<noteq> 0" using Nil.prems(4) by (simp add: file_reader_ok_def)
  obtain m f' where r: "read_file (vmem s) bb f buf 1024 = (m, f', 0)"
    using regular_file.at_end [OF Nil.prems(4,5)] by auto
  have f: "flags f' = full" "jump_table f' = jump_table f"
    using read_file_keeps [OF r] Nil.prems(1) by (simp_all add: at_work_def)
  obtain s' where s': "\<And>irqs. ece391_read lo (of_nat fd) buf 1024 irqs s = Some (s', 0)" "con_part s' = con_part s"
    by (rule read_once [OF Nil.prems(1) b f disjI1 [OF conjI [OF Nil.prems(2) r [folded Nil.prems(3)]]]]) (rule that)
  show ?case
    by (subst cat_loop.simps) (simp add: s'(1) con_part_eq(3) [OF s'(2)])
next
  case (Cons c css)
  note at = Cons.prems(1) and reads = Cons.prems(2) and ok = Cons.prems(4)
  have b: "buf \<noteq> 0" using ok by (simp add: file_reader_ok_def)
  have n: "0 < length c" "length c < 2 ^ 31"
    using regular_file.chunk_size [OF ok, of c] Cons.prems(5) by auto
  obtain f' where r: "read_file (vmem s) bb f buf 1024 = (poke (vmem s) buf c, f', of_nat (length c))"
    "file_reader_ok bb buf 1024 (poke (vmem s) buf c) f'" "file_chunks bb 1024 (poke (vmem s) buf c) f' = css"
    using regular_file.next_chunk [OF ok Cons.prems(5)] by auto
  have f: "flags f' = full" "jump_table f' = jump_table f"
    using read_file_keeps [OF r(1)] at by (simp_all add: at_work_def)
  obtain s1 where s1: "\<And>irqs. ece391_read lo (of_nat fd) buf 1024 irqs s = Some (s1, of_nat (length c))"
    "at_work fd f' s1" "vmem s1 = poke (vmem s) buf c" "boot_block s1 = boot_block s" "con_part s1 = con_part s"
    by (rule read_once [OF at b f disjI1 [OF conjI [OF reads r(1) [folded Cons.prems(3)]]]]) (rule that)
  have bytes: "bytes_at (vmem s1) buf (length c) = c" using n s1(3) by (simp add: bytes_at_poke)
  have eight: "8 \<notin> set (bytes_at (vmem s1) buf (length c))" using Cons.prems(6) by (simp add: bytes)
  obtain s2 where s2: "ece391_write lo 1 buf (of_nat (length c)) s1 = Some (s2, 0)" "at_work fd f' s2"
    "vmem s2 = vmem s1" "boot_block s2 = boot_block s1" "put_terminal s2 = put_terminal s1"
    "screen_at (put_terminal s1) s2 = fold emit (filter (\<lambda>c. c \<noteq> 0) c) (screen_at (put_terminal s1) s1)"
    by (rule write_once [OF s1(2) b n eight, unfolded bytes]) (rule that)
  have scr: "screen_at (put_terminal s) s2 = fold emit (filter (\<lambda>c. c \<noteq> 0) c) (screen_at (put_terminal s) s)"
    using s2(6) con_part_eq(2,3) [OF s1(5)] by simp
  have v: "vmem s2 = poke (vmem s) buf c" using s2(3) s1(3) by simp
  have rf: "readFunc (jump_table f') = Read_file" using f(2) reads by simp
  have bb: "boot_block s2 = bb" using s2(4) s1(4) Cons.prems(3) by simp
  have e: "\<forall>c \<in> set css. 8 \<notin> set c" using Cons.prems(6) by simp
  obtain s' where L: "cat_loop lo lit buf (of_nat fd) irqs (Suc k) s2 = Some (s', 0)"
    and "screen_at (put_terminal s2) s' = fold emit (filter (\<lambda>c. c \<noteq> 0) (concat css)) (screen_at (put_terminal s2) s2)"
    using Cons.IH [OF s2(2) rf bb r(2,3) [folded v] e] by blast
  then have "screen_at (put_terminal s) s' = fold emit (filter (\<lambda>c. c \<noteq> 0) (concat (c # css))) (screen_at (put_terminal s) s)"
    using scr s2(5) con_part_eq(2) [OF s1(5)] by simp
  moreover have "cat_loop lo lit buf (of_nat fd) irqs k s = cat_loop lo lit buf (of_nat fd) irqs (Suc k) s2"
    by (subst cat_loop.simps) (simp add: s1(1) s2(1) chunk_numbers [OF n])
  ultimately show ?case using L by simp
qed

lemma cat_prints:
  assumes c: "on_console s" and buf: "buf \<noteq> 0" "apart buf 1024 (boot_block s) (fs_size (vmem s) (boot_block s))"
    and args: "0 \<notin> set cs" "cs \<noteq> []" "length cs < 128" "args s = cs @ replicate (128 - length cs) 0"
    and fs: "fs_ok (vmem s) (boot_block s)" "last_named (vmem s) (boot_block s) cs k"
      "filetype (vmem s) (dentry_at (boot_block s) (of_nat k)) = 2"
      "ino = inode_num (vmem s) (dentry_at (boot_block s) (of_nat k))"
      "ino < num_inodes (vmem s) (boot_block s)" "inode_ok (vmem s) (boot_block s) ino"
      "8 \<notin> set (file_contents (vmem s) (boot_block s) ino)"
    and dentry: "apart (lo_dentry lo) 64 (boot_block s) (fs_size (vmem s) (boot_block s))"
    and free: "first_index empty (openIndexes (pcbs s ! current_pid s)) = Some i"
  shows "\<exists>s'. cat_main lo lit buf irqs s = Some (s', 0) \<and> screen_at (put_terminal s) s'
    = fold emit (filter (\<lambda>c. c \<noteq> 0) (file_contents (vmem s) (boot_block s) ino)) (screen_at (put_terminal s) s)"
proof -
  let ?bb = "boot_block s"
  obtain s1 where g: "ece391_getargs lo buf 1024 s = Some (s1, 0)" "cstring (vmem s1) buf cs"
    "\<And>x. \<not> within buf 1024 x \<Longrightarrow> vmem s1 x = vmem s x" "on_console s1" "boot_block s1 = ?bb"
    "pcbs s1 = pcbs s" "current_pid s1 = current_pid s" "con_part s1 = con_part s"
    by (rule getargs_once [OF c buf(1) args]) (rule that)
  have i1: "same_image (vmem s) (vmem s1) ?bb" by (rule same_image_outside [OF g(3) buf(2)])
  note F = same_image_fs_ok [OF i1 fs(1)]
  have lt: "k < entry_count (vmem s) ?bb" using fs(2) by (simp add: last_named_def)
  note E = same_image_dentry [OF i1 fs(1)]
  have last: "last_named (vmem s1) ?bb cs k" using fs(2) F(2) E(3) by (auto simp: last_named_def)
  have a: "fs_ok (vmem s1) (boot_block s1)" "apart (lo_dentry lo) 64 (boot_block s1) (fs_size (vmem s1) (boot_block s1))"
    "last_named (vmem s1) (boot_block s1) cs k" "first_index empty (openIndexes (pcbs s1 ! current_pid s1)) = Some i"
    using F last dentry free by (simp_all add: g(5-7))
  obtain s2 where o: "ece391_open lo buf s1 = Some (s2, of_nat (i + 2))"
    "at_work (i + 2) (fresh_fd (vmem s1) (boot_block s1) k) s2" "same_image (vmem s1) (vmem s2) (boot_block s1)"
    "boot_block s2 = boot_block s1" "con_part s2 = con_part s1"
    by (rule open_once [OF g(4) buf(1) a(1) g(2) a(2-4)]) (rule that)
  let ?f = "fresh_fd (vmem s1) ?bb k"
  have f: "file_position ?f = 0" "inode_check ?f = ino" "flags ?f = full" "readFunc (jump_table ?f) = Read_file"
    using E(1,2) [OF lt] fs(3,4) by (simp_all add: fresh_fd_def driver_table_def)
  have i2: "same_image (vmem s) (vmem s2) ?bb"
    by (rule same_image_trans [OF i1 _ F(3)]) (use o(3) g(5) in simp)
  have size: "fs_size (vmem s) ?bb \<le> 2 ^ 32" using fs(1) by (simp add: fs_ok_def)
  have "reading (vmem s) ?bb ?f" using f fs(5,6) by (simp add: reading_def)
  note R = same_image_reading [OF i2 size this]
  have rem: "remaining (vmem s2) ?bb ?f = file_contents (vmem s) ?bb ino"
    using R(2) f by (simp add: remaining_def)
  have ok: "file_reader_ok ?bb buf 1024 (vmem s2) ?f"
    using R buf size by (simp add: file_reader_ok_def)
  let ?css = "file_chunks ?bb 1024 (vmem s2) ?f"
  have cc: "concat ?css = file_contents (vmem s) ?bb ino"
    by (simp add: file_chunks_def concat_split_every rem)
  then have e: "\<forall>c \<in> set ?css. 8 \<notin> set c" using fs(7) unfolding cc [symmetric] by auto
  have at: "at_work (i + 2) ?f s2" "boot_block s2 = ?bb" using o(2,4) g(5) by simp_all
  obtain s' where L: "cat_loop lo lit buf (of_nat (i + 2)) irqs 0 s2 = Some (s', 0)"
    "screen_at (put_terminal s2) s' = fold emit (filter (\<lambda>c. c \<noteq> 0) (concat ?css)) (screen_at (put_terminal s2) s2)"
    using cat_loop_prints [OF at(1) f(4) at(2) ok refl e] by blast
  have i: "i < 6" using at(1) by (simp add: at_work_def)
  then have "(of_nat (i + 2) :: i32) \<noteq> -1" using chunk_numbers(2) [of "i + 2"] by simp
  then have "cat_main lo lit buf irqs s = Some (s', 0)"
    using g(1) o(1) L(1) unfolding cat_main_def by (simp del: of_nat_add)
  moreover have "con_part s2 = con_part s" using o(5) g(8) by simp
  note con_part_eq(2,3) [OF this]
  ultimately show ?thesis using L(2) cc by simp
qed

section \<open>ls\<close>

lemma cut_nonzero: "0 \<notin> set (cut m p n)"
  by (induction n arbitrary: p) (auto simp: cut_Suc)

lemma same_image_dir:
  assumes "same_image m m' bb" "dir_reader_ok bb buf m f"
  shows "dir_reader_ok bb buf m' f" "names_left m' bb f = names_left m bb f"
proof -
  have d: "fs_ok m bb" using assms(2) by (simp add: dir_reader_ok_def listing_def)
  note F = same_image_fs_ok [OF assms(1) d] and E = same_image_dentry(3) [OF assms(1) d]
  show "dir_reader_ok bb buf m' f" using assms(2) F E by (simp add: dir_reader_ok_def listing_def)
  show "names_left m' bb f = names_left m bb f" using F(2) E by (simp add: names_left_def)
qed

lemma set_vmem_frame [simp]:
  "procs_ok (set_vmem m s) = procs_ok s" "boot_block (set_vmem m s) = boot_block s"
  "pcbs (set_vmem m s) = pcbs s" "current_pid (set_vmem m s) = current_pid s"
  by (simp_all add: set_vmem_def procs_ok_def current_pid_def)

lemma store_frame:
  "vmem (store p v s) = (vmem s)(p := v)" "at_work fd f (store p v s) = at_work fd f s"
  "boot_block (store p v s) = boot_block s" "con_part (store p v s) = con_part s"
proof -
  have "con_part (set_vmem ((vmem s)(p := v)) s) = con_part s" by simp
  from con_part_eq(1) [OF this] show "at_work fd f (store p v s) = at_work fd f s"
    by (simp add: store_def at_work_def)
qed (simp_all add: store_def)

definition lines :: "u8 list list \<Rightarrow> u8 list" where
  "lines ns = concat (map (\<lambda>n. n @ [0x0A]) ns)"

lemma ls_loop_prints:
  assumes "at_work fd f s" "readFunc (jump_table f) = Read_directory" "boot_block s = bb" "buf \<noteq> 0"
    and "apart buf 33 bb (fs_size (vmem s) bb)" "dir_reader_ok bb buf (vmem s) f" "names_left (vmem s) bb f = ns"
    and "\<forall>n \<in> set ns. 8 \<notin> set n"
  shows "\<exists>s'. ls_loop lo lit buf (of_nat fd) s = Some (s', 0)
    \<and> screen_at (put_terminal s) s' = fold emit (lines ns) (screen_at (put_terminal s) s)"
  using assms
proof (induction ns arbitrary: s f)
  case Nil
  obtain m f' where r: "read_directory (vmem s) bb f buf 32 = Some (m, f', 0)"
    using directory.at_end [OF Nil.prems(6,7)] by blast
  have f: "flags f' = full" "jump_table f' = jump_table f"
    using read_directory_keeps [OF r] Nil.prems(1) by (simp_all add: at_work_def)
  obtain s' where s': "\<And>irqs. ece391_read lo (of_nat fd) buf 32 irqs s = Some (s', 0)" "con_part s' = con_part s"
    by (rule read_once [OF Nil.prems(1,4) f disjI2 [OF conjI [OF Nil.prems(2) r [folded Nil.prems(3)]]]]) (rule that)
  show ?case
    by (subst ls_loop.simps) (simp add: s'(1) con_part_eq(3) [OF s'(2)] lines_def)
next
  case (Cons n ns)
  note at = Cons.prems(1) and reads = Cons.prems(2) and b = Cons.prems(4) and ap = Cons.prems(5) and ok = Cons.prems(6)
  have sz: "0 < length n" "length n < 2 ^ 31" using directory.chunk_size [OF ok, of n] Cons.prems(7) by auto
  obtain j where "n = entry_name (vmem s) bb j" using Cons.prems(7) by (auto simp: names_left_def)
  then have n: "length n \<le> 32" "0 \<notin> set n" "8 \<notin> set n"
    using entry_name_length cut_nonzero Cons.prems(8) by (auto simp: entry_name_def)
  let ?m = "poke (vmem s) buf n" and ?M = "poke (vmem s) buf (n @ [0x0A])"
  obtain f' where r: "read_directory (vmem s) bb f buf 32 = Some (?m, f', of_nat (length n))"
    "dir_reader_ok bb buf ?m f'" "names_left ?m bb f' = ns"
    using directory.next_chunk [OF ok Cons.prems(7)] by blast
  have f: "flags f' = full" "jump_table f' = jump_table f"
    using read_directory_keeps [OF r(1)] at by (simp_all add: at_work_def)
  obtain s1 where s1: "\<And>irqs. ece391_read lo (of_nat fd) buf 32 irqs s = Some (s1, of_nat (length n))"
    "at_work fd f' s1" "vmem s1 = ?m" "boot_block s1 = boot_block s" "con_part s1 = con_part s"
    by (rule read_once [OF at b f disjI2 [OF conjI [OF reads r(1) [folded Cons.prems(3)]]]]) (rule that)
  define t where "t = store (buf + of_nat (length n)) 0x0A s1"
  have t: "at_work fd f' t" "vmem t = ?M" "boot_block t = bb" "con_part t = con_part s"
    using s1 Cons.prems(3) by (simp_all add: t_def store_frame poke_snoc)
  have bytes: "bytes_at (vmem t) buf (Suc (length n)) = n @ [0x0A]"
    using n(1) bytes_at_poke [of "n @ [0x0A]" "vmem s" buf] by (simp add: t(2))
  have w: "0 < Suc (length n)" "Suc (length n) < 2 ^ 31" "8 \<notin> set (bytes_at (vmem t) buf (Suc (length n)))"
    using n unfolding bytes by auto
  have keep: "filter (\<lambda>c. c \<noteq> 0) (n @ [0x0A]) = n @ [0x0A]" using n(2) by (auto simp: filter_id_conv)
  obtain s2 where s2: "ece391_write lo 1 buf (of_nat (Suc (length n))) t = Some (s2, 0)" "at_work fd f' s2"
    "vmem s2 = vmem t" "boot_block s2 = boot_block t" "put_terminal s2 = put_terminal t"
    "screen_at (put_terminal t) s2 = fold emit (n @ [0x0A]) (screen_at (put_terminal t) t)"
    by (rule write_once [OF t(1) b w, unfolded bytes keep]) (rule that)
  have fs: "fs_ok (vmem s) bb" using ok by (simp add: dir_reader_ok_def listing_def)
  have iM: "same_image (vmem s) ?M bb" "same_image (vmem s) ?m bb"
    by (rule same_image_poke_read [OF ap], use n in simp)+
  have im: "same_image ?m ?M bb" using iM same_image_fs_ok(3) [OF iM(2) fs] by (simp add: same_image_def)
  have v: "vmem s2 = ?M" using s2(3) t(2) by simp
  note d = same_image_dir [OF im r(2), folded v]
  have p: "boot_block s2 = bb" "apart buf 33 bb (fs_size (vmem s2) bb)" "readFunc (jump_table f') = Read_directory"
    using s2(4) t(3) ap same_image_fs_ok(3) [OF iM(1) fs] f(2) reads by (simp_all add: v)
  have e: "\<forall>n \<in> set ns. 8 \<notin> set n" using Cons.prems(8) by simp
  obtain s' where L: "ls_loop lo lit buf (of_nat fd) s2 = Some (s', 0)"
    and scr: "screen_at (put_terminal s2) s' = fold emit (lines ns) (screen_at (put_terminal s2) s2)"
    using Cons.IH [OF s2(2) p(3,1) b p(2) d(1) d(2) [unfolded r(3)] e] by blast
  have "screen_at (put_terminal s) s2 = fold emit (n @ [0x0A]) (screen_at (put_terminal s) s)"
    using s2(6) con_part_eq(2,3) [OF t(4)] by simp
  then have "screen_at (put_terminal s) s' = fold emit (lines (n # ns)) (screen_at (put_terminal s) s)"
    using scr s2(5) con_part_eq(2) [OF t(4)] by (simp add: lines_def)
  moreover have "ls_loop lo lit buf (of_nat fd) s = ls_loop lo lit buf (of_nat fd) s2"
    using s2(1) by (subst ls_loop.simps) (simp add: s1(1) chunk_numbers [OF sz] t_def add.commute)
  ultimately show ?case using L by simp
qed

lemma ls_prints:
  assumes c: "on_console s" and buf: "buf \<noteq> 0" "apart buf 33 (boot_block s) (fs_size (vmem s) (boot_block s))"
    and dot: "lit ''.'' \<noteq> 0" "cstring (vmem s) (lit ''.'') [46]"
    and fs: "fs_ok (vmem s) (boot_block s)" "last_named (vmem s) (boot_block s) [46] k"
      "filetype (vmem s) (dentry_at (boot_block s) (of_nat k)) = 1"
    and names: "\<forall>j < entry_count (vmem s) (boot_block s). entry_name (vmem s) (boot_block s) j \<noteq> []
      \<and> 8 \<notin> set (entry_name (vmem s) (boot_block s) j)"
    and dentry: "apart (lo_dentry lo) 64 (boot_block s) (fs_size (vmem s) (boot_block s))"
    and free: "first_index empty (openIndexes (pcbs s ! current_pid s)) = Some i"
  shows "\<exists>s'. ls_main lo lit buf s = Some (s', 0) \<and> screen_at (put_terminal s) s'
    = fold emit (lines (map (entry_name (vmem s) (boot_block s)) [0..<entry_count (vmem s) (boot_block s)]))
        (screen_at (put_terminal s) s)"
proof -
  let ?bb = "boot_block s" and ?f = "fresh_fd (vmem s) (boot_block s) k"
  obtain s2 where o: "ece391_open lo (lit ''.'') s = Some (s2, of_nat (i + 2))"
    "at_work (i + 2) ?f s2" "same_image (vmem s) (vmem s2) ?bb" "boot_block s2 = ?bb" "con_part s2 = con_part s"
    by (rule open_once [OF c dot(1) fs(1) dot(2) dentry fs(2) free]) (rule that)
  have f: "file_position ?f = 0" "flags ?f = full" "readFunc (jump_table ?f) = Read_directory"
    using fs(3) by (simp_all add: fresh_fd_def driver_table_def)
  have ap: "apart buf 32 ?bb (fs_size (vmem s) ?bb)" using buf(2) by (rule apart_mono) simp
  have d: "dir_reader_ok ?bb buf (vmem s) ?f"
    using fs(1) f ap names by (simp add: dir_reader_ok_def listing_def)
  note D = same_image_dir [OF o(3) d]
  have n: "names_left (vmem s2) ?bb ?f = map (entry_name (vmem s) ?bb) [0..<entry_count (vmem s) ?bb]"
    unfolding D(2) by (simp add: names_left_def f)
  have p: "apart buf 33 ?bb (fs_size (vmem s2) ?bb)"
    using buf(2) same_image_fs_ok(3) [OF o(3) fs(1)] by simp
  have e: "\<forall>n \<in> set (map (entry_name (vmem s) ?bb) [0..<entry_count (vmem s) ?bb]). 8 \<notin> set n"
    using names by auto
  obtain s' where L: "ls_loop lo lit buf (of_nat (i + 2)) s2 = Some (s', 0)"
    "screen_at (put_terminal s2) s' = fold emit
       (lines (map (entry_name (vmem s) ?bb) [0..<entry_count (vmem s) ?bb])) (screen_at (put_terminal s2) s2)"
    using ls_loop_prints [OF o(2) f(3) o(4) buf(1) p D(1) n e] by blast
  have "i < 6" using o(2) by (simp add: at_work_def)
  then have "(of_nat (i + 2) :: i32) \<noteq> -1" using chunk_numbers(2) [of "i + 2"] by simp
  then have "ls_main lo lit buf s = Some (s', 0)"
    using o(1) L(1) unfolding ls_main_def by (simp del: of_nat_add)
  then show ?thesis using L(2) con_part_eq(2,3) [OF o(5)] by simp
qed

section \<open>Properties\<close>

text \<open>C36: The support library of the programs and the library of the kernel, written separately, are the same
  functions: \<open>strlen\<close>, \<open>strcpy\<close>, \<open>strrev\<close> and \<open>itoa\<close> agree on every memory, also where they do not
  return, and the two \<open>strncmp\<close> find the same strings equal (for different ones they differ: one
  compares unsigned bytes, the other signed ones).\<close>

theorem support_library_agrees:
  "ece391_strlen m p = strlen m p \<and> ece391_strcpy m q p = strcpy m q p \<and> ece391_strrev m p = strrev m p
    \<and> ece391_itoa m v p radix = itoa m v p radix \<and> (ece391_strncmp m p q n = 0 \<longleftrightarrow> strncmp m p q n = 0)"
  by (simp add: ece391_strlen_eq ece391_strcpy_eq ece391_strrev_eq ece391_itoa_eq ece391_strncmp_zero)

text \<open>C16: \<open>cat\<close>, run with the name of a regular file as its arguments on a process with a free
  descriptor, terminates with status 0 after it has printed on its terminal the bytes of the file,
  in order and without the zero bytes. The hypotheses are that the buffer on its stack and the
  kernel's directory entry lie apart from the file system image.\<close>

theorem cat_shows_file:
  assumes "on_console s" "buf \<noteq> 0" "apart buf 1024 (boot_block s) (fs_size (vmem s) (boot_block s))"
    and "0 \<notin> set cs" "cs \<noteq> []" "length cs < 128" "args s = cs @ replicate (128 - length cs) 0"
    and "fs_ok (vmem s) (boot_block s)" "last_named (vmem s) (boot_block s) cs k"
    and "filetype (vmem s) (dentry_at (boot_block s) (of_nat k)) = 2"
    and "ino = inode_num (vmem s) (dentry_at (boot_block s) (of_nat k))"
    and "ino < num_inodes (vmem s) (boot_block s)" "inode_ok (vmem s) (boot_block s) ino"
    and "8 \<notin> set (file_contents (vmem s) (boot_block s) ino)"
    and "apart (lo_dentry lo) 64 (boot_block s) (fs_size (vmem s) (boot_block s))"
    and "first_index empty (openIndexes (pcbs s ! current_pid s)) = Some i"
  shows "\<exists>s'. cat_main lo lit buf irqs s = Some (s', 0) \<and> screen_at (put_terminal s) s'
    = fold emit (filter (\<lambda>c. c \<noteq> 0) (file_contents (vmem s) (boot_block s) ino)) (screen_at (put_terminal s) s)"
  by (rule cat_prints [OF assms])

text \<open>C17: \<open>ls\<close>, on a process with a free descriptor, terminates with status 0 after it has printed every name
  in the directory, in directory order, each on a line of its own.\<close>

theorem ls_lists_directory:
  assumes "on_console s" "buf \<noteq> 0" "apart buf 33 (boot_block s) (fs_size (vmem s) (boot_block s))"
    and "lit ''.'' \<noteq> 0" "cstring (vmem s) (lit ''.'') [46]"
    and "fs_ok (vmem s) (boot_block s)" "last_named (vmem s) (boot_block s) [46] k"
    and "filetype (vmem s) (dentry_at (boot_block s) (of_nat k)) = 1"
    and "\<forall>j < entry_count (vmem s) (boot_block s). entry_name (vmem s) (boot_block s) j \<noteq> []
      \<and> 8 \<notin> set (entry_name (vmem s) (boot_block s) j)"
    and "apart (lo_dentry lo) 64 (boot_block s) (fs_size (vmem s) (boot_block s))"
    and "first_index empty (openIndexes (pcbs s ! current_pid s)) = Some i"
  shows "\<exists>s'. ls_main lo lit buf s = Some (s', 0) \<and> screen_at (put_terminal s) s'
    = fold emit (lines (map (entry_name (vmem s) (boot_block s)) [0..<entry_count (vmem s) (boot_block s)]))
        (screen_at (put_terminal s) s)"
  by (rule ls_prints [where lit = lit, OF assms])

section \<open>Programs on the small image\<close>

definition demo_user :: kernel where
  "demo_user = ready_state\<lparr>lowmem := demo, boot_block := demo_bb, args := [104, 105] @ replicate 126 0,
     pcbs := (replicate 6 empty_PCB)[0 := init_pcb 0 0 empty_PCB]\<rparr>"

definition demo_locals :: locals where
  "demo_locals = \<lparr>lo_frame = \<lparr>fr_function = 0, fr_dentry = 0x500100, fr_buf = 0, fr_esp = 0, fr_ebp = 0\<rparr>,
     lo_dentry = 0x500100, lo_vpt = 0\<rparr>"

lemma demo_user_vmem: "vmem demo_user = demo"
proof
  fix a
  have "in_user_page a \<Longrightarrow> demo a = 0"
    by (auto simp: demo_def in_user_page_def USR_MEM_VIRT_ADDR_def MB4_def)
  then show "vmem demo_user a = demo a" by (simp add: vmem_def demo_user_def)
qed

lemma demo_user_simps [simp]:
  "boot_block demo_user = demo_bb" "current_pid demo_user = 0" "put_terminal demo_user = 0"
  "args demo_user = [104, 105] @ replicate 126 0" "pcbs demo_user ! 0 = init_pcb 0 0 empty_PCB"
  "screen_at t demo_user = screen_at t ready_state"
  using ready_simps(9)
  by (simp_all add: demo_user_def current_pid_def put_terminal_def visible_def screen_at_def video_page_def)
    (simp add: ready_state_def paging_init_def boot_state_def)

lemma demo_user_console: "on_console demo_user"
proof -
  have r: "curr_pid_for_term ready_state = [0, 1, 2]" "currentTerminal ready_state = 1" "scheduled_term ready_state = 0"
    "length (freq_count ready_state) = 3" "length (curr_freq ready_state) = 3"
    by (simp_all add: ready_state_def paging_init_def boot_state_def)
  have "procs_ok demo_user"
    using boot_procs_ok by (simp add: demo_user_def procs_ok_def r boot_state_def)
      (auto simp: init_pcb_def fds_ok_def empty_PCB_def empty_fd_def console_fd_def console_table_def wild_def
        numeral_eq_Suc nth_Cons' less_Suc_eq)
  moreover have "console_ok demo_user" using ready_console_ok by (simp add: demo_user_def console_ok_def)
  ultimately show ?thesis
    by (simp add: on_console_def init_pcb_def empty_PCB_def console_fd_def console_table_def numeral_eq_Suc)
      (simp add: demo_user_def r)
qed

lemma demo_apart600: "n \<le> 4096 \<Longrightarrow> apart 0x600000 n demo_bb (fs_size demo demo_bb)"
  unfolding demo_header by (rule apartI) (simp_all add: demo_bb_def)

lemma demo_user_image:
  "fs_ok (vmem demo_user) demo_bb" "last_named (vmem demo_user) demo_bb [104, 105] (Suc 0)"
  "file_contents (vmem demo_user) demo_bb 1 = [104, 101, 121]" "inode_ok (vmem demo_user) demo_bb 1"
  "filetype (vmem demo_user) (dentry_at demo_bb 1) = 2" "inode_num (vmem demo_user) (dentry_at demo_bb 1) = 1"
  "filetype (vmem demo_user) (dentry_at demo_bb 0) = 1" "num_inodes (vmem demo_user) demo_bb = 2"
  using demo_fs_ok demo_last demo_contents demo_inode_ok demo_header(2)
  by (simp_all add: demo_user_vmem) (simp_all add: demo_header_defs)

lemma demo_user_apart:
  "apart (lo_dentry demo_locals) 64 demo_bb (fs_size (vmem demo_user) demo_bb)"
  "apart 0x600000 1024 demo_bb (fs_size (vmem demo_user) demo_bb)"
  "apart 0x600000 33 demo_bb (fs_size (vmem demo_user) demo_bb)"
  using demo_apart [of 64] demo_apart600 [of 1024] demo_apart600 [of 33]
  by (simp_all add: demo_user_vmem demo_locals_def)

lemma demo_user_free: "first_index empty (openIndexes (init_pcb 0 0 empty_PCB)) = Some 0"
  by (simp add: init_pcb_def numeral_eq_Suc)

theorem cat_shows_file_witness:
  "\<exists>s'. cat_main demo_locals (\<lambda>_. 0) 0x600000 (\<lambda>_. []) demo_user = Some (s', 0)
     \<and> screen_at 0 s' = fold emit [104, 101, 121] (screen_at 0 ready_state)"
proof -
  note F = demo_user_image demo_user_apart demo_user_free
  have "\<exists>s'. cat_main demo_locals (\<lambda>_. 0) 0x600000 (\<lambda>_. []) demo_user = Some (s', 0)
    \<and> screen_at (put_terminal demo_user) s' = fold emit
        (filter (\<lambda>c. c \<noteq> 0) (file_contents (vmem demo_user) (boot_block demo_user) 1))
        (screen_at (put_terminal demo_user) demo_user)"
    by (rule cat_shows_file [OF demo_user_console, of _ "[104, 105]" "Suc 0" 1 demo_locals 0])
      (simp_all add: F)
  then show ?thesis by (simp add: F)
qed

theorem ls_lists_directory_witness:
  "\<exists>s'. ls_main demo_locals (\<lambda>_. 0x400040) 0x600000 demo_user = Some (s', 0)
     \<and> screen_at 0 s' = fold emit [46, 0x0A, 104, 105, 0x0A] (screen_at 0 ready_state)"
proof -
  note F = demo_user_image demo_user_apart demo_user_free
  have dot: "cstring (vmem demo_user) 0x400040 [46]" "last_named (vmem demo_user) demo_bb [46] 0"
    using demo_names by (simp_all add: demo_user_vmem cstring_def bytes_at_def demo_def last_named_def demo_count less_2_nat)
  have n: "\<forall>j < entry_count (vmem demo_user) demo_bb. entry_name (vmem demo_user) demo_bb j \<noteq> []
      \<and> 8 \<notin> set (entry_name (vmem demo_user) demo_bb j)"
    using demo_names by (simp add: demo_user_vmem demo_count less_2_nat)
  have "\<exists>s'. ls_main demo_locals (\<lambda>_. 0x400040) 0x600000 demo_user = Some (s', 0)
    \<and> screen_at (put_terminal demo_user) s' = fold emit
        (lines (map (entry_name (vmem demo_user) (boot_block demo_user)) [0..<entry_count (vmem demo_user) (boot_block demo_user)]))
        (screen_at (put_terminal demo_user) demo_user)"
    by (rule ls_lists_directory [OF demo_user_console, of _ "\<lambda>_. 0x400040" 0 demo_locals 0])
      (simp_all add: F dot n)
  then show ?thesis
    using demo_names by (simp add: demo_user_vmem demo_count lines_def numeral_2_eq_2)
qed

end
