(* ===== verification/Syserr.thy ===== *)
theory Syserr
  imports UserLib
begin

text \<open>
  The program \<open>syscalls/ece391syserr.c\<close>, which tests how the system calls answer wrong arguments.

  The array \<open>buf\<close> of the tests lies on the stack, at an address that is an argument here. The
  registers \<open>call_sys\<close> does not set are arguments as well.
\<close>

section \<open>The tests\<close>

text \<open>\<open>if (-1 != call) \<lbrace> fdputs (1, msg); fail = 2; \<rbrace>\<close>\<close>

definition refused :: "locals \<Rightarrow> (string \<Rightarrow> u32) \<Rightarrow> string \<Rightarrow> (kernel \<Rightarrow> (kernel \<times> i32) option)
    \<Rightarrow> kernel \<times> i32 \<Rightarrow> (kernel \<times> i32) option" where
  "refused lo lit msg call = (\<lambda>(s, fail). do {
     (s, r) \<leftarrow> call s;
     if r \<noteq> -1 then do { s \<leftarrow> ece391_fdputs lo 1 (lit (msg @ [CHR 0x0A])) s; Some (s, 2) }
     else Some (s, fail)
   })"

text \<open>The message at the end of a test.\<close>

definition verdict :: "locals \<Rightarrow> (string \<Rightarrow> u32) \<Rightarrow> string \<Rightarrow> kernel \<times> i32 \<Rightarrow> (kernel \<times> i32) option" where
  "verdict lo lit name = (\<lambda>(s, fail). do {
     s \<leftarrow> ece391_fdputs lo 1 (lit (name @ (if fail \<noteq> 0 then '': FAIL'' else '': PASS'') @ [CHR 0x0A])) s;
     Some (s, fail)
   })"

abbreviation NEG_FD :: i32 where "NEG_FD \<equiv> -1073741823"
abbreviation BIG_FD :: i32 where "BIG_FD \<equiv> 1073741823"

definition ece391_vidmap where "ece391_vidmap lo p = do_call lo 8 [] p 0 0"
definition call_sys where "call_sys lo num regs = (case regs of (b, c, d) \<Rightarrow> do_call lo num [] b c d)"

definition err_fd :: "i32 \<Rightarrow> string \<Rightarrow> locals \<Rightarrow> (string \<Rightarrow> u32) \<Rightarrow> u32 \<Rightarrow> kernel \<Rightarrow> (kernel \<times> i32) option" where
  "err_fd fd name lo lit buf s = do {
     r \<leftarrow> refused lo lit ''read fail'' (ece391_read lo fd buf 31 []) (s, 0);
     r \<leftarrow> refused lo lit ''write fail'' (ece391_write lo fd buf 31) r;
     r \<leftarrow> refused lo lit ''close fail'' (ece391_close lo fd) r;
     verdict lo lit name r
   }"

definition err_neg_fd where "err_neg_fd = err_fd NEG_FD ''err_neg_fd''"
definition err_big_fd where "err_big_fd = err_fd BIG_FD ''err_big_fd''"

definition err_open_lots :: "locals \<Rightarrow> (string \<Rightarrow> u32) \<Rightarrow> kernel \<Rightarrow> (kernel \<times> i32) option" where
  "err_open_lots lo lit s = do {
     (s, cnt) \<leftarrow> foldM (\<lambda>i (s, cnt). do {
         (s, r) \<leftarrow> ece391_open lo (lit ''.'') s;
         Some (s, if r = -1 then cnt + 1 else cnt)
       }) [0..<7] (s, 0 :: i32);
     s \<leftarrow> foldM (\<lambda>i s. map_option fst (ece391_close lo (of_nat i) s)) [2..<8] s;
     verdict lo lit ''err_open_lots'' (s, if cnt = 1 then 0 else 2)
   }"

definition err_open :: "locals \<Rightarrow> (string \<Rightarrow> u32) \<Rightarrow> kernel \<Rightarrow> (kernel \<times> i32) option" where
  "err_open lo lit s = do {
     r \<leftarrow> refused lo lit ([CHR 0x27] @ ''helloo'' @ [CHR 0x27] @ '' fail'') (ece391_open lo (lit ''helloo'')) (s, 0);
     r \<leftarrow> refused lo lit ([CHR 0x27] @ ''shel'' @ [CHR 0x27] @ '' fail'') (ece391_open lo (lit ''shel'')) r;
     r \<leftarrow> refused lo lit ''empty string fail'' (ece391_open lo (lit '''')) r;
     verdict lo lit ''err_open'' r
   }"

definition err_unopened :: "locals \<Rightarrow> (string \<Rightarrow> u32) \<Rightarrow> u32 \<Rightarrow> kernel \<Rightarrow> (kernel \<times> i32) option" where
  "err_unopened lo lit buf s = do {
     r \<leftarrow> foldM (\<lambda>i. refused lo lit ''close unopened or invalid fd fail'' (ece391_close lo (of_nat i))) [0..<8] (s, 0);
     r \<leftarrow> foldM (\<lambda>i. refused lo lit ''read from unopened fd fail'' (ece391_read lo (of_nat i) buf 31 [])) [2..<8] r;
     r \<leftarrow> foldM (\<lambda>i. refused lo lit ''write to unopened fd fail'' (ece391_write lo (of_nat i) buf 31)) [2..<8] r;
     verdict lo lit ''err_unopened'' r
   }"

definition err_vidmap :: "locals \<Rightarrow> (string \<Rightarrow> u32) \<Rightarrow> kernel \<Rightarrow> (kernel \<times> i32) option" where
  "err_vidmap lo lit s = do {
     r \<leftarrow> refused lo lit ''Null pointer fail'' (ece391_vidmap lo 0) (s, 0);
     r \<leftarrow> refused lo lit ''Kernel pointer fail fail'' (ece391_vidmap lo 0x400000) r;
     verdict lo lit ''err_vidmap'' r
   }"

definition err_stdin_out :: "locals \<Rightarrow> (string \<Rightarrow> u32) \<Rightarrow> u32 \<Rightarrow> kernel \<Rightarrow> (kernel \<times> i32) option" where
  "err_stdin_out lo lit buf s = do {
     r \<leftarrow> refused lo lit ''write to stdin fail'' (ece391_write lo 0 buf 31) (s, 0);
     r \<leftarrow> refused lo lit ''read from stdout fail'' (ece391_read lo 1 buf 31 []) r;
     verdict lo lit ''err_stdin_out'' r
   }"

definition err_syscall_num :: "locals \<Rightarrow> (string \<Rightarrow> u32) \<Rightarrow> u32 \<times> u32 \<times> u32 \<Rightarrow> kernel \<Rightarrow> (kernel \<times> i32) option" where
  "err_syscall_num lo lit regs s = do {
     r \<leftarrow> refused lo lit ''syscall 0 fail'' (call_sys lo 1073741823 regs) (s, 0);
     r \<leftarrow> refused lo lit ''big num syscall fail'' (call_sys lo (-1073741823) regs) r;
     r \<leftarrow> refused lo lit ''neg num syscall fail'' (call_sys lo 0 regs) r;
     verdict lo lit ''err_syscall_num'' r
   }"

text \<open>The choice of a test, and \<open>main\<close>.\<close>

definition add_fail :: "(kernel \<Rightarrow> (kernel \<times> i32) option) \<Rightarrow> kernel \<times> i32 \<Rightarrow> (kernel \<times> i32) option" where
  "add_fail test = (\<lambda>(s, fail). do { (s, r) \<leftarrow> test s; Some (s, fail + r) })"

definition all_tests :: "locals \<Rightarrow> (string \<Rightarrow> u32) \<Rightarrow> u32 \<Rightarrow> u32 \<times> u32 \<times> u32 \<Rightarrow> kernel \<Rightarrow> (kernel \<times> i32) option" where
  "all_tests lo lit buf regs s = do {
     r \<leftarrow> add_fail (err_neg_fd lo lit buf) (s, 0);
     r \<leftarrow> add_fail (err_big_fd lo lit buf) r;
     r \<leftarrow> add_fail (err_open_lots lo lit) r;
     r \<leftarrow> add_fail (err_open lo lit) r;
     r \<leftarrow> add_fail (err_unopened lo lit buf) r;
     r \<leftarrow> add_fail (err_vidmap lo lit) r;
     r \<leftarrow> add_fail (err_stdin_out lo lit buf) r;
     (s, fail) \<leftarrow> add_fail (err_syscall_num lo lit regs) r;
     s \<leftarrow> ece391_fdputs lo 1 (lit ([CHR 0x0A] @ ''Overall Tests: '' @ (if fail \<noteq> 0 then ''FAIL'' else ''PASS'') @ [CHR 0x0A])) s;
     Some (s, fail)
   }"

definition syserr_select :: "locals \<Rightarrow> (string \<Rightarrow> u32) \<Rightarrow> u32 \<Rightarrow> u32 \<times> u32 \<times> u32 \<Rightarrow> i32 \<Rightarrow> kernel \<Rightarrow> (kernel \<times> i32) option" where
  "syserr_select lo lit buf regs select s =
     (if select = 0 then all_tests lo lit buf regs s
      else if select = 1 then err_neg_fd lo lit buf s
      else if select = 2 then err_big_fd lo lit buf s
      else if select = 3 then err_open_lots lo lit s
      else if select = 4 then err_open lo lit s
      else if select = 5 then err_unopened lo lit buf s
      else if select = 6 then err_vidmap lo lit s
      else if select = 7 then err_stdin_out lo lit buf s
      else if select = 8 then err_syscall_num lo lit regs s
      else do {
        s \<leftarrow> ece391_fdputs lo 1 (lit ''Invalid test number. Choose from tests 1-8 or 0'') s;
        Some (s, 0)
      })"

definition syserr_main :: "locals \<Rightarrow> (string \<Rightarrow> u32) \<Rightarrow> u32 \<Rightarrow> u32 \<Rightarrow> u32 \<times> u32 \<times> u32 \<Rightarrow> irqs \<Rightarrow> kernel \<Rightarrow> (kernel \<times> i32) option" where
  "syserr_main lo lit buf testbuf regs irqs s = do {
     s \<leftarrow> ece391_fdputs lo 1 (lit ''Choose from tests 1-8. 0 to run all: '') s;
     (s, cnt) \<leftarrow> ece391_read lo 0 buf 127 irqs s;
     if cnt = -1 then fail_with lo (lit (''Can'' @ [CHR 0x27] @ ''t read test #'' @ [CHR 0x0A])) 2 s
     else syserr_select lo lit testbuf regs (ucast (vmem s buf) - 0x30) s
   }"

end
