(* ===== verification/SyserrProps.thy ===== *)
theory SyserrProps
  imports Syserr UserProps
begin

text \<open>
  The kernel passes the tests of \<open>syscalls/ece391syserr.c\<close>. Every test is followed from one state to the
  next by the relation \<open>ran\<close>, which says what the program sees of a call that is refused: the console
  shows what was printed, and the index table and the memory outside the kernel's directory entry are as they were.
\<close>

section \<open>What a refused call leaves\<close>

definition ran :: "locals \<Rightarrow> u8 list \<Rightarrow> kernel \<Rightarrow> kernel \<Rightarrow> bool" where
  "ran lo cs s s' \<longleftrightarrow> on_console s' \<and> openIndexes (pcbs s' ! current_pid s') = openIndexes (pcbs s ! current_pid s)
     \<and> boot_block s' = boot_block s \<and> (\<forall>a. \<not> within (lo_dentry lo) 64 a \<longrightarrow> vmem s' a = vmem s a)
     \<and> put_terminal s' = put_terminal s \<and> screen_at (put_terminal s) s' = fold emit cs (screen_at (put_terminal s) s)"

lemma ran_trans: "ran lo cs s t \<Longrightarrow> ran lo ds t u \<Longrightarrow> ran lo (cs @ ds) s u"
  by (simp add: ran_def)

lemma ran_refl: "on_console s \<Longrightarrow> ran lo [] s s"
  by (simp add: ran_def)

lemma clock_fields [simp]:
  "freq_count (sti s) = freq_count s" "curr_freq (sti s) = curr_freq s"
  "freq_count (cli s) = freq_count s" "curr_freq (cli s) = curr_freq s"
  "freq_count (prints cs s) = freq_count s" "curr_freq (prints cs s) = curr_freq s"
proof -
  have "freq_count (putc_result c s) = freq_count s" "curr_freq (putc_result c s) = curr_freq s" for c s
    by (simp_all add: putc_result_def Let_def with_screen_def split: prod.split)
  then show "freq_count (prints cs s) = freq_count s" "curr_freq (prints cs s) = curr_freq s"
    by (induction cs arbitrary: s) (simp_all add: prints_def)
qed (simp_all add: sti_def cli_def)

lemma ran_irq:
  assumes "on_console s"
  shows "ran lo [] s (sti (cli s))" "ran lo [] s (sti (sti (cli s)))"
proof -
  have "con_part (sti (cli s)) = con_part s" by simp
  from con_part_eq [OF this] show "ran lo [] s (sti (cli s))"
    using assms by (simp add: ran_def on_console_def)
  moreover have "sti (sti t) = sti t" for t by (simp add: sti_def)
  ultimately show "ran lo [] s (sti (sti (cli s)))" by simp
qed

lemma ran_prints:
  assumes "on_console s"
  shows "ran lo cs s (sti (prints cs (sti (cli s))))"
proof -
  have "console_ok s" using assms by (simp add: on_console_def)
  from prints_console [OF this, of cs] show ?thesis
    using assms by (simp add: ran_def on_console_def)
qed

lemma fdputs_ran:
  assumes c: "on_console s" and p: "p \<noteq> 0" "cstring (vmem s) p cs" "cs \<noteq> []" "length cs < 2 ^ 31" "8 \<notin> set cs"
  shows "\<exists>s'. ece391_fdputs lo 1 p s = Some s' \<and> ran lo cs s s'"
  using fdputs_eq [OF assms, of lo] ran_prints [OF c] by blast

section \<open>The state the tests start in\<close>

definition passed :: "string \<Rightarrow> string" where
  "passed name = name @ '': PASS'' @ [CHR 0x0A]"

definition overall :: string where
  "overall = [CHR 0x0A] @ ''Overall Tests: PASS'' @ [CHR 0x0A]"

definition texts :: "string list" where
  "texts = [passed ''err_neg_fd'', passed ''err_big_fd'', passed ''err_open_lots'', passed ''err_open'',
     passed ''err_unopened'', passed ''err_vidmap'', passed ''err_stdin_out'', passed ''err_syscall_num'', overall,
     ''.'', ''helloo'', ''shel'', '''']"

definition text_at :: "locals \<Rightarrow> (string \<Rightarrow> u32) \<Rightarrow> kernel \<Rightarrow> string \<Rightarrow> bool" where
  "text_at lo lit s t \<longleftrightarrow> lit t \<noteq> 0 \<and> cstring (vmem s) (lit t) (map of_char t)
     \<and> apart (lo_dentry lo) 64 (lit t) (length t + 1)"

definition tests_ready :: "locals \<Rightarrow> (string \<Rightarrow> u32) \<Rightarrow> u32 \<Rightarrow> kernel \<Rightarrow> bool" where
  "tests_ready lo lit buf s \<longleftrightarrow> on_console s \<and> buf \<noteq> 0
     \<and> openIndexes (pcbs s ! current_pid s) = replicate 6 empty
     \<and> fs_ok (vmem s) (boot_block s) \<and> apart (lo_dentry lo) 64 (boot_block s) (fs_size (vmem s) (boot_block s))
     \<and> (\<exists>k. last_named (vmem s) (boot_block s) (map of_char ''.'') k)
     \<and> (\<forall>j < entry_count (vmem s) (boot_block s).
          entry_name (vmem s) (boot_block s) j \<notin> {map of_char ''helloo'', map of_char ''shel'', map of_char ''''})
     \<and> (\<forall>t \<in> set texts. text_at lo lit s t)"

lemma outside_text:
  assumes "text_at lo lit s t" "\<And>a. \<not> within (lo_dentry lo) 64 a \<Longrightarrow> vmem s' a = vmem s a" "length t < 2 ^ 31"
  shows "text_at lo lit s' t"
proof -
  have "cstring (vmem s') (lit t) (map of_char t)"
  proof (rule cstring_cong)
    show "cstring (vmem s) (lit t) (map of_char t)" using assms(1) by (simp add: text_at_def)
    fix i assume "i \<le> length (map of_char t :: u8 list)"
    then have "within (lit t) (length t + 1) (lit t + of_nat i)" using assms(3) by (simp add: within_offset)
    then have "\<not> within (lo_dentry lo) 64 (lit t + of_nat i)" using assms(1) by (auto simp: text_at_def apart_def)
    then show "vmem s' (lit t + of_nat i) = vmem s (lit t + of_nat i)" by (rule assms(2))
  qed
  then show ?thesis using assms(1) by (simp add: text_at_def)
qed

lemma texts_short: "t \<in> set texts \<Longrightarrow> length t < 2 ^ 31"
  by (auto simp: texts_def passed_def overall_def)

lemma ready_ran:
  assumes "tests_ready lo lit buf s" "ran lo cs s s'"
  shows "tests_ready lo lit buf s'"
proof -
  let ?bb = "boot_block s"
  have m: "\<And>a. \<not> within (lo_dentry lo) 64 a \<Longrightarrow> vmem s' a = vmem s a" and bb: "boot_block s' = ?bb"
    and o: "openIndexes (pcbs s' ! current_pid s') = replicate 6 empty" "on_console s'"
    using assms by (simp_all add: ran_def tests_ready_def)
  have R: "fs_ok (vmem s) ?bb" "apart (lo_dentry lo) 64 ?bb (fs_size (vmem s) ?bb)"
    using assms(1) by (simp_all add: tests_ready_def)
  have im: "same_image (vmem s) (vmem s') ?bb" by (rule same_image_outside [OF m R(2)])
  note F = same_image_fs_ok [OF im R(1)] and E = same_image_dentry(3) [OF im R(1)]
  have t: "\<forall>t \<in> set texts. text_at lo lit s' t"
    using assms(1) outside_text [OF _ m] texts_short by (auto simp: tests_ready_def)
  have d: "\<exists>k. last_named (vmem s') ?bb (map of_char ''.'') k"
    using assms(1) F(2) E by (auto simp: tests_ready_def last_named_def)
  show ?thesis
    using assms(1) F E t d unfolding tests_ready_def bb o(1) by (simp add: o(2))
qed

lemma verdict_passes:
  assumes "tests_ready lo lit buf s" "passed name \<in> set texts" "8 \<notin> set (map of_char (passed name) :: u8 list)"
  shows "\<exists>s'. verdict lo lit name (s, 0) = Some (s', 0) \<and> ran lo (map of_char (passed name)) s s'"
proof -
  have t: "text_at lo lit s (passed name)" "on_console s" using assms(1,2) by (auto simp: tests_ready_def)
  then obtain s' where "ece391_fdputs lo 1 (lit (passed name)) s = Some s'" "ran lo (map of_char (passed name)) s s'"
    using fdputs_ran [of s "lit (passed name)" "map of_char (passed name)" lo] texts_short [OF assms(2)] assms(3)
    by (auto simp: text_at_def passed_def)
  then show ?thesis by (simp add: verdict_def passed_def)
qed

lemma refusedI: "call s = Some (s', -1) \<Longrightarrow> refused lo lit msg call (s, fail) = Some (s', fail)"
  by (simp add: refused_def)

lemma refused_loop:
  assumes "\<And>i s. i \<in> set is \<Longrightarrow> tests_ready lo lit buf s \<Longrightarrow> \<exists>s'. call i s = Some (s', -1) \<and> ran lo cs s s'"
    and "tests_ready lo lit buf s"
  shows "\<exists>s'. foldM (\<lambda>i. refused lo lit msg (call i)) is (s, fail) = Some (s', fail)
    \<and> ran lo (concat (replicate (length is) cs)) s s'"
  using assms
proof (induction "is" arbitrary: s)
  case Nil
  then show ?case using ran_refl by (simp add: tests_ready_def)
next
  case (Cons i "is")
  obtain t where t: "call i s = Some (t, -1)" "ran lo cs s t" using Cons.prems by (metis list.set_intros(1))
  obtain u where u: "foldM (\<lambda>i. refused lo lit msg (call i)) is (t, fail) = Some (u, fail)"
    "ran lo (concat (replicate (length is) cs)) t u"
    using Cons.IH [OF _ ready_ran [OF Cons.prems(2) t(2)]] Cons.prems(1) by (metis list.set_intros(2))
  then show ?case using refusedI [where call = "call i", OF t(1), of lo lit msg fail] ran_trans [OF t(2) u(2)] by simp
qed

section \<open>Calls that are refused\<close>

lemma close_call: "ece391_close lo fd s = map_option (\<lambda>(s, v). (sti s, v)) (sys_close fd (cli s))"
  by (auto simp: ece391_close_def do_call_def syscall_handler_def returns_def split: option.splits)

lemma bad_descriptor:
  assumes "on_console s" "buf \<noteq> 0" "fd = NEG_FD \<or> fd = BIG_FD"
  shows "ece391_read lo fd buf n irqs s = Some (sti (cli s), -1)"
    "ece391_write lo fd buf n s = Some (sti (sti (cli s)), -1)"
    "ece391_close lo fd s = Some (sti (cli s), -1)"
proof -
  have f: "fd \<noteq> 1" "sint fd < 0 \<or> 7 < sint fd" using assms(3) by auto
  have ok: "procs_ok (cli s)" using assms(1) by (simp add: on_console_def)
  show "ece391_read lo fd buf n irqs s = Some (sti (cli s), -1)"
    using f assms(2) by (simp add: calls sys_read_def)
  show "ece391_write lo fd buf n s = Some (sti (sti (cli s)), -1)"
    using f assms(2) by (auto simp: calls sys_write_def Let_def)
  show "ece391_close lo fd s = Some (sti (cli s), -1)"
    using f by (auto simp: close_call sys_close_eq [OF ok])
qed

lemma small_fd:
  assumes "i < 8"
  shows "unat (of_nat i :: i32) = i" "sint (of_nat i :: i32) = int i" "(of_nat i :: i32) = 1 \<longleftrightarrow> i = 1"
proof -
  show u: "unat (of_nat i :: i32) = i" using assms by (intro unat_of_nat32) simp
  show "sint (of_nat i :: i32) = int i" using assms u by (subst sint_unat32) simp_all
  show "(of_nat i :: i32) = 1 \<longleftrightarrow> i = 1" using of_nat_inj32 [of i 1] assms by simp
qed

lemma unopened:
  assumes "tests_ready lo lit buf s" "2 \<le> i" "i < 8"
  shows "flags (fdArray (pcbs s ! current_pid s) ! i) = empty"
proof -
  have "procs_ok s" "openIndexes (pcbs s ! current_pid s) = replicate 6 empty"
    using assms(1) by (auto simp: tests_ready_def on_console_def)
  then have "flags (fdArray (pcbs s ! current_pid s) ! (i - 2 + 2)) = empty"
    using the_pcb_ok(3) [of s] assms(2,3) by (simp only: fds_ok_def) simp
  then show ?thesis using le_add_diff_inverse2 [OF assms(2)] by (simp only:)
qed

lemma close_unopened:
  assumes "tests_ready lo lit buf s" "i < 8"
  shows "ece391_close lo (of_nat i) s = Some (sti (cli s), -1)"
proof -
  have ok: "procs_ok (cli s)" using assms(1) by (simp add: tests_ready_def on_console_def)
  show ?thesis
    using unopened [OF assms(1) _ assms(2)] small_fd [OF assms(2)]
    by (cases "2 \<le> i") (simp_all add: close_call sys_close_eq [OF ok])
qed

lemma get_unopened:
  assumes "tests_ready lo lit buf s" "i < 8"
  shows "get_fd i s = Some (fdArray (pcbs s ! current_pid s) ! i)"
proof -
  have ok: "procs_ok s" using assms(1) by (simp add: tests_ready_def on_console_def)
  then show ?thesis using the_pcb_ok [OF ok] assms(2) by (simp add: get_fd_def fds_ok_def)
qed

lemma read_unopened:
  assumes "tests_ready lo lit buf s" "2 \<le> i" "i < 8"
  shows "ece391_read lo (of_nat i) buf n irqs s = Some (sti (sti (cli s)), -1)"
  using assms unopened [OF assms] get_unopened [OF assms(1,3)] small_fd [OF assms(3)]
  by (simp add: calls sys_read_def Let_def tests_ready_def)

lemma write_unopened:
  assumes "tests_ready lo lit buf s" "2 \<le> i" "i < 8"
  shows "ece391_write lo (of_nat i) buf n s = Some (sti (prints [0x0A] (sti (cli s))), -1)"
proof -
  have "con_part (sti (cli s)) = con_part s" by simp
  from con_part_eq(1) [OF this] have "console_ok (sti (cli s))"
    using assms(1) by (simp add: tests_ready_def on_console_def)
  then have "printf [CHR 0x0A] [] 0 (sti (cli s)) = Some (prints [0x0A] (sti (cli s)), 1)"
    using printf_plain [of "[0x0A]" "sti (cli s)" "[]" 0] by (simp add: printf_def)
  then show ?thesis
    using assms unopened [OF assms] get_unopened [OF assms(1,3)] small_fd [OF assms(3)]
    by (simp add: calls sys_write_def Let_def tests_ready_def)
qed

text \<open>A name that is not in the directory.\<close>

lemma open_unknown:
  assumes "tests_ready lo lit buf s" "t \<in> {''helloo'', ''shel'', ''''}"
  shows "ece391_open lo (lit t) s = Some (sti (cli s), -1)"
proof -
  have r: "fs_ok (vmem s) (boot_block s)" "cstring (vmem s) (lit t) (map of_char t)" "lit t \<noteq> 0"
    "apart (lo_dentry lo) 64 (boot_block s) (fs_size (vmem s) (boot_block s))"
    "\<forall>j < entry_count (vmem s) (boot_block s). entry_name (vmem s) (boot_block s) j \<noteq> map of_char t"
    using assms unfolding tests_ready_def texts_def text_at_def by auto
  have "read_dentry_by_name (vmem s) (boot_block s) (lit t) (lo_dentry lo) = Some (vmem s, -1)"
    using read_dentry_by_name_cases [OF r(1,2,4)] r(5) by (auto simp: last_named_def)
  then show ?thesis
    using r(3) by (simp add: calls sys_open_def) (metis set_vmem_vmem vmem_procs(5))
qed

section \<open>The tests that only make refused calls\<close>

lemma ready_console: "tests_ready lo lit buf s \<Longrightarrow> on_console s" "tests_ready lo lit buf s \<Longrightarrow> buf \<noteq> 0"
  by (simp_all add: tests_ready_def)

lemma plain_text:
  "8 \<notin> set (map of_char (passed ''err_neg_fd'') :: u8 list)" "8 \<notin> set (map of_char (passed ''err_big_fd'') :: u8 list)"
  "8 \<notin> set (map of_char (passed ''err_open_lots'') :: u8 list)" "8 \<notin> set (map of_char (passed ''err_open'') :: u8 list)"
  "8 \<notin> set (map of_char (passed ''err_unopened'') :: u8 list)" "8 \<notin> set (map of_char (passed ''err_vidmap'') :: u8 list)"
  "8 \<notin> set (map of_char (passed ''err_stdin_out'') :: u8 list)" "8 \<notin> set (map of_char (passed ''err_syscall_num'') :: u8 list)"
  "8 \<notin> set (map of_char overall :: u8 list)"
  by (simp_all add: passed_def overall_def)

lemma err_fd_passes:
  assumes r: "tests_ready lo lit buf s" and fd: "fd = NEG_FD \<or> fd = BIG_FD"
    and name: "passed name \<in> set texts" "8 \<notin> set (map of_char (passed name) :: u8 list)"
  shows "\<exists>s'. err_fd fd name lo lit buf s = Some (s', 0) \<and> ran lo (map of_char (passed name)) s s'"
proof -
  define t where "t = sti (cli s)"
  define u where "u = sti (sti (cli t))"
  define v where "v = sti (cli u)"
  have t: "ran lo [] s t" using ran_irq(1) [OF ready_console(1) [OF r]] by (simp add: t_def)
  note rt = ready_ran [OF r t]
  have u: "ran lo [] t u" using ran_irq(2) [OF ready_console(1) [OF rt]] by (simp add: u_def)
  note ru = ready_ran [OF rt u]
  have v: "ran lo [] u v" using ran_irq(1) [OF ready_console(1) [OF ru]] by (simp add: v_def)
  note rv = ready_ran [OF ru v]
  obtain s' where s': "verdict lo lit name (v, 0) = Some (s', 0)" "ran lo (map of_char (passed name)) v s'"
    using verdict_passes [OF rv name] by blast
  have "err_fd fd name lo lit buf s = Some (s', 0)"
    using bad_descriptor(1) [OF ready_console [OF r] fd, folded t_def]
      bad_descriptor(2) [OF ready_console [OF rt] fd, folded u_def]
      bad_descriptor(3) [OF ready_console [OF ru] fd, folded v_def] s'(1)
    by (simp add: err_fd_def refused_def)
  moreover have "ran lo (map of_char (passed name)) s s'"
    using ran_trans [OF t ran_trans [OF u ran_trans [OF v s'(2)]]] by simp
  ultimately show ?thesis by blast
qed

lemma irq_step:
  assumes "tests_ready lo lit buf s"
  shows "ran lo [] s (sti (cli s))" "tests_ready lo lit buf (sti (cli s))"
    "ran lo [] s (sti (sti (cli s)))" "tests_ready lo lit buf (sti (sti (cli s)))"
  using ran_irq [OF ready_console(1) [OF assms]] ready_ran [OF assms] by blast+

lemma err_open_passes:
  assumes r: "tests_ready lo lit buf s"
  shows "\<exists>s'. err_open lo lit s = Some (s', 0) \<and> ran lo (map of_char (passed ''err_open'')) s s'"
proof -
  define t u v where "t = sti (cli s)" and "u = sti (cli t)" and "v = sti (cli u)"
  note t = irq_step [OF r, folded t_def] and u = irq_step [OF irq_step(2) [OF r], folded t_def u_def]
  note v = irq_step [OF u(2), folded v_def]
  obtain s' where s': "verdict lo lit ''err_open'' (v, 0) = Some (s', 0)" "ran lo (map of_char (passed ''err_open'')) v s'"
    using verdict_passes [OF v(2) _ plain_text(4)] by (auto simp: texts_def)
  have "err_open lo lit s = Some (s', 0)"
    using open_unknown [OF r, of "''helloo''"] open_unknown [OF t(2), of "''shel''"] open_unknown [OF u(2), of "''''"] s'(1)
    by (simp add: err_open_def refused_def t_def u_def v_def)
  moreover have "ran lo (map of_char (passed ''err_open'')) s s'"
    using ran_trans [OF t(1) ran_trans [OF u(1) ran_trans [OF v(1) s'(2)]]] by simp
  ultimately show ?thesis by blast
qed

lemma err_unopened_passes:
  assumes r: "tests_ready lo lit buf s"
  shows "\<exists>s'. err_unopened lo lit buf s = Some (s', 0)
    \<and> ran lo (replicate 6 0x0A @ map of_char (passed ''err_unopened'')) s s'"
proof -
  have mem: "i \<in> set [0..<8] \<Longrightarrow> i < 8" "i \<in> set [2..<8] \<Longrightarrow> 2 \<le> i \<and> i < 8" for i
    by (simp_all only: set_upt atLeastLessThan_iff)
  have c: "i \<in> set [0..<8] \<Longrightarrow> tests_ready lo lit buf s \<Longrightarrow> \<exists>s'. ece391_close lo (of_nat i) s = Some (s', -1) \<and> ran lo [] s s'" for i s
    using close_unopened irq_step(1) mem(1) by blast
  have rd: "i \<in> set [2..<8] \<Longrightarrow> tests_ready lo lit buf s \<Longrightarrow>
      \<exists>s'. ece391_read lo (of_nat i) buf 31 [] s = Some (s', -1) \<and> ran lo [] s s'" for i s
    using read_unopened irq_step(3) mem(2) by blast
  have w: "i \<in> set [2..<8] \<Longrightarrow> tests_ready lo lit buf s \<Longrightarrow>
      \<exists>s'. ece391_write lo (of_nat i) buf 31 s = Some (s', -1) \<and> ran lo [0x0A] s s'" for i s
    using write_unopened ran_prints [OF ready_console(1)] mem(2) by blast
  have rep: "concat (replicate k []) = []" "concat (replicate k [x]) = replicate k x" for k x
    by (induction k) simp_all
  have len: "length [0..<8] = 8" "length [2..<8] = 6" by simp_all
  let ?close = "\<lambda>i. refused lo lit ''close unopened or invalid fd fail'' (ece391_close lo (of_nat i))"
  let ?read = "\<lambda>i. refused lo lit ''read from unopened fd fail'' (ece391_read lo (of_nat i) buf 31 [])"
  let ?wr = "\<lambda>i. refused lo lit ''write to unopened fd fail'' (ece391_write lo (of_nat i) buf 31)"
  obtain t where t: "foldM ?close [0..<8] (s, 0) = Some (t, 0)" "ran lo (concat (replicate 8 [])) s t"
    using refused_loop [of "[0..<8]" lo lit buf "\<lambda>i. ece391_close lo (of_nat i)" "[]", OF c r] unfolding len by blast
  note rt = ready_ran [OF r t(2)]
  obtain u where u: "foldM ?read [2..<8] (t, 0) = Some (u, 0)" "ran lo (concat (replicate 6 [])) t u"
    using refused_loop [of "[2..<8]" lo lit buf "\<lambda>i. ece391_read lo (of_nat i) buf 31 []" "[]", OF rd rt] unfolding len by blast
  note ru = ready_ran [OF rt u(2)]
  obtain v where v: "foldM ?wr [2..<8] (u, 0) = Some (v, 0)" "ran lo (concat (replicate 6 [0x0A])) u v"
    using refused_loop [of "[2..<8]" lo lit buf "\<lambda>i. ece391_write lo (of_nat i) buf 31" "[0x0A]", OF w ru] unfolding len by blast
  note rv = ready_ran [OF ru v(2)]
  obtain s' where s': "verdict lo lit ''err_unopened'' (v, 0) = Some (s', 0)" "ran lo (map of_char (passed ''err_unopened'')) v s'"
    using verdict_passes [OF rv _ plain_text(5)] by (auto simp: texts_def)
  have "err_unopened lo lit buf s = Some (s', 0)"
    unfolding err_unopened_def t(1) u(1) v(1) s'(1) Option.bind.bind_lunit ..
  moreover have "ran lo (replicate 6 0x0A @ map of_char (passed ''err_unopened'')) s s'"
    using ran_trans [OF t(2) ran_trans [OF u(2) ran_trans [OF v(2) s'(2)]]] unfolding rep append_Nil .
  ultimately show ?thesis by blast
qed

lemma vidmap_refused: "p = 0 \<or> p = 0x400000 \<Longrightarrow> ece391_vidmap lo p s = Some (sti (cli s), -1)"
  by (auto simp: ece391_vidmap_def do_call_def syscall_handler_def returns_def sys_vidmap_def USR_MEM_VIRT_ADDR_def)

lemma err_vidmap_passes:
  assumes r: "tests_ready lo lit buf s"
  shows "\<exists>s'. err_vidmap lo lit s = Some (s', 0) \<and> ran lo (map of_char (passed ''err_vidmap'')) s s'"
proof -
  define t u where "t = sti (cli s)" and "u = sti (cli t)"
  note t = irq_step [OF r, folded t_def] and u = irq_step [OF irq_step(2) [OF r], folded t_def u_def]
  obtain s' where s': "verdict lo lit ''err_vidmap'' (u, 0) = Some (s', 0)" "ran lo (map of_char (passed ''err_vidmap'')) u s'"
    using verdict_passes [OF u(2) _ plain_text(6)] by (auto simp: texts_def)
  have "err_vidmap lo lit s = Some (s', 0)"
    using vidmap_refused [of 0 lo s] vidmap_refused [of "0x400000" lo t] s'(1)
    by (simp add: err_vidmap_def refused_def t_def u_def)
  moreover have "ran lo (map of_char (passed ''err_vidmap'')) s s'"
    using ran_trans [OF t(1) ran_trans [OF u(1) s'(2)]] by simp
  ultimately show ?thesis by blast
qed

lemma err_stdin_out_passes:
  assumes r: "tests_ready lo lit buf s"
  shows "\<exists>s'. err_stdin_out lo lit buf s = Some (s', 0) \<and> ran lo (map of_char (passed ''err_stdin_out'')) s s'"
proof -
  define t u where "t = sti (sti (cli s))" and "u = sti (cli t)"
  note t = irq_step [OF r, folded t_def] and u = irq_step [OF irq_step(4) [OF r], folded t_def u_def]
  obtain s' where s': "verdict lo lit ''err_stdin_out'' (u, 0) = Some (s', 0)" "ran lo (map of_char (passed ''err_stdin_out'')) u s'"
    using verdict_passes [OF u(2) _ plain_text(7)] by (auto simp: texts_def)
  have "ece391_write lo 0 buf 31 s = Some (t, -1)" "ece391_read lo 1 buf 31 [] t = Some (u, -1)"
    using ready_console(2) [OF r] by (simp_all add: calls sys_write_def sys_read_def Let_def t_def u_def)
  then have "err_stdin_out lo lit buf s = Some (s', 0)"
    using s'(1) by (simp add: err_stdin_out_def refused_def)
  moreover have "ran lo (map of_char (passed ''err_stdin_out'')) s s'"
    using ran_trans [OF t(3) ran_trans [OF u(1) s'(2)]] by simp
  ultimately show ?thesis by blast
qed

lemma bad_number: "sint n \<le> 0 \<or> 10 < sint n \<Longrightarrow> call_sys lo n regs s = Some (sti (cli s), -1)"
  by (cases regs) (auto simp: call_sys_def do_call_def syscall_handler_def)

lemma err_syscall_num_passes:
  assumes r: "tests_ready lo lit buf s"
  shows "\<exists>s'. err_syscall_num lo lit regs s = Some (s', 0) \<and> ran lo (map of_char (passed ''err_syscall_num'')) s s'"
proof -
  define t u v where "t = sti (cli s)" and "u = sti (cli t)" and "v = sti (cli u)"
  note t = irq_step [OF r, folded t_def] and u = irq_step [OF irq_step(2) [OF r], folded t_def u_def]
  note v = irq_step [OF u(2), folded v_def]
  obtain s' where s': "verdict lo lit ''err_syscall_num'' (v, 0) = Some (s', 0)"
    "ran lo (map of_char (passed ''err_syscall_num'')) v s'"
    using verdict_passes [OF v(2) _ plain_text(8)] by (auto simp: texts_def)
  have "err_syscall_num lo lit regs s = Some (s', 0)"
    using s'(1) by (simp add: err_syscall_num_def refused_def bad_number t_def u_def v_def)
  moreover have "ran lo (map of_char (passed ''err_syscall_num'')) s s'"
    using ran_trans [OF t(1) ran_trans [OF u(1) ran_trans [OF v(1) s'(2)]]] by simp
  ultimately show ?thesis by blast
qed

section \<open>Opening more files than there are descriptors\<close>

text \<open>The state after \<open>n\<close> of the directory's names have been opened: the first \<open>n\<close> descriptors of files are in use.\<close>

definition holding :: "locals \<Rightarrow> nat \<Rightarrow> kernel \<Rightarrow> kernel \<Rightarrow> bool" where
  "holding lo n s s' \<longleftrightarrow> on_console s'
     \<and> openIndexes (pcbs s' ! current_pid s') = replicate n full @ replicate (6 - n) empty
     \<and> (\<forall>i < n. \<exists>m k. fdArray (pcbs s' ! current_pid s') ! (i + 2) = fresh_fd m (boot_block s) k
          \<and> filetype m (dentry_at (boot_block s) (of_nat k)) \<in> {0, 1, 2})
     \<and> boot_block s' = boot_block s \<and> (\<forall>a. \<not> within (lo_dentry lo) 64 a \<longrightarrow> vmem s' a = vmem s a)
     \<and> con_part s' = con_part s"

lemma next_free: "n < 6 \<Longrightarrow> replicate (6 - n) x = x # replicate (5 - n) x"
proof -
  assume "n < 6"
  then have "6 - n = Suc (5 - n)" by simp
  then show ?thesis by (simp only: replicate_Suc)
qed

lemma first_index_replicate: "n < 6 \<Longrightarrow> first_index empty (replicate n full @ replicate (6 - n) empty) = Some n"
proof -
  have "first_index empty (replicate n full @ empty # xs) = Some n" for n xs by (induction n) simp_all
  then show "n < 6 \<Longrightarrow> ?thesis" by (simp only: next_free)
qed

lemma holding_image:
  assumes r: "tests_ready lo lit buf s" and h: "holding lo n s t"
  shows "fs_ok (vmem t) (boot_block t)" "apart (lo_dentry lo) 64 (boot_block t) (fs_size (vmem t) (boot_block t))"
    "\<exists>k. last_named (vmem t) (boot_block t) (map of_char ''.'') k" "text_at lo lit t ''.''"
proof -
  have m: "\<And>a. \<not> within (lo_dentry lo) 64 a \<Longrightarrow> vmem t a = vmem s a" and bb: "boot_block t = boot_block s"
    using h by (simp_all add: holding_def)
  have R: "fs_ok (vmem s) (boot_block s)" "apart (lo_dentry lo) 64 (boot_block s) (fs_size (vmem s) (boot_block s))"
    using r by (simp_all add: tests_ready_def)
  have im: "same_image (vmem s) (vmem t) (boot_block s)" by (rule same_image_outside [OF m R(2)])
  note F = same_image_fs_ok [OF im R(1)] and E = same_image_dentry(3) [OF im R(1)]
  have D: "\<exists>k. last_named (vmem s) (boot_block s) (map of_char ''.'') k" "\<forall>t \<in> set texts. text_at lo lit s t"
    using r unfolding tests_ready_def by blast+
  show "fs_ok (vmem t) (boot_block t)" "apart (lo_dentry lo) 64 (boot_block t) (fs_size (vmem t) (boot_block t))"
    using F R(2) by (simp_all add: bb)
  show "\<exists>k. last_named (vmem t) (boot_block t) (map of_char ''.'') k"
    using D(1) F(2) E by (auto simp: last_named_def bb)
  have "text_at lo lit s ''.''" using D(2) by (simp add: texts_def)
  then show "text_at lo lit t ''.''" by (rule outside_text [OF _ m]) simp_all
qed

lemma open_next:
  assumes r: "tests_ready lo lit buf s" and h: "holding lo n s t" and n: "n < 6"
  shows "\<exists>u. ece391_open lo (lit ''.'') t = Some (u, of_nat (n + 2)) \<and> holding lo (Suc n) s u"
proof -
  note I = holding_image [OF r h]
  obtain k where k: "last_named (vmem t) (boot_block t) (map of_char ''.'') k" using I(3) by blast
  have free: "first_index empty (openIndexes (pcbs t ! current_pid t)) = Some n"
    using h first_index_replicate [OF n] by (simp add: holding_def)
  have H: "on_console t" "lit ''.'' \<noteq> 0" "cstring (vmem t) (lit ''.'') (map of_char ''.'')"
    using h I(4) by (simp_all add: holding_def text_at_def)
  obtain u where u: "ece391_open lo (lit ''.'') t = Some (u, of_nat (n + 2))" "boot_block u = boot_block t"
    "con_part u = con_part t" "on_console u"
    "pcbs u ! current_pid u = opened n (fresh_fd (vmem t) (boot_block t) k) (cli t)"
    "\<And>a. \<not> within (lo_dentry lo) 64 a \<Longrightarrow> vmem u a = vmem t a"
    by (rule open_once [OF H(1,2) I(1) H(3) I(2) k free]) (rule that)
  have L: "length (fdArray (pcbs t ! current_pid t)) = 8"
    using H(1) the_pcb_ok(3) [of t] by (simp add: on_console_def fds_ok_def)
  have ft: "filetype (vmem t) (dentry_at (boot_block t) (of_nat k)) \<in> {0, 1, 2}"
    using I(1) k by (auto simp: fs_ok_def last_named_def entry_count_def)
  have "(replicate n full @ empty # xs)[n := full] = replicate (Suc n) full @ xs" for xs
    by (induction n) simp_all
  moreover have "6 - Suc n = 5 - n" by simp
  ultimately have o: "openIndexes (pcbs u ! current_pid u) = replicate (Suc n) full @ replicate (6 - Suc n) empty"
    using h next_free [OF n, of empty] by (simp add: u(5) opened_def Let_def holding_def del: replicate_Suc)
  have "\<exists>m k. fdArray (pcbs u ! current_pid u) ! (i + 2) = fresh_fd m (boot_block s) k
      \<and> filetype m (dentry_at (boot_block s) (of_nat k)) \<in> {0, 1, 2}" if "i < Suc n" for i
  proof (cases "i = n")
    case True
    then show ?thesis using ft L n h by (auto simp: u(5) opened_def Let_def holding_def)
  next
    case False
    then show ?thesis using that h by (simp add: u(5) opened_def Let_def holding_def)
  qed
  then have "holding lo (Suc n) s u"
    using h o u(2-4,6) by (simp add: holding_def)
  then show ?thesis using u(1) by blast
qed

lemma open_six:
  assumes r: "tests_ready lo lit buf s"
  shows "n \<le> 6 \<Longrightarrow> \<exists>t. foldM (\<lambda>i (s, cnt). do {
         (s, r) \<leftarrow> ece391_open lo (lit ''.'') s;
         Some (s, if r = -1 then cnt + 1 else cnt)
       }) [0..<n] (s, 0 :: i32) = Some (t, 0) \<and> holding lo n s t"
proof (induction n)
  case 0
  then show ?case using r by (simp add: holding_def tests_ready_def)
next
  case (Suc n)
  then obtain t where t: "foldM (\<lambda>i (s, cnt). do {
         (s, r) \<leftarrow> ece391_open lo (lit ''.'') s;
         Some (s, if r = -1 then cnt + 1 else cnt)
       }) [0..<n] (s, 0 :: i32) = Some (t, 0)" "holding lo n s t" by auto
  obtain u where u: "ece391_open lo (lit ''.'') t = Some (u, of_nat (n + 2))" "holding lo (Suc n) s u"
    using open_next [OF r t(2)] Suc.prems by auto
  have "(of_nat (n + 2) :: i32) \<noteq> -1" using chunk_numbers(2) [of "n + 2"] Suc.prems by simp
  then show ?case using t(1) u by (simp add: foldM_append del: of_nat_add)
qed

lemma open_seventh:
  assumes r: "tests_ready lo lit buf s" and h: "holding lo 6 s t"
  shows "\<exists>u. ece391_open lo (lit ''.'') t = Some (u, -1) \<and> holding lo 6 s u"
proof -
  note I = holding_image [OF r h]
  have H: "on_console t" "lit ''.'' \<noteq> 0" "cstring (vmem t) (lit ''.'') (map of_char ''.'')"
    using h I(4) by (simp_all add: holding_def text_at_def)
  obtain k m where m: "read_dentry_by_name (vmem t) (boot_block t) (lit ''.'') (lo_dentry lo) = Some (m, 0)"
    "dentry_copied (vmem t) m (boot_block t) k (lo_dentry lo)"
    using read_dentry_by_name_cases [OF I(1) H(3) I(2)] I(3) by (auto simp: last_named_def)
  have none: "first_index empty (openIndexes (pcbs t ! current_pid t)) = None"
    using h by (simp add: holding_def first_index_None)
  let ?u = "sti (set_vmem m (cli t))"
  have ok: "procs_ok (cli t)" "vmem (cli t) = vmem t" "boot_block (cli t) = boot_block t"
    using H(1) by (simp_all add: on_console_def)
  have "ece391_open lo (lit ''.'') t = Some (?u, -1)"
    using sys_open_eq [OF ok(1) H(2) m(1) [folded ok(2,3)] refl] none by (simp add: calls)
  moreover have "m a = vmem t a" if "\<not> within (lo_dentry lo) 64 a" for a
    using m(2) that within_mono [of "lo_dentry lo" 40 a 64] by (auto simp: dentry_copied_def)
  moreover have k: "con_part ?u = con_part t" by simp
  moreover have "freq_count (set_vmem m s) = freq_count s" "curr_freq (set_vmem m s) = curr_freq s" for s
    by (simp_all add: set_vmem_def)
  ultimately have "holding lo 6 s ?u"
    using h con_part_eq(1) [OF k] by (simp add: holding_def on_console_def)
  then show ?thesis using \<open>ece391_open lo (lit ''.'') t = Some (?u, -1)\<close> by blast
qed

text \<open>Closing them again. \<open>n\<close> descriptors from the first on have been closed.\<close>

definition released :: "locals \<Rightarrow> nat \<Rightarrow> kernel \<Rightarrow> kernel \<Rightarrow> bool" where
  "released lo n s s' \<longleftrightarrow> on_console s'
     \<and> openIndexes (pcbs s' ! current_pid s') = replicate n empty @ replicate (6 - n) full
     \<and> (\<forall>i. n \<le> i \<and> i < 6 \<longrightarrow> (\<exists>m k. fdArray (pcbs s' ! current_pid s') ! (i + 2) = fresh_fd m (boot_block s) k
          \<and> filetype m (dentry_at (boot_block s) (of_nat k)) \<in> {0, 1, 2}))
     \<and> boot_block s' = boot_block s \<and> (\<forall>a. \<not> within (lo_dentry lo) 64 a \<longrightarrow> vmem s' a = vmem s a)
     \<and> con_part s' = con_part s"

lemma close_next:
  assumes h: "released lo n s t" and n: "n < 6"
  shows "\<exists>u. ece391_close lo (of_nat (n + 2)) t = Some (u, 0) \<and> released lo (Suc n) s u"
proof -
  have c: "on_console t" "procs_ok (cli t)" using h by (simp_all add: released_def on_console_def)
  obtain m k where f: "fdArray (pcbs t ! current_pid t) ! (n + 2) = fresh_fd m (boot_block s) k"
    "filetype m (dentry_at (boot_block s) (of_nat k)) \<in> {0, 1, 2}"
    using h n by (auto simp: released_def)
  have fd: "unat (of_nat (n + 2) :: i32) = n + 2" "sint (of_nat (n + 2) :: i32) = int (n + 2)"
    using small_fd [of "n + 2"] n by simp_all
  define u where "u = closed (n + 2) (cli t)"
  have "flags (fresh_fd m (boot_block s) k) = full" by (simp add: fresh_fd_def)
  then have e: "ece391_close lo (of_nat (n + 2)) t = Some (sti u, 0)"
    using n unfolding close_call sys_close_eq [OF c(2)] fd u_def
    by (simp add: f(1) fresh_fd_calls [OF f(2)] del: add_2_eq_Suc')
  have L: "current_pid t < 6" "length (pcbs t) = 6" "length (fdArray (pcbs t ! current_pid t)) = 8"
    using c(1) the_pcb_ok [of t] by (simp_all add: on_console_def procs_ok_def fds_ok_def)
  have p: "current_pid u = current_pid t" "con_part u = con_part t" "boot_block u = boot_block t" "vmem u = vmem t"
    "freq_count u = freq_count t" "curr_freq u = curr_freq t"
    by (simp_all add: u_def closed_def Let_def) (simp_all add: current_pid_def cli_def)
  have q: "pcbs u ! current_pid t = (pcbs t ! current_pid t)\<lparr>openIndexes := (openIndexes (pcbs t ! current_pid t))[n := empty],
      fdArray := (fdArray (pcbs t ! current_pid t))[n + 2 := (fdArray (pcbs t ! current_pid t) ! (n + 2))\<lparr>flags := empty, file_position := 0\<rparr>]\<rparr>"
    using L by (simp add: u_def closed_def Let_def)
  have ok: "procs_ok u" unfolding u_def by (rule closed_ok [OF c(2)]) (use n in simp_all)
  have "(replicate n empty @ full # xs)[n := empty] = replicate (Suc n) empty @ xs" for xs
    by (induction n) simp_all
  moreover have "6 - Suc n = 5 - n" by simp
  ultimately have o: "openIndexes (pcbs u ! current_pid t) = replicate (Suc n) empty @ replicate (6 - Suc n) full"
    using h next_free [OF n, of full] by (simp add: q released_def del: replicate_Suc)
  have "con_part (sti u) = con_part t" using p(2) by simp
  note k = con_part_eq(1) [OF this]
  have "released lo (Suc n) s (sti u)"
    using h o p ok k L c(1) by (auto simp: released_def on_console_def q)
  then show ?thesis using e by blast
qed

lemma close_six:
  assumes "released lo 0 s t"
  shows "n \<le> 6 \<Longrightarrow> \<exists>u. foldM (\<lambda>i s. map_option fst (ece391_close lo (of_nat i) s)) [2..<n + 2] t = Some u \<and> released lo n s u"
proof (induction n)
  case (Suc n)
  then obtain v where v: "foldM (\<lambda>i s. map_option fst (ece391_close lo (of_nat i) s)) [2..<n + 2] t = Some v"
    "released lo n s v" by auto
  obtain u where u: "ece391_close lo (of_nat (n + 2)) v = Some (u, 0)" "released lo (Suc n) s u"
    using close_next [OF v(2)] Suc.prems by auto
  have "[2..<Suc n + 2] = [2..<n + 2] @ [n + 2]" by simp
  then show ?case using v(1) u by (simp only: foldM_append) (simp del: of_nat_add add_2_eq_Suc')
qed (use assms in simp)

lemma err_open_lots_passes:
  assumes r: "tests_ready lo lit buf s"
  shows "\<exists>s'. err_open_lots lo lit s = Some (s', 0) \<and> ran lo (map of_char (passed ''err_open_lots'')) s s'"
proof -
  let ?open = "\<lambda>i (s, cnt). do {
         (s, r) \<leftarrow> ece391_open lo (lit ''.'') s;
         Some (s, if r = -1 then cnt + 1 else cnt :: i32)
       }"
  obtain t where t: "foldM ?open [0..<6] (s, 0) = Some (t, 0)" "holding lo 6 s t" using open_six [OF r, of 6] by auto
  obtain u where u: "ece391_open lo (lit ''.'') t = Some (u, -1)" "holding lo 6 s u" using open_seventh [OF r t(2)] by auto
  have "[0..<7] = [0..<6] @ [6 :: nat]" by (simp add: upt_rec)
  then have o: "foldM ?open [0..<7] (s, 0) = Some (u, 1)" using t(1) u(1) by (simp only: foldM_append) simp
  have h: "released lo 0 s u" using u(2) by (simp add: holding_def released_def)
  obtain v where v: "foldM (\<lambda>i s. map_option fst (ece391_close lo (of_nat i) s)) [2..<6 + 2] u = Some v" "released lo 6 s v"
    using close_six [OF h, of 6] by auto
  have "ran lo [] s v"
    using v(2) r con_part_eq [of v s] by (simp add: released_def ran_def tests_ready_def)
  note w = ready_ran [OF r this] this
  obtain s' where s': "verdict lo lit ''err_open_lots'' (v, 0) = Some (s', 0)"
    "ran lo (map of_char (passed ''err_open_lots'')) v s'"
    using verdict_passes [OF w(1) _ plain_text(3)] by (auto simp: texts_def)
  have eight: "6 + 2 = (8 :: nat)" by simp
  have "err_open_lots lo lit s = Some (s', 0)"
    unfolding err_open_lots_def o Option.bind.bind_lunit prod.case v(1) [unfolded eight] using s'(1) by simp
  then show ?thesis using ran_trans [OF w(2) s'(2)] by auto
qed

section \<open>All tests\<close>

lemma add_fail_passed: "test s = Some (s', 0) \<Longrightarrow> add_fail test (s, f) = Some (s', f)"
  by (simp add: add_fail_def)

definition report :: "u8 list" where
  "report = map of_char (passed ''err_neg_fd'' @ passed ''err_big_fd'' @ passed ''err_open_lots'' @ passed ''err_open'')
     @ replicate 6 0x0A @ map of_char (passed ''err_unopened'' @ passed ''err_vidmap'' @ passed ''err_stdin_out''
       @ passed ''err_syscall_num'' @ overall)"

lemma err_neg_fd_passes: "tests_ready lo lit buf s \<Longrightarrow>
    \<exists>s'. err_neg_fd lo lit buf s = Some (s', 0) \<and> ran lo (map of_char (passed ''err_neg_fd'')) s s'"
  unfolding err_neg_fd_def by (rule err_fd_passes) (use plain_text(1) in \<open>simp_all add: texts_def\<close>)

lemma err_big_fd_passes: "tests_ready lo lit buf s \<Longrightarrow>
    \<exists>s'. err_big_fd lo lit buf s = Some (s', 0) \<and> ran lo (map of_char (passed ''err_big_fd'')) s s'"
  unfolding err_big_fd_def by (rule err_fd_passes) (use plain_text(2) in \<open>simp_all add: texts_def\<close>)

lemma all_tests_pass:
  assumes r0: "tests_ready lo lit buf s"
  shows "\<exists>s'. all_tests lo lit buf regs s = Some (s', 0) \<and> ran lo report s s'"
proof -
  obtain s1 where 1: "err_neg_fd lo lit buf s = Some (s1, 0)" "ran lo (map of_char (passed ''err_neg_fd'')) s s1"
    using err_neg_fd_passes [OF r0] by blast
  note r1 = ready_ran [OF r0 1(2)]
  obtain s2 where 2: "err_big_fd lo lit buf s1 = Some (s2, 0)" "ran lo (map of_char (passed ''err_big_fd'')) s1 s2"
    using err_big_fd_passes [OF r1] by blast
  note r2 = ready_ran [OF r1 2(2)]
  obtain s3 where 3: "err_open_lots lo lit s2 = Some (s3, 0)" "ran lo (map of_char (passed ''err_open_lots'')) s2 s3"
    using err_open_lots_passes [OF r2] by blast
  note r3 = ready_ran [OF r2 3(2)]
  obtain s4 where 4: "err_open lo lit s3 = Some (s4, 0)" "ran lo (map of_char (passed ''err_open'')) s3 s4"
    using err_open_passes [OF r3] by blast
  note r4 = ready_ran [OF r3 4(2)]
  obtain s5 where 5: "err_unopened lo lit buf s4 = Some (s5, 0)"
    "ran lo (replicate 6 0x0A @ map of_char (passed ''err_unopened'')) s4 s5"
    using err_unopened_passes [OF r4] by blast
  note r5 = ready_ran [OF r4 5(2)]
  obtain s6 where 6: "err_vidmap lo lit s5 = Some (s6, 0)" "ran lo (map of_char (passed ''err_vidmap'')) s5 s6"
    using err_vidmap_passes [OF r5] by blast
  note r6 = ready_ran [OF r5 6(2)]
  obtain s7 where 7: "err_stdin_out lo lit buf s6 = Some (s7, 0)" "ran lo (map of_char (passed ''err_stdin_out'')) s6 s7"
    using err_stdin_out_passes [OF r6] by blast
  note r7 = ready_ran [OF r6 7(2)]
  obtain s8 where 8: "err_syscall_num lo lit regs s7 = Some (s8, 0)" "ran lo (map of_char (passed ''err_syscall_num'')) s7 s8"
    using err_syscall_num_passes [OF r7] by blast
  note r8 = ready_ran [OF r7 8(2)]
  have "text_at lo lit s8 overall" using r8 by (simp add: tests_ready_def texts_def)
  then obtain s9 where 9: "ece391_fdputs lo 1 (lit overall) s8 = Some s9" "ran lo (map of_char overall) s8 s9"
    using fdputs_ran [OF ready_console(1) [OF r8], of "lit overall" "map of_char overall" lo] plain_text(9)
      texts_short [of overall] by (auto simp: text_at_def overall_def texts_def)
  have "all_tests lo lit buf regs s = Some (s9, 0)"
    unfolding all_tests_def add_fail_passed [of "err_neg_fd lo lit buf", OF 1(1)] Option.bind.bind_lunit
      add_fail_passed [of "err_big_fd lo lit buf", OF 2(1)] add_fail_passed [of "err_open_lots lo lit", OF 3(1)]
      add_fail_passed [of "err_open lo lit", OF 4(1)] add_fail_passed [of "err_unopened lo lit buf", OF 5(1)]
      add_fail_passed [of "err_vidmap lo lit", OF 6(1)] add_fail_passed [of "err_stdin_out lo lit buf", OF 7(1)]
      add_fail_passed [of "err_syscall_num lo lit regs", OF 8(1)]
    using 9(1) by (simp add: overall_def)
  moreover note ran_trans [OF 1(2) ran_trans [OF 2(2) ran_trans [OF 3(2) ran_trans [OF 4(2) ran_trans [OF 5(2)
    ran_trans [OF 6(2) ran_trans [OF 7(2) ran_trans [OF 8(2) 9(2)]]]]]]]]
  then have "ran lo report s s9" by (simp only: report_def map_append append_assoc)
  ultimately show ?thesis by blast
qed

section \<open>Properties\<close>

text \<open>C14: The kernel passes the test program of its system calls: on a process with no open files and a file system
  with none of the three odd names, the choice 0 runs all eight tests, prints that each passed (and the empty
  lines \<open>write\<close> prints for the six unopened descriptors), and returns 0, and each test chosen alone returns 0.\<close>

theorem system_call_tests_pass:
  assumes "tests_ready lo lit buf s"
  shows "(\<exists>s'. syserr_select lo lit buf regs 0 s = Some (s', 0)
      \<and> screen_at (put_terminal s) s' = fold emit report (screen_at (put_terminal s) s))
    \<and> (\<forall>select \<in> {1, 2, 3, 4, 5, 6, 7, 8}. \<exists>s'. syserr_select lo lit buf regs select s = Some (s', 0))"
  using all_tests_pass [OF assms, of regs] err_neg_fd_passes [OF assms] err_big_fd_passes [OF assms]
    err_open_lots_passes [OF assms] err_open_passes [OF assms] err_unopened_passes [OF assms]
    err_vidmap_passes [OF assms] err_stdin_out_passes [OF assms] err_syscall_num_passes [OF assms, of regs]
  by (auto simp: syserr_select_def ran_def)

section \<open>The tests on the small image\<close>

text \<open>The string literals lie at 0x600000, 64 bytes each.\<close>

definition demo_lit :: "string \<Rightarrow> u32" where
  "demo_lit t = 0x600000 + of_nat (64 * length (takeWhile (\<lambda>u. u \<noteq> t) texts))"

definition with_texts :: mem where
  "with_texts a = (let n = unat (a - 0x600000) in
     if n < 832 then (map of_char (texts ! (n div 64)) @ replicate 64 0) ! (n mod 64) else demo a)"

definition demo_tester :: kernel where
  "demo_tester = demo_user\<lparr>lowmem := with_texts\<rparr>"

lemma texts_nth:
  "t \<in> set texts \<Longrightarrow> \<exists>i < 13. t = texts ! i \<and> length (takeWhile (\<lambda>u. u \<noteq> t) texts) = i"
proof -
  assume t: "t \<in> set texts"
  let ?i = "length (takeWhile (\<lambda>u. u \<noteq> t) texts)"
  have l: "length texts = 13" by (simp add: texts_def)
  have "?i \<noteq> length texts"
  proof
    assume "?i = length texts"
    then have "takeWhile (\<lambda>u. u \<noteq> t) texts = texts" by (metis takeWhile_eq_take take_all order_refl)
    then show False using t by (auto simp: takeWhile_eq_all_conv)
  qed
  then have "?i < length texts" using length_takeWhile_le [of "\<lambda>u. u \<noteq> t" texts] by simp
  moreover from this have "texts ! ?i = t" using nth_length_takeWhile [of "\<lambda>u. u \<noteq> t" texts] by simp
  ultimately show ?thesis unfolding l by metis
qed

lemma texts_length: "t \<in> set texts \<Longrightarrow> length t < 64" "t \<in> set texts \<Longrightarrow> 0 \<notin> set (map of_char t :: u8 list)"
  by (auto simp: texts_def passed_def overall_def)

lemma with_texts_at:
  assumes "t \<in> set texts"
  shows "cstring with_texts (demo_lit t) (map of_char t)" "apart 0x500100 64 (demo_lit t) (length t + 1)" "demo_lit t \<noteq> 0"
proof -
  obtain i where i: "i < 13" "t = texts ! i" "length (takeWhile (\<lambda>u. u \<noteq> t) texts) = i"
    using texts_nth [OF assms] by blast
  note l = texts_length [OF assms]
  have d: "demo_lit t = 0x600000 + of_nat (64 * i)" by (simp only: demo_lit_def i(3))
  have at: "with_texts (demo_lit t + of_nat j) = (map of_char t @ replicate 64 0) ! j" if "j < 64" for j
  proof -
    have "demo_lit t + of_nat j - 0x600000 = of_nat (64 * i + j)" by (simp add: d)
    then have "unat (demo_lit t + of_nat j - 0x600000) = 64 * i + j"
      using that i(1) unat_of_nat32 [of "64 * i + j"] by (simp only: ) simp
    moreover have "(64 * i + j) div 64 = i" "(64 * i + j) mod 64 = j" using that by simp_all
    moreover have "64 * i + j < 832" using that i(1) by simp
    ultimately show ?thesis by (simp add: with_texts_def Let_def i(2))
  qed
  show "cstring with_texts (demo_lit t) (map of_char t)"
  proof (rule cstringI)
    fix j assume "j < length (map of_char t :: u8 list)"
    then show "with_texts (demo_lit t + of_nat j) = (map of_char t :: u8 list) ! j"
      using at [of j] l(1) by (simp add: nth_append)
  next
    show "with_texts (demo_lit t + of_nat (length (map of_char t :: u8 list))) = 0"
      using at [of "length t"] l(1) by (simp add: nth_append)
  qed (use l in simp_all)
  have u: "unat (demo_lit t) = 0x600000 + 64 * i"
    using i(1) unat_of_nat32 [of "0x600000 + 64 * i"] by (simp add: d)
  then show "demo_lit t \<noteq> 0" by auto
  have a: "unat (demo_lit t - 0x500100) = 0x600000 + 64 * i - 0x500100"
    using u by (subst unat_sub) (simp_all add: word_le_nat_alt)
  have "unat (0x500100 - demo_lit t) = 2 ^ 32 - (0x600000 + 64 * i - 0x500100)"
    using unat_diff_swap [of "0x500100" "demo_lit t"] u a by (auto simp: word_unat_eq_iff)
  then show "apart 0x500100 64 (demo_lit t) (length t + 1)"
    using a l(1) i(1) by (intro apartI) simp_all
qed

lemma with_texts_demo: "\<not> within 0x600000 832 a \<Longrightarrow> with_texts a = demo a"
  by (simp add: with_texts_def within_def Let_def)

lemma demo_tester_image:
  "fs_ok (vmem demo_tester) demo_bb" "entry_count (vmem demo_tester) demo_bb = 2"
  "fs_size (vmem demo_tester) demo_bb = fs_size demo demo_bb" "vmem demo_tester = with_texts"
  "i < 2 \<Longrightarrow> entry_name (vmem demo_tester) demo_bb i = entry_name demo demo_bb i"
proof -
  show v: "vmem demo_tester = with_texts"
  proof
    fix a
    have "in_user_page a \<Longrightarrow> \<not> within 0x600000 832 a"
      by (simp add: in_user_page_def USR_MEM_VIRT_ADDR_def MB4_def within_def unat_sub_if_size word_size word_le_nat_alt
          word_less_nat_alt split: if_splits)
    then have "in_user_page a \<Longrightarrow> with_texts a = vmem demo_user a" by (simp add: with_texts_demo demo_user_vmem)
    then show "vmem demo_tester a = with_texts a" by (simp add: demo_tester_def vmem_def demo_user_def)
  qed
  have im: "same_image demo with_texts demo_bb"
    by (rule same_image_outside [of "0x600000" 832, OF with_texts_demo demo_apart600]) simp_all
  note F = same_image_fs_ok [OF im demo_fs_ok] and E = same_image_dentry(3) [OF im demo_fs_ok]
  show "fs_ok (vmem demo_tester) demo_bb" "entry_count (vmem demo_tester) demo_bb = 2"
    "fs_size (vmem demo_tester) demo_bb = fs_size demo demo_bb"
    using F demo_count by (simp_all add: v)
  show "i < 2 \<Longrightarrow> entry_name (vmem demo_tester) demo_bb i = entry_name demo demo_bb i"
    using E [of i] demo_count by (simp add: v)
qed

lemma demo_tester_ready: "tests_ready demo_locals demo_lit 0x700000 demo_tester"
proof -
  have b: "boot_block demo_tester = demo_bb" "current_pid demo_tester = 0"
    "pcbs demo_tester ! 0 = init_pcb 0 0 empty_PCB"
    using demo_user_simps by (simp_all add: demo_tester_def current_pid_def)
  have c: "on_console demo_tester"
    using demo_user_console by (simp add: demo_tester_def on_console_def procs_ok_def console_ok_def current_pid_def)
  have n: "entry_name (vmem demo_tester) demo_bb 0 = [46]" "entry_name (vmem demo_tester) demo_bb (Suc 0) = [104, 105]"
    using demo_tester_image(5) demo_names by simp_all
  have "last_named (vmem demo_tester) demo_bb [46] 0"
    using n by (auto simp: last_named_def demo_tester_image(2) less_2_nat)
  then have d: "\<exists>k. last_named (vmem demo_tester) demo_bb (map of_char ''.'') k" by auto
  have names: "\<forall>j < entry_count (vmem demo_tester) demo_bb. entry_name (vmem demo_tester) demo_bb j
      \<notin> {map of_char ''helloo'', map of_char ''shel'', map of_char ''''}"
    using n by (simp add: demo_tester_image(2) less_2_nat)
  have t: "\<forall>t \<in> set texts. text_at demo_locals demo_lit demo_tester t"
    using with_texts_at by (simp add: text_at_def demo_tester_image(4) demo_locals_def)
  have a: "apart (lo_dentry demo_locals) 64 demo_bb (fs_size (vmem demo_tester) demo_bb)"
    using demo_apart [of 64] by (simp add: demo_tester_image(3) demo_locals_def)
  show ?thesis
    unfolding tests_ready_def b using c d names t a demo_tester_image(1) by (simp add: init_pcb_def)
qed

theorem system_call_tests_pass_witness:
  "\<exists>s'. syserr_select demo_locals demo_lit 0x700000 (0, 0, 0) 0 demo_tester = Some (s', 0)
     \<and> screen_at 0 s' = fold emit report (screen_at 0 ready_state)"
proof -
  have "con_part demo_tester = con_part demo_user" by (simp add: demo_tester_def con_part_def)
  from con_part_eq(2,3) [OF this]
  have "put_terminal demo_tester = 0" "screen_at 0 demo_tester = screen_at 0 ready_state" by simp_all
  then show ?thesis using system_call_tests_pass [OF demo_tester_ready, of "(0, 0, 0)"] by simp
qed

end
