(* ===== verification/ShellProps.thy ===== *)
theory ShellProps
  imports UserProps Quiet ProcessDemo
begin

text \<open>
  The shell at its prompt, composed with the keyboard and the terminal: what is typed is what it runs.
\<close>

lemma prints_con_eq: "con_eq s t \<Longrightarrow> con_eq s (prints cs t)"
proof (induction cs arbitrary: t)
  case (Cons c cs)
  have "con_eq s (putc_result c t)"
    using Cons.prems by (simp add: putc_result_def Let_def with_screen_def split: prod.split)
  then show ?case using Cons.IH by (simp add: prints_def)
qed (simp add: prints_def)

lemma con_eq_keyboard:
  assumes "con_eq s s'"
  shows "editing s' l = editing s l" "visible s' = visible s" "scan_table s' = scan_table s"
    "ctrl_info s' = ctrl_info s" "enter_flag s' = enter_flag s" "scheduled_term s' = scheduled_term s"
    "vmem s' = vmem s" "pcbs s' = pcbs s" "current_pid s' = current_pid s" "procs_ok s' = procs_ok s"
proof -
  note f = con_eq_fields [OF assms]
  show "editing s' l = editing s l" by (simp add: editing_def keyboard_shape_def f)
  show "visible s' = visible s" "scan_table s' = scan_table s" "current_pid s' = current_pid s"
    "procs_ok s' = procs_ok s"
    by (simp_all add: visible_def scan_table_def current_pid_def procs_ok_def f)
  show "vmem s' = vmem s" by (rule ext) (simp add: vmem_def user_frame_def f)
qed (use con_eq_fields [OF assms] in simp_all)

lemma read_line:
  assumes "procs_ok s" "console_ok s" "flags (fdArray (pcbs s ! current_pid s) ! 0) = full"
    and "readFunc (jump_table (fdArray (pcbs s ! current_pid s) ! 0)) = Terminal_read"
    and "\<forall>k \<in> set ks. plain_key k" "editing s []" "ctrl_info s ! 0 \<noteq> 1" "length ks < 127"
    and "scheduled_term s = visible s" "enter_flag s ! visible s \<noteq> 1" "buf \<noteq> 0"
  defines "line \<equiv> map (\<lambda>k. scan_table s ! unat k) ks"
  shows "ece391_read lo 0 buf 1023 (map keyboard_handler ks) s = None"
    "\<exists>s'. ece391_read lo 0 buf 1023 (map keyboard_handler (ks @ [0x1C])) s = Some (s', of_nat (length ks + 1))
      \<and> vmem s' = stored (vmem s) buf (line @ 0x0A # zeros (127 - length ks)) \<and> proc_shape s' = proc_shape s"
proof -
  define t where "t = sti (cli s)"
  have "con_eq s t" by (simp add: t_def)
  note c = con_eq_keyboard [OF this]
  have "con_part t = con_part s" by (simp add: t_def)
  then have ok: "console_ok t" using con_part_eq(1) [of t s] assms(2) by simp
  note D = console_okD [OF ok]
  let ?t0 = "t\<lparr>termReadFlag := (termReadFlag t)[scheduled_term t := 1]\<rparr>"
  let ?W = "\<lambda>s. enter_flag s ! scheduled_term s = 1"
  have K: "editing t []" "ctrl_info t ! 0 \<noteq> 1" "scheduled_term t = visible t" "enter_flag t ! visible t \<noteq> 1"
    using assms(6,7,9,10) c by simp_all
  obtain u where u: "wait_until ?W (map keyboard_handler (ks @ [0x1C])) ?t0 = Some u"
    "wait_until ?W (map keyboard_handler ks) ?t0 = None"
    "term_buf u = map (\<lambda>k. scan_table t ! unat k) ks @ 0x0A # zeros (127 - length ks)"
    "scheduled_term u = scheduled_term t" "length (termReadFlag u) = 3" "length (enter_flag u) = 3"
    "0x0A \<notin> set (map (\<lambda>k. scan_table t ! unat k) ks)"
    by (rule typed_line_wait [OF assms(5) K(1) ok K(2) assms(8) K(3,4)])
  have tb: "term_buf u = line @ 0x0A # zeros (127 - length ks)" "0x0A \<notin> set line"
    using u(3,7) by (simp_all add: line_def c)
  have len: "length line = length ks" "length (term_buf u) = 128"
    using assms(8) by (simp_all add: line_def tb(1))
  have n: "sint (1023 :: i32) = 1023" by simp
  have "procs_ok ?t0" using assms(1) c(10) by (simp add: procs_ok_def)
  moreover have "device_irqs (map keyboard_handler ks)" for ks by (induction ks) simp_all
  ultimately have "dev_shape u = dev_shape ?t0" using device_wait [OF u(1)] by blast
  then have v: "vmem u = vmem s" using dev_shape_vmem [of u ?t0] c(7) by simp
  have r: "terminal_read buf 1023 (map keyboard_handler (ks @ [0x1C])) t
      = Some (read_result buf 127 u, of_nat (line_length (take (127 + 1) (term_buf u))))"
    by (rule terminal_read_eq [OF assms(11) _ _ _ u(1)]) (use D(3,6) u(4-6) len n in simp_all)
  have ll: "line_length (take (127 + 1) (term_buf u)) = length ks + 1"
    using tb(2) len by (simp add: tb(1) line_length_def Let_def takeWhile_append)
  have g: "get_fd 0 t = Some (fdArray (pcbs s ! current_pid s) ! 0)"
    using the_pcb_ok [of t] assms(1) c(8-10) by (simp add: get_fd_def fds_ok_def)
  have s: "ece391_read lo 0 buf 1023 irqs s
      = map_option (\<lambda>(s, v). (sti s, v)) (terminal_read buf 1023 irqs t)" for irqs
    using assms(3,4,11) g by (simp add: calls sys_read_def Let_def t_def)
  show "ece391_read lo 0 buf 1023 (map keyboard_handler ks) s = None"
    unfolding s using u(2) assms(11) D(3,6) by (simp add: terminal_read_def)
  have "proc_shape u = proc_shape s"
    using dev_shape_eqD [OF \<open>dev_shape u = dev_shape ?t0\<close>] con_eq_proc_shape [of s t] by (simp add: t_def)
  then have p: "proc_shape (sti (read_result buf 127 u)) = proc_shape s" using u(4,6) D(3)
    by (simp add: read_result_def) (simp add: proc_shape_def proc_sizes_def)
  have "vmem (sti (read_result buf 127 u)) = stored (vmem s) buf (line @ 0x0A # zeros (127 - length ks))"
    using len by (simp add: read_result_def v tb(1))
  then show "\<exists>s'. ece391_read lo 0 buf 1023 (map keyboard_handler (ks @ [0x1C])) s = Some (s', of_nat (length ks + 1))
      \<and> vmem s' = stored (vmem s) buf (line @ 0x0A # zeros (127 - length ks)) \<and> proc_shape s' = proc_shape s"
    unfolding s r ll using p by simp
qed

text \<open>What the shell stores over the line and hands to \<open>execute\<close>.\<close>

lemma terminated_line:
  fixes m :: mem and buf :: u32
  assumes "0 \<notin> set line" "length line < 127"
  defines "m' \<equiv> (stored m buf (line @ 0x0A # zeros (127 - length line)))(buf + of_nat (length line) := 0)"
  shows "cstring m' buf line" "\<And>a. \<not> within buf 128 a \<Longrightarrow> m' a = m a"
    "stored m buf (line @ 0x0A # zeros (127 - length line)) (buf + of_nat (length line)) = 0x0A"
proof -
  let ?b = "line @ 0x0A # zeros (127 - length line)"
  have len: "length ?b = 128" using assms(2) by simp
  have at: "stored m buf ?b (buf + of_nat i) = ?b ! i" if "i < 128" for i
    using that len by (simp add: stored_def within_offset unat_of_nat32)
  show "stored m buf ?b (buf + of_nat (length line)) = 0x0A" using at [of "length line"] assms(2) by (simp add: nth_append)
  show "cstring m' buf line"
  proof (rule cstringI)
    fix i assume i: "i < length line"
    then have "buf + of_nat i \<noteq> buf + of_nat (length line)" using assms(2) of_nat_inj32 [of i "length line"] by simp
    then show "m' (buf + of_nat i) = line ! i" using at [of i] i assms(2) by (simp add: m'_def nth_append)
  qed (use assms in \<open>simp_all add: m'_def\<close>)
  show "m' a = m a" if "\<not> within buf 128 a" for a
  proof -
    have "a \<noteq> buf + of_nat (length line)" using that assms(2) by (auto simp: within_offset)
    then show ?thesis using that len by (simp add: m'_def stored_def)
  qed
qed

definition shell_ready :: "(string \<Rightarrow> u32) \<Rightarrow> u32 \<Rightarrow> kernel \<Rightarrow> bool" where
  "shell_ready lit buf s \<longleftrightarrow> on_console s \<and> buf \<noteq> 0
     \<and> flags (fdArray (pcbs s ! current_pid s) ! 0) = full
     \<and> readFunc (jump_table (fdArray (pcbs s ! current_pid s) ! 0)) = Terminal_read
     \<and> editing s [] \<and> ctrl_info s ! 0 \<noteq> 1 \<and> scheduled_term s = visible s \<and> enter_flag s ! visible s \<noteq> 1
     \<and> lit ''391OS> '' \<noteq> 0 \<and> cstring (vmem s) (lit ''391OS> '') (map of_char ''391OS> '')
     \<and> cstring (vmem s) (lit ''exit'') (map of_char ''exit'') \<and> apart buf 128 (lit ''exit'') 5"

lemma shell_takes_line:
  assumes r: "shell_ready lit buf s" and ks: "\<forall>k \<in> set ks. plain_key k" "length ks < 127"
    and line: "line = map (\<lambda>k. scan_table s ! unat k) ks" "0 \<notin> set line"
  shows "shell_prompt lo lit buf (map keyboard_handler ks) s = None"
    "\<exists>s'. shell_prompt lo lit buf (map keyboard_handler (ks @ [0x1C])) s = Some (s',
        if line = map of_char ''exit'' then Leave 0 else if line = [] then Next_line else Run_command)
      \<and> cstring (vmem s') buf line \<and> (\<forall>a. \<not> within buf 128 a \<longrightarrow> vmem s' a = vmem s a)
      \<and> proc_shape s' = proc_shape s"
proof -
  have R: "on_console s" "buf \<noteq> 0" "lit ''391OS> '' \<noteq> 0" "cstring (vmem s) (lit ''391OS> '') (map of_char ''391OS> '')"
    "cstring (vmem s) (lit ''exit'') (map of_char ''exit'')" "apart buf 128 (lit ''exit'') 5"
    using r unfolding shell_ready_def by blast+
  define t where "t = sti (prints (map of_char ''391OS> '') (sti (cli s)))"
  have p: "ece391_fdputs lo 1 (lit ''391OS> '') s = Some t"
    using fdputs_eq [OF R(1,3,4)] by (simp add: t_def)
  have "con_eq s t" by (simp add: t_def prints_con_eq)
  note c = con_eq_keyboard [OF \<open>con_eq s t\<close>]
  have "console_ok s" using R(1) by (simp add: on_console_def)
  from prints_console(1) [OF this] have ok: "console_ok t" by (simp add: t_def)
  have K: "procs_ok t" "flags (fdArray (pcbs t ! current_pid t) ! 0) = full"
    "readFunc (jump_table (fdArray (pcbs t ! current_pid t) ! 0)) = Terminal_read"
    "editing t []" "ctrl_info t ! 0 \<noteq> 1" "scheduled_term t = visible t" "enter_flag t ! visible t \<noteq> 1"
    using r by (simp_all add: shell_ready_def on_console_def c)
  note read = read_line [OF K(1) ok K(2,3) ks(1) K(4,5) ks(2) K(6,7) R(2)]
  show "shell_prompt lo lit buf (map keyboard_handler ks) s = None"
    unfolding shell_prompt_def p Option.bind.bind_lunit read(1) by simp
  have len: "length ks = length line" by (simp add: line(1))
  let ?m = "stored (vmem s) buf (line @ 0x0A # zeros (127 - length line))"
  obtain u where u: "ece391_read lo 0 buf 1023 (map keyboard_handler (ks @ [0x1C])) t = Some (u, of_nat (length line + 1))"
    "vmem u = ?m" "proc_shape u = proc_shape t"
    using read(2) [unfolded c(3,7), folded line(1), unfolded len] by blast
  note T = terminated_line [OF line(2), where m = "vmem s" and buf = buf]
  have short: "length line < 127" using ks(2) len by simp
  define w where "w = store (buf + of_nat (length line)) 0 u"
  have w: "vmem w = ?m(buf + of_nat (length line) := 0)" by (simp add: w_def store_frame u(2))
  have shape: "proc_shape w = proc_shape s"
    using u(3) con_eq_proc_shape [OF \<open>con_eq s t\<close>] by (simp add: w_def store_def)
  have out: "\<forall>a. \<not> within buf 128 a \<longrightarrow> vmem w a = vmem s a" using T(2) [OF short] unfolding w by blast
  have cl: "cstring (vmem w) buf line" unfolding w by (rule T(1) [OF short])
  have "cstring (vmem w) (lit ''exit'') (map of_char ''exit'')"
  proof (rule cstring_cong [OF R(5)])
    fix i assume "i \<le> length (map of_char ''exit'' :: u8 list)"
    then have "\<not> within buf 128 (lit ''exit'' + of_nat i)" using R(6) by (auto simp: apart_def within_offset)
    then show "vmem w (lit ''exit'' + of_nat i) = vmem s (lit ''exit'' + of_nat i)"
      unfolding w by (rule T(2) [OF short])
  qed
  then obtain e where e: "ece391_strcmp (vmem w) buf (lit ''exit'') = Some e" "e = 0 \<longleftrightarrow> line = map of_char ''exit''"
    using ece391_strcmp_correct [OF cl] by blast
  have first: "vmem w buf = 0 \<longleftrightarrow> line = []" using cl by (cases line) (auto simp: cstring_Cons cstring_Nil)
  have cnt: "of_nat (length line + 1) \<noteq> (-1 :: i32)" "0 < sint (of_nat (length line + 1) :: i32)"
    "of_nat (length line + 1) - 1 = (of_nat (length line) :: i32)"
    using chunk_numbers(2) [of "length line + 1"] short by (simp_all add: sint_unat32 unat_of_nat32 del: of_nat_add of_nat_Suc) simp
  have nl: "vmem u (buf + of_nat (length line)) = 0x0A" using T(3) [OF short] by (simp add: u(2))
  have "shell_prompt lo lit buf (map keyboard_handler (ks @ [0x1C])) s = Some (w,
      if line = map of_char ''exit'' then Leave 0 else if line = [] then Next_line else Run_command)"
    unfolding shell_prompt_def p Option.bind.bind_lunit u(1) prod.case
    using cnt nl e first by (simp add: Let_def w_def del: of_nat_add of_nat_Suc)
  then show "\<exists>s'. shell_prompt lo lit buf (map keyboard_handler (ks @ [0x1C])) s = Some (s',
        if line = map of_char ''exit'' then Leave 0 else if line = [] then Next_line else Run_command)
      \<and> cstring (vmem s') buf line \<and> (\<forall>a. \<not> within buf 128 a \<longrightarrow> vmem s' a = vmem s a)
      \<and> proc_shape s' = proc_shape s" using cl out shape by blast
qed

section \<open>From the keyboard to the program\<close>

text \<open>The line the shell reads, the locals of \<open>execute\<close> and the file system lie apart, and the file system is in
  kernel memory.\<close>

definition command_apart :: "frame \<Rightarrow> u32 \<Rightarrow> kernel \<Rightarrow> bool" where
  "command_apart fr buf s \<longleftrightarrow> apart (fr_function fr) 32 buf 128
     \<and> apart buf 128 (boot_block s) (fs_size (vmem s) (boot_block s))
     \<and> apart (fr_function fr) 32 (boot_block s) (fs_size (vmem s) (boot_block s))
     \<and> apart (fr_dentry fr) 64 (boot_block s) (fs_size (vmem s) (boot_block s))
     \<and> apart (fr_buf fr) 4 (boot_block s) (fs_size (vmem s) (boot_block s))
     \<and> (\<forall>a. within (boot_block s) (fs_size (vmem s) (boot_block s)) a \<longrightarrow> \<not> in_user_page a)"

lemma execute_typed:
  assumes c: "cstring (vmem s') buf line" "\<forall>a. \<not> within buf 128 a \<longrightarrow> vmem s' a = vmem s a" "proc_shape s' = proc_shape s"
    and l: "buf \<noteq> 0" "line \<noteq> []" "length line < 127" "length (command_name line) < 32"
    and ok: "stacks_ok cs s" "process_ok s" "command_apart fr buf s"
    and f: "file_named (vmem s) (boot_block s) (command_name line) c" "program c"
    and p: "p < 6" "pcb_arr s ! p = 0" "\<forall>q < p. pcb_arr s ! q \<noteq> 0"
  shows "\<exists>s2. execute fr buf (cli s') = Some (s2, Iret_user (word_at c 24) 0x83FFFFC)
    \<and> iflag s2 \<and> user_frame s2 = of_nat p + 2 \<and> bytes_at (vmem s2) 0x08048000 (length c) = c
    \<and> args s2 = take 128 (command_args line) @ replicate (128 - length (command_args line)) 0"
proof -
  let ?s = "cli s'"
  have sh: "proc_shape ?s = proc_shape s" using c(3) by simp
  have v: "vmem ?s = vmem s'" by simp
  have po: "procs_ok s" using ok(2) by (simp add: process_ok_def)
  note T = proc_shape_tree [OF sh po] and P = proc_shape_ok [OF sh po]
  have st: "stacks_ok cs ?s" "process_ok ?s" using tree_shape_ok [OF T P] ok(1,2) by simp_all
  have e: "boot_block ?s = boot_block s" "pcb_arr ?s = pcb_arr s" using sh by (simp_all add: proc_shape_def proc_sizes_def)
  let ?bb = "boot_block s"
  have A: "apart (fr_function fr) 32 buf 128" "apart buf 128 ?bb (fs_size (vmem s) ?bb)"
    "apart (fr_function fr) 32 ?bb (fs_size (vmem s) ?bb)" "apart (fr_dentry fr) 64 ?bb (fs_size (vmem s) ?bb)"
    "apart (fr_buf fr) 4 ?bb (fs_size (vmem s) ?bb)" "\<forall>a. within ?bb (fs_size (vmem s) ?bb) a \<longrightarrow> \<not> in_user_page a"
    using ok(3) unfolding command_apart_def by blast+
  have im: "same_image (vmem s) (vmem s') ?bb"
    by (rule same_image_outside [of buf 128]) (use c(2) A(2) in simp_all)
  have fs: "fs_ok (vmem s) ?bb" using f(1) by (simp add: file_named_def)
  have z: "fs_size (vmem s') ?bb = fs_size (vmem s) ?bb" by (rule same_image_fs_ok(3) [OF im fs])
  have "\<not> within (fr_function fr) 32 (buf + of_nat k)" if "k \<le> length line" for k
  proof -
    have "within buf 128 (buf + of_nat k)" using that l(3) by (simp add: within_offset)
    then show ?thesis using A(1) by (auto simp: apart_def)
  qed
  then have call: "call_ok fr buf line ?s"
    unfolding call_ok_def v e(1) z using c(1) l A(3-6) by blast
  have "file_named (vmem ?s) (boot_block ?s) (command_name line) c"
    unfolding v e(1) by (rule file_named_image [OF im f(1)])
  from execute_starts [OF st call this f(2), of p] p show ?thesis by (simp only: e) blast
qed


section \<open>Typing go\<close>

definition shell_lit :: "string \<Rightarrow> u32" where
  "shell_lit t = (if t = ''exit'' then 0x610100 else 0x610000)"

definition shell_mem :: mem where
  "shell_mem = poke (poke go_disk 0x610000 (map of_char ''391OS> '' @ [0])) 0x610100 (map of_char ''exit'' @ [0])"

definition prompting :: kernel where
  "prompting = shells\<lparr>lowmem := shell_mem\<rparr>"

definition shell_locals :: locals where
  "shell_locals = \<lparr>lo_frame = go_frame, lo_dentry = 0x500200, lo_vpt = 0\<rparr>"

lemma shell_mem_outside: "\<not> within 0x610000 512 a \<Longrightarrow> shell_mem a = go_disk a"
proof -
  assume a: "\<not> within 0x610000 512 a"
  have "\<not> within 0x610000 8 a" using a within_mono [of "0x610000" 8 a 512] by auto
  moreover have "\<not> within 0x610100 5 a"
  proof
    assume "within 0x610100 5 a"
    then obtain i where i: "i < 5" "a = 0x610100 + of_nat i" by (auto elim: withinE)
    then have "a = 0x610000 + of_nat (256 + i)" by simp
    then show False using a i(1) within_offset [of "256 + i" "0x610000" 512] by simp
  qed
  ultimately show ?thesis
    using poke_other [of "0x610100" "map of_char ''exit'' @ [0]" a] poke_other [of "0x610000" "map of_char ''391OS> '' @ [0]" a]
    by (simp add: shell_mem_def numeral_eq_Suc del: poke.simps)
qed

lemma prompting_vmem: "vmem prompting = shell_mem"
proof
  fix a
  have "\<not> within 0x610000 512 a" if u: "in_user_page a"
  proof
    assume "within 0x610000 512 a"
    then obtain i where i: "i < 512" "a = 0x610000 + of_nat i" by (auto elim: withinE)
    then have "a = of_nat (0x610000 + i)" by simp
    then have "unat a = 0x610000 + i" using i(1) unat_of_nat32 [of "0x610000 + i"] by simp
    then show False using u i(1) by (simp add: in_user_page_iff)
  qed
  then have "in_user_page a \<Longrightarrow> shell_mem a = vmem shells a" using shell_mem_outside shells_vmem by simp
  then show "vmem prompting a = shell_mem a" by (simp add: prompting_def vmem_def shells_def)
qed

lemma prompting_texts:
  "cstring shell_mem (shell_lit ''exit'') (map of_char ''exit'')"
  "cstring shell_mem (shell_lit ''391OS> '') (map of_char ''391OS> '')"
proof -
  let ?m = "poke go_disk 0x610000 (map of_char ''391OS> '' @ [0])"
  have "cstring shell_mem 0x610100 (map of_char ''exit'')"
    unfolding shell_mem_def by (rule cstring_poke) simp_all
  then show "cstring shell_mem (shell_lit ''exit'') (map of_char ''exit'')" by (simp add: shell_lit_def)
  have m: "cstring ?m 0x610000 (map of_char ''391OS> '')" by (rule cstring_poke) simp_all
  have "apart 0x610000 8 0x610100 5" by (rule apartI) simp_all
  then have "\<not> within 0x610100 5 (0x610000 + of_nat i :: u32)" if "i < 8" for i
    using that by (auto simp: apart_def within_offset)
  then have "cstring shell_mem 0x610000 (map of_char ''391OS> '')"
    unfolding shell_mem_def by (intro cstring_cong [OF m] poke_other) (simp add: numeral_eq_Suc)
  then show "cstring shell_mem (shell_lit ''391OS> '') (map of_char ''391OS> '')" by (simp add: shell_lit_def)
qed

lemma prompting_shape: "proc_shape prompting = proc_shape shells" "con_part prompting = con_part ready_state"
  by (simp_all add: prompting_def proc_shape_def proc_sizes_def con_part_def shells_def)

lemma prompting_ready: "shell_ready shell_lit 0x600000 prompting"
proof -
  have f: "pcbs prompting ! current_pid prompting = new_pcb 0 0 (\<lambda>a. 0) empty_PCB"
    using shells_simps(7) by (simp add: prompting_def shells_procs current_pid_def)
  have k: "freq_count prompting = freq_count boot_state" "curr_freq prompting = curr_freq boot_state"
    by (simp_all add: prompting_def shells_def ready_state_def paging_init_def)
  have "procs_ok prompting"
    using proc_shape_ok [OF prompting_shape(1)] shells_process_ok by (simp add: process_ok_def)
  moreover have "console_ok prompting" using con_part_eq(1) [OF prompting_shape(2)] ready_console_ok by simp
  ultimately have c: "on_console prompting"
    unfolding on_console_def f k
    by (simp add: new_pcb_def init_pcb_def console_fd_def console_table_def empty_PCB_def numeral_eq_Suc boot_state_def)
  have e: "editing prompting []"
    using ready_editing by (simp add: editing_def keyboard_shape_def prompting_def shells_def)
  have s: "ctrl_info prompting = [0, 0]" "scheduled_term prompting = 0" "visible prompting = 0" "enter_flag prompting = [0, 0, 0]"
    by (simp_all add: prompting_def shells_def ready_state_def paging_init_def boot_state_def visible_def)
  have "apart 0x600000 128 0x610100 5" by (rule apartI) simp_all
  moreover have "flags (fdArray (new_pcb 0 0 (\<lambda>a. 0) empty_PCB) ! 0) = full"
    "readFunc (jump_table (fdArray (new_pcb 0 0 (\<lambda>a. 0) empty_PCB) ! 0)) = Terminal_read"
    by (simp_all add: new_pcb_def init_pcb_def console_fd_def console_table_def empty_PCB_def numeral_eq_Suc)
  ultimately show ?thesis
    unfolding shell_ready_def f prompting_vmem using c e s prompting_texts by (simp add: shell_lit_def)
qed

lemma prompting_disk:
  assumes "\<not> within 0x610000 512 a" shows "vmem prompting a = vmem shells a"
  by (simp add: prompting_vmem shells_vmem shell_mem_outside [OF assms])

lemma prompting_image: "same_image (vmem shells) (vmem prompting) demo_bb"
proof (rule same_image_outside [of "0x610000" 512])
  show "apart 0x610000 512 demo_bb (fs_size (vmem shells) demo_bb)"
    unfolding shells_vmem go_header(4) by (rule apartI) (simp_all add: demo_bb_def)
qed (use prompting_disk in blast)

lemma prompting_size: "fs_size (vmem prompting) demo_bb = 16384"
  using same_image_fs_ok(3) [OF prompting_image] go_fs_ok by (simp add: shells_vmem go_header(4))

lemma prompting_processes: "stacks_ok [[0], [1], [2]] prompting" "process_ok prompting"
proof -
  have po: "procs_ok shells" using shells_process_ok by (simp add: process_ok_def)
  note T = proc_shape_tree [OF prompting_shape(1) po] and P = proc_shape_ok [OF prompting_shape(1) po]
  show "stacks_ok [[0], [1], [2]] prompting" "process_ok prompting"
    using tree_shape_ok [OF T P] shells_stacks shells_process_ok by simp_all
qed

lemma prompting_fields: "boot_block prompting = demo_bb" "pcb_arr prompting = [1, 1, 1, 0, 0, 0]"
  by (simp_all add: prompting_def)

lemma prompting_apart: "command_apart go_frame 0x600000 prompting"
proof -
  have "apart (fr_function go_frame) 32 demo_bb 16384" "apart (fr_dentry go_frame) 64 demo_bb 16384"
    "apart (fr_buf go_frame) 4 demo_bb 16384"
    using shells_call unfolding call_ok_def shells_vmem shells_simps(1) go_header(4) by blast+
  moreover have "\<forall>a. within demo_bb 16384 a \<longrightarrow> \<not> in_user_page a"
    using shells_call unfolding call_ok_def shells_vmem shells_simps(1) go_header(4) by blast
  moreover have "apart (fr_function go_frame) 32 0x600000 128" "apart 0x600000 128 demo_bb 16384"
    by (rule apartI; simp add: demo_bb_def go_frame_def)+
  ultimately show ?thesis unfolding command_apart_def prompting_fields(1) prompting_size by blast
qed


end
