(* ===== verification/Tools.thy ===== *)
theory Tools
  imports UserLib
begin

text \<open>
  The programs \<open>syscalls/ece391grep.c\<close>, \<open>syscalls/ece391pingpong.c\<close> and \<open>syscalls/ece391sigtest.c\<close>. As in
  theory \<open>UserLib\<close>, the addresses of local and static variables are arguments. The bounded counters, C
  integers between -1 and 1025, are integers here.
\<close>

section \<open>grep\<close>

text \<open>The end of the line that starts at index \<open>i\<close> of the buffer.\<close>

function line_scan :: "mem \<Rightarrow> u32 \<Rightarrow> int \<Rightarrow> int \<Rightarrow> int" where
  "line_scan m data last' i =
     (if i < last' \<and> m (data + of_int i) \<noteq> 0x0A then line_scan m data last' (i + 1) else i)"
  by pat_completeness auto
termination by (relation "measure (\<lambda>(m, data, last', i). nat (last' - i))") auto

declare line_scan.simps [simp del]

text \<open>The search of a line. The pattern is a \<open>char\<close> pointer, so its first character is signed; that of the
  buffer is not.\<close>

function find_match :: "mem \<Rightarrow> u32 \<Rightarrow> u32 \<Rightarrow> u32 \<Rightarrow> int \<Rightarrow> int \<Rightarrow> bool" where
  "find_match m str s_len data line_end check =
     (if check < line_end then
        if sint (m str) = uint (m (data + of_int check)) \<and> ece391_strncmp m (data + of_int check) str s_len = 0 then True
        else find_match m str s_len data line_end (check + 1)
      else False)"
  by pat_completeness auto
termination by (relation "measure (\<lambda>(m, str, s_len, data, line_end, check). nat (line_end - check))") auto

declare find_match.simps [simp del]

definition print_match :: "locals \<Rightarrow> (string \<Rightarrow> u32) \<Rightarrow> u32 \<Rightarrow> u32 \<Rightarrow> kernel \<Rightarrow> kernel option" where
  "print_match lo lit fname line s = do {
     s \<leftarrow> ece391_fdputs lo 1 fname s;
     s \<leftarrow> ece391_fdputs lo 1 (lit '':'') s;
     s \<leftarrow> ece391_fdputs lo 1 line s;
     ece391_fdputs lo 1 (lit [CHR 0x0A]) s
   }"

text \<open>The lines of the buffer, from \<open>line_start\<close> on; the result is the new value of \<open>last\<close>.\<close>

partial_function (option) grep_lines :: "locals \<Rightarrow> (string \<Rightarrow> u32) \<Rightarrow> u32 \<Rightarrow> u32 \<Rightarrow> u32 \<Rightarrow> u32 \<Rightarrow> i32 \<Rightarrow> int \<Rightarrow> int
    \<Rightarrow> kernel \<Rightarrow> (kernel \<times> int) option" where
  "grep_lines lo lit str fname s_len data cnt last' line_start s =
     (let line_end = line_scan (vmem s) data last' line_start in
      if vmem s (data + of_int line_end) \<noteq> 0x0A \<and> cnt \<noteq> 0 \<and> line_start \<noteq> 0 then do {
        let s = store (data + of_int line_end) 0 s;
        m \<leftarrow> ece391_strcpy (vmem s) data (data + of_int line_start);
        Some (set_vmem m s, last' - line_start)
      } else do {
        let s = store (data + of_int line_end) 0 s;
        s \<leftarrow> (if find_match (vmem s) str s_len data line_end line_start
             then print_match lo lit fname (data + of_int line_start) s else Some s);
        if line_end + 1 \<ge> last' then Some (s, 0)
        else grep_lines lo lit str fname s_len data cnt last' (line_end + 1) s
      })"

partial_function (option) grep_reads :: "locals \<Rightarrow> (string \<Rightarrow> u32) \<Rightarrow> u32 \<Rightarrow> u32 \<Rightarrow> u32 \<Rightarrow> u32 \<Rightarrow> i32 \<Rightarrow> (nat \<Rightarrow> irqs)
    \<Rightarrow> nat \<Rightarrow> int \<Rightarrow> kernel \<Rightarrow> (kernel \<times> i32) option" where
  "grep_reads lo lit str fname s_len data fd irqs k last' s = do {
     (s, cnt) \<leftarrow> ece391_read lo fd (data + of_int last') (of_int (1024 - last')) (irqs k) s;
     if cnt = -1 then fail_with lo (lit (''file read failed'' @ [CHR 0x0A])) (-1) s
     else do {
       (s, last') \<leftarrow> grep_lines lo lit str fname s_len data cnt (last' + sint cnt) 0 s;
       if cnt = 0 then Some (s, 0) else grep_reads lo lit str fname s_len data fd irqs (Suc k) last' s
     }
   }"

definition do_one_file :: "locals \<Rightarrow> (string \<Rightarrow> u32) \<Rightarrow> u32 \<Rightarrow> u32 \<Rightarrow> u32 \<Rightarrow> (nat \<Rightarrow> irqs) \<Rightarrow> kernel \<Rightarrow> (kernel \<times> i32) option" where
  "do_one_file lo lit str fname data irqs s = do {
     s_len \<leftarrow> ece391_strlen (vmem s) str;
     (s, fd) \<leftarrow> ece391_open lo fname s;
     if fd = -1 then fail_with lo (lit (''file open failed'' @ [CHR 0x0A])) (-1) s
     else do {
       (s, r) \<leftarrow> grep_reads lo lit str fname s_len data fd irqs 0 0 s;
       if r \<noteq> 0 then Some (s, r)
       else do {
         (s, c) \<leftarrow> ece391_close lo fd s;
         if c = -1 then fail_with lo (lit (''file close failed'' @ [CHR 0x0A])) (-1) s else Some (s, 0)
       }
     }
   }"

text \<open>\<open>main\<close>: every file whose name does not begin with a dot. \<open>irqs i k\<close> are the interrupts during the \<open>k\<close>-th read
  of the \<open>i\<close>-th entry.\<close>

partial_function (option) grep_names :: "locals \<Rightarrow> (string \<Rightarrow> u32) \<Rightarrow> u32 \<Rightarrow> u32 \<Rightarrow> u32 \<Rightarrow> i32 \<Rightarrow> (nat \<Rightarrow> nat \<Rightarrow> irqs)
    \<Rightarrow> nat \<Rightarrow> kernel \<Rightarrow> (kernel \<times> i32) option" where
  "grep_names lo lit search buf data fd irqs i s = do {
     (s, cnt) \<leftarrow> ece391_read lo fd buf 32 [] s;
     if cnt = 0 then Some (s, 0)
     else if cnt = -1 then fail_with lo (lit (''directory entry read failed'' @ [CHR 0x0A])) 3 s
     else if vmem s buf = 0x2E then grep_names lo lit search buf data fd irqs (Suc i) s
     else do {
       (s, r) \<leftarrow> do_one_file lo lit search buf data (irqs i) (store (buf + cnt) 0 s);
       if r \<noteq> 0 then Some (s, 3) else grep_names lo lit search buf data fd irqs (Suc i) s
     }
   }"

definition grep_main :: "locals \<Rightarrow> (string \<Rightarrow> u32) \<Rightarrow> u32 \<Rightarrow> u32 \<Rightarrow> u32 \<Rightarrow> (nat \<Rightarrow> nat \<Rightarrow> irqs) \<Rightarrow> kernel
    \<Rightarrow> (kernel \<times> i32) option" where
  "grep_main lo lit search buf data irqs s = do {
     (s, r) \<leftarrow> ece391_getargs lo search 1024 s;
     if r \<noteq> 0 then fail_with lo (lit (''could not read argument'' @ [CHR 0x0A])) 3 s
     else do {
       (s, fd) \<leftarrow> ece391_open lo (lit ''.'') s;
       if fd = -1 then fail_with lo (lit (''directory open failed'' @ [CHR 0x0A])) 2 s
       else grep_names lo lit search buf data fd irqs 0 s
     }
   }"

section \<open>pingpong\<close>

text \<open>One drawing of the character at column \<open>j\<close>: the inner portion of the line is cleared, the character is stored and the line
  is printed; then the program waits for the clock through the interrupts \<open>irqs\<close>.\<close>

definition pingpong_draw :: "locals \<Rightarrow> u32 \<Rightarrow> u32 \<Rightarrow> i32 \<Rightarrow> u8 \<Rightarrow> nat \<Rightarrow> irqs \<Rightarrow> kernel \<Rightarrow> kernel option" where
  "pingpong_draw lo buf garbage rtc_fd curchar j irqs s = do {
     let s = fold (\<lambda>i. store (buf + of_nat i) 0x20) [2..<78] s;
     s \<leftarrow> ece391_fdputs lo 1 buf (store (buf + of_nat j) curchar s);
     (s, _) \<leftarrow> ece391_read lo rtc_fd garbage 4 irqs s;
     Some s
   }"

text \<open>Out and back; \<open>irqs p j\<close> arrive at column \<open>j\<close> of the pass \<open>p\<close>.\<close>

definition pingpong_round :: "locals \<Rightarrow> u32 \<Rightarrow> u32 \<Rightarrow> i32 \<Rightarrow> u8 \<Rightarrow> (nat \<Rightarrow> nat \<Rightarrow> irqs) \<Rightarrow> kernel \<Rightarrow> kernel option" where
  "pingpong_round lo buf garbage rtc_fd curchar irqs s = do {
     s \<leftarrow> foldM (\<lambda>j. pingpong_draw lo buf garbage rtc_fd curchar j (irqs 0 j)) [2..<78] s;
     foldM (\<lambda>j. pingpong_draw lo buf garbage rtc_fd curchar j (irqs 1 j)) (rev [2..<78]) s
   }"

definition next_char :: "u8 \<Rightarrow> u8" where
  "next_char c = (if c = 0x5A then 0x41 else c + 1)"

partial_function (option) pingpong_loop :: "locals \<Rightarrow> u32 \<Rightarrow> u32 \<Rightarrow> i32 \<Rightarrow> (nat \<Rightarrow> nat \<Rightarrow> nat \<Rightarrow> irqs) \<Rightarrow> nat \<Rightarrow> u8 \<Rightarrow> kernel
    \<Rightarrow> (kernel \<times> i32) option" where
  "pingpong_loop lo buf garbage rtc_fd irqs n curchar s = do {
     s \<leftarrow> pingpong_round lo buf garbage rtc_fd curchar (irqs n) s;
     pingpong_loop lo buf garbage rtc_fd irqs (Suc n) (next_char curchar) s
   }"

definition pingpong_walls :: "u32 \<Rightarrow> kernel \<Rightarrow> kernel" where
  "pingpong_walls buf s =
     store (buf + 1) 0x7C (store (buf + 78) 0x7C (store (buf + 79) 0x0A (store (buf + 80) 0
       (fold (\<lambda>i. store (buf + of_nat i) 0x20) [0..<81] s))))"

definition pingpong_main :: "locals \<Rightarrow> (string \<Rightarrow> u32) \<Rightarrow> u32 \<Rightarrow> u32 \<Rightarrow> u32 \<Rightarrow> (nat \<Rightarrow> nat \<Rightarrow> nat \<Rightarrow> irqs) \<Rightarrow> kernel
    \<Rightarrow> (kernel \<times> i32) option" where
  "pingpong_main lo lit buf ret_val garbage irqs s = do {
     (s, rtc_fd) \<leftarrow> ece391_open lo (lit ''rtc'') (pingpong_walls buf s);
     (s, r) \<leftarrow> ece391_write lo rtc_fd ret_val 4 (set_vmem (st32 (vmem s) ret_val 32) s);
     pingpong_loop lo buf garbage rtc_fd irqs 0 0x41 (set_vmem (st32 (vmem s) ret_val r) s)
   }"

section \<open>sigtest\<close>

definition ece391_set_handler where "ece391_set_handler lo signum h = do_call lo 9 [] signum h 0"

text \<open>\<open>main\<close> up to the store through \<open>badbuf\<close>, a null pointer unless the handler has run, and from that store on. The result of the
  first part is the exit code, or the number of characters read.\<close>

definition sigtest_ask :: "locals \<Rightarrow> (string \<Rightarrow> u32) \<Rightarrow> u32 \<Rightarrow> u32 \<Rightarrow> u32 \<Rightarrow> irqs \<Rightarrow> kernel \<Rightarrow> (kernel \<times> (i32 + i32)) option" where
  "sigtest_ask lo lit buf segv_handler alarm_handler irqs s = do {
     (s, r) \<leftarrow> ece391_getargs lo buf 1024 s;
     if r \<noteq> 0 then map_option (map_prod id Inl) (fail_with lo (lit (''could not read argument'' @ [CHR 0x0A])) 3 s)
     else do {
       s \<leftarrow> (if vmem s buf = 0x31 then do {
           s \<leftarrow> ece391_fdputs lo 1 (lit (''Installing signal handlers'' @ [CHR 0x0A])) s;
           (s, _) \<leftarrow> ece391_set_handler lo 1 segv_handler s;
           (s, _) \<leftarrow> ece391_set_handler lo 3 alarm_handler s;
           Some s
         } else Some s);
       s \<leftarrow> ece391_fdputs lo 1 (lit (''Hi, what'' @ [CHR 0x27] @ ''s your name? '')) s;
       (s, cnt) \<leftarrow> ece391_read lo 0 buf 1023 irqs s;
       if cnt = -1 then map_option (map_prod id Inl)
         (fail_with lo (lit (''Can'' @ [CHR 0x27] @ ''t read name from keyboard.'' @ [CHR 0x0A])) 3 s)
       else Some (s, Inr cnt)
     }
   }"

text \<open>The store goes through the page tables; where they do not let user mode write, the processor raises a page fault. \<open>badbuf\<close>
  is the address of the variable.\<close>

datatype run_end = Exits i32 | Page_fault u32

definition sigtest_greet :: "u32 \<Rightarrow> u32 \<Rightarrow> locals \<Rightarrow> (string \<Rightarrow> u32) \<Rightarrow> u32 \<Rightarrow> u32 \<Rightarrow> u32 \<Rightarrow> i32 \<Rightarrow> kernel
    \<Rightarrow> (kernel \<times> run_end) option" where
  "sigtest_greet pt vpt lo lit buf charbuf badbuf cnt s =
     (let p = ld32 (vmem s) badbuf in
      if translate pt vpt s True p = None then Some (s, Page_fault p)
      else do {
        s \<leftarrow> ece391_fdputs lo 1 (lit ''Hello, '') (store (buf + cnt) 0 (store p 1 s));
        s \<leftarrow> ece391_fdputs lo 1 buf s;
        s \<leftarrow> ece391_fdputs lo 1 (lit ((if vmem s charbuf = 1 then ''success'' else ''failure'') @ [CHR 0x0A])) s;
        Some (s, Exits 0)
      })"

definition sigtest_main :: "u32 \<Rightarrow> u32 \<Rightarrow> locals \<Rightarrow> (string \<Rightarrow> u32) \<Rightarrow> u32 \<Rightarrow> u32 \<Rightarrow> u32 \<Rightarrow> u32 \<Rightarrow> u32 \<Rightarrow> irqs \<Rightarrow> kernel
    \<Rightarrow> (kernel \<times> run_end) option" where
  "sigtest_main pt vpt lo lit buf charbuf badbuf segv_handler alarm_handler irqs s = do {
     (s, r) \<leftarrow> sigtest_ask lo lit buf segv_handler alarm_handler irqs s;
     (case r of Inl code \<Rightarrow> Some (s, Exits code)
      | Inr cnt \<Rightarrow> sigtest_greet pt vpt lo lit buf charbuf badbuf cnt s)
   }"

text \<open>The two handlers; \<open>sg\<close> is the address of the parameter \<open>signum\<close>, and \<open>sg + 28\<close> that of the saved \<open>eax\<close> of the
  context the kernel is expected to lay out behind it.\<close>

definition print_signum :: "locals \<Rightarrow> (string \<Rightarrow> u32) \<Rightarrow> i32 \<Rightarrow> kernel \<Rightarrow> kernel option" where
  "print_signum lo lit signum = ece391_fdputs lo 1 (lit
     ((if signum = 0 then ''0'' else if signum = 1 then ''1'' else if signum = 2 then ''2''
       else if signum = 3 then ''3'' else ''invalid'') @ [CHR 0x0A]))"

definition segfault_sighandler :: "locals \<Rightarrow> (string \<Rightarrow> u32) \<Rightarrow> u32 \<Rightarrow> u32 \<Rightarrow> u32 \<Rightarrow> u32 \<Rightarrow> irqs \<Rightarrow> kernel \<Rightarrow> kernel option" where
  "segfault_sighandler lo lit buf sg charbuf badbuf irqs s = do {
     s \<leftarrow> ece391_fdputs lo 1 (lit ''Segfault signal handler called, signum: '') s;
     s \<leftarrow> print_signum lo lit (ld32 (vmem s) sg) s;
     s \<leftarrow> ece391_fdputs lo 1 (lit (''Press enter to continue...'' @ [CHR 0x0A])) s;
     (s, _) \<leftarrow> ece391_read lo 0 buf 1 irqs s;
     let s = set_vmem (st32 (st32 (vmem s) badbuf charbuf) (sg + 28) charbuf) s;
     ece391_fdputs lo 1 (lit (''Signal handler returning'' @ [CHR 0x0A])) s
   }"

definition alarm_sighandler :: "locals \<Rightarrow> (string \<Rightarrow> u32) \<Rightarrow> u32 \<Rightarrow> kernel \<Rightarrow> kernel option" where
  "alarm_sighandler lo lit sg s = do {
     s \<leftarrow> ece391_fdputs lo 1 (lit ''Alarm signal handler called, signum: '') s;
     print_signum lo lit (ld32 (vmem s) sg) s
   }"

section \<open>Where they end\<close>

text \<open>\<open>pingpong\<close> has no end, and \<open>sigtest\<close>, whose handler no kernel call can install, ends at the null pointer: page 0 is
  not mapped.\<close>

lemma pingpong_never_returns: "pingpong_loop lo buf garbage rtc_fd irqs n c s = None"
proof -
  have False if "pingpong_loop lo buf garbage rtc_fd irqs n c s = Some r" for lo buf garbage rtc_fd irqs n c s r
    by (rule pingpong_loop.raw_induct [OF _ that, of "\<lambda>lo buf garbage rtc_fd irqs n c s r. False"])
      (auto split: Option.bind_splits)
  then show ?thesis by (cases "pingpong_loop lo buf garbage rtc_fd irqs n c s") auto
qed

lemma sigtest_faults:
  assumes "paging_ok pt vpt s" "tables_at pt vpt" "ld32 (vmem s) badbuf = 0"
  shows "sigtest_greet pt vpt lo lit buf charbuf badbuf cnt s = Some (s, Page_fault 0)"
proof -
  have "translate pt vpt s True 0 = None"
    using translate_map [OF assms(1,2), of True 0] by simp
  then show ?thesis using assms(3) by (simp add: sigtest_greet_def)
qed

end
