(* ===== verification/GrepProps.thy ===== *)
theory GrepProps
  imports Tools SyserrProps "HOL-Library.Sublist"
begin

text \<open>
  What \<open>grep\<close> prints: the lines of the files that contain the pattern. Its buffer of 1024 characters holds the part of a line
  that the last read cut off, followed by what the next read delivers.
\<close>

section \<open>The specification\<close>

fun split_lines :: "u8 list \<Rightarrow> u8 list list" where
  "split_lines [] = [[]]"
| "split_lines (c # cs) = (if c = 0x0A then [] # split_lines cs
     else (case split_lines cs of [] \<Rightarrow> [[c]] | l # ls \<Rightarrow> (c # l) # ls))"

definition matches :: "u8 list \<Rightarrow> u8 list \<Rightarrow> u8 list \<Rightarrow> u8 list" where
  "matches pat name text = concat (map (\<lambda>l. name @ [0x3A] @ l @ [0x0A]) (filter (sublist pat) (split_lines text)))"

lemma split_lines_line: "0x0A \<notin> set l \<Longrightarrow> split_lines l = [l]"
  by (induction l) auto

lemma split_lines_newline: "0x0A \<notin> set l \<Longrightarrow> split_lines (l @ 0x0A # cs) = l # split_lines cs"
  by (induction l) auto

lemma split_lines_first: "0x0A \<notin> set l \<Longrightarrow> \<exists>x ls. split_lines (l @ cs) = (l @ x) # ls"
proof (induction l)
  case Nil
  then show ?case by (cases cs) (auto split: list.split)
qed auto

lemma matches_line: "0x0A \<notin> set l \<Longrightarrow> matches pat name l = (if sublist pat l then name @ [0x3A] @ l @ [0x0A] else [])"
  by (simp add: matches_def split_lines_line)

lemma matches_newline:
  "0x0A \<notin> set l \<Longrightarrow> matches pat name (l @ 0x0A # cs)
     = (if sublist pat l then name @ [0x3A] @ l @ [0x0A] else []) @ matches pat name cs"
  by (simp add: matches_def split_lines_newline)

section \<open>The loops over the buffer\<close>

lemma line_scan_finds:
  "bytes_at m (data + of_nat p) k = c \<Longrightarrow>
     line_scan m data (int (p + k)) (int p) = int (p + length (takeWhile (\<lambda>x. x \<noteq> 0x0A) c))"
proof (induction k arbitrary: p c)
  case 0
  then show ?case by (subst line_scan.simps) auto
next
  case (Suc k)
  have c: "c = m (data + of_nat p) # bytes_at m (data + of_nat (Suc p)) k"
    using Suc.prems by (simp add: bytes_at_Cons ac_simps)
  show ?case
  proof (cases "m (data + of_nat p) = 0x0A")
    case True
    then show ?thesis by (subst line_scan.simps) (simp add: c)
  next
    case False
    then have "line_scan m data (int (p + Suc k)) (int p) = line_scan m data (int (Suc p + k)) (int (Suc p))"
      by (subst line_scan.simps) (simp add: add.commute)
    then show ?thesis using Suc.IH [OF refl, of "Suc p"] False by (simp add: c)
  qed
qed

lemma prefix_take: "prefix xs ys \<longleftrightarrow> take (length xs) ys = xs"
  by (auto simp: prefix_def) (metis append_take_drop_id)

lemma strncmp_prefix:
  assumes "cstring m p xs" "cstring m str pat" "length pat < 2 ^ 31"
  shows "ece391_strncmp m p str (of_nat (length pat)) = 0 \<longleftrightarrow> prefix pat xs"
proof -
  have "unat (of_nat (length pat) :: u32) = length pat" using assms(3) by (simp add: unat_of_nat32)
  then show ?thesis
    using cut_cstring [OF assms(1)] cut_cstring [OF assms(2)]
    by (simp add: ece391_strncmp_zero strncmp_zero prefix_take)
qed

lemma find_match_sublist:
  assumes "cstring m str pat" "pat \<noteq> []" "hd pat < 0x80" "length pat < 2 ^ 31"
  shows "cstring m (data + of_nat p) l \<Longrightarrow>
    find_match m str (of_nat (length pat)) data (int (p + length l)) (int p) = sublist pat l"
proof (induction l arbitrary: p)
  case Nil
  then show ?case using assms(2) by (subst find_match.simps) simp
next
  case (Cons c l)
  have c: "m (data + of_nat p) = c" "cstring m (data + of_nat (Suc p)) l"
    using Cons.prems by (simp_all add: cstring_Cons ac_simps)
  obtain h t where pat: "pat = h # t" using assms(2) by (cases pat) auto
  have h: "m str = h" using assms(1) by (simp add: pat cstring_Cons)
  have "uint h < 128" using assms(3) by (simp add: pat word_less_def)
  moreover have "- 128 \<le> uint h" using uint_ge_0 [of h] by linarith
  ultimately have "sint h = uint h" using signed_take_bit_int_eq_self [of 7 "uint h"] by (simp add: sint_uint)
  then have eq: "sint (m str) = uint (m (data + of_nat p)) \<longleftrightarrow> h = c" by (simp add: h c(1) word_uint_eq_iff)
  have "find_match m str (of_nat (length pat)) data (int (p + length (c # l))) (int p)
      \<longleftrightarrow> (h = c \<and> prefix pat (c # l)) \<or> find_match m str (of_nat (length pat)) data (int (Suc p + length l)) (int (Suc p))"
    using eq strncmp_prefix [OF Cons.prems assms(1,4)]
    by (subst find_match.simps) (simp add: add.commute, blast)
  also have "\<dots> \<longleftrightarrow> sublist pat (c # l)"
    using Cons.IH [OF c(2)] by (auto simp: sublist_Cons_right pat)
  finally show ?case .
qed

text \<open>The copy to the front overlaps what it copies, upwards.\<close>

lemma strcpy_down:
  "cstring m (d + of_nat p) cs \<Longrightarrow> 0 < p \<Longrightarrow> p + length cs < 2 ^ 32
    \<Longrightarrow> ece391_strcpy m d (d + of_nat p) = Some (poke m d (cs @ [0]))"
proof (induction cs arbitrary: m d)
  case Nil
  then show ?case by (subst ece391_strcpy.simps) (simp add: cstring_Nil)
next
  case (Cons c cs)
  have c: "m (d + of_nat p) = c" "c \<noteq> 0" "cstring m (d + 1 + of_nat p) cs"
    using Cons.prems(1) by (simp_all add: cstring_Cons algebra_simps)
  have "cstring (m(d := c)) (d + 1 + of_nat p) cs"
  proof (rule cstring_cong [OF c(3)])
    fix i assume "i \<le> length cs"
    then have "d + of_nat (Suc p + i) \<noteq> d + of_nat 0"
      using Cons.prems(3) of_nat_inj32 [of "Suc p + i" 0] by simp
    then show "(m(d := c)) (d + 1 + of_nat p + of_nat i) = m (d + 1 + of_nat p + of_nat i)" by (simp add: algebra_simps)
  qed
  from Cons.IH [OF this] Cons.prems(2,3) show ?case
    by (subst ece391_strcpy.simps) (simp add: Let_def c algebra_simps del: fun_upd_apply)
qed

section \<open>What a step of the program leaves\<close>

text \<open>The console shows \<open>cs\<close>; the descriptors outside \<open>js\<close> and the table of the free ones are as they were.\<close>

definition went :: "nat set \<Rightarrow> u8 list \<Rightarrow> kernel \<Rightarrow> kernel \<Rightarrow> bool" where
  "went js cs s s' \<longleftrightarrow> on_console s' \<and> boot_block s' = boot_block s
     \<and> openIndexes (pcbs s' ! current_pid s') = openIndexes (pcbs s ! current_pid s)
     \<and> (\<forall>j. j \<notin> js \<longrightarrow> fdArray (pcbs s' ! current_pid s') ! j = fdArray (pcbs s ! current_pid s) ! j)
     \<and> put_terminal s' = put_terminal s \<and> screen_at (put_terminal s) s' = fold emit cs (screen_at (put_terminal s) s)"

lemma went_refl: "on_console s \<Longrightarrow> went js [] s s"
  by (simp add: went_def)

lemma went_trans: "went js cs s t \<Longrightarrow> went js ds t u \<Longrightarrow> went js (cs @ ds) s u"
  by (simp add: went_def)

lemma went_mono: "went js cs s t \<Longrightarrow> js \<subseteq> ks \<Longrightarrow> went ks cs s t"
  by (auto simp: went_def)

lemma went_console: "went js cs s s' \<Longrightarrow> on_console s'"
  by (simp add: went_def)

lemma went_at_work: "went js cs s s' \<Longrightarrow> at_work fd f s \<Longrightarrow> fd \<notin> js \<Longrightarrow> 1 \<notin> js \<Longrightarrow> at_work fd f s'"
  by (simp add: went_def at_work_def on_console_def)

lemma went_con_part:
  assumes "on_console s'" "con_part s' = con_part s" "boot_block s' = boot_block s"
    "openIndexes (pcbs s' ! current_pid s') = openIndexes (pcbs s ! current_pid s)"
    "\<And>j. j \<notin> js \<Longrightarrow> fdArray (pcbs s' ! current_pid s') ! j = fdArray (pcbs s ! current_pid s) ! j"
  shows "went js [] s s'"
  using assms con_part_eq(2,3) [OF assms(2)] by (simp add: went_def)

lemma went_set_vmem: "on_console s \<Longrightarrow> went js [] s (set_vmem m s)"
proof -
  assume c: "on_console s"
  have "con_part (set_vmem m s) = con_part s" by simp
  then have "on_console (set_vmem m s)"
    using c con_part_eq(1) [of "set_vmem m s" s] by (simp add: on_console_def) (simp add: set_vmem_def)
  then show ?thesis by (rule went_con_part) simp_all
qed

lemma went_store: "on_console s \<Longrightarrow> went js [] s (store p v s)"
  unfolding store_def by (rule went_set_vmem)

lemma fdputs_went:
  assumes c: "on_console s" and p: "p \<noteq> 0" "cstring (vmem s) p cs" "cs \<noteq> []" "length cs < 2 ^ 31" "8 \<notin> set cs"
  shows "\<exists>s'. ece391_fdputs lo 1 p s = Some s' \<and> went js cs s s' \<and> vmem s' = vmem s"
proof -
  let ?s = "sti (prints cs (sti (cli s)))"
  have "console_ok s" using c by (simp add: on_console_def)
  from prints_console [OF this, of cs] have "went js cs s ?s"
    using c by (simp add: went_def on_console_def)
  then show ?thesis using fdputs_eq [OF assms, of lo] by simp
qed

section \<open>A line of the buffer\<close>

definition text_in :: "locals \<Rightarrow> u32 \<Rightarrow> kernel \<Rightarrow> u32 \<Rightarrow> u8 list \<Rightarrow> bool" where
  "text_in lo data s p cs \<longleftrightarrow> p \<noteq> 0 \<and> length cs < 2 ^ 31 \<and> cstring (vmem s) p cs \<and> apart data 1025 p (length cs + 1)
     \<and> apart (lo_dentry lo) 64 p (length cs + 1)"

definition grep_env :: "locals \<Rightarrow> (string \<Rightarrow> u32) \<Rightarrow> u32 \<Rightarrow> u8 list \<Rightarrow> u32 \<Rightarrow> u8 list \<Rightarrow> u32 \<Rightarrow> kernel \<Rightarrow> bool" where
  "grep_env lo lit str pat fname name data s \<longleftrightarrow> data \<noteq> 0 \<and> unat data + 1025 \<le> 2 ^ 32
     \<and> text_in lo data s str pat \<and> text_in lo data s fname name
     \<and> text_in lo data s (lit '':'') [0x3A] \<and> text_in lo data s (lit [CHR 0x0A]) [0x0A]
     \<and> pat \<noteq> [] \<and> hd pat < 0x80 \<and> name \<noteq> [] \<and> 8 \<notin> set name"

lemma text_in_cong:
  assumes "text_in lo data s p cs" "\<And>a. \<not> within data 1025 a \<Longrightarrow> \<not> within (lo_dentry lo) 64 a \<Longrightarrow> vmem s' a = vmem s a"
  shows "text_in lo data s' p cs"
proof -
  have "cstring (vmem s') p cs"
  proof (rule cstring_cong)
    show "cstring (vmem s) p cs" using assms(1) by (simp add: text_in_def)
    fix i assume "i \<le> length cs"
    then have "within p (length cs + 1) (p + of_nat i)" using assms(1) by (simp add: text_in_def within_offset)
    then have "\<not> within data 1025 (p + of_nat i)" "\<not> within (lo_dentry lo) 64 (p + of_nat i)"
      using assms(1) by (auto simp: text_in_def apart_def)
    then show "vmem s' (p + of_nat i) = vmem s (p + of_nat i)" by (rule assms(2))
  qed
  then show ?thesis using assms(1) by (simp add: text_in_def)
qed

lemma grep_env_cong:
  assumes "grep_env lo lit str pat fname name data s"
    "\<And>a. \<not> within data 1025 a \<Longrightarrow> \<not> within (lo_dentry lo) 64 a \<Longrightarrow> vmem s' a = vmem s a"
  shows "grep_env lo lit str pat fname name data s'"
  using assms(1) text_in_cong [OF _ assms(2)] by (simp add: grep_env_def)

lemma data_nonzero:
  assumes "grep_env lo lit str pat fname name data s" "p < 1025"
  shows "data + of_nat p \<noteq> 0"
proof -
  have "unat data + p < 2 ^ 32" "data \<noteq> 0" using assms by (simp_all add: grep_env_def)
  then have "unat (data + of_nat p) = unat data + p" using assms(2) by (simp add: unat_word_ariths unat_of_nat32)
  then show ?thesis using \<open>data \<noteq> 0\<close> by (auto simp: unat_eq_0)
qed

lemma print_match_prints:
  assumes e: "grep_env lo lit str pat fname name data s" and c: "on_console s"
    and l: "line \<noteq> 0" "cstring (vmem s) line l" "l \<noteq> []" "length l < 2 ^ 31" "8 \<notin> set l"
  shows "\<exists>s'. print_match lo lit fname line s = Some s' \<and> went js (name @ [0x3A] @ l @ [0x0A]) s s' \<and> vmem s' = vmem s"
proof -
  have T: "text_in lo data s fname name" "text_in lo data s (lit '':'') [0x3A]" "text_in lo data s (lit [CHR 0x0A]) [0x0A]"
    "name \<noteq> []" "8 \<notin> set name"
    using e by (simp_all add: grep_env_def)
  note t = T(1-3) [unfolded text_in_def]
  obtain s1 where s1: "ece391_fdputs lo 1 fname s = Some s1" "went js name s s1" "vmem s1 = vmem s"
    using fdputs_went [OF c, of fname name lo js] t(1) T(4,5) by blast
  obtain s2 where s2: "ece391_fdputs lo 1 (lit '':'') s1 = Some s2" "went js [0x3A] s1 s2" "vmem s2 = vmem s"
    using fdputs_went [OF went_console [OF s1(2)], of "lit '':''" "[0x3A]" lo js] t(2) s1(3) by auto
  obtain s3 where s3: "ece391_fdputs lo 1 line s2 = Some s3" "went js l s2 s3" "vmem s3 = vmem s"
    using fdputs_went [OF went_console [OF s2(2)], of line l lo js] l s2(3) by auto
  obtain s4 where s4: "ece391_fdputs lo 1 (lit [CHR 0x0A]) s3 = Some s4" "went js [0x0A] s3 s4" "vmem s4 = vmem s"
    using fdputs_went [OF went_console [OF s3(2)], of "lit [CHR 0x0A]" "[0x0A]" lo js] t(3) s3(3) by auto
  have "print_match lo lit fname line s = Some s4"
    by (simp add: print_match_def s1(1) s2(1) s3(1) s4(1))
  then show ?thesis
    using went_trans [OF s1(2) went_trans [OF s2(2) went_trans [OF s3(2) s4(2)]]] s4(3) by blast
qed

lemma search_line:
  assumes e: "grep_env lo lit str pat fname name data s" and c: "on_console s"
    and l: "bytes_at (vmem s) (data + of_nat p) (length l) = l" "0 \<notin> set l" "8 \<notin> set l" "p + length l \<le> 1024"
  defines "s1 \<equiv> store (data + of_nat (p + length l)) 0 s"
  shows "\<exists>s'. (if find_match (vmem s1) str (of_nat (length pat)) data (int (p + length l)) (int p)
        then print_match lo lit fname (data + of_nat p) s1 else Some s1) = Some s'
    \<and> went js (if sublist pat l then name @ [0x3A] @ l @ [0x0A] else []) s s'
    \<and> vmem s' = (vmem s)(data + of_nat (p + length l) := 0)"
proof -
  have v: "vmem s1 = (vmem s)(data + of_nat (p + length l) := 0)" by (simp add: s1_def store_frame)
  have w: "went js [] s s1" unfolding s1_def by (rule went_store [OF c])
  have "within data 1025 (data + of_nat (p + length l))" using l(4) by (subst within_offset) simp_all
  then have e1: "grep_env lo lit str pat fname name data s1" by (intro grep_env_cong [OF e]) (auto simp: v)
  have cs: "cstring (vmem s1) (data + of_nat p) l"
  proof (rule cstringI)
    fix i assume i: "i < length l"
    then have "vmem s (data + of_nat p + of_nat i) = l ! i"
      using l(1) bytes_at_nth [of i "length l" "vmem s" "data + of_nat p"] by simp
    moreover have "data + of_nat (p + i) \<noteq> data + of_nat (p + length l)"
      using i l(4) of_nat_inj32 [of "p + i" "p + length l"] by simp
    ultimately show "vmem s1 (data + of_nat p + of_nat i) = l ! i" by (simp add: v add.assoc)
  qed (use l in \<open>simp_all add: v add.assoc\<close>)
  have T: "cstring (vmem s1) str pat" "pat \<noteq> []" "hd pat < 0x80" "length pat < 2 ^ 31"
    using e1 by (simp_all add: grep_env_def text_in_def)
  note f = find_match_sublist [OF T cs]
  have n: "data + of_nat p \<noteq> 0" using data_nonzero [OF e, of p] l(4) by simp
  have len: "length l < 2 ^ 31" using l(4) by simp
  show ?thesis
  proof (cases "sublist pat l")
    case True
    then have "l \<noteq> []" using T(2) by auto
    from print_match_prints [OF e1 went_console [OF w] n cs this len l(3)] obtain s' where
      "print_match lo lit fname (data + of_nat p) s1 = Some s'" "went js (name @ [0x3A] @ l @ [0x0A]) s1 s'" "vmem s' = vmem s1"
      by blast
    then show ?thesis using went_trans [OF w] v True unfolding f by auto
  next
    case False
    then show ?thesis using w v unfolding f by simp
  qed
qed

section \<open>The lines of the buffer\<close>

text \<open>What one pass over the buffer leaves: \<open>rem\<close>, the cut off line, now at the front of the buffer, and \<open>out\<close>, the output so
  far. \<open>follows\<close> says whether anything can follow in the file.\<close>

definition passed_over :: "u8 list \<Rightarrow> u8 list \<Rightarrow> bool \<Rightarrow> u8 list \<Rightarrow> u8 list \<Rightarrow> u8 list \<Rightarrow> bool" where
  "passed_over pat name follows c rem out \<longleftrightarrow> set rem \<subseteq> set c \<and> 0x0A \<notin> set rem \<and> length rem < 1024
     \<and> (\<forall>rest. (follows \<or> rest = []) \<longrightarrow> matches pat name (c @ rest) = out @ matches pat name (rem @ rest)
        \<and> ((\<forall>l \<in> set (split_lines (c @ rest)). length l < 1024) \<longrightarrow> (\<forall>l \<in> set (split_lines (rem @ rest)). length l < 1024)))"

lemma passed_over_line:
  assumes "0x0A \<notin> set l" "passed_over pat name follows c rem out"
  shows "passed_over pat name follows (l @ 0x0A # c) rem ((if sublist pat l then name @ [0x3A] @ l @ [0x0A] else []) @ out)"
  unfolding passed_over_def
proof (intro conjI allI impI)
  let ?l = "if sublist pat l then name @ [0x3A] @ l @ [0x0A] else []"
  fix rest :: "u8 list" assume r: "follows \<or> rest = []"
  have p: "matches pat name (c @ rest) = out @ matches pat name (rem @ rest)"
    "(\<forall>l \<in> set (split_lines (c @ rest)). length l < 1024) \<longrightarrow> (\<forall>l \<in> set (split_lines (rem @ rest)). length l < 1024)"
    using assms(2) r unfolding passed_over_def by blast+
  have e: "(l @ 0x0A # c) @ rest = l @ 0x0A # c @ rest" by simp
  show "matches pat name ((l @ 0x0A # c) @ rest) = (?l @ out) @ matches pat name (rem @ rest)"
    unfolding e matches_newline [OF assms(1)] p(1) by simp
  assume "\<forall>l \<in> set (split_lines ((l @ 0x0A # c) @ rest)). length l < 1024"
  then show "\<forall>l \<in> set (split_lines (rem @ rest)). length l < 1024"
    using p(2) unfolding e split_lines_newline [OF assms(1)] by simp
next
  show "set rem \<subseteq> set (l @ 0x0A # c)" "0x0A \<notin> set rem" "length rem < 1024"
    using assms(2) by (auto simp: passed_over_def)
qed

lemma passed_over_all: "pat \<noteq> [] \<Longrightarrow> passed_over pat name follows [] [] []"
  by (simp add: passed_over_def matches_line)

lemma passed_over_end:
  "pat \<noteq> [] \<Longrightarrow> 0x0A \<notin> set l \<Longrightarrow> passed_over pat name False l [] (if sublist pat l then name @ [0x3A] @ l @ [0x0A] else [])"
  using matches_line [of "[]" pat name] by (simp add: passed_over_def matches_line)

lemma passed_over_cut: "0x0A \<notin> set c \<Longrightarrow> length c < 1024 \<Longrightarrow> passed_over pat name follows c c []"
  by (simp add: passed_over_def)

lemma first_line:
  "x \<in> set xs \<Longrightarrow> xs = takeWhile (\<lambda>y. y \<noteq> x) xs @ x # drop (Suc (length (takeWhile (\<lambda>y. y \<noteq> x) xs))) xs"
  by (induction xs) auto

lemma grep_lines_runs:
  assumes "grep_env lo lit str pat fname name data s" "on_console s"
    and "bytes_at (vmem s) (data + of_nat p) (length c) = c" "p + length c \<le> 1024" "0 \<notin> set c" "8 \<notin> set c"
    and "vmem s (data + of_nat 1024) \<noteq> 0x0A" "p = 0 \<and> p + length c = 1024 \<and> cnt \<noteq> 0 \<longrightarrow> 0x0A \<in> set c"
  shows "\<exists>s' rem out. grep_lines lo lit str fname (of_nat (length pat)) data cnt (int (p + length c)) (int p) s = Some (s', int (length rem))
    \<and> went js out s s' \<and> (\<forall>a. \<not> within data 1025 a \<longrightarrow> vmem s' a = vmem s a) \<and> vmem s' (data + of_nat 1024) \<noteq> 0x0A
    \<and> bytes_at (vmem s') data (length rem) = rem \<and> passed_over pat name (p + length c = 1024 \<and> cnt \<noteq> 0) c rem out
    \<and> (cnt = 0 \<longrightarrow> rem = [])"
  using assms
proof (induction c arbitrary: p s rule: length_induct)
  case (1 c)
  note e = "1.prems"(1) and con = "1.prems"(2) and bytes = "1.prems"(3) and n = "1.prems"(4)
  define l where "l = takeWhile (\<lambda>x. x \<noteq> 0x0A) c"
  let ?q = "p + length l" and ?last = "int (p + length c)"
  have l: "0x0A \<notin> set l" "length l \<le> length c" "take (length l) c = l" "0 \<notin> set l" "8 \<notin> set l"
    using "1.prems"(5,6) by (auto simp: l_def length_takeWhile_le takeWhile_eq_take [symmetric] dest: set_takeWhileD)
  have scan: "line_scan (vmem s) data ?last (int p) = int ?q"
    using line_scan_finds [OF bytes] by (simp add: l_def)
  have lb: "bytes_at (vmem s) (data + of_nat p) (length l) = l"
  proof (rule nth_equalityI)
    fix i assume "i < length (bytes_at (vmem s) (data + of_nat p) (length l))"
    then show "bytes_at (vmem s) (data + of_nat p) (length l) ! i = l ! i"
      using bytes l(2,3) bytes_at_nth [of i "length c" "vmem s" "data + of_nat p"] nth_take [of i "length l" c] by simp
  qed simp
  have q: "?q \<le> 1024" using n l(2) by simp
  have pat: "pat \<noteq> []" using e by (simp add: grep_env_def)
  define ol where "ol = (if sublist pat l then name @ [0x3A] @ l @ [0x0A] else [])"
  obtain s1 where s1: "(if find_match (vmem (store (data + of_nat ?q) 0 s)) str (of_nat (length pat)) data (int ?q) (int p)
        then print_match lo lit fname (data + of_nat p) (store (data + of_nat ?q) 0 s) else Some (store (data + of_nat ?q) 0 s)) = Some s1"
    "went js ol s s1" "vmem s1 = (vmem s)(data + of_nat ?q := 0)"
    using search_line [OF e con lb l(4,5) q, of js] unfolding ol_def by blast
  have in1: "within data 1025 (data + of_nat ?q)" using q by (subst within_offset) simp_all
  then have out1: "\<forall>a. \<not> within data 1025 a \<longrightarrow> vmem s1 a = vmem s a" by (auto simp: s1(3))
  have top1: "vmem s1 (data + of_nat 1024) \<noteq> 0x0A" using "1.prems"(7) by (simp add: s1(3))
  have step: "grep_lines lo lit str fname (of_nat (length pat)) data cnt ?last (int p) s
      = (if ?last \<le> int ?q + 1 then Some (s1, 0)
         else grep_lines lo lit str fname (of_nat (length pat)) data cnt ?last (int ?q + 1) s1)"
    if "\<not> (vmem s (data + of_nat ?q) \<noteq> 0x0A \<and> cnt \<noteq> 0 \<and> p \<noteq> 0)"
  proof -
    have "\<not> (vmem s (data + of_nat ?q) \<noteq> 0x0A \<and> cnt \<noteq> 0 \<and> int p \<noteq> 0)" using that by simp
    then show ?thesis
      by (subst grep_lines.simps) (simp only: Let_def scan of_int_of_nat_eq if_not_P if_False s1(1) Option.bind.bind_lunit)
  qed
  show ?case
  proof (cases "0x0A \<in> set c")
    case True
    define c' where "c' = drop (Suc (length l)) c"
    have c: "c = l @ 0x0A # c'"
      unfolding l_def c'_def by (rule first_line [OF True])
    have len: "length c' < length c" "Suc ?q + length c' = p + length c" by (simp_all add: c)
    have nl: "vmem s (data + of_nat ?q) = 0x0A"
      using bytes_at_nth [of "length l" "length c" "vmem s" "data + of_nat p"] unfolding bytes by (simp add: c add.assoc)
    have bytes': "bytes_at (vmem s1) (data + of_nat (Suc ?q)) (length c') = c'"
    proof (rule nth_equalityI)
      fix i assume "i < length (bytes_at (vmem s1) (data + of_nat (Suc ?q)) (length c'))"
      then have i: "i < length c'" by simp
      then have "data + of_nat (Suc ?q + i) \<noteq> data + of_nat ?q"
        using n of_nat_inj32 [of "Suc ?q + i" ?q] by (simp add: c del: of_nat_add of_nat_Suc)
      moreover have "vmem s (data + of_nat p + of_nat (Suc (length l) + i)) = c' ! i"
        using bytes_at_nth [of "Suc (length l) + i" "length c" "vmem s" "data + of_nat p"] i unfolding bytes
        by (simp add: c nth_append)
      ultimately show "bytes_at (vmem s1) (data + of_nat (Suc ?q)) (length c') ! i = c' ! i"
        using i by (simp add: s1(3) ac_simps)
    qed simp
    show ?thesis
    proof (cases "c' = []")
      case True
      then have "?last \<le> int ?q + 1" by (simp add: c)
      then have "grep_lines lo lit str fname (of_nat (length pat)) data cnt ?last (int p) s = Some (s1, int (length []))"
        using step nl by simp
      moreover have "passed_over pat name follows c [] ol" for follows
        using passed_over_line [OF l(1) passed_over_all [OF pat, of name follows]] by (simp add: c True ol_def)
      ultimately show ?thesis using s1(2) out1 top1 by (intro exI [of _ s1] exI [of _ "[]"] exI [of _ ol]) auto
    next
      case False
      then have i: "\<not> ?last \<le> int (Suc ?q)" "int ?q + 1 = int (Suc ?q)" by (simp_all add: c)
      have g: "grep_lines lo lit str fname (of_nat (length pat)) data cnt ?last (int p) s
          = grep_lines lo lit str fname (of_nat (length pat)) data cnt ?last (int (Suc ?q)) s1"
        using step nl unfolding i(2) if_not_P [OF i(1)] by blast
      have "\<exists>s' rem out. grep_lines lo lit str fname (of_nat (length pat)) data cnt (int (Suc ?q + length c')) (int (Suc ?q)) s1
            = Some (s', int (length rem))
          \<and> went js out s1 s' \<and> (\<forall>a. \<not> within data 1025 a \<longrightarrow> vmem s' a = vmem s1 a) \<and> vmem s' (data + of_nat 1024) \<noteq> 0x0A
          \<and> bytes_at (vmem s') data (length rem) = rem \<and> passed_over pat name (Suc ?q + length c' = 1024 \<and> cnt \<noteq> 0) c' rem out
          \<and> (cnt = 0 \<longrightarrow> rem = [])"
      proof (rule "1.IH" [rule_format, OF len(1)])
        show "grep_env lo lit str pat fname name data s1" by (rule grep_env_cong [OF e out1 [rule_format]])
      qed (use went_console [OF s1(2)] bytes' n len(2) "1.prems"(5,6) top1 in \<open>simp_all add: c\<close>)
      then obtain s' rem out where r: "grep_lines lo lit str fname (of_nat (length pat)) data cnt ?last (int (Suc ?q)) s1
            = Some (s', int (length rem))"
        "went js out s1 s'" "\<forall>a. \<not> within data 1025 a \<longrightarrow> vmem s' a = vmem s1 a" "vmem s' (data + of_nat 1024) \<noteq> 0x0A"
        "bytes_at (vmem s') data (length rem) = rem" "passed_over pat name (p + length c = 1024 \<and> cnt \<noteq> 0) c' rem out"
        "cnt = 0 \<longrightarrow> rem = []"
        unfolding len(2) by blast
      show ?thesis
      proof (intro exI conjI)
        show "grep_lines lo lit str fname (of_nat (length pat)) data cnt ?last (int p) s = Some (s', int (length rem))"
          unfolding g by (rule r(1))
        show "went js (ol @ out) s s'" by (rule went_trans [OF s1(2) r(2)])
        show "\<forall>a. \<not> within data 1025 a \<longrightarrow> vmem s' a = vmem s a" using r(3) out1 by simp
        show "passed_over pat name (p + length c = 1024 \<and> cnt \<noteq> 0) c rem (ol @ out)"
          using passed_over_line [OF l(1) r(6)] unfolding ol_def c [symmetric] .
      qed (fact r(4,5,7))+
    qed
  next
    case False
    then have "l = c" unfolding l_def takeWhile_eq_all_conv by blast
    then have c: "c = l" ..
    show ?thesis
    proof (cases "vmem s (data + of_nat ?q) \<noteq> 0x0A \<and> cnt \<noteq> 0 \<and> p \<noteq> 0")
      case True
      define t where "t = store (data + of_nat ?q) 0 s"
      have t: "vmem t = (vmem s)(data + of_nat ?q := 0)" "went js [] s t"
        using went_store [OF con] by (simp_all add: t_def store_frame)
      have cs: "cstring (vmem t) (data + of_nat p) c"
      proof (rule cstringI)
        fix i assume i: "i < length c"
        then have "data + of_nat (p + i) \<noteq> data + of_nat ?q"
          using n of_nat_inj32 [of "p + i" ?q] by (simp add: c del: of_nat_add)
        then show "vmem t (data + of_nat p + of_nat i) = c ! i"
          using bytes_at_nth [OF i, of "vmem s" "data + of_nat p"] unfolding bytes by (simp add: t(1) ac_simps)
      qed (use "1.prems"(4,5) in \<open>simp_all add: t(1) ac_simps c\<close>)
      let ?m = "poke (vmem t) data (c @ [0])"
      have cp: "ece391_strcpy (vmem t) data (data + of_nat p) = Some ?m"
        by (rule strcpy_down [OF cs]) (use True n in simp_all)
      have b: "vmem s (data + of_nat ?q) \<noteq> 0x0A \<and> cnt \<noteq> 0 \<and> int p \<noteq> 0" "?last - int p = int (length c)"
        using True by simp_all
      then have g: "grep_lines lo lit str fname (of_nat (length pat)) data cnt ?last (int p) s
          = Some (set_vmem ?m t, int (length c))"
        by (subst grep_lines.simps)
          (simp only: Let_def scan of_int_of_nat_eq if_P simp_thms t_def [symmetric] cp Option.bind.bind_lunit)
      have short: "length c < 1024" using True n by simp
      have w: "went js [] s (set_vmem ?m t)"
        using went_trans [OF t(2) went_set_vmem [OF went_console [OF t(2)]]] by simp
      have "\<not> within data (length (c @ [0])) (data + of_nat 1024)" using short by (subst within_offset) simp_all
      from poke_other [OF this, of "vmem t"] have top: "?m (data + of_nat 1024) \<noteq> 0x0A"
        using "1.prems"(7) by (simp add: t(1) del: poke.simps)
      have "?m a = vmem s a" if "\<not> within data 1025 a" for a
      proof -
        have "\<not> within data (length (c @ [0])) a" using that within_mono [of data "length (c @ [0])" a 1025] short by auto
        from poke_other [OF this, of "vmem t"] show ?thesis using that in1 by (auto simp: t(1) simp del: poke.simps)
      qed
      moreover have "bytes_at ?m data (length c) = c"
        using bytes_at_poke [of "c @ [0]" "vmem t" data] short by (simp add: bytes_at_Suc)
      ultimately show ?thesis
        using g w top passed_over_cut [OF False short] b(1) by (intro exI [of _ "set_vmem ?m t"] exI [of _ c] exI [of _ "[]"]) simp
    next
      case stop: False
      have le: "?last \<le> int ?q + 1" by (simp add: c)
      have "grep_lines lo lit str fname (of_nat (length pat)) data cnt ?last (int p) s = Some (s1, int (length []))"
        using step [OF stop] unfolding if_P [OF le] by simp
      moreover have "\<not> (p + length c = 1024 \<and> cnt \<noteq> 0)"
      proof
        assume h: "p + length c = 1024 \<and> cnt \<noteq> 0"
        then have "?q = 1024" by (simp add: c)
        then have "vmem s (data + of_nat ?q) \<noteq> 0x0A" using "1.prems"(7) by (simp only:) simp
        then show False using stop h "1.prems"(8) False by simp
      qed
      then have "passed_over pat name (p + length c = 1024 \<and> cnt \<noteq> 0) c [] ol"
        using passed_over_end [OF pat l(1), of name] by (simp only: c ol_def simp_thms)
      ultimately show ?thesis using s1(2) out1 top1 by (intro exI [of _ s1] exI [of _ "[]"] exI [of _ ol]) auto
    qed
  qed
qed

section \<open>One file\<close>

definition file_left :: "u32 \<Rightarrow> u32 \<Rightarrow> mem \<Rightarrow> file_descriptor \<Rightarrow> u8 list \<Rightarrow> bool" where
  "file_left bb data m f rest \<longleftrightarrow> fs_size m bb \<le> 2 ^ 32 \<and> reading m bb f \<and> apart data 1025 bb (fs_size m bb)
     \<and> remaining m bb f = rest"

lemma file_left_cong:
  assumes "file_left bb data m f rest" "\<And>a. \<not> within data 1025 a \<Longrightarrow> m' a = m a"
  shows "file_left bb data m' f rest"
proof -
  have l: "fs_size m bb \<le> 2 ^ 32" "reading m bb f" "apart data 1025 bb (fs_size m bb)" "remaining m bb f = rest"
    using assms(1) by (simp_all add: file_left_def)
  have "same_image m m' bb" by (rule same_image_outside [OF assms(2) l(3)])
  from same_image_reading [OF this l(1,2)] show ?thesis using l by (simp add: file_left_def)
qed

lemma poke_outside: "length xs \<le> n \<Longrightarrow> \<not> within p n a \<Longrightarrow> poke m p xs a = m a"
  using within_mono [of p "length xs" a n] poke_other [of p xs a m] by blast

text \<open>A read behind the cut off line.\<close>

lemma grep_read:
  assumes e: "grep_env lo lit str pat fname name data s" and c: "on_console s" and at: "at_work fd f s"
    and rf: "readFunc (jump_table f) = Read_file" and left: "file_left (boot_block s) data (vmem s) f rest"
    and rem: "bytes_at (vmem s) data (length rem) = rem" "length rem < 1024"
  defines "j \<equiv> min (1024 - length rem) (length rest)"
  obtains s' f' where
    "\<And>irqs. ece391_read lo (of_nat fd) (data + of_nat (length rem)) (of_nat (1024 - length rem)) irqs s = Some (s', of_nat j)"
    "went {fd} [] s s'" "at_work fd f' s'" "jump_table f' = jump_table f" "file_left (boot_block s) data (vmem s') f' (drop j rest)"
    "\<And>a. \<not> within data 1025 a \<Longrightarrow> vmem s' a = vmem s a" "vmem s' (data + of_nat 1024) = vmem s (data + of_nat 1024)"
    "bytes_at (vmem s') data (length (rem @ take j rest)) = rem @ take j rest"
proof -
  let ?bb = "boot_block s" and ?n = "1024 - length rem" and ?b = "data + of_nat (length rem)"
  have L: "fs_size (vmem s) ?bb \<le> 2 ^ 32" "reading (vmem s) ?bb f" "apart data 1025 ?bb (fs_size (vmem s) ?bb)"
    "remaining (vmem s) ?bb f = rest"
    using left by (simp_all add: file_left_def)
  have n: "unat (of_nat ?n :: u32) = ?n" by (rule unat_of_nat32) simp
  have b: "?b \<noteq> 0" using data_nonzero [OF e, of "length rem"] rem(2) by simp
  have ap: "apart ?b ?n ?bb (fs_size (vmem s) ?bb)"
    using L(3) within_shift [of data "length rem" ?n _ 1025] rem(2) unfolding apart_def by auto
  have "0 < unat (of_nat ?n :: u32)" using rem(2) unfolding n by simp
  then have pos: "(0 :: u32) < of_nat ?n" by (simp only: unat_gt_0 word_gt_0 not_False_eq_True)
  have "file_reader_ok ?bb ?b (of_nat ?n) (vmem s) f"
    unfolding file_reader_ok_def n by (intro conjI L(1,2) b pos ap) simp
  moreover have "j = min (unat (of_nat ?n :: u32)) (length (remaining (vmem s) ?bb f))" unfolding n L(4) j_def ..
  ultimately have r: "read_file (vmem s) ?bb f ?b (of_nat ?n)
      = (poke (vmem s) ?b (take j rest), f\<lparr>file_position := file_position f + of_nat j\<rparr>, of_nat j)"
    "file_reader_ok ?bb ?b (of_nat ?n) (poke (vmem s) ?b (take j rest)) (f\<lparr>file_position := file_position f + of_nat j\<rparr>)"
    "remaining (poke (vmem s) ?b (take j rest)) ?bb (f\<lparr>file_position := file_position f + of_nat j\<rparr>) = drop j rest"
    using file_reader_step [of ?bb ?b "of_nat ?n" "vmem s" f j] unfolding L(4) by blast+
  let ?m = "poke (vmem s) ?b (take j rest)" and ?f = "f\<lparr>file_position := file_position f + of_nat j\<rparr>"
  have f: "flags ?f = full" "jump_table ?f = jump_table f" using at by (simp_all add: at_work_def)
  obtain s' where s': "\<And>irqs. ece391_read lo (of_nat fd) ?b (of_nat ?n) irqs s = Some (s', of_nat j)"
    "at_work fd ?f s'" "vmem s' = ?m" "boot_block s' = ?bb" "con_part s' = con_part s" "on_console s \<Longrightarrow> on_console s'"
    "openIndexes (pcbs s' ! current_pid s') = openIndexes (pcbs s ! current_pid s)"
    "\<And>j. j \<noteq> fd \<Longrightarrow> fdArray (pcbs s' ! current_pid s') ! j = fdArray (pcbs s ! current_pid s) ! j"
    by (rule read_once [OF at b f disjI1 [OF conjI [OF rf r(1)]]]) (rule that)
  have w: "went {fd} [] s s'" by (rule went_con_part) (use s' c in auto)
  have len: "length (take j rest) \<le> ?n" by (simp add: j_def)
  have out: "vmem s' a = vmem s a" if "\<not> within data 1025 a" for a
    unfolding s'(3) using that within_shift [of data "length rem" ?n a 1025] rem(2) by (intro poke_outside [OF len]) auto
  have "\<not> within ?b ?n (data + of_nat 1024)"
  proof -
    have "data + of_nat 1024 = ?b + of_nat ?n" using rem(2) by simp
    moreover have "\<not> within ?b ?n (?b + of_nat ?n)" by (subst within_offset) simp_all
    ultimately show ?thesis by (simp only: simp_thms)
  qed
  then have top: "vmem s' (data + of_nat 1024) = vmem s (data + of_nat 1024)"
    unfolding s'(3) by (rule poke_outside [OF len])
  have fs: "fs_size ?m ?bb \<le> 2 ^ 32" "reading ?m ?bb ?f" using r(2) by (simp_all add: file_reader_ok_def)
  have "same_image (vmem s) ?m ?bb" by (rule same_image_outside [OF out [unfolded s'(3)] L(3)])
  from same_image_reading(3) [OF this L(1,2)] have left': "file_left ?bb data (vmem s') ?f (drop j rest)"
    using fs r(3) L(3) by (simp add: file_left_def s'(3))
  have "bytes_at ?m data (length rem) = bytes_at (vmem s) data (length rem)"
  proof (rule bytes_at_cong)
    fix i assume i: "i < length rem"
    have "\<not> within ?b ?n (data + of_nat i)" by (rule not_within_shift [OF i]) (use rem(2) in simp)
    then show "?m (data + of_nat i) = vmem s (data + of_nat i)" by (rule poke_outside [OF len])
  qed
  then have "bytes_at (vmem s') data (length (rem @ take j rest)) = rem @ take j rest"
    unfolding s'(3) length_append bytes_at_add using bytes_at_poke [of "take j rest" "vmem s" ?b] len rem(1) by simp
  then show ?thesis
    using that [of s' ?f] s'(1,2) w f(2) left' out top by simp
qed

lemma grep_reads_runs:
  assumes "grep_env lo lit str pat fname name data s" "on_console s" "at_work fd f s" "readFunc (jump_table f) = Read_file"
    and "file_left (boot_block s) data (vmem s) f rest"
    and "bytes_at (vmem s) data (length rem) = rem" "length rem < 1024" "0x0A \<notin> set rem"
    and "0 \<notin> set (rem @ rest)" "8 \<notin> set (rem @ rest)" "\<forall>l \<in> set (split_lines (rem @ rest)). length l < 1024"
    and "vmem s (data + of_nat 1024) \<noteq> 0x0A"
  shows "\<exists>s' f'. grep_reads lo lit str fname (of_nat (length pat)) data (of_nat fd) irqs k (int (length rem)) s = Some (s', 0)
    \<and> went {fd} (matches pat name (rem @ rest)) s s' \<and> at_work fd f' s' \<and> jump_table f' = jump_table f
    \<and> (\<forall>a. \<not> within data 1025 a \<longrightarrow> vmem s' a = vmem s a) \<and> vmem s' (data + of_nat 1024) \<noteq> 0x0A"
  using assms
proof (induction rest arbitrary: s f rem k rule: length_induct)
  case (1 rest)
  note e = "1.prems"(1) and con = "1.prems"(2) and at = "1.prems"(3) and rf = "1.prems"(4) and left = "1.prems"(5)
    and rem = "1.prems"(6,7)
  define j where "j = min (1024 - length rem) (length rest)"
  let ?c = "rem @ take j rest" and ?cnt = "of_nat j :: i32"
  obtain s1 f1 where s1: "\<And>irqs. ece391_read lo (of_nat fd) (data + of_nat (length rem)) (of_nat (1024 - length rem)) irqs s = Some (s1, ?cnt)"
    "went {fd} [] s s1" "at_work fd f1 s1" "jump_table f1 = jump_table f" "file_left (boot_block s) data (vmem s1) f1 (drop j rest)"
    "\<And>a. \<not> within data 1025 a \<Longrightarrow> vmem s1 a = vmem s a" "vmem s1 (data + of_nat 1024) = vmem s (data + of_nat 1024)"
    "bytes_at (vmem s1) data (length ?c) = ?c"
    by (rule grep_read [OF e con at rf left rem, folded j_def]) (rule that)
  have jn: "j \<le> 1024 - length rem" "j \<le> length rest" by (simp_all add: j_def)
  have len: "length ?c = length rem + j" "length ?c \<le> 1024" using jn rem(2) by simp_all
  have cnt: "sint ?cnt = int j" "?cnt = 0 \<longleftrightarrow> j = 0" "?cnt \<noteq> -1"
    using jn(1) of_nat_inj32 [of j 0] of_nat_neq_m1 [of j] by (simp_all add: sint_unat32 unat_of_nat32)
  have cr: "?c @ drop j rest = rem @ rest" by simp
  have sub: "set ?c \<subseteq> set (rem @ rest)" using set_take_subset [of j rest] by auto
  have nl: "length ?c = 1024 \<longrightarrow> 0x0A \<in> set ?c"
  proof (rule impI, rule ccontr)
    assume h: "length ?c = 1024" "0x0A \<notin> set ?c"
    obtain x ls where "split_lines (?c @ drop j rest) = (?c @ x) # ls" using split_lines_first [OF h(2)] by blast
    then have "length (?c @ x) < 1024" using "1.prems"(11) unfolding cr by simp
    then show False using h(1) by simp
  qed
  have e1: "grep_env lo lit str pat fname name data s1" by (rule grep_env_cong [OF e s1(6)])
  have "\<exists>s2 rem' out. grep_lines lo lit str fname (of_nat (length pat)) data ?cnt (int (0 + length ?c)) (int 0) s1 = Some (s2, int (length rem'))
    \<and> went {} out s1 s2 \<and> (\<forall>a. \<not> within data 1025 a \<longrightarrow> vmem s2 a = vmem s1 a) \<and> vmem s2 (data + of_nat 1024) \<noteq> 0x0A
    \<and> bytes_at (vmem s2) data (length rem') = rem' \<and> passed_over pat name (0 + length ?c = 1024 \<and> ?cnt \<noteq> 0) ?c rem' out
    \<and> (?cnt = 0 \<longrightarrow> rem' = [])"
  proof (rule grep_lines_runs [OF e1 went_console [OF s1(2)]])
    show "0 \<notin> set ?c" "8 \<notin> set ?c" using sub "1.prems"(9,10) by blast+
    show "bytes_at (vmem s1) (data + of_nat 0) (length ?c) = ?c" using s1(8) by simp
    show "0 + length ?c \<le> 1024" using len(2) by simp
    show "vmem s1 (data + of_nat 1024) \<noteq> 0x0A" using s1(7) "1.prems"(12) by simp
    show "0 = 0 \<and> 0 + length ?c = 1024 \<and> ?cnt \<noteq> 0 \<longrightarrow> 0x0A \<in> set ?c" using nl by simp
  qed
  then obtain s2 rem' out where s2:
    "grep_lines lo lit str fname (of_nat (length pat)) data ?cnt (int (length ?c)) 0 s1 = Some (s2, int (length rem'))"
    "went {} out s1 s2" "\<forall>a. \<not> within data 1025 a \<longrightarrow> vmem s2 a = vmem s1 a" "vmem s2 (data + of_nat 1024) \<noteq> 0x0A"
    "bytes_at (vmem s2) data (length rem') = rem'" "passed_over pat name (length ?c = 1024 \<and> ?cnt \<noteq> 0) ?c rem' out"
    "?cnt = 0 \<longrightarrow> rem' = []"
    unfolding add_0 int_ops(1) by blast
  have at2: "at_work fd f1 s2" by (rule went_at_work [OF s2(2) s1(3)]) simp_all
  have w2: "went {fd} out s s2" using went_trans [OF s1(2) went_mono [OF s2(2), of "{fd}"]] by simp
  have out2: "\<forall>a. \<not> within data 1025 a \<longrightarrow> vmem s2 a = vmem s a" using s2(3) s1(6) by simp
  have args: "data + of_int (int (length rem)) = data + of_nat (length rem)"
    "(of_int (1024 - int (length rem)) :: u32) = of_nat (1024 - length rem)"
    "int (length rem) + sint ?cnt = int (length ?c)"
    using rem(2) by (simp_all only: cnt(1) len(1) of_nat_add) (simp_all add: of_nat_diff)
  have step: "grep_reads lo lit str fname (of_nat (length pat)) data (of_nat fd) irqs k (int (length rem)) s
      = (if ?cnt = 0 then Some (s2, 0)
         else grep_reads lo lit str fname (of_nat (length pat)) data (of_nat fd) irqs (Suc k) (int (length rem')) s2)"
    by (subst grep_reads.simps) (simp only: args s1(1) Option.bind.bind_lunit prod.case cnt(3) if_False s2(1))
  have rest: "(length ?c = 1024 \<and> ?cnt \<noteq> 0) \<or> drop j rest = []"
  proof (cases "j = length rest")
    case False
    then have "j = 1024 - length rem" by (auto simp: j_def min_def split: if_splits)
    then show ?thesis using len(1) rem(2) cnt(2) by simp
  qed simp
  have p: "set rem' \<subseteq> set ?c" "0x0A \<notin> set rem'" "length rem' < 1024"
    and q: "(length ?c = 1024 \<and> ?cnt \<noteq> 0) \<or> r = [] \<longrightarrow> matches pat name (?c @ r) = out @ matches pat name (rem' @ r)
      \<and> ((\<forall>l \<in> set (split_lines (?c @ r)). length l < 1024) \<longrightarrow> (\<forall>l \<in> set (split_lines (rem' @ r)). length l < 1024))" for r
    using s2(6) unfolding passed_over_def by blast+
  note q = mp [OF q [of "drop j rest"] rest, unfolded cr]
  have P: "0x0A \<notin> set rem'" "length rem' < 1024" "set rem' \<subseteq> set (rem @ rest)"
    "matches pat name (rem @ rest) = out @ matches pat name (rem' @ drop j rest)"
    "\<forall>l \<in> set (split_lines (rem' @ drop j rest)). length l < 1024"
    by (rule p(2), rule p(3), rule subset_trans [OF p(1) sub], rule conjunct1 [OF q], rule mp [OF conjunct2 [OF q] "1.prems"(11)])
  show ?case
  proof (cases "?cnt = 0")
    case True
    then have "rem' @ drop j rest = []" using s2(7) rest by simp
    then have "matches pat name (rem @ rest) = out" using P(4) by (simp add: matches_def sublist_def) (use e in \<open>simp add: grep_env_def\<close>)
    then show ?thesis using step True w2 at2 s1(4) out2 s2(4) by auto
  next
    case False
    have sh: "length (drop j rest) < length rest" using False jn(2) cnt(2) by auto
    have bb: "boot_block s2 = boot_block s" using w2 by (simp add: went_def)
    have "\<exists>s' f'. grep_reads lo lit str fname (of_nat (length pat)) data (of_nat fd) irqs (Suc k) (int (length rem')) s2 = Some (s', 0)
      \<and> went {fd} (matches pat name (rem' @ drop j rest)) s2 s' \<and> at_work fd f' s' \<and> jump_table f' = jump_table f1
      \<and> (\<forall>a. \<not> within data 1025 a \<longrightarrow> vmem s' a = vmem s2 a) \<and> vmem s' (data + of_nat 1024) \<noteq> 0x0A"
    proof (rule "1.IH" [rule_format, OF sh])
      show "grep_env lo lit str pat fname name data s2" by (rule grep_env_cong [OF e out2 [rule_format]])
      show "on_console s2" by (rule went_console [OF w2])
      show "file_left (boot_block s2) data (vmem s2) f1 (drop j rest)"
        unfolding bb by (rule file_left_cong [OF s1(5) s2(3) [rule_format]])
      show "readFunc (jump_table f1) = Read_file" using rf s1(4) by simp
      show "0 \<notin> set (rem' @ drop j rest)" "8 \<notin> set (rem' @ drop j rest)"
        using P(3) "1.prems"(9,10) set_drop_subset [of j rest] by auto
      show "length l < 1024" if "l \<in> set (split_lines (rem' @ drop j rest))" for l using P(5) that by blast
    qed (use at2 s2(4,5) P(1,2) in simp_all)
    then obtain s' f' where r: "grep_reads lo lit str fname (of_nat (length pat)) data (of_nat fd) irqs (Suc k) (int (length rem')) s2 = Some (s', 0)"
      "went {fd} (matches pat name (rem' @ drop j rest)) s2 s'" "at_work fd f' s'" "jump_table f' = jump_table f1"
      "\<forall>a. \<not> within data 1025 a \<longrightarrow> vmem s' a = vmem s2 a" "vmem s' (data + of_nat 1024) \<noteq> 0x0A"
      by blast
    have w: "went {fd} (matches pat name (rem @ rest)) s s'" unfolding P(4) by (rule went_trans [OF w2 r(2)])
    have o: "\<forall>a. \<not> within data 1025 a \<longrightarrow> vmem s' a = vmem s a" using r(5) out2 by simp
    show ?thesis
      unfolding step if_not_P [OF False] using r(1,3,4,6) w o s1(4) by auto
  qed
qed

lemma close_once:
  assumes c: "on_console s" and at: "at_work fd f s" and cl: "\<And>s. call_close (closeFunc (jump_table f)) s = Some (s, 0)"
  obtains s' where "ece391_close lo (of_nat fd) s = Some (s', 0)" "on_console s'" "boot_block s' = boot_block s"
    "vmem s' = vmem s" "con_part s' = con_part s"
    "openIndexes (pcbs s' ! current_pid s') = (openIndexes (pcbs s ! current_pid s))[fd - 2 := empty]"
    "\<And>j. j \<noteq> fd \<Longrightarrow> fdArray (pcbs s' ! current_pid s') ! j = fdArray (pcbs s ! current_pid s) ! j"
proof -
  define u where "u = closed fd (cli s)"
  have ok: "procs_ok (cli s)" using c by (simp add: on_console_def)
  have F: "2 \<le> fd" "fd < 8" "fdArray (pcbs s ! current_pid s) ! fd = f" "flags f = full"
    using at by (simp_all add: at_work_def)
  note fd = small_fd [OF F(2)]
  have e: "ece391_close lo (of_nat fd) s = Some (sti u, 0)"
    using F fd unfolding close_call sys_close_eq [OF ok] by (simp add: cl u_def)
  have L: "current_pid s < 6" "length (pcbs s) = 6" using at_workD(6,7) [OF at] .
  have p: "current_pid u = current_pid s" "con_part u = con_part s" "boot_block u = boot_block s" "vmem u = vmem s"
    "freq_count u = freq_count s" "curr_freq u = curr_freq s"
    by (simp_all add: u_def closed_def Let_def) (simp_all add: current_pid_def cli_def)
  have q: "pcbs u ! current_pid s = (pcbs s ! current_pid s)\<lparr>openIndexes := (openIndexes (pcbs s ! current_pid s))[fd - 2 := empty],
      fdArray := (fdArray (pcbs s ! current_pid s))[fd := f\<lparr>flags := empty, file_position := 0\<rparr>]\<rparr>"
    using L F(3) by (simp add: u_def closed_def Let_def)
  have "procs_ok u" unfolding u_def by (rule closed_ok [OF ok F(1,2)])
  moreover have "con_part (sti u) = con_part s" using p(2) by simp
  moreover note con_part_eq(1) [OF this]
  ultimately have "on_console (sti u)" using c p q F(1) by (simp add: on_console_def)
  then show ?thesis using that [of "sti u"] e p q by simp
qed

lemma do_one_file_prints:
  assumes e: "grep_env lo lit str pat fname name data s" and c: "on_console s"
    and fs: "fs_ok (vmem s) (boot_block s)" "last_named (vmem s) (boot_block s) name k"
      "filetype (vmem s) (dentry_at (boot_block s) (of_nat k)) = 2"
      "ino = inode_num (vmem s) (dentry_at (boot_block s) (of_nat k))"
      "ino < num_inodes (vmem s) (boot_block s)" "inode_ok (vmem s) (boot_block s) ino"
      "text = file_contents (vmem s) (boot_block s) ino"
    and tx: "0 \<notin> set text" "8 \<notin> set text" "\<forall>l \<in> set (split_lines text). length l < 1024"
    and ap: "apart (lo_dentry lo) 64 (boot_block s) (fs_size (vmem s) (boot_block s))"
      "apart data 1025 (boot_block s) (fs_size (vmem s) (boot_block s))" "apart data 1025 (lo_dentry lo) 64"
    and top: "vmem s (data + of_nat 1024) \<noteq> 0x0A"
    and free: "first_index empty (openIndexes (pcbs s ! current_pid s)) = Some i"
  shows "\<exists>s'. do_one_file lo lit str fname data irqs s = Some (s', 0) \<and> went {i + 2} (matches pat name text) s s'
    \<and> (\<forall>a. \<not> within data 1025 a \<longrightarrow> \<not> within (lo_dentry lo) 64 a \<longrightarrow> vmem s' a = vmem s a)
    \<and> vmem s' (data + of_nat 1024) \<noteq> 0x0A"
proof -
  let ?bb = "boot_block s" and ?f = "fresh_fd (vmem s) (boot_block s) k"
  have E: "fname \<noteq> 0" "cstring (vmem s) fname name" "cstring (vmem s) str pat" "length pat < 2 ^ 31"
    using e by (simp_all add: grep_env_def text_in_def)
  obtain s1 where o: "ece391_open lo fname s = Some (s1, of_nat (i + 2))" "at_work (i + 2) ?f s1"
    "same_image (vmem s) (vmem s1) ?bb" "boot_block s1 = ?bb" "con_part s1 = con_part s" "on_console s1"
    "pcbs s1 ! current_pid s1 = opened i ?f (cli s)" "\<And>a. \<not> within (lo_dentry lo) 64 a \<Longrightarrow> vmem s1 a = vmem s a"
    by (rule open_once [OF c E(1) fs(1) E(2) ap(1) fs(2) free]) (rule that)
  have i: "i < 6" using o(2) by (simp add: at_work_def)
  have size: "fs_size (vmem s) ?bb \<le> 2 ^ 32" using fs(1) by (simp add: fs_ok_def)
  have f: "file_position ?f = 0" "inode_check ?f = ino" "flags ?f = full" "readFunc (jump_table ?f) = Read_file"
    using fs(3,4) by (simp_all add: fresh_fd_def driver_table_def)
  have "reading (vmem s) ?bb ?f" using f fs(5,6) by (simp add: reading_def)
  note R = same_image_reading [OF o(3) size this]
  have "remaining (vmem s) ?bb ?f = text" by (simp add: remaining_def f(1,2) fs(7))
  then have left: "file_left (boot_block s1) data (vmem s1) ?f text"
    unfolding o(4) file_left_def using R size ap(2) by simp
  have e1: "grep_env lo lit str pat fname name data s1" by (rule grep_env_cong [OF e o(8)])
  have "within data 1025 (data + of_nat 1024)" by (subst within_offset) simp_all
  then have "\<not> within (lo_dentry lo) 64 (data + of_nat 1024)" using ap(3) unfolding apart_def by blast
  then have top1: "vmem s1 (data + of_nat 1024) \<noteq> 0x0A" using top o(8) by simp
  have T: "0 \<notin> set ([] @ text)" "8 \<notin> set ([] @ text)" "\<forall>l \<in> set (split_lines ([] @ text)). length l < 1024"
    using tx by simp_all
  have B: "bytes_at (vmem s1) data (length []) = []" "length [] < 1024" "0x0A \<notin> set []" by simp_all
  obtain s2 f2 where g: "grep_reads lo lit str fname (of_nat (length pat)) data (of_nat (i + 2)) irqs 0 0 s1 = Some (s2, 0)"
    "went {i + 2} (matches pat name text) s1 s2" "at_work (i + 2) f2 s2" "jump_table f2 = jump_table ?f"
    "\<forall>a. \<not> within data 1025 a \<longrightarrow> vmem s2 a = vmem s1 a" "vmem s2 (data + of_nat 1024) \<noteq> 0x0A"
    using grep_reads_runs [OF e1 o(6,2) f(4) left B T top1, of irqs 0] by (auto simp: add_ac)
  have cl: "call_close (closeFunc (jump_table f2)) t = Some (t, 0)" for t
    unfolding g(4) by (rule fresh_fd_calls) (simp add: fs(3))
  obtain s3 where x: "ece391_close lo (of_nat (i + 2)) s2 = Some (s3, 0)" "on_console s3" "boot_block s3 = boot_block s2"
    "vmem s3 = vmem s2" "con_part s3 = con_part s2"
    "openIndexes (pcbs s3 ! current_pid s3) = (openIndexes (pcbs s2 ! current_pid s2))[i + 2 - 2 := empty]"
    "\<And>j. j \<noteq> i + 2 \<Longrightarrow> fdArray (pcbs s3 ! current_pid s3) ! j = fdArray (pcbs s2 ! current_pid s2) ! j"
    by (rule close_once [OF went_console [OF g(2)] g(3) cl]) (rule that)
  note F = first_index_Some [OF free]
  have P: "pcbs (cli s) ! current_pid (cli s) = pcbs s ! current_pid s" by simp
  have idx: "openIndexes (pcbs s3 ! current_pid s3) = openIndexes (pcbs s ! current_pid s)"
    using g(2) F list_update_id [of "openIndexes (pcbs s ! current_pid s)" i]
    by (simp add: x(6) went_def o(7) opened_def Let_def)
  have tab: "fdArray (pcbs s3 ! current_pid s3) ! j = fdArray (pcbs s ! current_pid s) ! j" if "j \<notin> {i + 2}" for j
    using that g(2) x(7) by (simp add: went_def o(7) opened_def Let_def)
  have w: "went {i + 2} (matches pat name text) s s3"
    using g(2) x(2,3) idx tab con_part_eq(2,3) [OF x(5)] con_part_eq(2,3) [OF o(5)] o(4) by (simp add: went_def)
  have "(of_nat (i + 2) :: i32) \<noteq> -1" using chunk_numbers(2) [of "i + 2"] i by simp
  then have "do_one_file lo lit str fname data irqs s = Some (s3, 0)"
    using o(1) g(1) x(1) by (simp add: do_one_file_def ece391_strlen_eq strlen_cstring [OF E(3)] del: of_nat_add)
  then show ?thesis using w g(5,6) o(8) x(4) by (intro exI [of _ s3]) simp
qed

section \<open>The directory\<close>

text \<open>The memory \<open>grep\<close> and the calls it makes write: its two buffers and the kernel's directory entry. The rest of what it uses
  lies apart from them.\<close>

definition scratch :: "locals \<Rightarrow> u32 \<Rightarrow> u32 \<Rightarrow> u32 \<Rightarrow> bool" where
  "scratch lo buf data a \<longleftrightarrow> within buf 33 a \<or> within data 1025 a \<or> within (lo_dentry lo) 64 a"

definition grep_layout :: "locals \<Rightarrow> (string \<Rightarrow> u32) \<Rightarrow> u32 \<Rightarrow> u32 \<Rightarrow> u32 \<Rightarrow> u32 \<Rightarrow> nat \<Rightarrow> bool" where
  "grep_layout lo lit search buf data bb n \<longleftrightarrow>
     sorted_wrt (\<lambda>(p, k) (q, l). apart p k q l)
       [(buf, 33), (data, 1025), (lo_dentry lo, 64), (search, 1024), (lit ''.'', 2), (lit '':'', 2), (lit [CHR 0x0A], 2), (bb, n)]
     \<and> 0 \<notin> {search, buf, data, lit ''.'', lit '':'', lit [CHR 0x0A]} \<and> unat data + 1025 \<le> 2 ^ 32"

lemma layout_apart:
  assumes "grep_layout lo lit search buf data bb n"
  shows "within search 1024 a \<Longrightarrow> \<not> scratch lo buf data a" "within (lit '':'') 2 a \<Longrightarrow> \<not> scratch lo buf data a"
    "within (lit [CHR 0x0A]) 2 a \<Longrightarrow> \<not> scratch lo buf data a" "within bb n a \<Longrightarrow> \<not> scratch lo buf data a"
    "within (lit ''.'') 2 a \<Longrightarrow> \<not> scratch lo buf data a"
    "apart buf 33 bb n" "apart data 1025 bb n" "apart (lo_dentry lo) 64 bb n" "apart search 1024 bb n"
    "apart buf 33 data 1025" "apart buf 33 (lo_dentry lo) 64" "apart data 1025 (lo_dentry lo) 64"
    "apart search 1024 (lit ''.'') 2" "apart search 1024 (lit '':'') 2" "apart search 1024 (lit [CHR 0x0A]) 2"
    "apart data 1025 search 1024"
  using assms by (auto simp: grep_layout_def scratch_def apart_def)

definition entry_text :: "mem \<Rightarrow> u32 \<Rightarrow> nat \<Rightarrow> u8 list" where
  "entry_text m bb j = file_contents m bb (inode_num m (dentry_at bb (of_nat j)))"

text \<open>An entry \<open>grep\<close> skips, or a regular file it can search: text without the characters 0 and 8 in lines of less than 1024.\<close>

definition searchable :: "mem \<Rightarrow> u32 \<Rightarrow> nat \<Rightarrow> bool" where
  "searchable m bb j \<longleftrightarrow> entry_name m bb j \<noteq> [] \<and> (hd (entry_name m bb j) \<noteq> 0x2E \<longrightarrow>
     8 \<notin> set (entry_name m bb j) \<and> last_named m bb (entry_name m bb j) j \<and> filetype m (dentry_at bb (of_nat j)) = 2
     \<and> inode_num m (dentry_at bb (of_nat j)) < num_inodes m bb \<and> inode_ok m bb (inode_num m (dentry_at bb (of_nat j)))
     \<and> 0 \<notin> set (entry_text m bb j) \<and> 8 \<notin> set (entry_text m bb j)
     \<and> (\<forall>l \<in> set (split_lines (entry_text m bb j)). length l < 1024))"

definition found :: "u8 list \<Rightarrow> mem \<Rightarrow> u32 \<Rightarrow> nat \<Rightarrow> u8 list" where
  "found pat m bb j = (if hd (entry_name m bb j) = 0x2E then [] else matches pat (entry_name m bb j) (entry_text m bb j))"

definition grep_inv :: "(string \<Rightarrow> u32) \<Rightarrow> u32 \<Rightarrow> u32 \<Rightarrow> u8 list \<Rightarrow> mem \<Rightarrow> u32 \<Rightarrow> nat \<Rightarrow> kernel \<Rightarrow> bool" where
  "grep_inv lit search data pat m bb i s \<longleftrightarrow> on_console s \<and> boot_block s = bb \<and> same_image m (vmem s) bb
     \<and> cstring (vmem s) search pat \<and> cstring (vmem s) (lit '':'') [0x3A] \<and> cstring (vmem s) (lit [CHR 0x0A]) [0x0A]
     \<and> vmem s (data + of_nat 1024) \<noteq> 0x0A \<and> first_index empty (openIndexes (pcbs s ! current_pid s)) = Some i"

lemma cstring_region:
  assumes "cstring m p cs" "length cs < n" "n \<le> 2 ^ 31" "\<And>a. within p n a \<Longrightarrow> m' a = m a"
  shows "cstring m' p cs"
  using assms(1)
proof (rule cstring_cong)
  fix i assume "i \<le> length cs"
  then have "within p n (p + of_nat i)" using assms(2,3) by (simp add: within_offset)
  then show "m' (p + of_nat i) = m (p + of_nat i)" by (rule assms(4))
qed

lemma grep_inv_step:
  assumes lay: "grep_layout lo lit search buf data bb (fs_size m bb)" and inv: "grep_inv lit search data pat m bb i s"
    and w: "went js cs s s'" and keep: "\<And>a. \<not> scratch lo buf data a \<Longrightarrow> vmem s' a = vmem s a"
    and top: "vmem s' (data + of_nat 1024) \<noteq> 0x0A" and short: "length pat < 128"
  shows "grep_inv lit search data pat m bb i s'"
proof -
  note A = layout_apart [OF lay] and I = inv [unfolded grep_inv_def]
  have "same_image m (vmem s') bb"
    using I A(4) keep unfolding same_image_def by simp
  moreover have "cstring (vmem s') search pat"
    by (rule cstring_region [of "vmem s" _ _ 1024]) (use I short A(1) keep in auto)
  moreover have "cstring (vmem s') (lit '':'') [0x3A]"
    by (rule cstring_region [of "vmem s" _ _ 2]) (use I A(2) keep in auto)
  moreover have "cstring (vmem s') (lit [CHR 0x0A]) [0x0A]"
    by (rule cstring_region [of "vmem s" _ _ 2]) (use I A(3) keep in auto)
  ultimately show ?thesis using w I top by (simp add: went_def grep_inv_def)
qed

lemma region_apart: "apart p n q k \<Longrightarrow> k' \<le> k \<Longrightarrow> apart p n q k'"
  unfolding apart_def using within_mono by blast

lemma apart_commute: "apart p n q k \<Longrightarrow> apart q k p n"
  unfolding apart_def by blast

lemma grep_inv_env:
  assumes lay: "grep_layout lo lit search buf data bb (fs_size m bb)" and inv: "grep_inv lit search data pat m bb i s"
    and pat: "pat \<noteq> []" "hd pat < 0x80" "length pat < 128"
    and n: "name \<noteq> []" "8 \<notin> set name" "length name \<le> 32" "cstring (vmem s) buf name"
  shows "grep_env lo lit search pat buf name data s"
proof -
  have S: "sorted_wrt (\<lambda>(p, k) (q, l). apart p k q l)
       [(buf, 33), (data, 1025), (lo_dentry lo, 64), (search, 1024), (lit ''.'', 2), (lit '':'', 2), (lit [CHR 0x0A], 2), (bb, fs_size m bb)]"
    "search \<noteq> 0" "buf \<noteq> 0" "data \<noteq> 0" "lit '':'' \<noteq> 0" "lit [CHR 0x0A] \<noteq> 0" "unat data + 1025 \<le> 2 ^ 32"
    using lay by (simp_all add: grep_layout_def)
  have "apart data 1025 buf 33" "apart (lo_dentry lo) 64 buf 33"
    using layout_apart(10,11) [OF lay] by (simp_all add: apart_commute)
  then have "text_in lo data s buf name"
    using n S(3) region_apart [of _ _ buf 33 "length name + 1"] by (simp add: text_in_def)
  moreover have "text_in lo data s search pat"
    using inv S pat(3) region_apart [of _ _ search 1024 "length pat + 1"] by (simp add: text_in_def grep_inv_def)
  moreover have l: "length [x :: u8] + 1 = 2" for x by simp
  moreover have "text_in lo data s (lit '':'') [0x3A]" "text_in lo data s (lit [CHR 0x0A]) [0x0A]"
    unfolding text_in_def l using inv S by (simp_all add: grep_inv_def)
  ultimately show ?thesis using S(4,7) pat(1,2) n(1,2) by (simp add: grep_env_def)
qed

lemma search_entry:
  assumes lay: "grep_layout lo lit search buf data bb (fs_size m bb)" and inv: "grep_inv lit search data pat m bb i s"
    and pat: "pat \<noteq> []" "hd pat < 0x80" "length pat < 128" and fs: "fs_ok m bb"
    and j: "j < entry_count m bb" "searchable m bb j" "hd (entry_name m bb j) \<noteq> 0x2E"
    and n: "cstring (vmem s) buf (entry_name m bb j)"
  shows "\<exists>s'. do_one_file lo lit search buf data irqs s = Some (s', 0) \<and> went {i + 2} (found pat m bb j) s s'
    \<and> (\<forall>a. \<not> scratch lo buf data a \<longrightarrow> vmem s' a = vmem s a) \<and> grep_inv lit search data pat m bb i s'"
proof -
  let ?n = "entry_name m bb j" and ?ino = "inode_num m (dentry_at bb (of_nat j))"
  note A = layout_apart [OF lay]
  have I: "on_console s" "boot_block s = bb" "same_image m (vmem s) bb" "vmem s (data + of_nat 1024) \<noteq> 0x0A"
    "first_index empty (openIndexes (pcbs s ! current_pid s)) = Some i"
    using inv by (simp_all add: grep_inv_def)
  have J: "?n \<noteq> []" "8 \<notin> set ?n" "last_named m bb ?n j" "filetype m (dentry_at bb (of_nat j)) = 2" "?ino < num_inodes m bb"
    "inode_ok m bb ?ino" "0 \<notin> set (entry_text m bb j)" "8 \<notin> set (entry_text m bb j)"
    "\<forall>l \<in> set (split_lines (entry_text m bb j)). length l < 1024"
    using j(2,3) unfolding searchable_def by blast+
  note F = image_file [OF I(3) fs J(5,6) entry_text_def [symmetric]] and D = same_image_dentry [OF I(3) fs]
    and C = same_image_fs_ok [OF I(3) fs]
  have last: "last_named (vmem s) (boot_block s) ?n j"
    using J(3) C(2) D(3) by (auto simp: last_named_def I(2))
  have e: "grep_env lo lit search pat buf ?n data s"
    by (rule grep_inv_env [OF lay inv pat J(1,2) entry_name_length n])
  obtain s' where s': "do_one_file lo lit search buf data irqs s = Some (s', 0)"
    "went {i + 2} (matches pat ?n (entry_text m bb j)) s s'"
    "\<forall>a. \<not> within data 1025 a \<longrightarrow> \<not> within (lo_dentry lo) 64 a \<longrightarrow> vmem s' a = vmem s a"
    "vmem s' (data + of_nat 1024) \<noteq> 0x0A"
    using do_one_file_prints [OF e I(1) _ last _ _ _ _ _ J(7-9) _ _ A(12) I(4,5), where ino = ?ino and irqs = irqs]
      F C D(1,2) [OF j(1)] J(4) A(7,8) by (auto simp: I(2))
  have keep: "\<forall>a. \<not> scratch lo buf data a \<longrightarrow> vmem s' a = vmem s a" using s'(3) by (simp add: scratch_def)
  have "grep_inv lit search data pat m bb i s'"
    by (rule grep_inv_step [OF lay inv s'(2) keep [rule_format] s'(4) pat(3)])
  then show ?thesis using s'(1,2) keep j(3) by (intro exI [of _ s']) (simp add: found_def)
qed

lemma grep_names_runs:
  assumes lay: "grep_layout lo lit search buf data bb (fs_size m bb)" and fs: "fs_ok m bb"
    and files: "\<forall>j < entry_count m bb. searchable m bb j" and pat: "pat \<noteq> []" "hd pat < 0x80" "length pat < 128"
    and other: "fd \<noteq> i + 2"
  shows "grep_inv lit search data pat m bb i s \<Longrightarrow> at_work fd f s \<Longrightarrow> readFunc (jump_table f) = Read_directory
    \<Longrightarrow> dir_reader_ok bb buf (vmem s) f \<Longrightarrow> unat (file_position f) = j \<Longrightarrow> entry_count m bb - j = n
    \<Longrightarrow> \<exists>s'. grep_names lo lit search buf data (of_nat fd) irqs k s = Some (s', 0)
      \<and> screen_at (put_terminal s) s' = fold emit (concat (map (found pat m bb) [j..<entry_count m bb])) (screen_at (put_terminal s) s)"
proof (induction n arbitrary: j s f k)
  case 0
  note inv = "0.prems"(1) and at = "0.prems"(2) and rf = "0.prems"(3) and dir = "0.prems"(4)
  have I: "boot_block s = bb" "same_image m (vmem s) bb" using inv by (simp_all add: grep_inv_def)
  have l: "listing (vmem s) bb f" using dir by (simp add: dir_reader_ok_def)
  have b: "buf \<noteq> 0" using lay by (simp add: grep_layout_def)
  have nil: "names_left (vmem s) bb f = []"
    using same_image_fs_ok(2) [OF I(2) fs] "0.prems"(5,6) by (simp add: names_left_def)
  have r: "read_directory (vmem s) (boot_block s) f buf 32 = Some (vmem s, f\<lparr>file_position := 0\<rparr>, 0)"
    unfolding I(1) by (rule read_directory_end [OF l nil])
  have f: "flags (f\<lparr>file_position := 0\<rparr>) = full" "jump_table (f\<lparr>file_position := 0\<rparr>) = jump_table f"
    using at by (simp_all add: at_work_def)
  obtain s' where s': "\<And>irqs. ece391_read lo (of_nat fd) buf 32 irqs s = Some (s', 0)" "con_part s' = con_part s"
    by (rule read_once [OF at b f disjI2 [OF conjI [OF rf r]]]) (rule that)
  show ?case
    using "0.prems"(6) con_part_eq(3) [OF s'(2)] by (subst grep_names.simps) (simp add: s'(1))
next
  case (Suc n)
  note inv = Suc.prems(1) and at = Suc.prems(2) and rf = Suc.prems(3) and dir = Suc.prems(4) and j = Suc.prems(5)
  note A = layout_apart [OF lay]
  have b: "buf \<noteq> 0" using lay by (simp add: grep_layout_def)
  have I: "on_console s" "boot_block s = bb" "same_image m (vmem s) bb" "vmem s (data + of_nat 1024) \<noteq> 0x0A"
    using inv by (simp_all add: grep_inv_def)
  note C = same_image_fs_ok [OF I(3) fs]
  have jc: "j < entry_count m bb" using Suc.prems(6) by simp
  note D = same_image_dentry(3) [OF I(3) fs jc]
  let ?n = "entry_name m bb j" and ?f = "f\<lparr>file_position := file_position f + 1\<rparr>"
  have S: "searchable m bb j" using files jc by blast
  then have ne: "?n \<noteq> []" by (simp add: searchable_def)
  have l: "listing (vmem s) bb f" "apart buf 32 bb (fs_size (vmem s) bb)" using dir by (simp_all add: dir_reader_ok_def)
  have p: "unat (file_position f) < entry_count (vmem s) bb" using jc j C(2) by simp
  have r: "read_directory (vmem s) (boot_block s) f buf 32 = Some (poke (vmem s) buf ?n, ?f, of_nat (length ?n))"
    using read_directory_next [OF l(1) p l(2), of 32] by (simp add: j D I(2))
  note dir1 = dir_reader_step(1) [OF dir p, unfolded j D]
  have f: "flags ?f = full" "jump_table ?f = jump_table f" using at by (simp_all add: at_work_def)
  obtain s1 where s1: "\<And>irqs. ece391_read lo (of_nat fd) buf 32 irqs s = Some (s1, of_nat (length ?n))"
    "at_work fd ?f s1" "vmem s1 = poke (vmem s) buf ?n" "boot_block s1 = boot_block s" "con_part s1 = con_part s"
    "on_console s \<Longrightarrow> on_console s1" "openIndexes (pcbs s1 ! current_pid s1) = openIndexes (pcbs s ! current_pid s)"
    "\<And>j. j \<noteq> fd \<Longrightarrow> fdArray (pcbs s1 ! current_pid s1) ! j = fdArray (pcbs s ! current_pid s) ! j"
    by (rule read_once [OF at b f disjI2 [OF conjI [OF rf r]]]) (rule that)
  have w1: "went {fd} [] s s1" by (rule went_con_part) (use s1 I(1) in auto)
  have nlen: "length ?n \<le> 32" by (rule entry_name_length)
  have buf_data: "\<not> within buf 33 (data + of_nat 1024)"
  proof -
    have "within data 1025 (data + of_nat 1024)" by (subst within_offset) simp_all
    then show ?thesis using A(10) unfolding apart_def by blast
  qed
  have out1: "vmem s1 a = vmem s a" if "\<not> within buf 33 a" for a
    unfolding s1(3) by (rule poke_outside [OF _ that]) (use nlen in simp)
  have keep1: "\<And>a. \<not> scratch lo buf data a \<Longrightarrow> vmem s1 a = vmem s a" by (rule out1) (simp add: scratch_def)
  have inv1: "grep_inv lit search data pat m bb i s1"
    by (rule grep_inv_step [OF lay inv w1 keep1 _ pat(3)]) (use out1 [OF buf_data] I(4) in simp_all)
  have u: "unat (file_position ?f) = Suc j"
  proof -
    have "unat (file_position f + 1) = Suc (unat (file_position f))"
      using p C(1) by (intro unat_plus_one)
        (auto simp: fs_ok_def entry_count_def unsigned_minus_1_eq_mask mask_eq_exp_minus_1)
    then show ?thesis by (simp add: j)
  qed
  have left: "entry_count m bb - Suc j = n" using Suc.prems(6) by simp
  have rf1: "readFunc (jump_table ?f) = Read_directory" using rf by simp
  have d1: "dir_reader_ok bb buf (vmem s1) ?f" using dir1 by (simp only: s1(3))
  have con1: "put_terminal s1 = put_terminal s" "screen_at t s1 = screen_at t s" for t using con_part_eq(2,3) [OF s1(5)] by simp_all
  have upt: "[j..<entry_count m bb] = j # [Suc j..<entry_count m bb]" using jc by (rule upt_conv_Cons)
  have cnt: "(of_nat (length ?n) :: i32) \<noteq> 0" "(of_nat (length ?n) :: i32) \<noteq> -1"
    using chunk_numbers [of "length ?n"] ne nlen by simp_all
  have "vmem s1 (buf + of_nat 0) = ?n ! 0" unfolding s1(3) by (rule poke_at) (use ne nlen in simp_all)
  then have h: "vmem s1 buf = hd ?n" using ne by (simp add: hd_conv_nth)
  show ?case
  proof (cases "hd ?n = 0x2E")
    case True
    obtain s' where "grep_names lo lit search buf data (of_nat fd) irqs (Suc k) s1 = Some (s', 0)"
      "screen_at (put_terminal s1) s' = fold emit (concat (map (found pat m bb) [Suc j..<entry_count m bb])) (screen_at (put_terminal s1) s1)"
      using Suc.IH [OF inv1 s1(2) rf1 d1 u left] by blast
    then show ?thesis
      using True by (subst grep_names.simps) (simp add: s1(1) cnt h upt found_def con1)
  next
    case False
    define s2 where "s2 = store (buf + of_nat (length ?n)) 0 s1"
    have v2: "vmem s2 = poke (vmem s) buf (?n @ [0])" by (simp add: s2_def store_frame s1(3) poke_snoc)
    have w2: "went {} [] s1 s2" unfolding s2_def by (rule went_store [OF went_console [OF w1]])
    have out2: "vmem s2 a = vmem s1 a" if "\<not> within buf 33 a" for a
      using that nlen unfolding out1 [OF that] v2 by (intro poke_outside) simp_all
    have keep2: "\<And>a. \<not> scratch lo buf data a \<Longrightarrow> vmem s2 a = vmem s1 a" by (rule out2) (simp add: scratch_def)
    have inv2: "grep_inv lit search data pat m bb i s2"
      by (rule grep_inv_step [OF lay inv1 w2 keep2 _ pat(3)]) (use out2 [OF buf_data] inv1 in \<open>simp_all add: grep_inv_def\<close>)
    have "0 \<notin> set ?n" using cut_nonzero by (simp add: entry_name_def)
    then have n: "cstring (vmem s2) buf ?n" unfolding v2 by (rule cstring_poke) (use nlen in simp)
    obtain s3 where s3: "do_one_file lo lit search buf data (irqs k) s2 = Some (s3, 0)" "went {i + 2} (found pat m bb j) s2 s3"
      "\<forall>a. \<not> scratch lo buf data a \<longrightarrow> vmem s3 a = vmem s2 a" "grep_inv lit search data pat m bb i s3"
      using search_entry [OF lay inv2 pat fs jc S False n] by blast
    have at3: "at_work fd ?f s3"
      using went_at_work [OF s3(2) went_at_work [OF w2 s1(2)]] other by simp
    have im: "same_image (vmem s1) (vmem s3) bb"
      using s3(3) keep2 A(4) same_image_fs_ok(3) [OF _ fs, of "vmem s1"] inv1 unfolding same_image_def grep_inv_def by auto
    obtain s' where L: "grep_names lo lit search buf data (of_nat fd) irqs (Suc k) s3 = Some (s', 0)"
      "screen_at (put_terminal s3) s' = fold emit (concat (map (found pat m bb) [Suc j..<entry_count m bb])) (screen_at (put_terminal s3) s3)"
      using Suc.IH [OF s3(4) at3 rf1 same_image_dir(1) [OF im d1] u left] by blast
    have "grep_names lo lit search buf data (of_nat fd) irqs k s = Some (s', 0)"
      using L(1) s3(1) False by (subst grep_names.simps) (simp add: s1(1) cnt h s2_def [symmetric])
    moreover have "put_terminal s3 = put_terminal s"
      "screen_at (put_terminal s) s3 = fold emit (found pat m bb j) (screen_at (put_terminal s) s)"
      using s3(2) w2 w1 by (simp_all add: went_def)
    ultimately show ?thesis using L(2) by (simp add: upt)
  qed
qed

section \<open>Properties\<close>

definition grep_ready :: "locals \<Rightarrow> (string \<Rightarrow> u32) \<Rightarrow> u32 \<Rightarrow> u32 \<Rightarrow> u32 \<Rightarrow> u8 list \<Rightarrow> kernel \<Rightarrow> bool" where
  "grep_ready lo lit search buf data pat s \<longleftrightarrow> on_console s
     \<and> grep_layout lo lit search buf data (boot_block s) (fs_size (vmem s) (boot_block s))
     \<and> openIndexes (pcbs s ! current_pid s) = replicate 6 empty
     \<and> fs_ok (vmem s) (boot_block s) \<and> (\<forall>j < entry_count (vmem s) (boot_block s). searchable (vmem s) (boot_block s) j)
     \<and> (\<exists>k. last_named (vmem s) (boot_block s) [0x2E] k \<and> filetype (vmem s) (dentry_at (boot_block s) (of_nat k)) = 1)
     \<and> cstring (vmem s) (lit ''.'') [0x2E] \<and> cstring (vmem s) (lit '':'') [0x3A] \<and> cstring (vmem s) (lit [CHR 0x0A]) [0x0A]
     \<and> vmem s (data + of_nat 1024) \<noteq> 0x0A
     \<and> pat \<noteq> [] \<and> 0 \<notin> set pat \<and> hd pat < 0x80 \<and> length pat < 128 \<and> args s = pat @ replicate (128 - length pat) 0"

lemma grep_prints:
  assumes ready: "grep_ready lo lit search buf data pat s"
  shows "\<exists>s'. grep_main lo lit search buf data irqs s = Some (s', 0) \<and> screen_at (put_terminal s) s'
    = fold emit (concat (map (found pat (vmem s) (boot_block s)) [0..<entry_count (vmem s) (boot_block s)]))
        (screen_at (put_terminal s) s)"
proof -
  let ?bb = "boot_block s" and ?m = "vmem s"
  have R: "on_console s" "grep_layout lo lit search buf data ?bb (fs_size ?m ?bb)"
    "openIndexes (pcbs s ! current_pid s) = replicate 6 empty" "fs_ok ?m ?bb" "\<forall>j < entry_count ?m ?bb. searchable ?m ?bb j"
    "\<exists>k. last_named ?m ?bb [0x2E] k \<and> filetype ?m (dentry_at ?bb (of_nat k)) = 1"
    "cstring ?m (lit ''.'') [0x2E]" "cstring ?m (lit '':'') [0x3A]" "cstring ?m (lit [CHR 0x0A]) [0x0A]"
    "?m (data + of_nat 1024) \<noteq> 0x0A"
    and pat: "pat \<noteq> []" "0 \<notin> set pat" "hd pat < 0x80" "length pat < 128" "args s = pat @ replicate (128 - length pat) 0"
    using ready unfolding grep_ready_def by blast+
  note A = layout_apart [OF R(2)]
  obtain k where k: "last_named ?m ?bb [0x2E] k" "filetype ?m (dentry_at ?bb (of_nat k)) = 1" using R(6) by blast
  have nz: "search \<noteq> 0" "lit ''.'' \<noteq> 0" using R(2) by (simp_all add: grep_layout_def)
  obtain s1 where g: "ece391_getargs lo search 1024 s = Some (s1, 0)" "cstring (vmem s1) search pat"
    "\<And>x. \<not> within search 1024 x \<Longrightarrow> vmem s1 x = vmem s x" "on_console s1" "boot_block s1 = ?bb"
    "pcbs s1 = pcbs s" "current_pid s1 = current_pid s" "con_part s1 = con_part s"
    by (rule getargs_once [OF R(1) nz(1) pat(2,1,4,5)]) (rule that)
  have i1: "same_image ?m (vmem s1) ?bb" by (rule same_image_outside [OF g(3) A(9)])
  note F = same_image_fs_ok [OF i1 R(4)] and E = same_image_dentry [OF i1 R(4)]
  have c1: "cstring (vmem s1) (lit ''.'') [0x2E]" "cstring (vmem s1) (lit '':'') [0x3A]" "cstring (vmem s1) (lit [CHR 0x0A]) [0x0A]"
    by (rule cstring_region [of ?m _ _ 2]; use R(7-9) A(13-15) g(3) in \<open>auto simp: apart_def\<close>)+
  have lt: "k < entry_count ?m ?bb" using k(1) by (simp add: last_named_def)
  have o1: "fs_ok (vmem s1) (boot_block s1)" "apart (lo_dentry lo) 64 (boot_block s1) (fs_size (vmem s1) (boot_block s1))"
    "last_named (vmem s1) (boot_block s1) [0x2E] k"
    "first_index empty (openIndexes (pcbs s1 ! current_pid s1)) = Some 0"
    using F A(8) k(1) E(3) R(3) by (auto simp: g(5-7) last_named_def numeral_eq_Suc)
  let ?f = "fresh_fd (vmem s1) (boot_block s1) k"
  obtain s2 where o: "ece391_open lo (lit ''.'') s1 = Some (s2, of_nat (0 + 2))" "at_work (0 + 2) ?f s2"
    "same_image (vmem s1) (vmem s2) (boot_block s1)" "boot_block s2 = boot_block s1" "con_part s2 = con_part s1" "on_console s2"
    "pcbs s2 ! current_pid s2 = opened 0 ?f (cli s1)" "\<And>a. \<not> within (lo_dentry lo) 64 a \<Longrightarrow> vmem s2 a = vmem s1 a"
    by (rule open_once [OF g(4) nz(2) o1(1) c1(1) o1(2-4)]) (rule that)
  have keep: "\<And>a. \<not> scratch lo buf data a \<Longrightarrow> vmem s2 a = vmem s1 a" by (rule o(8)) (simp add: scratch_def)
  have i2: "same_image ?m (vmem s2) ?bb"
    by (rule same_image_trans [OF i1 _ F(3)]) (use o(3) g(5) in simp)
  have "within data 1025 (data + of_nat 1024)" by (subst within_offset) simp_all
  then have "\<not> within search 1024 (data + of_nat 1024)" "\<not> within (lo_dentry lo) 64 (data + of_nat 1024)"
    using A(12,16) unfolding apart_def by blast+
  then have top: "vmem s2 (data + of_nat 1024) \<noteq> 0x0A" using R(10) g(3) o(8) by simp
  have next1: "first_index empty (openIndexes (pcbs s2 ! current_pid s2)) = Some 1"
    by (simp add: o(7) opened_def Let_def g(6,7) R(3) numeral_eq_Suc)
  have "cstring (vmem s2) search pat"
    by (rule cstring_region [of "vmem s1" _ _ 1024]) (use g(2) pat(4) A(1) keep in auto)
  moreover have "cstring (vmem s2) (lit '':'') [0x3A]"
    by (rule cstring_region [of "vmem s1" _ _ 2]) (use c1 A(2) keep in auto)
  moreover have "cstring (vmem s2) (lit [CHR 0x0A]) [0x0A]"
    by (rule cstring_region [of "vmem s1" _ _ 2]) (use c1 A(3) keep in auto)
  ultimately have inv: "grep_inv lit search data pat ?m ?bb 1 s2"
    using o(4,6) g(5) i2 top next1 by (simp add: grep_inv_def)
  note C = same_image_fs_ok [OF i2 R(4)] and D = same_image_dentry(3) [OF i2 R(4)]
  have f: "file_position ?f = 0" "flags ?f = full" "readFunc (jump_table ?f) = Read_directory"
    using k(2) E(1) [OF lt] by (simp_all add: fresh_fd_def driver_table_def g(5))
  have dir: "dir_reader_ok ?bb buf (vmem s2) ?f"
    using C D f A(6) apart_mono [of buf 33 ?bb _ 32] R(5) by (simp add: dir_reader_ok_def listing_def searchable_def)
  obtain s' where L: "grep_names lo lit search buf data (of_nat (0 + 2)) irqs 0 s2 = Some (s', 0)"
    "screen_at (put_terminal s2) s' = fold emit (concat (map (found pat ?m ?bb) [0..<entry_count ?m ?bb])) (screen_at (put_terminal s2) s2)"
    using grep_names_runs [OF R(2,4,5) pat(1,3,4) _ inv o(2) f(3) dir, of 0 _ irqs 0] f(1) by auto
  have "con_part s2 = con_part s" using o(5) g(8) by simp
  note con_part_eq(2,3) [OF this]
  moreover have "grep_main lo lit search buf data irqs s = Some (s', 0)"
    using g(1) o(1) L(1) by (simp add: grep_main_def)
  ultimately show ?thesis using L(2) by simp
qed

text \<open>C15: \<open>grep\<close>, run with a pattern as its argument on a process with no open files, terminates with status 0 after it has
  printed, for every regular file of the directory in turn, its lines that contain the pattern, each behind the name of the file and
  a colon. Lines cut by the 1024-character buffer are put together again. The hypotheses are a text without the
  characters 0 and 8 in lines of less than 1024 characters, an ASCII character at the start of the pattern, and no
  new line in the last byte of the buffer, which the program does not initialise.\<close>

theorem grep_finds_lines:
  assumes "grep_ready lo lit search buf data pat s"
  shows "\<exists>s'. grep_main lo lit search buf data irqs s = Some (s', 0) \<and> screen_at (put_terminal s) s'
    = fold emit (concat (map (found pat (vmem s) (boot_block s)) [0..<entry_count (vmem s) (boot_block s)]))
        (screen_at (put_terminal s) s)"
  by (rule grep_prints [OF assms])

section \<open>Searching the small image\<close>

definition grep_lit :: "string \<Rightarrow> u32" where
  "grep_lit t = (if t = ''.'' then 0x610000 else if t = '':'' then 0x610010 else 0x610020)"

definition grep_mem :: mem where
  "grep_mem = demo(0x610000 := 0x2E, 0x610010 := 0x3A, 0x610020 := 0x0A)"

definition searching :: kernel where
  "searching = demo_user\<lparr>lowmem := grep_mem, args := [101] @ replicate 127 0\<rparr>"

lemma grep_mem_demo: "\<not> within 0x610000 64 a \<Longrightarrow> grep_mem a = demo a"
  by (auto simp: grep_mem_def within_def)

lemma searching_image:
  "vmem searching = grep_mem" "fs_ok grep_mem demo_bb" "entry_count grep_mem demo_bb = 2" "fs_size grep_mem demo_bb = 16384"
  "entry_name grep_mem demo_bb 0 = [46]" "entry_name grep_mem demo_bb (Suc 0) = [104, 105]"
  "filetype grep_mem (dentry_at demo_bb 0) = 1" "filetype grep_mem (dentry_at demo_bb 1) = 2"
  "inode_num grep_mem (dentry_at demo_bb 1) = 1" "1 < num_inodes grep_mem demo_bb" "inode_ok grep_mem demo_bb 1"
  "file_contents grep_mem demo_bb 1 = [104, 101, 121]"
proof -
  show v: "vmem searching = grep_mem"
  proof
    fix a
    have "in_user_page a \<Longrightarrow> \<not> within 0x610000 64 a"
      by (simp add: in_user_page_def USR_MEM_VIRT_ADDR_def MB4_def within_def unat_sub_if_size word_size word_le_nat_alt
          word_less_nat_alt split: if_splits)
    then have "in_user_page a \<Longrightarrow> grep_mem a = vmem demo_user a" by (simp add: grep_mem_demo demo_user_vmem)
    then show "vmem searching a = grep_mem a" by (simp add: searching_def vmem_def demo_user_def)
  qed
  have ap: "apart 0x610000 64 demo_bb (fs_size demo demo_bb)"
    unfolding demo_header by (rule apartI) (simp_all add: demo_bb_def)
  have im: "same_image demo grep_mem demo_bb" by (rule same_image_outside [OF grep_mem_demo ap])
  note F = same_image_fs_ok [OF im demo_fs_ok] and E = same_image_dentry [OF im demo_fs_ok]
  have U: "file_contents demo demo_bb 1 = [104, 101, 121]" "inode_ok demo demo_bb 1" "1 < num_inodes demo demo_bb"
    "filetype demo (dentry_at demo_bb 1) = 2" "inode_num demo (dentry_at demo_bb 1) = 1" "filetype demo (dentry_at demo_bb 0) = 1"
    using demo_user_image by (simp_all add: demo_user_vmem)
  note G = image_file [OF im demo_fs_ok U(3,2,1)]
  show "fs_ok grep_mem demo_bb" "entry_count grep_mem demo_bb = 2" "fs_size grep_mem demo_bb = 16384"
    using F demo_count demo_header by simp_all
  show "entry_name grep_mem demo_bb 0 = [46]" "entry_name grep_mem demo_bb (Suc 0) = [104, 105]"
    using E(3) [of 0] E(3) [of 1] demo_names demo_count by simp_all
  show "filetype grep_mem (dentry_at demo_bb 0) = 1" "filetype grep_mem (dentry_at demo_bb 1) = 2"
    "inode_num grep_mem (dentry_at demo_bb 1) = 1"
    using E(1) [of 0] E(1,2) [of 1] U demo_count by simp_all
  show "1 < num_inodes grep_mem demo_bb" "inode_ok grep_mem demo_bb 1" "file_contents grep_mem demo_bb 1 = [104, 101, 121]"
    using G by simp_all
qed

lemma searching_layout: "grep_layout demo_locals grep_lit 0x620000 0x600000 0x630000 demo_bb 16384"
  unfolding grep_layout_def by (simp add: demo_locals_def grep_lit_def demo_bb_def) (intro conjI apartI; simp)

lemma searching_ready: "grep_ready demo_locals grep_lit 0x620000 0x600000 0x630000 [101] searching"
proof -
  have b: "boot_block searching = demo_bb" "current_pid searching = 0" "pcbs searching ! 0 = init_pcb 0 0 empty_PCB"
    "args searching = [101] @ replicate 127 0"
    using demo_user_simps by (simp_all add: searching_def current_pid_def)
  have c: "on_console searching"
    using demo_user_console by (simp add: searching_def on_console_def procs_ok_def console_ok_def current_pid_def)
  note V = searching_image
  have files: "\<forall>j < entry_count grep_mem demo_bb. searchable grep_mem demo_bb j"
    using V by (simp add: less_2_nat searchable_def entry_text_def last_named_def)
  have "last_named grep_mem demo_bb [0x2E] 0" using V by (auto simp: last_named_def less_2_nat)
  then have d: "\<exists>k. last_named grep_mem demo_bb [0x2E] k \<and> filetype grep_mem (dentry_at demo_bb (of_nat k)) = 1"
    using V(7) by (intro exI [of _ 0]) simp
  have t: "cstring grep_mem (grep_lit ''.'') [0x2E]" "cstring grep_mem (grep_lit '':'') [0x3A]"
    "cstring grep_mem (grep_lit [CHR 0x0A]) [0x0A]"
    by (simp_all add: cstring_def bytes_at_def grep_mem_def grep_lit_def demo_def)
  have top: "grep_mem (0x630000 + of_nat 1024) \<noteq> 0x0A" by (simp add: grep_mem_def demo_def)
  show ?thesis
    unfolding grep_ready_def b V(1,4)
    using c searching_layout V(2) files d t top by (simp add: init_pcb_def)
qed

theorem grep_finds_lines_witness:
  "\<exists>s'. grep_main demo_locals grep_lit 0x620000 0x600000 0x630000 (\<lambda>_ _. []) searching = Some (s', 0)
     \<and> screen_at 0 s' = fold emit [104, 105, 58, 104, 101, 121, 10] (screen_at 0 ready_state)"
proof -
  have "con_part searching = con_part demo_user" by (simp add: searching_def con_part_def)
  note k = con_part_eq(2,3) [OF this]
  note V = searching_image
  have b: "boot_block searching = demo_bb" by (simp add: searching_def)
  have "[0..<2] = [0, Suc 0]" by (simp add: upt_rec)
  then have f: "concat (map (found [101] grep_mem demo_bb) [0..<2]) = [104, 105, 58, 104, 101, 121, 10]"
    using V by (simp add: found_def matches_def entry_text_def sublist_Cons_right)
  show ?thesis
    using grep_finds_lines [OF searching_ready, of "\<lambda>_ _. []"] unfolding V(1) b V(3) f k by simp
qed

end
