(* ===== verification/Spec2Isabelle.thy ===== *)
theory Spec2Isabelle
  imports FileProps I8259 ConsoleProps Terminal Rtc DescriptorProps ProcessWitness LibProps UserProps SyserrProps ShellProps GrepProps
begin

text \<open>
  A model of the operating system kernel in \<open>student-distrib/\<close> and of the programs in \<open>syscalls/\<close>
  that run on it, with the properties that make them correct.

  \<^bold>\<open>The program.\<close> The kernel runs up to six user programs on an x86 processor. It has three terminals with a shell
  each. \<open>entry\<close> (\<open>kernel.c\<close>) initialises the components and starts the first shell with \<open>execute\<close>; the
  handler of the timer (\<open>scheduling.c\<close>) starts the other two in its first calls, and from then on
  gives the processor to the terminals in turn. The handler of the keyboard (\<open>keyboard.c\<close>) collects a line for
  the terminal on display and echoes it; Enter releases the process that waits for it in \<open>terminal_read\<close>
  (\<open>terminal.c\<close>). Programs call the kernel with \<open>int $0x80\<close> (\<open>syscall_helper.S\<close>, \<open>systemCall.c\<close>): read and
  write go through the jump table of a descriptor to the drivers of the terminal, the real-time clock
  (\<open>rtc.c\<close>) and the read-only file system (\<open>file_systems.c\<close>); \<open>execute\<close> loads a program into a 4 MB frame of its own
  and enters it, \<open>halt\<close> returns to the \<open>execute\<close> of the parent. An exception (\<open>exception_handlers.c\<close>) halts
  the program that raised it. All output ends in \<open>putc\<close> (\<open>lib.c\<close>), which writes the video
  memory the page tables (\<open>paging.c\<close>) map, or the copy of a terminal that is not on display.

  \<^bold>\<open>The model.\<close> One record, \<open>kernel\<close> of theory \<open>KernelState\<close>, holds the global variables of the C files, the
  process control blocks, the tables of the processor, physical memory, the trace of the port writes and the
  interrupt flag. A function of the code is a definition with the name it has there,
  on that record or on the part of it that the function uses. Memory is a function from 32-bit
  addresses to bytes (\<open>mem\<close>); the structures of the file system are loads at their offsets in it. \<open>vmem s\<close> is the memory
  as the running process sees it, \<open>set_vmem\<close> stores through the same mapping. \<open>None\<close> is a run
  that does not return normally: an access outside a C array, a page fault of the kernel, a call
  through an empty jump table, a loop that never ends, or a wait for interrupts that do not come.
  Functions whose assembly leaves the C code (\<open>execute\<close>, \<open>halt\<close>, the timer handler) return an
  \<open>outcome\<close>. Addresses the linker or the stack layout chooses (page tables, string literals, local variables
  whose address is taken) are arguments, and so is what \<open>inb\<close> reads. The interrupts that arrive during a busy wait are a list
  of handlers that is run until the condition holds (\<open>wait_until\<close>).

  \<^bold>\<open>The theories\<close>, from the bottom up:

  \<^item> \<open>Prelude\<close>: words, byte memory, C arrays with bounds, loops over lists, and the lemma collections.
  \<^item> \<open>LibMem\<close>, \<open>LibString\<close>, \<open>LibProps\<close>: the block and string routines of \<open>lib.c\<close>, instruction by instruction
    where the code is assembly, and their equivalence with loops over bytes; \<open>itoa\<close> and the reading of numerals.
  \<^item> \<open>FileSystem\<close>, \<open>FileAccess\<close>, \<open>FileProps\<close>: \<open>file_systems.c\<close>. \<open>fs_ok\<close> is a well-formed image; a
    name is looked up, a file or directory read until the end gives its contents. The contract of the two readers is the locale \<open>sequential_reader\<close>.
  \<^item> \<open>KernelState\<close>: the state. \<open>I8259\<close>: \<open>i8259.c\<close>, with the locale \<open>port_op\<close> of operations that only write ports.
  \<^item> \<open>Paging\<close>: \<open>paging.c\<close> and the bit fields of \<open>paging.h\<close>, the walk of the processor, and what is
    reachable in user mode.
  \<^item> \<open>Console\<close>, \<open>ConsoleProps\<close>: \<open>putc\<close>, \<open>puts\<close>, \<open>printf\<close>, \<open>clear\<close>, and their refinement of
    the terminal \<open>emit\<close>.
  \<^item> \<open>Keyboard\<close>, \<open>KeyboardLine\<close>, \<open>LineEditor\<close>: \<open>keyboard.c\<close>, and the simulation by a line editor whose
    state is the typed line. The driver relies on the console through the locale \<open>console_op\<close>.
  \<^item> \<open>Terminal\<close>, \<open>Rtc\<close>: \<open>terminal.c\<close> and \<open>rtc.c\<close>, with the invariant of the virtual clocks.
  \<^item> \<open>Syscalls\<close>, \<open>Descriptors\<close>, \<open>DescriptorProps\<close>: the system calls on descriptors. Each driver meets the
    contract \<open>driver\<close>; the descriptor tables stay consistent.
  \<^item> \<open>Process\<close>, \<open>CommandLine\<close>, \<open>Loader\<close>, \<open>Stacks\<close>, \<open>Execute\<close>, \<open>Halt\<close>, \<open>ProcessProps\<close>: \<open>execute\<close> and
    \<open>halt\<close>. Their specification is \<open>stacks_ok\<close>: the processes are three stacks, one per terminal; \<open>execute\<close> pushes, \<open>halt\<close> pops.
  \<^item> \<open>Quiet\<close>, \<open>Runs\<close>, \<open>ExecuteLoads\<close>: the device handlers leave the processes alone (locale \<open>quiet_op\<close>); what a program does
    between its \<open>execute\<close> and its \<open>halt\<close>; which program \<open>execute\<close> starts.
  \<^item> \<open>Scheduling\<close>, \<open>Ticks\<close>, \<open>KernelRuns\<close>, \<open>Isolation\<close>, \<open>RoundRobin\<close>, \<open>Boot\<close>: \<open>scheduling.c\<close>; the invariant of all
    interleavings of system calls and interrupts; no process changes the memory of another (locale \<open>memory_call\<close>); the turns of the
    terminals; the first three ticks.
  \<^item> \<open>Interrupts\<close>, \<open>InterruptProps\<close>: the descriptor table, the exceptions and the software interrupts.
  \<^item> \<open>Entry\<close>, \<open>EntryProps\<close>: \<open>kernel.c\<close> from the segment descriptors on.
  \<^item> \<open>UserLib\<close>, \<open>UserProps\<close>, \<open>Syserr\<close>, \<open>SyserrProps\<close>, \<open>ShellProps\<close>, \<open>Tools\<close>, \<open>GrepProps\<close>: the programs, their support
    library and the entry of their system calls, and what they do when run on the kernel: \<open>cat\<close> shows a file, \<open>ls\<close> lists the
    directory, \<open>grep\<close> prints the lines that contain its pattern, the test program of the error behaviour passes, the shell
    runs the command that is typed.
  \<^item> \<open>ProcessDemo\<close>, \<open>ProcessWitness\<close>: a kernel with three shells and a program on its disk, on which the
    properties of processes are applied.

  \<^bold>\<open>Bounds.\<close> Six process numbers, eight descriptors, three terminals, lines of 128 characters and 80 by 25 cells
  are those of the code. Loops with a bound are \<open>function\<close> with a measure or folds over
  their index, loops without one are \<open>partial_function (option)\<close>, and the properties that rest on them state the value \<open>Some\<close>.
  Only \<open>drain\<close>, the reading of a descriptor until it returns zero, takes fuel: one more than the number of bytes of
  the file, or of entries of the directory, is enough, as every call that does not return zero delivers at least one.
  File sizes and addresses are 32-bit words that wrap; where a property needs that a range does not wrap or that two
  ranges do not overlap (\<open>apart\<close>, \<open>fs_ok\<close>), it says so.

  \<^bold>\<open>Not modelled\<close>, and why:
  \<^item> the beginning of \<open>entry\<close>, which prints what the boot loader passed with paging still off: it has no effect on
    the rest but the address of the file system, which is an argument;
  \<^item> \<open>boot.S\<close>, the static tables of \<open>x86_desc.S\<close>, and the saving of registers in \<open>assembly_handler.S\<close>: the model has no
    register file, only the registers the C code and its inline assembly read;
  \<^item> \<open>page_enable.S\<close>: the model has no TLB, a change of a table takes effect at once, which the code obtains by reloading CR3;
  \<^item> \<open>tests.c\<close>, whose call is commented out; \<open>debug.h\<close>, \<open>types.h\<close> and \<open>multiboot.h\<close>, which only declare macros and types;
  \<^item> \<open>fish\<close>, a demonstration in assembly, and \<open>ece391emulate.c\<close>, an emulation of the system calls under Linux.

  Within the modelled part, an interrupt handler runs at once and as a whole: handlers do not interrupt each other,
  and interrupts reach kernel code only in the waits of \<open>terminal_read\<close> and \<open>rtc_read\<close>.
\<close>

end
